(* ===== verification/Prelude.thy ===== *)
theory Prelude
  imports Main "HOL-Library.Word" "HOL-Library.Char_ord" "HOL-Library.List_Lexorder"
    "HOL-Library.Sublist"
begin

text \<open>
  Shared vocabulary of the development.  Bytes are \<open>char\<close>, a \<open>std::string\<close> or a
  \<open>char\<close> buffer is a \<open>string\<close>; \<open>srs_error_t\<close> results are values of the sum type
  \<open>'a srs\<close>, whose left injection carries the error code.  The theory holds the part of the C++
  standard library that the sources use: \<open>std::string::find\<close> and \<open>rfind\<close>,
  \<open>atoi\<close> on the digits it reads, and \<open>std::map\<close> as an association list with
  strictly increasing keys, so that iteration order is the order of the list.  The laws of the map
  are the locale \<open>std_map\<close>; what its clients need (the effect of a sequence of
  insertions) is proved inside it.
\<close>

section \<open>Collections and types\<close>

named_theorems str_simps \<open>equations of the string searches\<close>
named_theorems map_laws \<open>laws of the ordered map\<close>

type_synonym byte_string = "char list"
type_synonym 'a srs = "int + 'a"

abbreviation Err :: "int \<Rightarrow> 'a srs" where "Err e \<equiv> Inl e"
abbreviation Ok :: "'a \<Rightarrow> 'a srs" where "Ok x \<equiv> Inr x"

text \<open>The pseudo code used where the C++ library would throw \<open>std::out_of_range\<close>.\<close>

abbreviation CXX_OUT_OF_RANGE :: int where "CXX_OUT_OF_RANGE \<equiv> - 1"

abbreviation CR :: char where "CR \<equiv> CHR 0x0D"
abbreviation LF :: char where "LF \<equiv> CHR 0x0A"
abbreviation SP :: char where "SP \<equiv> CHR '' ''"
abbreviation HT :: char where "HT \<equiv> CHR 0x09"
abbreviation CRLF :: string where "CRLF \<equiv> [CR, LF]"

section \<open>Searching strings\<close>

text \<open>\<open>str_find s sub\<close> is \<open>s.find(sub)\<close>, with \<open>None\<close> for \<open>npos\<close>;
  \<open>str_find_from\<close> adds the start position and \<open>str_rfind\<close> finds the last occurrence.\<close>

fun str_find :: "'a list \<Rightarrow> 'a list \<Rightarrow> nat option" where
  "str_find [] sub = (if sub = [] then Some 0 else None)"
| "str_find (c # s) sub =
     (if prefix sub (c # s) then Some 0 else map_option Suc (str_find s sub))"

definition str_find_from :: "'a list \<Rightarrow> 'a list \<Rightarrow> nat \<Rightarrow> nat option" where
  "str_find_from s sub pos =
     (if pos \<le> length s then map_option (\<lambda>i. i + pos) (str_find (drop pos s) sub) else None)"

fun str_rfind :: "'a list \<Rightarrow> 'a list \<Rightarrow> nat option" where
  "str_rfind [] sub = (if sub = [] then Some 0 else None)"
| "str_rfind (c # s) sub =
     (case str_rfind s sub of
        Some i \<Rightarrow> Some (Suc i)
      | None \<Rightarrow> (if prefix sub (c # s) then Some 0 else None))"

definition str_contains :: "'a list \<Rightarrow> 'a list \<Rightarrow> bool" where
  "str_contains s sub = (str_find s sub \<noteq> None)"

text \<open>\<open>atoi\<close> and \<open>atoll\<close>: leading white space, an optional sign, then digits.\<close>

definition is_digit :: "char \<Rightarrow> bool" where
  "is_digit c = (CHR ''0'' \<le> c \<and> c \<le> CHR ''9'')"

definition digit_val :: "char \<Rightarrow> nat" where
  "digit_val c = of_char c - 48"

fun digits_val :: "nat \<Rightarrow> string \<Rightarrow> nat" where
  "digits_val n [] = n"
| "digits_val n (c # s) = (if is_digit c then digits_val (10 * n + digit_val c) s else n)"

definition is_space :: "char \<Rightarrow> bool" where
  "is_space c = (c \<in> {CHR '' '', CHR 0x09, CHR 0x0A, CHR 0x0B, CHR 0x0C, CHR 0x0D})"

definition to_int32 :: "int \<Rightarrow> int" where
  "to_int32 i = (i + 2 ^ 31) mod 2 ^ 32 - 2 ^ 31"

text \<open>\<open>strtol(s, NULL, 10)\<close>, which saturates at the range of \<open>long\<close>; \<open>atoll\<close> is the
  same function and \<open>atoi\<close> its truncation to \<open>int\<close>, as in the GNU C library.\<close>

definition saturate64 :: "int \<Rightarrow> int" where
  "saturate64 i = max (- (2 ^ 63)) (min (2 ^ 63 - 1) i)"

definition c_strtol10 :: "string \<Rightarrow> int" where
  "c_strtol10 s = saturate64 (case dropWhile is_space s of
       [] \<Rightarrow> 0
     | c # t \<Rightarrow> (if c = CHR ''-'' then - int (digits_val 0 t)
                 else if c = CHR ''+'' then int (digits_val 0 t)
                 else int (digits_val 0 (c # t))))"

definition c_atoll :: "string \<Rightarrow> int" where
  "c_atoll s = c_strtol10 s"

definition c_atoi :: "string \<Rightarrow> int" where
  "c_atoi s = to_int32 (c_strtol10 s)"

text \<open>Decimal printing, as \<open>%d\<close> and \<open>operator<<\<close> do it.\<close>

definition digit_char :: "nat \<Rightarrow> char" where
  "digit_char d = char_of (48 + d)"

fun nat_to_str :: "nat \<Rightarrow> string" where
  "nat_to_str n = (if n < 10 then [digit_char n] else nat_to_str (n div 10) @ [digit_char (n mod 10)])"

declare nat_to_str.simps [simp del]

definition int_to_str :: "int \<Rightarrow> string" where
  "int_to_str i = (if i < 0 then CHR ''-'' # nat_to_str (nat (- i)) else nat_to_str (nat i))"

section \<open>The ordered map of the C++ library\<close>

type_synonym ('k, 'v) smap = "('k \<times> 'v) list"

definition smap_inv :: "('k::linorder, 'v) smap \<Rightarrow> bool" where
  "smap_inv m = sorted_wrt (<) (map fst m)"

abbreviation smap_get :: "('k, 'v) smap \<Rightarrow> 'k \<Rightarrow> 'v option" where
  "smap_get \<equiv> map_of"

fun smap_set :: "'k::linorder \<Rightarrow> 'v \<Rightarrow> ('k, 'v) smap \<Rightarrow> ('k, 'v) smap" where
  "smap_set k v [] = [(k, v)]"
| "smap_set k v (e # m) =
     (if fst e < k then e # smap_set k v m
      else if fst e = k then (k, v) # m
      else (k, v) # e # m)"

definition smap_del :: "'k \<Rightarrow> ('k, 'v) smap \<Rightarrow> ('k, 'v) smap" where
  "smap_del k m = filter (\<lambda>e. fst e \<noteq> k) m"

definition smap_of :: "('k::linorder \<times> 'v) list \<Rightarrow> ('k, 'v) smap" where
  "smap_of kvs = fold (\<lambda>(k, v). smap_set k v) kvs []"

text \<open>The promise of \<open>std::map\<close> to its clients.\<close>

locale std_map =
  fixes emp :: 'm
    and ins :: "'k::linorder \<Rightarrow> 'v \<Rightarrow> 'm \<Rightarrow> 'm"
    and del :: "'k \<Rightarrow> 'm \<Rightarrow> 'm"
    and look :: "'m \<Rightarrow> 'k \<Rightarrow> 'v option"
    and elems :: "'m \<Rightarrow> ('k \<times> 'v) list"
    and inv :: "'m \<Rightarrow> bool"
  assumes look_emp: "look emp k = None"
    and look_ins: "look (ins k v m) k' = (if k' = k then Some v else look m k')"
    and look_del: "look (del k m) k' = (if k' = k then None else look m k')"
    and look_elems: "inv m \<Longrightarrow> look m k = Some v \<longleftrightarrow> (k, v) \<in> set (elems m)"
    and elems_sorted: "inv m \<Longrightarrow> sorted_wrt (<) (map fst (elems m))"
    and inv_emp: "inv emp"
    and inv_ins: "inv m \<Longrightarrow> inv (ins k v m)"
    and inv_del: "inv m \<Longrightarrow> inv (del k m)"
begin

lemma look_fold_ins:
  "look (fold (\<lambda>(k, v). ins k v) kvs m) = look m ++ map_of (rev kvs)"
  by (induction kvs arbitrary: m) (auto simp: fun_eq_iff look_ins map_add_def split: option.splits)

lemma inv_fold_ins: "inv m \<Longrightarrow> inv (fold (\<lambda>(k, v). ins k v) kvs m)"
  by (induction kvs arbitrary: m) (auto simp: inv_ins)

lemma ins_del_look: "look (del k (ins k v m)) = look (del k m)"
  by (auto simp: fun_eq_iff look_ins look_del)

lemma elems_distinct: "inv m \<Longrightarrow> distinct (map fst (elems m))"
  using elems_sorted strict_sorted_iff by blast

end

section \<open>Lemmas on the searches\<close>

lemma str_find_Some:
  "str_find s sub = Some i \<Longrightarrow>
     i + length sub \<le> length s \<and> prefix sub (drop i s) \<and> (\<forall>j < i. \<not> prefix sub (drop j s))"
proof (induction s arbitrary: i)
  case Nil
  then show ?case by (auto split: if_splits)
next
  case (Cons c s)
  show ?case
  proof (cases "prefix sub (c # s)")
    case True
    with Cons.prems show ?thesis using prefix_length_le [OF True] by simp
  next
    case False
    with Cons.prems obtain j where j: "str_find s sub = Some j" "i = Suc j" by auto
    note ih = Cons.IH [OF j(1)]
    show ?thesis
    proof (intro conjI allI impI)
      fix k assume "k < i"
      then show "\<not> prefix sub (drop k (c # s))"
        using False ih j(2) by (cases k) auto
    qed (use ih j(2) in auto)
  qed
qed

lemma str_find_None:
  "str_find s sub = None \<longleftrightarrow> (\<forall>j \<le> length s. \<not> prefix sub (drop j s))"
proof (induction s)
  case Nil
  then show ?case by auto
next
  case (Cons c s)
  have "(\<forall>j \<le> length (c # s). \<not> prefix sub (drop j (c # s))) \<longleftrightarrow>
      \<not> prefix sub (c # s) \<and> (\<forall>j \<le> length s. \<not> prefix sub (drop j s))"
    by (auto simp: All_less_Suc2 less_Suc_eq_le [symmetric])
  with Cons show ?case by auto
qed

lemma str_contains_sublist: "str_contains s sub \<longleftrightarrow> sublist sub s"
proof
  assume "str_contains s sub"
  then obtain i where "str_find s sub = Some i" by (auto simp: str_contains_def)
  then obtain zs where "drop i s = sub @ zs" by (blast dest: str_find_Some elim: prefixE)
  then have "s = take i s @ sub @ zs" by (metis append_take_drop_id)
  then show "sublist sub s" by (auto simp: sublist_def)
next
  assume "sublist sub s"
  then obtain us vs where s: "s = us @ sub @ vs" by (auto simp: sublist_def)
  then have "prefix sub (drop (length us) s)" by simp
  moreover from s have "length us \<le> length s" by simp
  ultimately show "str_contains s sub"
    unfolding str_contains_def using str_find_None [of s sub] by blast
qed

lemma str_rfind_Some:
  "str_rfind s sub = Some i \<Longrightarrow>
     prefix sub (drop i s) \<and> i + length sub \<le> length s \<and>
     (\<forall>j. i < j \<and> j \<le> length s \<longrightarrow> \<not> prefix sub (drop j s))"
proof (induction s arbitrary: i)
  case Nil
  then show ?case by (auto split: if_splits)
next
  case (Cons c s)
  have none: "str_rfind s sub = None \<Longrightarrow> j \<le> length s \<Longrightarrow> \<not> prefix sub (drop j s)" for j
  proof (induction s arbitrary: j)
    case Nil
    then show ?case by (auto split: if_splits)
  next
    case (Cons d t)
    then show ?case by (cases j) (auto split: option.splits if_splits)
  qed
  show ?case
  proof (cases "str_rfind s sub")
    case None
    with Cons.prems have p: "prefix sub (c # s)" "i = 0" by (auto split: if_splits)
    have "\<not> prefix sub (drop j (c # s))" if "0 < j" "j \<le> Suc (length s)" for j
      using that none [OF None, of "j - 1"] by (cases j) auto
    with p prefix_length_le [OF p(1)] show ?thesis by auto
  next
    case (Some k)
    with Cons.prems have i: "i = Suc k" by simp
    note ih = Cons.IH [OF Some]
    have "\<not> prefix sub (drop j (c # s))" if "i < j" "j \<le> Suc (length s)" for j
      using that ih i by (cases j) auto
    with ih i show ?thesis by auto
  qed
qed

lemma str_find_Nil [simp]: "str_find s [] = Some 0"
  by (cases s) auto

lemma str_find_append:
  assumes "prefix sub (drop (length us) s)" "\<And>j. j < length us \<Longrightarrow> \<not> prefix sub (drop j s)"
    and "length us \<le> length s"
  shows "str_find s sub = Some (length us)"
proof (cases "str_find s sub")
  case None
  with assms(1,3) show ?thesis by (auto simp: str_find_None)
next
  case (Some i)
  then have "prefix sub (drop i s)" and "\<forall>j < i. \<not> prefix sub (drop j s)"
    by (auto dest: str_find_Some)
  with assms(1,2) have "i = length us" by (meson linorder_neqE_nat)
  with Some show ?thesis by simp
qed

section \<open>Lemmas on the map\<close>

lemma map_of_smap_set: "map_of (smap_set k v m) k' = (if k' = k then Some v else map_of m k')"
  by (induction m) auto

lemma keys_smap_set: "fst ` set (smap_set k v m) = insert k (fst ` set m)"
  by (induction m) auto

lemma smap_inv_set: "smap_inv m \<Longrightarrow> smap_inv (smap_set k v m)"
proof (induction m)
  case Nil
  then show ?case by (simp add: smap_inv_def)
next
  case (Cons e m)
  then have m: "smap_inv m" and lt: "\<forall>x \<in> fst ` set m. fst e < x"
    by (auto simp: smap_inv_def)
  then have "smap_inv (smap_set k v m)" using Cons.IH by simp
  moreover have "\<forall>x \<in> fst ` set (smap_set k v m). fst e < x" if "fst e < k"
    using that lt by (simp add: keys_smap_set)
  ultimately show ?case using m lt by (auto simp: smap_inv_def)
qed

lemma smap_inv_distinct: "smap_inv m \<Longrightarrow> distinct (map fst m)"
  unfolding smap_inv_def using strict_sorted_iff by blast

lemma map_of_smap_del: "map_of (smap_del k m) k' = (if k' = k then None else map_of m k')"
  by (induction m) (auto simp: smap_del_def)

lemma smap_inv_del: "smap_inv m \<Longrightarrow> smap_inv (smap_del k m)"
  by (auto simp: smap_inv_def smap_del_def sorted_wrt_map sorted_wrt_filter)

interpretation smap: std_map "[]" smap_set smap_del smap_get "\<lambda>m. m" smap_inv
proof unfold_locales
  fix m :: "('k::linorder, 'v) smap" and k v
  assume "smap_inv m"
  then show "(smap_get m k = Some v) = ((k, v) \<in> set m)"
    by (simp add: smap_inv_distinct map_of_eq_Some_iff)
qed (auto simp: map_of_smap_set map_of_smap_del smap_inv_set smap_inv_del, simp_all add: smap_inv_def)

lemmas smap_laws [map_laws] =
  map_of_smap_set map_of_smap_del smap_inv_set smap_inv_del smap.look_fold_ins smap.inv_fold_ins

lemma smap_of_get: "smap_get (smap_of kvs) = map_of (rev kvs)"
  by (simp add: smap_of_def smap.look_fold_ins)

lemma smap_of_inv: "smap_inv (smap_of kvs)"
  by (simp add: smap_of_def smap.inv_fold_ins smap.inv_emp)

section \<open>Lemmas on decimal numerals\<close>

lemma of_char_digit_char: "d < 10 \<Longrightarrow> (of_char (digit_char d) :: nat) = 48 + d"
  by (simp add: digit_char_def)

lemma is_digit_digit_char: "d < 10 \<Longrightarrow> is_digit (digit_char d)"
  unfolding is_digit_def less_eq_char_def by (simp add: of_char_digit_char)

lemma digit_val_digit_char: "d < 10 \<Longrightarrow> digit_val (digit_char d) = d"
  by (simp add: digit_val_def of_char_digit_char)

lemma digits_val_nat_to_str:
  "\<exists>k. \<forall>m s. digits_val m (nat_to_str n @ s) = digits_val (k * m + n) s"
proof (induction n rule: nat_to_str.induct)
  case (1 n)
  show ?case
  proof (cases "n < 10")
    case True
    then show ?thesis
      by (intro exI [of _ 10])
        (simp add: nat_to_str.simps [of n] is_digit_digit_char digit_val_digit_char)
  next
    case False
    with "1.IH" obtain k where k:
      "\<And>m s. digits_val m (nat_to_str (n div 10) @ s) = digits_val (k * m + n div 10) s"
      by blast
    have "digits_val m (nat_to_str n @ s) = digits_val (10 * k * m + n) s" for m s
    proof -
      have "digits_val m (nat_to_str n @ s) =
          digits_val (k * m + n div 10) (digit_char (n mod 10) # s)"
        using False k by (simp add: nat_to_str.simps [of n])
      also have "\<dots> = digits_val (10 * (k * m + n div 10) + n mod 10) s"
        by (simp add: is_digit_digit_char digit_val_digit_char)
      also have "10 * (k * m + n div 10) + n mod 10 = 10 * k * m + n"
        by (simp add: algebra_simps)
      finally show ?thesis .
    qed
    then show ?thesis by blast
  qed
qed

lemma digits_val_nat_to_str_0: "digits_val 0 (nat_to_str n) = n"
proof -
  obtain k where "\<forall>m s. digits_val m (nat_to_str n @ s) = digits_val (k * m + n) s"
    using digits_val_nat_to_str by blast
  from this [rule_format, of 0 "[]"] show ?thesis by simp
qed

lemma nat_to_str_nonempty [simp]: "nat_to_str n \<noteq> []"
  by (subst nat_to_str.simps) simp

lemma nat_to_str_digits: "\<forall>c \<in> set (nat_to_str n). is_digit c"
proof (induction n rule: nat_to_str.induct)
  case (1 n)
  then show ?case
    by (subst nat_to_str.simps) (auto simp: is_digit_digit_char)
qed

lemma digit_not_special:
  "is_digit c \<Longrightarrow> \<not> is_space c \<and> c \<noteq> CHR ''-'' \<and> c \<noteq> CHR ''+''"
  by (auto simp: is_digit_def is_space_def)

lemma to_int32_small: "- (2 ^ 31) \<le> i \<Longrightarrow> i < 2 ^ 31 \<Longrightarrow> to_int32 i = i"
  by (simp add: to_int32_def)

lemma saturate64_small: "- (2 ^ 63) \<le> i \<Longrightarrow> i < 2 ^ 63 \<Longrightarrow> saturate64 i = i"
  by (simp add: saturate64_def)

lemma c_strtol10_digits:
  assumes "list_all is_digit ds"
  shows "c_strtol10 ds = saturate64 (int (digits_val 0 ds))"
proof (cases ds)
  case (Cons c t)
  with assms have "is_digit c" by simp
  with Cons show ?thesis by (simp add: c_strtol10_def digit_not_special)
qed (simp add: c_strtol10_def)

lemma c_atoi_digits:
  assumes "list_all is_digit ds" "digits_val 0 ds < 2 ^ 31"
  shows "c_atoi ds = int (digits_val 0 ds)"
proof -
  have "int (digits_val 0 ds) < 2 ^ 31" using assms(2) by simp
  then show ?thesis
    by (simp add: c_atoi_def c_strtol10_digits [OF assms(1)] saturate64_small to_int32_small)
qed

lemma c_atoll_nat_to_str: "n < 2 ^ 63 \<Longrightarrow> c_atoll (nat_to_str n) = int n"
  using nat_to_str_digits [of n]
  by (simp add: c_atoll_def c_strtol10_digits list_all_iff digits_val_nat_to_str_0 saturate64_small)

lemma c_atoi_nat_to_str: "n < 2 ^ 31 \<Longrightarrow> c_atoi (nat_to_str n) = int n"
  using nat_to_str_digits [of n] c_atoi_digits [of "nat_to_str n"]
  by (simp add: list_all_iff digits_val_nat_to_str_0)

end
