(* ===== verification/Url_Escape.thy ===== *)
theory Url_Escape
  imports Prelude
begin

text \<open>
  Percent encoding (\<open>src/src/protocol/srs_protocol_http_stack.cpp\<close>, the anonymous
  namespace after Go's \<open>net/url\<close>): \<open>should_escape\<close>, \<open>ishex\<close>,
  \<open>hex_to_num\<close>, \<open>unescapse\<close>, \<open>escape\<close> and the four static members
  of \<open>SrsHttpUri\<close> built on them.  The loops over an index are recursions over the rest of
  the string.  Shown: \<open>escape\<close> with its two fast paths is the per-byte encoding; decoding
  inverts encoding in every mode but the two host modes; what is produced uses a safe alphabet; the
  decoder never reads past the end and reports an error exactly for a malformed escape.
\<close>

unbundle bit_operations_syntax

section \<open>Definitions\<close>

datatype EncodeMode =
    encodePath | encodePathSegment | encodeHost | encodeZone | encodeUserPassword
  | encodeQueryComponent | encodeFragment

abbreviation ERROR_HTTP_URL_UNESCAPE :: int where "ERROR_HTTP_URL_UNESCAPE \<equiv> 3096"

definition is_alnum :: "char \<Rightarrow> bool" where
  "is_alnum c \<longleftrightarrow> (CHR ''a'' \<le> c \<and> c \<le> CHR ''z'') \<or> (CHR ''A'' \<le> c \<and> c \<le> CHR ''Z'') \<or>
     (CHR ''0'' \<le> c \<and> c \<le> CHR ''9'')"

definition should_escape :: "char \<Rightarrow> EncodeMode \<Rightarrow> bool" where
  "should_escape c mode =
     (if is_alnum c then False
      else if (mode = encodeHost \<or> mode = encodeZone) \<and>
          c \<in> set [CHR ''!'', CHR ''$'', CHR ''&'', CHR 0x27, CHR ''('', CHR '')'', CHR ''*'',
            CHR ''+'', CHR '','', CHR '';'', CHR ''='', CHR '':'', CHR ''['', CHR '']'',
            CHR ''<'', CHR ''>'', CHR 0x22] then False
      else if c \<in> set ''-_.~'' then False
      else if c \<in> set ''$&+,/:;=?@'' \<and> mode \<noteq> encodeHost \<and> mode \<noteq> encodeZone then
        (case mode of
           encodePath \<Rightarrow> c = CHR ''?''
         | encodePathSegment \<Rightarrow> c = CHR ''/'' \<or> c = CHR '';'' \<or> c = CHR '','' \<or> c = CHR ''?''
         | encodeUserPassword \<Rightarrow> c = CHR ''@'' \<or> c = CHR ''/'' \<or> c = CHR ''?'' \<or> c = CHR '':''
         | encodeQueryComponent \<Rightarrow> True
         | _ \<Rightarrow> False)
      else if mode = encodeFragment \<and> c \<in> set ''!()*'' then False
      else True)"

definition ishex :: "char \<Rightarrow> bool" where
  "ishex c = (if CHR ''0'' \<le> c \<and> c \<le> CHR ''9'' then True
     else if CHR ''a'' \<le> c \<and> c \<le> CHR ''f'' then True
     else if CHR ''A'' \<le> c \<and> c \<le> CHR ''F'' then True else False)"

definition hex_to_num :: "char \<Rightarrow> nat" where
  "hex_to_num c = (if CHR ''0'' \<le> c \<and> c \<le> CHR ''9'' then of_char c - of_char (CHR ''0'')
     else if CHR ''a'' \<le> c \<and> c \<le> CHR ''f'' then of_char c - of_char (CHR ''a'') + 10
     else if CHR ''A'' \<le> c \<and> c \<le> CHR ''F'' then of_char c - of_char (CHR ''A'') + 10
     else 0)"

definition hex_byte :: "char \<Rightarrow> char \<Rightarrow> char" where
  "hex_byte a b = char_of (push_bit 4 (hex_to_num a) OR hex_to_num b)"

text \<open>The first loop of \<open>unescapse\<close>: count the escapes and check that they are well
  formed, remember whether a plus sign has to be translated.\<close>

fun unescape_check :: "EncodeMode \<Rightarrow> string \<Rightarrow> nat \<Rightarrow> bool \<Rightarrow> (nat \<times> bool) srs" where
  "unescape_check mode [] n has_plus = Ok (n, has_plus)"
| "unescape_check mode (c # s) n has_plus =
     (if c = CHR ''%'' then
        (case s of
           a # b # s' \<Rightarrow>
             if \<not> ishex a \<or> \<not> ishex b then Err ERROR_HTTP_URL_UNESCAPE
             else if mode = encodeHost \<and> hex_to_num a < 8 \<and> [c, a, b] \<noteq> ''%25'' then
               Err ERROR_HTTP_URL_UNESCAPE
             else if mode = encodeZone \<and> [c, a, b] \<noteq> ''%25'' \<and> hex_byte a b \<noteq> CHR '' '' \<and>
                 should_escape (hex_byte a b) encodeHost then Err ERROR_HTTP_URL_UNESCAPE
             else unescape_check mode s' (n + 1) has_plus
         | _ \<Rightarrow> Err ERROR_HTTP_URL_UNESCAPE)
      else if c = CHR ''+'' then unescape_check mode s n (encodeQueryComponent = mode)
      else if (mode = encodeHost \<or> mode = encodeZone) \<and> (of_char c :: nat) < 0x80 \<and>
          should_escape c mode then Err ERROR_HTTP_URL_UNESCAPE
      else unescape_check mode s n has_plus)"

text \<open>The second loop; \<open>None\<close> where \<open>s.at\<close> would throw.\<close>

fun unescape_decode :: "EncodeMode \<Rightarrow> string \<Rightarrow> string option" where
  "unescape_decode mode [] = Some []"
| "unescape_decode mode (c # s) =
     (if c = CHR ''%'' then
        (case s of
           a # b # s' \<Rightarrow> map_option ((#) (hex_byte a b)) (unescape_decode mode s')
         | _ \<Rightarrow> None)
      else if c = CHR ''+'' then
        map_option ((#) (if encodeQueryComponent = mode then CHR '' '' else CHR ''+''))
          (unescape_decode mode s)
      else map_option ((#) c) (unescape_decode mode s))"

definition unescapse :: "string \<Rightarrow> EncodeMode \<Rightarrow> string srs" where
  "unescapse s mode =
     (case unescape_check mode s 0 False of
        Inl e \<Rightarrow> Err e
      | Inr (n, has_plus) \<Rightarrow>
          if n = 0 \<and> \<not> has_plus then Ok s
          else (case unescape_decode mode s of
                  None \<Rightarrow> Err CXX_OUT_OF_RANGE
                | Some v \<Rightarrow> Ok v))"

definition escape_code :: "nat \<Rightarrow> char" where
  "escape_code i = ''0123456789ABCDEF'' ! i"

fun escape_count :: "EncodeMode \<Rightarrow> string \<Rightarrow> nat \<Rightarrow> nat \<Rightarrow> nat \<times> nat" where
  "escape_count mode [] space_count hex_count = (space_count, hex_count)"
| "escape_count mode (c # s) space_count hex_count =
     (if should_escape c mode then
        if CHR '' '' = c \<and> encodeQueryComponent = mode
        then escape_count mode s (space_count + 1) hex_count
        else escape_count mode s space_count (hex_count + 1)
      else escape_count mode s space_count hex_count)"

fun escape_loop :: "EncodeMode \<Rightarrow> string \<Rightarrow> string" where
  "escape_loop mode [] = []"
| "escape_loop mode (c # s) =
     (if CHR '' '' = c \<and> encodeQueryComponent = mode then CHR ''+'' # escape_loop mode s
      else if should_escape c mode then
        CHR ''%'' # escape_code (drop_bit 4 (of_char c)) # escape_code (of_char c AND 15)
          # escape_loop mode s
      else c # escape_loop mode s)"

definition escape :: "string \<Rightarrow> EncodeMode \<Rightarrow> string" where
  "escape s mode =
     (let (space_count, hex_count) = escape_count mode s 0 0 in
      if space_count = 0 \<and> hex_count = 0 then s
      else if hex_count = 0 then map (\<lambda>c. if CHR '' '' = c then CHR ''+'' else c) s
      else escape_loop mode s)"

definition query_escape :: "string \<Rightarrow> string" where
  "query_escape s = escape s encodeQueryComponent"

definition path_escape :: "string \<Rightarrow> string" where
  "path_escape s = escape s encodePathSegment"

definition query_unescape :: "string \<Rightarrow> string srs" where
  "query_unescape s = unescapse s encodeQueryComponent"

definition path_unescape :: "string \<Rightarrow> string srs" where
  "path_unescape s = unescapse s encodePathSegment"

text \<open>What an encoder and a decoder promise to a caller.\<close>

locale codec =
  fixes enc :: "'a \<Rightarrow> 'b" and dec :: "'b \<Rightarrow> 'a srs"
  assumes dec_enc: "dec (enc x) = Ok x"
begin

lemma enc_inj: "enc x = enc y \<Longrightarrow> x = y"
  by (metis dec_enc sum.inject(2))

lemma dec_surj: "\<exists>y. dec y = Ok x"
  using dec_enc by blast

lemma enc_list_inj: "map enc xs = map enc ys \<longleftrightarrow> xs = ys"
proof (rule inj_map_eq_map)
  show "inj enc" by (rule injI) (rule enc_inj)
qed

end

section \<open>Hexadecimal digits\<close>

lemma escape_code_cases:
  assumes "i < 16"
  shows "(i :: nat) \<in> {0, 1, 2, 3, 4, 5, 6, 7, 8, 9, 10, 11, 12, 13, 14, 15}"
  using assms by simp arith

lemma hex_to_num_escape_code: "i < 16 \<Longrightarrow> hex_to_num (escape_code i) = i"
  by (drule escape_code_cases) (elim insertE emptyE; simp add: escape_code_def hex_to_num_def)

lemma ishex_escape_code: "i < 16 \<Longrightarrow> ishex (escape_code i)"
  by (drule escape_code_cases) (elim insertE emptyE; simp add: escape_code_def ishex_def)

lemma escape_code_alnum: "i < 16 \<Longrightarrow> is_alnum (escape_code i)"
  by (drule escape_code_cases) (elim insertE emptyE; simp add: escape_code_def is_alnum_def)

lemma nibbles_or:
  assumes "(b::nat) < 16"
  shows "push_bit 4 a OR b = 16 * a + b"
proof -
  have "push_bit 4 a OR b = push_bit 4 a + b"
  proof (rule disjunctive_add [symmetric])
    fix n
    show "\<not> bit (push_bit 4 a) n \<or> \<not> bit b n"
    proof (cases "n < 4")
      case True
      then show ?thesis by (simp add: bit_push_bit_iff)
    next
      case False
      have "b = take_bit 4 b" using assms by (simp add: take_bit_nat_eq_self)
      with False show ?thesis by (metis bit_take_bit_iff)
    qed
  qed
  then show ?thesis by (simp add: push_bit_eq_mult)
qed

lemma hex_byte_escape_code:
  "hex_byte (escape_code (drop_bit 4 (of_char c))) (escape_code (of_char c AND 15)) = c"
proof -
  let ?n = "of_char c :: nat"
  have lt: "?n < 256" by simp
  have hi: "drop_bit 4 ?n = ?n div 16" by (simp add: drop_bit_eq_div)
  have lo: "?n AND 15 = ?n mod 16"
    using take_bit_eq_mask [of 4 ?n] by (simp add: take_bit_eq_mod mask_eq_exp_minus_1)
  have "hex_byte (escape_code (?n div 16)) (escape_code (?n mod 16)) = char_of (16 * (?n div 16) + ?n mod 16)"
    using lt by (simp add: hex_byte_def hex_to_num_escape_code nibbles_or less_mult_imp_div_less)
  then show ?thesis using hi lo by simp
qed

section \<open>The encoder against its per-byte form\<close>

definition plus_byte :: "EncodeMode \<Rightarrow> char \<Rightarrow> bool" where
  "plus_byte mode c \<longleftrightarrow> c = CHR '' '' \<and> mode = encodeQueryComponent"

definition hex_escaped :: "EncodeMode \<Rightarrow> char \<Rightarrow> bool" where
  "hex_escaped mode c \<longleftrightarrow> should_escape c mode \<and> \<not> plus_byte mode c"

lemma space_escaped_query: "should_escape (CHR '' '') encodeQueryComponent"
  by (simp add: should_escape_def is_alnum_def)

lemma percent_escaped: "should_escape (CHR ''%'') mode"
  by (simp add: should_escape_def is_alnum_def)

lemma plus_escaped_query: "should_escape (CHR ''+'') encodeQueryComponent"
  by (simp add: should_escape_def is_alnum_def)

lemma escape_count_eq:
  "escape_count mode s a b =
     (a + length (filter (plus_byte mode) s), b + length (filter (hex_escaped mode) s))"
  by (induction mode s a b rule: escape_count.induct)
    (auto simp: plus_byte_def hex_escaped_def space_escaped_query)

lemma escape_loop_id:
  assumes "filter (hex_escaped mode) s = []" "filter (plus_byte mode) s = []"
  shows "escape_loop mode s = s"
  using assms by (induction s) (auto simp: hex_escaped_def plus_byte_def split: if_splits)

lemma escape_loop_spaces:
  assumes "filter (hex_escaped mode) s = []" "filter (plus_byte mode) s \<noteq> []"
  shows "escape_loop mode s = map (\<lambda>c. if CHR '' '' = c then CHR ''+'' else c) s"
proof -
  from assms(2) have "mode = encodeQueryComponent"
    by (auto simp: plus_byte_def filter_empty_conv)
  with assms(1) show ?thesis
    by (induction s) (auto simp: hex_escaped_def plus_byte_def split: if_splits)
qed

lemma escape_eq_loop: "escape s mode = escape_loop mode s"
proof -
  have "escape_count mode s 0 0 =
      (length (filter (plus_byte mode) s), length (filter (hex_escaped mode) s))"
    by (simp add: escape_count_eq)
  then show ?thesis
    using escape_loop_id [of mode s] escape_loop_spaces [of mode s]
    by (simp add: escape_def)
qed

lemma length_escape_loop:
  "length (escape_loop mode s) = length s + 2 * length (filter (hex_escaped mode) s)"
  by (induction s) (auto simp: hex_escaped_def plus_byte_def)

lemma nibble_bounds: "drop_bit 4 (of_char c :: nat) < 16" "(of_char c AND 15 :: nat) < 16"
proof -
  have "(of_char c :: nat) < 16 * 16" using nat_of_char_less_256 [of c] by simp
  then show "drop_bit 4 (of_char c :: nat) < 16"
    by (simp add: drop_bit_eq_div less_mult_imp_div_less)
  show "(of_char c AND 15 :: nat) < 16"
    using take_bit_eq_mask [of 4 "of_char c :: nat"]
    by (simp add: take_bit_eq_mod mask_eq_exp_minus_1 flip: less_Suc_eq_le)
qed

section \<open>The decoder\<close>

lemma unescape_check_decode:
  "unescape_check mode t n hp = Ok (m, hp') \<Longrightarrow>
     n \<le> m \<and> (mode = encodeQueryComponent \<and> hp \<longrightarrow> hp') \<and>
     (\<exists>v. unescape_decode mode t = Some v \<and> length v + 2 * (m - n) = length t \<and>
       (m = n \<and> (mode = encodeQueryComponent \<longrightarrow> \<not> hp') \<longrightarrow> v = t))"
proof (induction mode t n hp rule: unescape_check.induct)
  case (1 mode n has_plus)
  then show ?case by simp
next
  case (2 mode c s n has_plus)
  consider (pct) "c = CHR ''%''" | (plus) "c = CHR ''+''" | (other) "c \<noteq> CHR ''%''" "c \<noteq> CHR ''+''"
    by blast
  then show ?case
  proof cases
    case pct
    with "2.prems" obtain a b s' where s: "s = a # b # s'"
      and rec: "unescape_check mode s' (n + 1) has_plus = Ok (m, hp')"
      and hex: "ishex a" "ishex b"
      by (auto split: list.splits if_splits)
    then have "n + 1 \<le> m \<and> (mode = encodeQueryComponent \<and> has_plus \<longrightarrow> hp') \<and>
        (\<exists>v. unescape_decode mode s' = Some v \<and> length v + 2 * (m - (n + 1)) = length s' \<and>
          (m = n + 1 \<and> (mode = encodeQueryComponent \<longrightarrow> \<not> hp') \<longrightarrow> v = s'))"
      using "2.IH"(1) [OF pct s] "2.prems" pct by (auto split: if_splits)
    with s pct show ?thesis by auto
  next
    case plus
    with "2.prems" have "unescape_check mode s n (encodeQueryComponent = mode) = Ok (m, hp')"
      by simp
    with plus "2.IH"(2) show ?thesis by (auto split: if_splits)
  next
    case other
    with "2.prems" have "unescape_check mode s n has_plus = Ok (m, hp')"
      by (auto split: if_splits)
    with other "2.prems" "2.IH"(3) show ?thesis by (auto split: if_splits)
  qed
qed

lemma unescapse_Ok_decode:
  assumes "unescapse s mode = Ok v"
  shows "unescape_decode mode s = Some v"
proof -
  from assms obtain m hp where chk: "unescape_check mode s 0 False = Ok (m, hp)"
    by (auto simp: unescapse_def split: sum.splits)
  from unescape_check_decode [OF chk] chk assms show ?thesis
    by (auto simp: unescapse_def split: if_splits)
qed

lemma unescape_check_Err:
  "unescape_check mode t n hp = Err e \<Longrightarrow> e = ERROR_HTTP_URL_UNESCAPE"
proof (induction mode t n hp rule: unescape_check.induct)
  case (1 mode n has_plus)
  then show ?case by simp
next
  case (2 mode c s n has_plus)
  show ?case
  proof (cases "c = CHR ''%''")
    case True
    show ?thesis
    proof (cases "\<exists>a b s'. s = a # b # s'")
      case False
      with True "2.prems" show ?thesis by (cases s rule: remdups_adj.cases) auto
    next
      case True
      with \<open>c = CHR ''%''\<close> "2.prems" "2.IH"(1) show ?thesis by (auto split: if_splits)
    qed
  next
    case False
    with "2.prems" "2.IH"(2,3) show ?thesis by (auto split: if_splits)
  qed
qed

lemma unescapse_not_thrown: "unescapse s mode \<noteq> Err CXX_OUT_OF_RANGE"
proof (cases "unescape_check mode s 0 False")
  case (Inl e)
  then have "e = ERROR_HTTP_URL_UNESCAPE" by (rule unescape_check_Err)
  with Inl show ?thesis by (simp add: unescapse_def)
next
  case (Inr r)
  obtain m hp where r: "r = (m, hp)" by fastforce
  from unescape_check_decode [OF Inr [unfolded r]] Inr r show ?thesis
    by (auto simp: unescapse_def)
qed

lemma unescape_check_loop:
  assumes "mode \<noteq> encodeHost" "mode \<noteq> encodeZone"
  shows "\<exists>hp'. unescape_check mode (escape_loop mode s) n hp =
    Ok (n + length (filter (hex_escaped mode) s), hp')"
proof (induction s arbitrary: n hp)
  case Nil
  then show ?case by simp
next
  case (Cons c s)
  have pct: "should_escape (CHR ''%'') mode" by (rule percent_escaped)
  show ?case
  proof (cases "should_escape c mode \<and> \<not> plus_byte mode c")
    case True
    with Cons [of "n + 1" hp] assms show ?thesis
      by (auto simp: hex_escaped_def plus_byte_def ishex_escape_code nibble_bounds)
  next
    case False
    with pct have "c = CHR ''%'' \<Longrightarrow> plus_byte mode c" by auto
    then have "c \<noteq> CHR ''%''" by (auto simp: plus_byte_def)
    with False assms Cons [of n hp] Cons [of n True] Cons [of n False] show ?thesis
      by (cases "encodeQueryComponent = mode") (auto simp: hex_escaped_def plus_byte_def)
  qed
qed

lemma unescape_decode_loop: "unescape_decode mode (escape_loop mode s) = Some s"
proof (induction s)
  case Nil
  then show ?case by simp
next
  case (Cons c s)
  have "c \<noteq> CHR ''%''" if "\<not> should_escape c mode" using that percent_escaped by auto
  moreover have "c \<noteq> CHR ''+'' \<or> mode \<noteq> encodeQueryComponent" if "\<not> should_escape c mode"
    using that plus_escaped_query by auto
  ultimately show ?case using Cons by (auto simp: hex_byte_escape_code)
qed

text \<open>Which texts the decoder accepts: sequences of plain bytes and of percent triples.\<close>

definition esc_unit :: "string \<Rightarrow> bool" where
  "esc_unit u \<longleftrightarrow> (\<exists>c. u = [c] \<and> c \<noteq> CHR ''%'') \<or> (\<exists>a b. u = [CHR ''%'', a, b] \<and> ishex a \<and> ishex b)"

lemma esc_unit_intros:
  "c \<noteq> CHR ''%'' \<Longrightarrow> esc_unit [c]"
  "ishex a \<Longrightarrow> ishex b \<Longrightarrow> esc_unit [CHR ''%'', a, b]"
  by (auto simp: esc_unit_def)

lemma unescape_check_units:
  assumes "mode \<noteq> encodeHost" "mode \<noteq> encodeZone"
  shows "(\<exists>r. unescape_check mode s n hp = Ok r) \<longleftrightarrow> (\<exists>us. s = concat us \<and> list_all esc_unit us)"
    (is "?L s n hp \<longleftrightarrow> ?R s")
proof
  show "?L s n hp \<Longrightarrow> ?R s"
    using assms
  proof (induction mode s n hp rule: unescape_check.induct)
    case (1 mode n has_plus)
    then show ?case by (intro exI [of _ "[]"]) simp
  next
    case (2 mode c s n has_plus)
    show ?case
    proof (cases "c = CHR ''%''")
      case True
      with "2.prems"(1) obtain a b s' where s: "s = a # b # s'" and h: "ishex a" "ishex b"
        and "\<exists>r. unescape_check mode s' (n + 1) has_plus = Ok r"
        by (auto split: list.splits if_splits)
      with "2.IH"(1) [OF True s] "2.prems"(2,3) obtain us where "s' = concat us" "list_all esc_unit us"
        by auto
      with True s h show ?thesis
        by (intro exI [of _ "[CHR ''%'', a, b] # us"]) (simp add: esc_unit_intros)
    next
      case False
      with "2.prems" have "\<exists>r n hp. unescape_check mode s n hp = Ok r"
        by (auto split: if_splits)
      from False "2.IH"(2,3) "2.prems" have "?R s" by (auto split: if_splits)
      then obtain us where "s = concat us" "list_all esc_unit us" by blast
      with False show ?thesis
        by (intro exI [of _ "[c] # us"]) (simp add: esc_unit_intros)
    qed
  qed
  have "\<exists>r. unescape_check mode (concat us) n hp = Ok r" if "list_all esc_unit us" for us n hp
    using that assms
  proof (induction us arbitrary: n hp)
    case Nil
    then show ?case by simp
  next
    case (Cons u us)
    then show ?case by (auto simp: esc_unit_def)
  qed
  then show "?R s \<Longrightarrow> ?L s n hp" by blast
qed

lemma unescapse_Ok_iff_check: "(\<exists>v. unescapse s mode = Ok v) \<longleftrightarrow> (\<exists>r. unescape_check mode s 0 False = Ok r)"
proof (cases "unescape_check mode s 0 False")
  case (Inl e)
  then show ?thesis by (simp add: unescapse_def)
next
  case (Inr r)
  obtain m hp where r: "r = (m, hp)" by fastforce
  from unescape_check_decode [OF Inr [unfolded r]] Inr r show ?thesis
    by (auto simp: unescapse_def)
qed

lemma unescapse_escape:
  assumes "mode \<noteq> encodeHost" "mode \<noteq> encodeZone"
  shows "unescapse (escape s mode) mode = Ok s"
proof -
  obtain m hp where chk: "unescape_check mode (escape_loop mode s) 0 False = Ok (m, hp)"
    using unescape_check_loop [OF assms, of s 0 False] by auto
  then have "unescapse (escape s mode) mode \<noteq> Err e" for e
    using unescapse_Ok_iff_check [of "escape_loop mode s" mode] by (auto simp: escape_eq_loop)
  then obtain v where v: "unescapse (escape s mode) mode = Ok v"
    by (cases "unescapse (escape s mode) mode") auto
  with unescapse_Ok_decode [OF v] show ?thesis
    by (simp add: escape_eq_loop unescape_decode_loop)
qed

interpretation query_codec: codec query_escape query_unescape
  by unfold_locales (simp add: query_escape_def query_unescape_def unescapse_escape)

interpretation path_codec: codec path_escape path_unescape
  by unfold_locales (simp add: path_escape_def path_unescape_def unescapse_escape)

text \<open>The encoding of one byte, the specification of \<open>escape\<close>.\<close>

definition escape_byte :: "EncodeMode \<Rightarrow> char \<Rightarrow> string" where
  "escape_byte mode c =
     (if plus_byte mode c then ''+''
      else if should_escape c mode then
        [CHR ''%'', escape_code (of_char c div 16), escape_code (of_char c mod 16)]
      else [c])"

lemma nibbles_div_mod:
  "drop_bit 4 (of_char c :: nat) = of_char c div 16" "(of_char c AND 15 :: nat) = of_char c mod 16"
  using take_bit_eq_mask [of 4 "of_char c :: nat"]
  by (simp_all add: drop_bit_eq_div take_bit_eq_mod mask_eq_exp_minus_1)

lemma escape_loop_concat: "escape_loop mode s = concat (map (escape_byte mode) s)"
  by (induction s) (auto simp: escape_byte_def plus_byte_def nibbles_div_mod)

text \<open>Bytes that decoding in host mode may produce.\<close>

definition host_byte_ok :: "char \<Rightarrow> bool" where
  "host_byte_ok c \<longleftrightarrow> 128 \<le> (of_char c :: nat) \<or> c = CHR ''%'' \<or> \<not> should_escape c encodeHost"

lemma hex_to_num_less: "hex_to_num c < 16"
  by (auto simp: hex_to_num_def less_eq_char_def)

lemma hex_byte_high: "8 \<le> hex_to_num a \<Longrightarrow> 128 \<le> (of_char (hex_byte a b) :: nat)"
proof -
  assume a: "8 \<le> hex_to_num a"
  have "16 * hex_to_num a + hex_to_num b < 256"
    using hex_to_num_less [of a] hex_to_num_less [of b] by simp
  with a show ?thesis by (simp add: hex_byte_def nibbles_or hex_to_num_less)
qed

lemma hex_byte_25: "hex_byte (CHR ''2'') (CHR ''5'') = CHR ''%''"
  by code_simp

lemma unescape_host_bytes:
  "unescape_check encodeHost s n hp = Ok r \<Longrightarrow> unescape_decode encodeHost s = Some v \<Longrightarrow>
     \<forall>c \<in> set v. host_byte_ok c"
proof (induction s arbitrary: n hp v rule: length_induct)
  case (1 s)
  show ?case
  proof (cases s)
    case Nil
    with "1.prems" show ?thesis by simp
  next
    case (Cons c t)
    show ?thesis
    proof (cases "c = CHR ''%''")
      case True
      with "1.prems" Cons obtain a b t' v' where t: "t = a # b # t'"
        and rec: "unescape_check encodeHost t' (n + 1) hp = Ok r"
        and ok: "8 \<le> hex_to_num a \<or> a = CHR ''2'' \<and> b = CHR ''5''"
        and v: "unescape_decode encodeHost t' = Some v'" "v = hex_byte a b # v'"
        by (auto split: list.splits if_splits)
      from ok have "host_byte_ok (hex_byte a b)"
        using hex_byte_high by (auto simp: host_byte_ok_def hex_byte_25)
      moreover have "\<forall>x \<in> set v'. host_byte_ok x"
        using "1.IH" [rule_format, OF _ rec v(1)] Cons t by simp
      ultimately show ?thesis using v(2) by simp
    next
      case False
      with "1.prems" Cons obtain v' n' hp' where rec: "unescape_check encodeHost t n' hp' = Ok r"
        and v: "unescape_decode encodeHost t = Some v'" "v = c # v'"
        by (auto split: if_splits)
      have "host_byte_ok c"
      proof (cases "c = CHR ''+''")
        case True
        then show ?thesis by (simp add: host_byte_ok_def should_escape_def)
      next
        case plain: False
        with False "1.prems"(1) Cons have "128 \<le> (of_char c :: nat) \<or> \<not> should_escape c encodeHost"
          by (auto split: if_splits)
        then show ?thesis by (auto simp: host_byte_ok_def)
      qed
      moreover have "\<forall>x \<in> set v'. host_byte_ok x"
        using "1.IH" [rule_format, OF _ rec v(1)] Cons by simp
      ultimately show ?thesis using v(2) by simp
    qed
  qed
qed

section \<open>Properties\<close>

text \<open>C30. Decoding inverts encoding: in every mode other than the two host modes,
  \<open>unescapse\<close> applied to what \<open>escape\<close> produced gives the original bytes back.\<close>

theorem escape_roundtrip:
  assumes "mode \<noteq> encodeHost" and "mode \<noteq> encodeZone"
  shows "unescapse (escape s mode) mode = Ok s"
  using assms by (rule unescapse_escape)

theorem escape_roundtrip_witness:
  "encodePath \<noteq> encodeHost \<and> encodePath \<noteq> encodeZone \<and>
   unescapse (escape ''a b?c'' encodePath) encodePath = Ok ''a b?c''"
  using escape_roundtrip [of encodePath "''a b?c''"] by simp

text \<open>The encoder with its fast paths (nothing to escape, only spaces to translate) is
  the concatenation of the encodings of the single bytes, in every mode.\<close>

lemma escape_bytewise: "escape s mode = concat (map (escape_byte mode) s)"
  by (simp add: escape_eq_loop escape_loop_concat)

text \<open>The decoder accepts exactly the sequences of plain bytes and well-formed percent
  triples, and it reports an error for every other text without reading past the end.\<close>

lemma unescapse_accepts:
  assumes "mode \<noteq> encodeHost" and "mode \<noteq> encodeZone"
  shows "((\<exists>v. unescapse s mode = Ok v) \<longleftrightarrow> (\<exists>us. s = concat us \<and> list_all esc_unit us)) \<and>
    unescapse s mode \<noteq> Err CXX_OUT_OF_RANGE"
  using unescape_check_units [OF assms, of s 0 False] unescapse_Ok_iff_check [of s mode]
    unescapse_not_thrown [of s mode] by simp

text \<open>Host names: decoding in host mode never introduces an ASCII byte that a host may
  not contain, whatever the percent escapes of the input.\<close>

lemma unescapse_host_safe:
  assumes "unescapse s encodeHost = Ok v"
  shows "\<forall>c \<in> set v. host_byte_ok c"
proof -
  from assms obtain r where "unescape_check encodeHost s 0 False = Ok r"
    using unescapse_Ok_iff_check by blast
  with unescapse_Ok_decode [OF assms] show ?thesis by (rule unescape_host_bytes [rotated -1])
qed

end
