(* ===== verification/Url_Parser.thy ===== *)
theory Url_Parser
  imports Http_Parser_Types
begin

text \<open>
  The URL parser (\<open>src/src/protocol/srs_protocol_http_stack.cpp\<close>): \<open>parse_url_char\<close>,
  shared with \<open>http_parser_execute\<close>, \<open>http_parse_host_char\<close>, \<open>http_parse_host\<close>
  and \<open>http_parser_parse_url\<close>.  A loop over the buffer is a recursion over its remaining
  bytes that carries the offset \<open>p\<close>; offsets and lengths are 16 bits wide, as in
  \<open>struct http_parser_url\<close>.  \<open>UrlFail\<close> is the return value 1, \<open>UrlAbort\<close> a failed
  assertion.
\<close>

section \<open>Definitions\<close>

datatype (plugins only: code) http_parser_url_fields =
    UF_SCHEMA | UF_HOST | UF_PORT | UF_PATH | UF_QUERY | UF_FRAGMENT | UF_USERINFO | UF_MAX

record http_parser_url =
  field_set :: "http_parser_url_fields set"
  u_port :: nat
  field_off :: "http_parser_url_fields \<Rightarrow> nat"
  field_len :: "http_parser_url_fields \<Rightarrow> nat"

datatype url_result = UrlFail | UrlAbort | UrlOk http_parser_url

definition u16 :: "nat \<Rightarrow> nat" where "u16 n = n mod 65536"

definition http_parser_url_init :: http_parser_url where
  "http_parser_url_init =
     \<lparr>field_set = {}, u_port = 0, field_off = (\<lambda>_. 0), field_len = (\<lambda>_. 0)\<rparr>"

definition parse_server_char :: "char \<Rightarrow> state" where
  "parse_server_char ch =
     (if ch = CHR ''/'' then s_req_path
      else if ch = CHR ''?'' then s_req_query_string_start
      else if ch = CHR ''@'' then s_req_server_with_at
      else if IS_USERINFO_CHAR ch \<or> ch = CHR ''['' \<or> ch = CHR '']'' then s_req_server
      else s_dead)"

definition parse_query_char :: "char \<Rightarrow> state" where
  "parse_query_char ch =
     (if IS_URL_CHAR ch then s_req_query_string
      else if ch = CHR ''?'' then s_req_query_string
      else if ch = CHR ''#'' then s_req_fragment_start
      else s_dead)"

definition parse_url_char :: "state \<Rightarrow> char \<Rightarrow> state" where
  "parse_url_char s ch =
     (if ch = CHR '' '' \<or> ch = CR \<or> ch = LF then s_dead
      else if ch = HT \<or> ch = CHR 0x0C then s_dead
      else case s of
        s_req_spaces_before_url \<Rightarrow>
          (if ch = CHR ''/'' \<or> ch = CHR ''*'' then s_req_path
           else if IS_ALPHA ch then s_req_schema else s_dead)
      | s_req_schema \<Rightarrow>
          (if IS_ALPHA ch then s else if ch = CHR '':'' then s_req_schema_slash else s_dead)
      | s_req_schema_slash \<Rightarrow> (if ch = CHR ''/'' then s_req_schema_slash_slash else s_dead)
      | s_req_schema_slash_slash \<Rightarrow> (if ch = CHR ''/'' then s_req_server_start else s_dead)
      | s_req_server_with_at \<Rightarrow> (if ch = CHR ''@'' then s_dead else parse_server_char ch)
      | s_req_server_start \<Rightarrow> parse_server_char ch
      | s_req_server \<Rightarrow> parse_server_char ch
      | s_req_path \<Rightarrow>
          (if IS_URL_CHAR ch then s
           else if ch = CHR ''?'' then s_req_query_string_start
           else if ch = CHR ''#'' then s_req_fragment_start else s_dead)
      | s_req_query_string_start \<Rightarrow> parse_query_char ch
      | s_req_query_string \<Rightarrow> parse_query_char ch
      | s_req_fragment_start \<Rightarrow>
          (if IS_URL_CHAR ch then s_req_fragment
           else if ch = CHR ''?'' then s_req_fragment
           else if ch = CHR ''#'' then s else s_dead)
      | s_req_fragment \<Rightarrow>
          (if IS_URL_CHAR ch then s
           else if ch = CHR ''?'' \<or> ch = CHR ''#'' then s else s_dead)
      | _ \<Rightarrow> s_dead)"

definition http_parse_host_char :: "http_host_state \<Rightarrow> char \<Rightarrow> http_host_state" where
  "http_parse_host_char s ch =
     (let userinfo = (if ch = CHR ''@'' then s_http_host_start
                      else if IS_USERINFO_CHAR ch then s_http_userinfo else s_http_host_dead);
          v6_end = (if ch = CHR '':'' then s_http_host_port_start else s_http_host_dead);
          v6_start = (if IS_HEX ch \<or> ch = CHR '':'' \<or> ch = CHR ''.'' then s_http_host_v6
                      else if s = s_http_host_v6 \<and> ch = CHR ''%'' then s_http_host_v6_zone_start
                      else s_http_host_dead);
          zone_start = (if IS_ALPHANUM ch \<or> ch = CHR ''%'' \<or> ch = CHR ''.'' \<or> ch = CHR ''-'' \<or>
                          ch = CHR ''_'' \<or> ch = CHR ''~''
                        then s_http_host_v6_zone else s_http_host_dead);
          hport = (if IS_NUM ch then s_http_host_port else s_http_host_dead)
      in case s of
        s_http_userinfo \<Rightarrow> userinfo
      | s_http_userinfo_start \<Rightarrow> userinfo
      | s_http_host_start \<Rightarrow>
          (if ch = CHR ''['' then s_http_host_v6_start
           else if IS_HOST_CHAR ch then s_http_host else s_http_host_dead)
      | s_http_host \<Rightarrow> (if IS_HOST_CHAR ch then s_http_host else v6_end)
      | s_http_host_v6_end \<Rightarrow> v6_end
      | s_http_host_v6 \<Rightarrow> (if ch = CHR '']'' then s_http_host_v6_end else v6_start)
      | s_http_host_v6_start \<Rightarrow> v6_start
      | s_http_host_v6_zone \<Rightarrow> (if ch = CHR '']'' then s_http_host_v6_end else zone_start)
      | s_http_host_v6_zone_start \<Rightarrow> zone_start
      | s_http_host_port \<Rightarrow> hport
      | s_http_host_port_start \<Rightarrow> hport
      | _ \<Rightarrow> s_http_host_dead)"

text \<open>\<open>uf_begin f p u\<close> records that field \<open>f\<close> starts at \<open>p\<close> with length \<open>l\<close>;
  \<open>uf_extend\<close> adds one byte to it.\<close>

definition uf_begin :: "http_parser_url_fields \<Rightarrow> nat \<Rightarrow> nat \<Rightarrow> http_parser_url \<Rightarrow> http_parser_url" where
  "uf_begin f p l u =
     u\<lparr>field_off := (field_off u)(f := u16 p), field_len := (field_len u)(f := l),
       field_set := insert f (field_set u)\<rparr>"

definition uf_extend :: "http_parser_url_fields \<Rightarrow> http_parser_url \<Rightarrow> http_parser_url" where
  "uf_extend f u = u\<lparr>field_len := (field_len u)(f := u16 (field_len u f + 1))\<rparr>"

text \<open>What one byte of the authority does to the fields: the switch on \<open>new_s\<close>.\<close>

definition host_field_step ::
    "http_host_state \<Rightarrow> http_host_state \<Rightarrow> nat \<Rightarrow> http_parser_url \<Rightarrow> http_parser_url" where
  "host_field_step s new_s p u =
     (case new_s of
        s_http_host \<Rightarrow>
          uf_extend UF_HOST
            (if s \<noteq> s_http_host then u\<lparr>field_off := (field_off u)(UF_HOST := u16 p)\<rparr> else u)
      | s_http_host_v6 \<Rightarrow>
          uf_extend UF_HOST
            (if s \<noteq> s_http_host_v6 then u\<lparr>field_off := (field_off u)(UF_HOST := u16 p)\<rparr> else u)
      | s_http_host_v6_zone_start \<Rightarrow> uf_extend UF_HOST u
      | s_http_host_v6_zone \<Rightarrow> uf_extend UF_HOST u
      | s_http_host_port \<Rightarrow>
          uf_extend UF_PORT (if s \<noteq> s_http_host_port then uf_begin UF_PORT p 0 u else u)
      | s_http_userinfo \<Rightarrow>
          uf_extend UF_USERINFO (if s \<noteq> s_http_userinfo then uf_begin UF_USERINFO p 0 u else u)
      | _ \<Rightarrow> u)"

fun http_parse_host_loop ::
    "string \<Rightarrow> nat \<Rightarrow> http_host_state \<Rightarrow> http_parser_url \<Rightarrow> (http_host_state \<times> http_parser_url) option"
where
  "http_parse_host_loop [] p s u = Some (s, u)"
| "http_parse_host_loop (ch # rest) p s u =
     (let new_s = http_parse_host_char s ch in
      if new_s = s_http_host_dead then None
      else http_parse_host_loop rest (p + 1) new_s (host_field_step s new_s p u))"

definition host_state_final :: "http_host_state \<Rightarrow> bool" where
  "host_state_final s \<longleftrightarrow>
     s \<notin> {s_http_host_start, s_http_host_v6_start, s_http_host_v6, s_http_host_v6_zone_start,
       s_http_host_v6_zone, s_http_host_port_start, s_http_userinfo, s_http_userinfo_start}"

definition http_parse_host :: "string \<Rightarrow> http_parser_url \<Rightarrow> bool \<Rightarrow> url_result" where
  "http_parse_host buf u found_at =
     (let off = field_off u UF_HOST; len = field_len u UF_HOST in
      if UF_HOST \<notin> field_set u then UrlAbort
      else case http_parse_host_loop (take len (drop off buf)) off
             (if found_at then s_http_userinfo_start else s_http_host_start)
             (u\<lparr>field_len := (field_len u)(UF_HOST := 0)\<rparr>) of
        None \<Rightarrow> UrlFail
      | Some (s, u') \<Rightarrow> (if host_state_final s then UrlOk u' else UrlFail))"

text \<open>The main loop: which field a state belongs to, \<open>None\<close> for the delimiters.\<close>

definition url_field_of :: "state \<Rightarrow> http_parser_url_fields option" where
  "url_field_of s =
     (case s of
        s_req_schema \<Rightarrow> Some UF_SCHEMA
      | s_req_server_with_at \<Rightarrow> Some UF_HOST
      | s_req_server \<Rightarrow> Some UF_HOST
      | s_req_path \<Rightarrow> Some UF_PATH
      | s_req_query_string \<Rightarrow> Some UF_QUERY
      | s_req_fragment \<Rightarrow> Some UF_FRAGMENT
      | _ \<Rightarrow> None)"

definition url_delimiter :: "state \<Rightarrow> bool" where
  "url_delimiter s \<longleftrightarrow>
     s \<in> {s_req_schema_slash, s_req_schema_slash_slash, s_req_server_start,
       s_req_query_string_start, s_req_fragment_start}"

datatype url_loop_result =
    LoopFail | LoopAbort | LoopDone http_parser_url bool

fun parse_url_loop ::
    "string \<Rightarrow> nat \<Rightarrow> state \<Rightarrow> http_parser_url_fields \<Rightarrow> bool \<Rightarrow> http_parser_url \<Rightarrow> url_loop_result"
where
  "parse_url_loop [] p s old_uf found_at u = LoopDone u found_at"
| "parse_url_loop (ch # rest) p s old_uf found_at u =
     (let s' = parse_url_char s ch in
      if s' = s_dead then LoopFail
      else if url_delimiter s' then parse_url_loop rest (p + 1) s' old_uf found_at u
      else case url_field_of s' of
        None \<Rightarrow> LoopAbort
      | Some uf \<Rightarrow>
          (let found_at' = (found_at \<or> s' = s_req_server_with_at) in
           if uf = old_uf then parse_url_loop rest (p + 1) s' old_uf found_at' (uf_extend uf u)
           else parse_url_loop rest (p + 1) s' uf found_at' (uf_begin uf p 1 u)))"

text \<open>The port digits; \<open>None\<close> when the value passes \<open>0xffff\<close>.\<close>

fun parse_port :: "nat \<Rightarrow> string \<Rightarrow> nat option" where
  "parse_port v [] = Some v"
| "parse_port v (c # s) =
     (let v' = v * 10 + (of_char c - 48) in if v' > 0xffff then None else parse_port v' s)"

definition parse_url_port :: "string \<Rightarrow> http_parser_url \<Rightarrow> url_result" where
  "parse_url_port buf u =
     (if UF_PORT \<in> field_set u then
        let off = field_off u UF_PORT; len = field_len u UF_PORT in
        if \<not> off + len \<le> length buf then UrlAbort
        else (case parse_port 0 (take len (drop off buf)) of
                None \<Rightarrow> UrlFail
              | Some v \<Rightarrow> UrlOk (u\<lparr>u_port := u16 v\<rparr>))
      else UrlOk u)"

definition http_parser_parse_url :: "string \<Rightarrow> bool \<Rightarrow> http_parser_url \<Rightarrow> url_result" where
  "http_parser_parse_url buf is_connect u0 =
     (if buf = [] then UrlFail
      else case parse_url_loop buf 0
             (if is_connect then s_req_server_start else s_req_spaces_before_url) UF_MAX False
             (u0\<lparr>u_port := 0, field_set := {}\<rparr>) of
        LoopFail \<Rightarrow> UrlFail
      | LoopAbort \<Rightarrow> UrlAbort
      | LoopDone u found_at \<Rightarrow>
          if UF_SCHEMA \<in> field_set u \<and> UF_HOST \<notin> field_set u then UrlFail
          else case (if UF_HOST \<in> field_set u then http_parse_host buf u found_at else UrlOk u) of
            UrlFail \<Rightarrow> UrlFail
          | UrlAbort \<Rightarrow> UrlAbort
          | UrlOk u' \<Rightarrow>
              if is_connect \<and> field_set u' \<noteq> {UF_HOST, UF_PORT} then UrlFail
              else parse_url_port buf u')"

end
