(* ===== verification/Url_Parser_Safety.thy ===== *)
theory Url_Parser_Safety
  imports Url_Parser
begin

text \<open>
  Properties of the URL parser: every field it reports lies inside the buffer and it never
  fails an assertion; the port is the decimal value of its digits; a CONNECT target is host and
  port and nothing else; and a URL put together from its parts is taken apart into them.
\<close>

section \<open>The fields stay inside the buffer\<close>

definition fields_within :: "nat \<Rightarrow> http_parser_url \<Rightarrow> bool" where
  "fields_within n u \<longleftrightarrow> (\<forall>f \<in> field_set u. field_off u f + field_len u f \<le> n)"

lemma u16_le: "u16 n \<le> n"
  by (simp add: u16_def)

lemma fields_within_mono: "fields_within n u \<Longrightarrow> n \<le> m \<Longrightarrow> fields_within m u"
  by (force simp: fields_within_def)

lemma fields_within_extend: "fields_within p u \<Longrightarrow> fields_within (p + 1) (uf_extend f u)"
  using u16_le [of "field_len u f + 1"] by (auto simp: fields_within_def uf_extend_def le_Suc_eq)

lemma fields_within_begin: "fields_within p u \<Longrightarrow> l \<le> 1 \<Longrightarrow> fields_within (p + 1) (uf_begin f p l u)"
  using u16_le [of p] by (auto simp: fields_within_def uf_begin_def le_Suc_eq)

lemma parse_url_char_field:
  "parse_url_char s ch \<noteq> s_dead \<Longrightarrow> \<not> url_delimiter (parse_url_char s ch) \<Longrightarrow>
     url_field_of (parse_url_char s ch) \<noteq> None"
  by (cases s; auto simp: parse_url_char_def parse_server_char_def parse_query_char_def url_delimiter_def
      url_field_of_def split: if_splits)

lemma url_field_of_range: "url_field_of s = Some f \<Longrightarrow> f \<in> {UF_SCHEMA, UF_HOST, UF_PATH, UF_QUERY, UF_FRAGMENT}"
  by (cases s; simp add: url_field_of_def)

lemma parse_url_loop_ok:
  assumes "fields_within p u" "field_set u \<subseteq> {UF_SCHEMA, UF_HOST, UF_PATH, UF_QUERY, UF_FRAGMENT}"
  shows "case parse_url_loop buf p s old_uf found_at u of
      LoopFail \<Rightarrow> True
    | LoopAbort \<Rightarrow> False
    | LoopDone u' _ \<Rightarrow> fields_within (p + length buf) u' \<and>
        field_set u' \<subseteq> {UF_SCHEMA, UF_HOST, UF_PATH, UF_QUERY, UF_FRAGMENT} \<and> u_port u' = u_port u"
  using assms
proof (induction buf p s old_uf found_at u rule: parse_url_loop.induct)
  case (2 ch rest p s old_uf found_at u)
  let ?s = "parse_url_char s ch"
  consider "?s = s_dead" | "?s \<noteq> s_dead" "url_delimiter ?s"
    | uf where "?s \<noteq> s_dead" "\<not> url_delimiter ?s" "url_field_of ?s = Some uf"
    using parse_url_char_field [of s ch] by fastforce
  then show ?case
  proof cases
    case 2
    with "2.IH"(1) [OF refl 2] fields_within_mono [OF "2.prems"(1), of "p + 1"] "2.prems"(2)
    show ?thesis by (simp split: url_loop_result.splits)
  next
    case (3 uf)
    from fields_within_extend [OF "2.prems"(1), of uf] fields_within_begin [OF "2.prems"(1), of 1 uf]
      url_field_of_range [OF 3(3)] "2.prems"(2)
    have ext: "fields_within (p + 1) (uf_extend uf u)" "u_port (uf_extend uf u) = u_port u"
      "field_set (uf_extend uf u) \<subseteq> {UF_SCHEMA, UF_HOST, UF_PATH, UF_QUERY, UF_FRAGMENT}"
      and beg: "fields_within (p + 1) (uf_begin uf p 1 u)" "u_port (uf_begin uf p 1 u) = u_port u"
      "field_set (uf_begin uf p 1 u) \<subseteq> {UF_SCHEMA, UF_HOST, UF_PATH, UF_QUERY, UF_FRAGMENT}"
      by (auto simp: uf_extend_def uf_begin_def)
    show ?thesis
    proof (cases "uf = old_uf")
      case True
      with 3 "2.IH"(2) [OF refl 3(1,2) 3(3) refl True ext(1,3)] ext(2) show ?thesis
        by (simp add: Let_def split: url_loop_result.splits)
    next
      case False
      with 3 "2.IH"(3) [OF refl 3(1,2) 3(3) refl False beg(1,3)] beg(2) show ?thesis
        by (simp add: Let_def split: url_loop_result.splits)
    qed
  qed simp
qed simp

section \<open>The authority\<close>

definition authority_fields :: "http_parser_url_fields set" where
  "authority_fields = {UF_HOST, UF_PORT, UF_USERINFO}"

text \<open>The states before the first byte of the host, and those inside it.\<close>

definition pre_host :: "http_host_state \<Rightarrow> bool" where
  "pre_host s \<longleftrightarrow> s \<in> {s_http_userinfo_start, s_http_userinfo, s_http_host_start, s_http_host_v6_start}"

definition in_host :: "http_host_state \<Rightarrow> bool" where
  "in_host s \<longleftrightarrow> s \<in> {s_http_host, s_http_host_v6, s_http_host_v6_zone_start, s_http_host_v6_zone}"

text \<open>What the authority parser keeps of the fields it writes, and of the others.\<close>

definition authority_within :: "http_host_state \<Rightarrow> nat \<Rightarrow> http_parser_url \<Rightarrow> bool" where
  "authority_within s p u \<longleftrightarrow>
     (pre_host s \<longrightarrow> field_len u UF_HOST = 0) \<and>
     field_off u UF_HOST + field_len u UF_HOST \<le> p \<and>
     (UF_PORT \<in> field_set u \<longrightarrow> field_off u UF_PORT + field_len u UF_PORT \<le> p) \<and>
     (UF_USERINFO \<in> field_set u \<longrightarrow> field_off u UF_USERINFO + field_len u UF_USERINFO \<le> p)"

definition same_elsewhere :: "http_parser_url \<Rightarrow> http_parser_url \<Rightarrow> bool" where
  "same_elsewhere u u' \<longleftrightarrow> u_port u' = u_port u \<and> field_set u \<subseteq> field_set u' \<and>
     field_set u' \<subseteq> field_set u \<union> {UF_PORT, UF_USERINFO} \<and>
     (\<forall>f. f \<notin> authority_fields \<longrightarrow> field_off u' f = field_off u f \<and> field_len u' f = field_len u f)"

lemmas host_step_defs = host_field_step_def uf_extend_def uf_begin_def

lemma host_field_step_same: "same_elsewhere u (host_field_step s s' p u)"
  by (cases s'; simp add: host_step_defs same_elsewhere_def authority_fields_def subset_insertI2 insert_commute)

lemma same_elsewhere_trans: "same_elsewhere u v \<Longrightarrow> same_elsewhere v w \<Longrightarrow> same_elsewhere u w"
  by (auto simp: same_elsewhere_def)

lemma host_field_step_within:
  assumes "authority_within s p u" "http_parse_host_char s ch = s'" "s' \<noteq> s_http_host_dead"
  shows "authority_within s' (p + 1) (host_field_step s s' p u)"
  using assms u16_le [of p] u16_le [of "field_len u UF_HOST + 1"] u16_le [of "field_len u UF_PORT + 1"]
    u16_le [of "field_len u UF_USERINFO + 1"] u16_le [of 1]
  by (cases s; simp add: http_parse_host_char_def Let_def host_step_defs authority_within_def
      pre_host_def split: if_splits; auto)

lemma http_parse_host_loop_within:
  assumes "authority_within s p u" "http_parse_host_loop buf p s u = Some (s', u')"
  shows "authority_within s' (p + length buf) u' \<and> same_elsewhere u u'"
  using assms
proof (induction buf p s u rule: http_parse_host_loop.induct)
  case (2 ch rest p s u)
  let ?s = "http_parse_host_char s ch" and ?u = "host_field_step s (http_parse_host_char s ch) p u"
  from "2.prems" have live: "?s \<noteq> s_http_host_dead" and rec: "http_parse_host_loop rest (p + 1) ?s ?u = Some (s', u')"
    by (simp_all add: Let_def split: if_splits)
  from "2.IH" [OF refl live host_field_step_within [OF "2.prems"(1) refl live] rec]
    host_field_step_same [of u s ?s p] show ?case
    by (auto intro: same_elsewhere_trans)
qed (auto simp: same_elsewhere_def)

lemma http_parse_host_ok:
  assumes "fields_within n u" "field_set u \<subseteq> {UF_SCHEMA, UF_HOST, UF_PATH, UF_QUERY, UF_FRAGMENT}"
    "UF_HOST \<in> field_set u" "n \<le> length buf"
  shows "case http_parse_host buf u found_at of
      UrlFail \<Rightarrow> True
    | UrlAbort \<Rightarrow> False
    | UrlOk u' \<Rightarrow> fields_within n u' \<and> UF_HOST \<in> field_set u' \<and> u_port u' = u_port u \<and>
        field_set u' \<subseteq> field_set u \<union> {UF_PORT, UF_USERINFO}"
proof -
  let ?off = "field_off u UF_HOST" and ?len = "field_len u UF_HOST"
  let ?u = "u\<lparr>field_len := (field_len u)(UF_HOST := 0)\<rparr>"
  let ?s = "if found_at then s_http_userinfo_start else s_http_host_start"
  have n: "?off + ?len \<le> n" using assms by (simp add: fields_within_def)
  have start: "authority_within ?s ?off ?u" using assms by (auto simp: authority_within_def)
  show ?thesis
  proof (cases "http_parse_host_loop (take ?len (drop ?off buf)) ?off ?s ?u")
    case None
    with assms(3) show ?thesis by (simp add: http_parse_host_def Let_def)
  next
    case (Some r)
    obtain s' u' where r: "r = (s', u')" by (cases r)
    from http_parse_host_loop_within [OF start Some [unfolded r]] n assms(4)
    have w: "authority_within s' (?off + ?len) u'" "same_elsewhere ?u u'" by (simp_all add: min_absorb2)
    have "fields_within n u'"
      unfolding fields_within_def
    proof
      fix f assume f: "f \<in> field_set u'"
      show "field_off u' f + field_len u' f \<le> n"
      proof (cases "f \<in> authority_fields")
        case True
        with f w(1) n show ?thesis by (auto simp: authority_fields_def authority_within_def)
      next
        case False
        with f w(2) assms(1) show ?thesis
          by (auto simp: same_elsewhere_def authority_fields_def fields_within_def)
      qed
    qed
    with w assms(3) Some r show ?thesis
      by (auto simp: http_parse_host_def Let_def same_elsewhere_def)
  qed
qed

lemma parse_port_bound: "parse_port v ds = Some w \<Longrightarrow> v \<le> 0xffff \<Longrightarrow> w \<le> 0xffff"
  by (induction v ds rule: parse_port.induct) (auto simp: Let_def split: if_splits)

lemma http_parser_parse_url_ok:
  "case http_parser_parse_url buf is_connect u0 of
      UrlFail \<Rightarrow> True
    | UrlAbort \<Rightarrow> False
    | UrlOk u \<Rightarrow> fields_within (length buf) u \<and> u_port u \<le> 65535 \<and>
        (is_connect \<longrightarrow> field_set u = {UF_HOST, UF_PORT}) \<and>
        (UF_SCHEMA \<in> field_set u \<longrightarrow> UF_HOST \<in> field_set u) \<and>
        (UF_PORT \<notin> field_set u \<longrightarrow> u_port u = 0)"
proof (cases "buf = []")
  case False
  let ?u0 = "u0\<lparr>u_port := 0, field_set := {}\<rparr>"
  let ?r = "parse_url_loop buf 0 (if is_connect then s_req_server_start else s_req_spaces_before_url)
      UF_MAX False ?u0"
  have loop: "case ?r of LoopFail \<Rightarrow> True | LoopAbort \<Rightarrow> False
    | LoopDone u' _ \<Rightarrow> fields_within (0 + length buf) u' \<and>
        field_set u' \<subseteq> {UF_SCHEMA, UF_HOST, UF_PATH, UF_QUERY, UF_FRAGMENT} \<and> u_port u' = u_port ?u0"
    by (rule parse_url_loop_ok) (simp_all add: fields_within_def)
  have port: "case parse_url_port buf u of UrlFail \<Rightarrow> True | UrlAbort \<Rightarrow> False
      | UrlOk u' \<Rightarrow> field_set u' = field_set u \<and> field_off u' = field_off u \<and> field_len u' = field_len u \<and>
          u_port u' \<le> 65535 \<and> (UF_PORT \<notin> field_set u \<longrightarrow> u_port u' = 0)"
    if "fields_within (length buf) u" "u_port u = 0" for u
    using that parse_port_bound [of 0 "take (field_len u UF_PORT) (drop (field_off u UF_PORT) buf)"]
    by (auto simp: parse_url_port_def Let_def fields_within_def u16_def split: option.splits)
  show ?thesis
  proof (cases ?r)
    case (LoopDone u fa)
    with loop have u: "fields_within (length buf) u" "u_port u = 0"
      "field_set u \<subseteq> {UF_SCHEMA, UF_HOST, UF_PATH, UF_QUERY, UF_FRAGMENT}" by auto
    let ?h = "if UF_HOST \<in> field_set u then http_parse_host buf u fa else UrlOk u"
    have h: "case ?h of UrlFail \<Rightarrow> True | UrlAbort \<Rightarrow> False
      | UrlOk u' \<Rightarrow> fields_within (length buf) u' \<and> u_port u' = 0 \<and>
          (UF_HOST \<in> field_set u \<longrightarrow> UF_HOST \<in> field_set u') \<and>
          field_set u' \<subseteq> field_set u \<union> {UF_PORT, UF_USERINFO}"
      using u http_parse_host_ok [OF u(1,3), of buf fa] by (auto split: url_result.splits)
    show ?thesis
    proof (cases ?h)
      case (UrlOk u')
      with h u port [of u'] False LoopDone show ?thesis
        by (auto simp: http_parser_parse_url_def fields_within_def split: url_result.splits)
    qed (use h False LoopDone in \<open>auto simp: http_parser_parse_url_def\<close>)
  qed (use False loop in \<open>auto simp: http_parser_parse_url_def\<close>)
qed (simp add: http_parser_parse_url_def)

section \<open>Taking a composed URL apart\<close>

definition url_slice :: "string \<Rightarrow> http_parser_url \<Rightarrow> http_parser_url_fields \<Rightarrow> string" where
  "url_slice buf u f = (if f \<in> field_set u then take (field_len u f) (drop (field_off u f) buf) else [])"

definition opt_part :: "char \<Rightarrow> string \<Rightarrow> string" where
  "opt_part c xs = (if xs = [] then [] else c # xs)"

definition url_text :: "string \<Rightarrow> string \<Rightarrow> string \<Rightarrow> string \<Rightarrow> string \<Rightarrow> string" where
  "url_text sch host ds path query =
     sch @ ''://'' @ host @ opt_part (CHR '':'') ds @ path @ opt_part (CHR ''?'') query"

definition uf_run :: "http_parser_url_fields \<Rightarrow> nat \<Rightarrow> http_parser_url \<Rightarrow> http_parser_url" where
  "uf_run f n u = u\<lparr>field_len := (field_len u)(f := field_len u f + n)\<rparr>"

lemma parse_url_loop_run:
  assumes "\<forall>c \<in> set xs. parse_url_char s c = s" "url_field_of s = Some uf" "\<not> url_delimiter s"
    "s \<noteq> s_dead" "s \<noteq> s_req_server_with_at" "field_len u uf + length xs < 65536"
  shows "parse_url_loop (xs @ rest) p s uf fa u = parse_url_loop rest (p + length xs) s uf fa (uf_run uf (length xs) u)"
  using assms
proof (induction xs arbitrary: p u)
  case (Cons c xs)
  then have "uf_run uf (length xs) (uf_extend uf u) = uf_run uf (length (c # xs)) u"
    by (simp add: uf_run_def uf_extend_def u16_def)
  moreover have "field_len (uf_extend uf u) uf + length xs < 65536"
    using Cons.prems by (simp add: uf_extend_def u16_def)
  ultimately show ?case using Cons.prems Cons.IH [of "uf_extend uf u" "p + 1"] by simp
qed (simp add: uf_run_def)

lemma parse_url_loop_enter:
  assumes "parse_url_char s c = s'" "s' \<noteq> s_dead" "\<not> url_delimiter s'" "s' \<noteq> s_req_server_with_at"
    "url_field_of s' = Some uf" "uf \<noteq> old" "\<forall>c \<in> set xs. parse_url_char s' c = s'"
    "length xs < 65535"
  shows "parse_url_loop ((c # xs) @ rest) p s old fa u =
    parse_url_loop rest (p + length (c # xs)) s' uf fa (uf_begin uf p (length (c # xs)) u)"
proof -
  have "uf_run uf (length xs) (uf_begin uf p 1 u) = uf_begin uf p (length (c # xs)) u"
    by (simp add: uf_run_def uf_begin_def)
  with assms show ?thesis
    using parse_url_loop_run [of xs s' uf "uf_begin uf p 1 u" rest "p + 1" fa]
    by (simp add: uf_begin_def)
qed

lemma parse_url_chars:
  "IS_ALPHA c \<Longrightarrow> parse_url_char s_req_schema c = s_req_schema"
  "IS_ALPHA c \<Longrightarrow> parse_url_char s_req_spaces_before_url c = s_req_schema"
  "IS_HOST_CHAR c \<Longrightarrow> parse_url_char s_req_server c = s_req_server"
  "IS_HOST_CHAR c \<Longrightarrow> parse_url_char s_req_server_start c = s_req_server"
  "IS_NUM c \<Longrightarrow> parse_url_char s_req_server c = s_req_server"
  "IS_URL_CHAR c \<Longrightarrow> parse_url_char s_req_path c = s_req_path"
  "IS_URL_CHAR c \<Longrightarrow> parse_url_char s_req_query_string c = s_req_query_string"
  "IS_URL_CHAR c \<Longrightarrow> parse_url_char s_req_query_string_start c = s_req_query_string"
proof -
  have alpha: "c \<noteq> CHR '' ''" "c \<noteq> CR" "c \<noteq> LF" "c \<noteq> HT" "c \<noteq> CHR 0x0C" "c \<noteq> CHR ''/''" "c \<noteq> CHR ''*''"
    "c \<noteq> CHR ''?''" "c \<noteq> CHR ''@''" if "IS_ALPHA c \<or> IS_HOST_CHAR c \<or> IS_NUM c"
    using that by (auto simp: IS_ALPHA_def IS_HOST_CHAR_def IS_ALPHANUM_def IS_NUM_def)
  have url: "c \<noteq> CHR '' ''" "c \<noteq> CR" "c \<noteq> LF" "c \<noteq> HT" "c \<noteq> CHR 0x0C" if "IS_URL_CHAR c"
    using that by (auto simp: IS_URL_CHAR_def normal_url_char_def)
  have user: "IS_USERINFO_CHAR c" if "IS_HOST_CHAR c \<or> IS_NUM c"
    using that by (auto simp: IS_USERINFO_CHAR_def IS_HOST_CHAR_def IS_ALPHANUM_def IS_MARK_def)
  show "IS_ALPHA c \<Longrightarrow> parse_url_char s_req_schema c = s_req_schema"
    and "IS_ALPHA c \<Longrightarrow> parse_url_char s_req_spaces_before_url c = s_req_schema"
    and "IS_HOST_CHAR c \<Longrightarrow> parse_url_char s_req_server c = s_req_server"
    and "IS_HOST_CHAR c \<Longrightarrow> parse_url_char s_req_server_start c = s_req_server"
    and "IS_NUM c \<Longrightarrow> parse_url_char s_req_server c = s_req_server"
    and "IS_URL_CHAR c \<Longrightarrow> parse_url_char s_req_path c = s_req_path"
    and "IS_URL_CHAR c \<Longrightarrow> parse_url_char s_req_query_string c = s_req_query_string"
    and "IS_URL_CHAR c \<Longrightarrow> parse_url_char s_req_query_string_start c = s_req_query_string"
    using alpha url user by (simp_all add: parse_url_char_def parse_server_char_def parse_query_char_def)
qed

lemma digits_val_mono: "n \<le> digits_val n s"
proof (induction n s rule: digits_val.induct)
  case (2 n c s)
  then show ?case by (cases "is_digit c") simp_all
qed simp

lemma parse_port_digits:
  "list_all is_digit ds \<Longrightarrow> digits_val v ds \<le> 65535 \<Longrightarrow> parse_port v ds = Some (digits_val v ds)"
proof (induction v ds rule: parse_port.induct)
  case (2 v c s)
  have "v * 10 + digit_val c \<le> digits_val (10 * v + digit_val c) s"
    using digits_val_mono [of "10 * v + digit_val c" s] by (simp add: mult.commute)
  with 2 show ?case by (simp add: digit_val_def Let_def mult.commute)
qed simp

lemma http_parse_host_loop_host:
  assumes "\<forall>c \<in> set xs. IS_HOST_CHAR c" "field_len u UF_HOST + length xs < 65536"
  shows "http_parse_host_loop (xs @ rest) p s_http_host u =
    http_parse_host_loop rest (p + length xs) s_http_host (uf_run UF_HOST (length xs) u)"
  using assms
proof (induction xs arbitrary: p u)
  case (Cons c xs)
  then have "uf_run UF_HOST (length xs) (uf_extend UF_HOST u) = uf_run UF_HOST (length (c # xs)) u"
    "field_len (uf_extend UF_HOST u) UF_HOST + length xs < 65536"
    by (simp_all add: uf_run_def uf_extend_def u16_def)
  with Cons.prems Cons.IH [of "uf_extend UF_HOST u" "p + 1"] show ?case
    by (simp add: http_parse_host_char_def host_field_step_def)
qed (simp add: uf_run_def)

lemma http_parse_host_loop_port:
  assumes "\<forall>c \<in> set xs. IS_NUM c" "field_len u UF_PORT + length xs < 65536"
  shows "http_parse_host_loop xs p s_http_host_port u = Some (s_http_host_port, uf_run UF_PORT (length xs) u)"
  using assms
proof (induction xs arbitrary: p u)
  case (Cons c xs)
  then have "uf_run UF_PORT (length xs) (uf_extend UF_PORT u) = uf_run UF_PORT (length (c # xs)) u"
    "field_len (uf_extend UF_PORT u) UF_PORT + length xs < 65536"
    by (simp_all add: uf_run_def uf_extend_def u16_def)
  with Cons.prems Cons.IH [of "uf_extend UF_PORT u" "p + 1"] show ?case
    by (simp add: http_parse_host_char_def host_field_step_def)
qed (simp add: uf_run_def)

lemma http_parse_host_loop_authority:
  assumes "host \<noteq> []" "\<forall>c \<in> set host. IS_HOST_CHAR c" "\<forall>c \<in> set ds. IS_NUM c" "field_len u UF_HOST = 0"
    "length host + length ds < 65535"
  shows "http_parse_host_loop (host @ opt_part (CHR '':'') ds) p s_http_host_start u =
    Some (if ds = [] then s_http_host else s_http_host_port,
      (if ds = [] then id else uf_begin UF_PORT (p + length host + 1) (length ds))
        (u\<lparr>field_off := (field_off u)(UF_HOST := u16 p), field_len := (field_len u)(UF_HOST := length host)\<rparr>))"
proof -
  obtain h hs where host: "host = h # hs" using assms(1) by (cases host) auto
  let ?u = "u\<lparr>field_off := (field_off u)(UF_HOST := u16 p), field_len := (field_len u)(UF_HOST := length host)\<rparr>"
  let ?r = "opt_part (CHR '':'') ds"
  have "http_parse_host_loop (host @ ?r) p s_http_host_start u =
      http_parse_host_loop (hs @ ?r) (p + 1) s_http_host
        (uf_extend UF_HOST (u\<lparr>field_off := (field_off u)(UF_HOST := u16 p)\<rparr>))"
    using assms by (auto simp: host http_parse_host_char_def host_field_step_def IS_HOST_CHAR_def
        IS_ALPHANUM_def IS_ALPHA_def IS_NUM_def)
  also have "\<dots> = http_parse_host_loop ?r (p + length host) s_http_host ?u"
    using assms by (subst http_parse_host_loop_host)
      (auto simp: host uf_extend_def uf_run_def u16_def)
  finally have eq: "http_parse_host_loop (host @ ?r) p s_http_host_start u = \<dots>" .
  show ?thesis
  proof (cases ds)
    case Nil
    with eq show ?thesis by (simp add: opt_part_def)
  next
    case (Cons d ds')
    have colon: "\<not> IS_HOST_CHAR CHR '':''" by (simp add: IS_HOST_CHAR_def IS_ALPHANUM_def IS_ALPHA_def IS_NUM_def)
    have "uf_run UF_PORT (length ds') (uf_extend UF_PORT (uf_begin UF_PORT q 0 ?u)) = uf_begin UF_PORT q (length ds) ?u"
      for q by (simp add: uf_run_def uf_begin_def uf_extend_def u16_def Cons)
    with Cons eq assms colon show ?thesis
      using http_parse_host_loop_port [of ds' "uf_extend UF_PORT (uf_begin UF_PORT (p + length host + 1) 0 ?u)"]
      by (simp add: opt_part_def http_parse_host_char_def host_field_step_def uf_extend_def uf_begin_def u16_def)
  qed
qed

lemma parse_url_loop_slashes:
  "parse_url_loop (''://'' @ rest) p s_req_schema old fa u = parse_url_loop rest (p + 3) s_req_server_start old fa u"
  by (simp add: parse_url_char_def url_delimiter_def IS_ALPHA_def numeral_3_eq_3)

lemma parse_url_loop_text:
  assumes sch: "sch \<noteq> []" "\<forall>c \<in> set sch. IS_ALPHA c"
    and host: "host \<noteq> []" "\<forall>c \<in> set host. IS_HOST_CHAR c" and ds: "\<forall>c \<in> set ds. IS_NUM c"
    and path: "\<forall>c \<in> set path. IS_URL_CHAR c" and query: "\<forall>c \<in> set query. IS_URL_CHAR c"
    and len: "length (url_text sch host ds (CHR ''/'' # path) query) < 65536"
  shows "parse_url_loop (url_text sch host ds (CHR ''/'' # path) query) 0 s_req_spaces_before_url UF_MAX False u =
    (let auth = host @ opt_part (CHR '':'') ds; a = length sch + 3; b = a + length auth; c = b + length path + 1 in
     LoopDone ((if query = [] then id else uf_begin UF_QUERY (c + 1) (length query))
       (uf_begin UF_PATH b (length path + 1) (uf_begin UF_HOST a (length auth)
         (uf_begin UF_SCHEMA 0 (length sch) u)))) False)"
proof -
  let ?auth = "host @ opt_part (CHR '':'') ds"
  obtain s ss where s: "sch = s # ss" using sch(1) by (cases sch) auto
  obtain h hs where h: "?auth = h # hs" "IS_HOST_CHAR h" using host by (cases host) auto
  have hs: "\<forall>c \<in> set hs. parse_url_char s_req_server c = s_req_server"
  proof
    fix c assume "c \<in> set hs"
    then have "c \<in> set ?auth" by (simp add: h(1))
    then have "IS_HOST_CHAR c \<or> IS_NUM c \<or> c = CHR '':''" using host ds by (auto simp: opt_part_def split: if_splits)
    then show "parse_url_char s_req_server c = s_req_server"
      by (auto simp: parse_url_chars) (simp add: parse_url_char_def parse_server_char_def IS_USERINFO_CHAR_def)
  qed
  let ?u1 = "uf_begin UF_SCHEMA 0 (length sch) u"
  let ?a = "length sch + 3" and ?b = "length sch + 3 + length ?auth"
  let ?u2 = "uf_begin UF_HOST ?a (length ?auth) ?u1"
  let ?u3 = "uf_begin UF_PATH ?b (length path + 1) ?u2"
  let ?q = "opt_part (CHR ''?'') query"
  let ?tail = "(CHR ''/'' # path) @ ?q"
  have lens: "length ss < 65535" "length hs < 65535" "length path < 65535" "length query < 65535"
  proof -
    have "length (url_text sch host ds (CHR ''/'' # path) query) =
        length ss + length ?auth + length path + length ?q + 5" by (simp add: url_text_def s)
    moreover have "length ?auth = length hs + 1" unfolding h(1) by simp
    moreover have "length query \<le> length ?q" by (simp add: opt_part_def)
    ultimately show "length ss < 65535" "length hs < 65535" "length path < 65535" "length query < 65535"
      using len by linarith+
  qed
  have slash: "parse_url_char s_req_server (CHR ''/'') = s_req_path"
    by (simp add: parse_url_char_def parse_server_char_def)
  have "parse_url_loop (url_text sch host ds (CHR ''/'' # path) query) 0 s_req_spaces_before_url UF_MAX False u =
      parse_url_loop ((s # ss) @ ''://'' @ ?auth @ ?tail) 0 s_req_spaces_before_url UF_MAX False u"
    by (simp add: url_text_def s)
  also have "\<dots> = parse_url_loop (''://'' @ ?auth @ ?tail) (length sch) s_req_schema UF_SCHEMA False ?u1"
    using sch lens by (subst parse_url_loop_enter [where s' = s_req_schema and uf = UF_SCHEMA])
      (simp_all add: s parse_url_chars url_delimiter_def url_field_of_def)
  also have "\<dots> = parse_url_loop ((h # hs) @ ?tail) ?a s_req_server_start UF_SCHEMA False ?u1"
    unfolding parse_url_loop_slashes h(1) ..
  also have "\<dots> = parse_url_loop ?tail ?b s_req_server UF_HOST False ?u2"
    using h hs lens by (subst parse_url_loop_enter [where s' = s_req_server and uf = UF_HOST])
      (simp_all add: parse_url_chars url_delimiter_def url_field_of_def)
  also have "\<dots> = parse_url_loop ?q (?b + length path + 1) s_req_path UF_PATH False ?u3"
    using path lens by (subst parse_url_loop_enter [where s' = s_req_path and uf = UF_PATH])
      (simp_all add: parse_url_chars url_delimiter_def url_field_of_def slash)
  also have "\<dots> = LoopDone ((if query = [] then id else uf_begin UF_QUERY (?b + length path + 1 + 1) (length query)) ?u3) False"
  proof (cases query)
    case (Cons q qs)
    have mark: "parse_url_char s_req_path (CHR ''?'') = s_req_query_string_start"
      by (simp add: parse_url_char_def IS_URL_CHAR_def normal_url_char_def)
    from Cons query lens show ?thesis
      using parse_url_loop_enter [of s_req_query_string_start q s_req_query_string UF_QUERY UF_PATH qs "[]"
          "?b + length path + 2" False ?u3]
      by (simp add: opt_part_def mark parse_url_chars url_delimiter_def url_field_of_def)
  qed (simp add: opt_part_def)
  finally show ?thesis by (simp add: Let_def)
qed

lemma IS_NUM_is_digit: "IS_NUM c = is_digit c"
  by (simp add: IS_NUM_def is_digit_def)

definition with_authority :: "nat \<Rightarrow> string \<Rightarrow> string \<Rightarrow> http_parser_url \<Rightarrow> http_parser_url" where
  "with_authority a host ds v =
     (if ds = [] then id else uf_begin UF_PORT (a + length host + 1) (length ds))
       (v\<lparr>field_off := (field_off v)(UF_HOST := a), field_len := (field_len v)(UF_HOST := length host)\<rparr>)"

lemma http_parse_host_authority:
  assumes "host \<noteq> []" "\<forall>c \<in> set host. IS_HOST_CHAR c" "\<forall>c \<in> set ds. IS_NUM c"
    "length host + length ds < 65535" "field_off v UF_HOST = a" "a < 65536" "UF_HOST \<in> field_set v"
    "field_len v UF_HOST = length (host @ opt_part (CHR '':'') ds)"
    "take (length (host @ opt_part (CHR '':'') ds)) (drop a t) = host @ opt_part (CHR '':'') ds"
  shows "http_parse_host t v False = UrlOk (with_authority a host ds v)"
  using assms(4-) http_parse_host_loop_authority [OF assms(1-3), of "v\<lparr>field_len := (field_len v)(UF_HOST := 0)\<rparr>" a]
  by (simp add: http_parse_host_def Let_def with_authority_def host_state_final_def u16_def)

lemma parse_url_port_authority:
  assumes "UF_PORT \<notin> field_set v" "u_port v = 0" "list_all is_digit ds" "digits_val 0 ds \<le> 65535"
    "a + length host + 1 < 65536 \<or> ds = []" "drop (a + length host) t = opt_part (CHR '':'') ds @ rest"
  shows "parse_url_port t (with_authority a host ds v) = UrlOk (with_authority a host ds v\<lparr>u_port := digits_val 0 ds\<rparr>)"
proof (cases "ds = []")
  case True
  with assms(1,2) show ?thesis by (simp add: parse_url_port_def with_authority_def)
next
  case False
  then have d: "drop (a + length host + 1) t = ds @ rest"
    using arg_cong [OF assms(6), of "drop 1"] by (simp add: opt_part_def add.commute)
  then have "length t = a + length host + 1 + length (ds @ rest)"
    using False by (metis add_diff_inverse_nat append_is_Nil_conv drop_eq_Nil length_drop not_le_imp_less less_or_eq_imp_le linorder_not_less)
  with d False assms parse_port_digits [OF assms(3,4)] show ?thesis
    by (simp add: parse_url_port_def with_authority_def uf_begin_def u16_def)
qed

lemma url_slice_part:
  assumes "f \<in> field_set u" "field_off u f = length pre" "field_len u f = length part" "t = pre @ part @ post"
  shows "url_slice t u f = part"
  using assms by (simp add: url_slice_def)

lemma u16_small: "n < 65536 \<Longrightarrow> u16 n = n"
  by (simp add: u16_def)

lemma parse_url_text:
  assumes sch: "sch \<noteq> []" "\<forall>c \<in> set sch. IS_ALPHA c"
    and host: "host \<noteq> []" "\<forall>c \<in> set host. IS_HOST_CHAR c" and ds: "\<forall>c \<in> set ds. IS_NUM c"
    and port: "digits_val 0 ds \<le> 65535"
    and path: "\<forall>c \<in> set path. IS_URL_CHAR c" and query: "\<forall>c \<in> set query. IS_URL_CHAR c"
    and len: "length (url_text sch host ds (CHR ''/'' # path) query) < 65536"
  shows "\<exists>u'. http_parser_parse_url (url_text sch host ds (CHR ''/'' # path) query) False u = UrlOk u' \<and>
    map (url_slice (url_text sch host ds (CHR ''/'' # path) query) u')
      [UF_SCHEMA, UF_HOST, UF_PORT, UF_PATH, UF_QUERY, UF_FRAGMENT, UF_USERINFO] =
      [sch, host, ds, CHR ''/'' # path, query, [], []] \<and> u_port u' = digits_val 0 ds"
proof -
  let ?t = "url_text sch host ds (CHR ''/'' # path) query" and ?u = "u\<lparr>u_port := 0, field_set := {}\<rparr>"
  let ?auth = "host @ opt_part (CHR '':'') ds"
  let ?a = "length sch + 3" and ?b = "length sch + 3 + length ?auth"
  let ?c = "length sch + 3 + length ?auth + length path + 1"
  define v where "v = (if query = [] then id else uf_begin UF_QUERY (?c + 1) (length query))
       (uf_begin UF_PATH ?b (length path + 1) (uf_begin UF_HOST ?a (length ?auth)
         (uf_begin UF_SCHEMA 0 (length sch) ?u)))"
  have loop: "parse_url_loop ?t 0 s_req_spaces_before_url UF_MAX False ?u = LoopDone v False"
    using parse_url_loop_text [OF sch host ds path query len, of ?u] by (simp add: Let_def v_def)
  have tlen: "length ?t = ?c + length (opt_part (CHR ''?'') query)" by (simp add: url_text_def)
  have small: "?a < 65536" "?b < 65536" "?c < 65536" "?a + length host + 1 < 65536 \<or> ds = []"
    "?c + 1 < 65536 \<or> query = []" "length host + length ds < 65535"
    using len tlen by (auto simp: opt_part_def split: if_splits)
  have v: "field_off v UF_HOST = ?a" "field_len v UF_HOST = length ?auth" "UF_HOST \<in> field_set v"
    "UF_PORT \<notin> field_set v" "u_port v = 0"
    using small by (simp_all add: v_def uf_begin_def u16_def)
  let ?w = "with_authority ?a host ds v"
  have auth: "take (length ?auth) (drop ?a ?t) = ?auth" by (simp add: url_text_def)
  have rest: "drop (?a + length host) ?t =
      opt_part (CHR '':'') ds @ (CHR ''/'' # path) @ opt_part (CHR ''?'') query"
    by (simp add: url_text_def numeral_3_eq_3)
  have "http_parse_host ?t v False = UrlOk ?w"
    using http_parse_host_authority [OF host ds _ v(1) _ v(3,2) auth] small by blast
  moreover have "parse_url_port ?t ?w = UrlOk (?w\<lparr>u_port := digits_val 0 ds\<rparr>)"
    using parse_url_port_authority [OF v(4,5) _ port small(4) rest] ds by (simp add: list_all_iff IS_NUM_is_digit)
  moreover have "?t \<noteq> []" using sch(1) by (simp add: url_text_def)
  ultimately have run: "http_parser_parse_url ?t False u = UrlOk (?w\<lparr>u_port := digits_val 0 ds\<rparr>)"
    using loop v(3) by (simp add: http_parser_parse_url_def)
  let ?r = "?w\<lparr>u_port := digits_val 0 ds\<rparr>" and ?port = "opt_part (CHR '':'') ds"
  note defs = with_authority_def v_def uf_begin_def u16_small
  have "url_slice ?t ?r UF_SCHEMA = sch"
    by (rule url_slice_part [where pre = "[]"]) (use small in \<open>simp_all add: defs url_text_def\<close>)
  moreover have "url_slice ?t ?r UF_HOST = host"
    by (rule url_slice_part [where pre = "sch @ ''://''"]) (use small in \<open>simp_all add: defs url_text_def\<close>)
  moreover have "url_slice ?t ?r UF_PORT = ds"
  proof (cases "ds = []")
    case False
    show ?thesis
      by (rule url_slice_part [where pre = "sch @ ''://'' @ host @ '':''"])
        (use False small in \<open>simp_all add: defs url_text_def opt_part_def\<close>)
  qed (simp add: defs url_slice_def)
  moreover have "url_slice ?t ?r UF_PATH = CHR ''/'' # path"
    by (rule url_slice_part [where pre = "sch @ ''://'' @ host @ ?port"])
      (use small in \<open>simp_all add: defs url_text_def\<close>)
  moreover have "url_slice ?t ?r UF_QUERY = query"
  proof (cases "query = []")
    case False
    show ?thesis
      by (rule url_slice_part [where pre = "sch @ ''://'' @ host @ ?port @ CHR ''/'' # path @ ''?''" and post = "[]"])
        (use False small in \<open>simp_all add: defs url_text_def opt_part_def [of "CHR ''?''"]\<close>)
  qed (simp add: defs url_slice_def)
  moreover have "url_slice ?t ?r UF_FRAGMENT = []" "url_slice ?t ?r UF_USERINFO = []"
    by (simp_all add: defs url_slice_def)
  ultimately show ?thesis using run by simp
qed

section \<open>Properties\<close>

text \<open>C14. The URL parser never fails an assertion, and when it succeeds every field it
  reports lies inside the buffer, the port fits 16 bits and is 0 when there is none, a CONNECT
  target has a host and a port and nothing else, and a URL with a schema has a host.\<close>

theorem http_parser_parse_url_safe:
  "http_parser_parse_url buf is_connect u0 = UrlFail \<or>
   (\<exists>u. http_parser_parse_url buf is_connect u0 = UrlOk u \<and>
      fields_within (length buf) u \<and> u_port u < 2 ^ 16 \<and>
      (is_connect \<longrightarrow> field_set u = {UF_HOST, UF_PORT}) \<and>
      (UF_SCHEMA \<in> field_set u \<longrightarrow> UF_HOST \<in> field_set u) \<and>
      (UF_PORT \<notin> field_set u \<longrightarrow> u_port u = 0))"
  using http_parser_parse_url_ok [of buf is_connect u0]
  by (cases "http_parser_parse_url buf is_connect u0") auto

theorem http_parser_parse_url_safe_witness:
  "\<exists>u. http_parser_parse_url ''a.b:443'' True http_parser_url_init = UrlOk u \<and>
      fields_within (length ''a.b:443'') u \<and> field_set u = {UF_HOST, UF_PORT} \<and> u_port u < 2 ^ 16"
proof -
  have "http_parser_parse_url ''a.b:443'' True http_parser_url_init \<noteq> UrlFail"
    by (simp add: http_parser_parse_url_def http_parser_url_init_def parse_url_char_def parse_server_char_def
        IS_USERINFO_CHAR_def IS_ALPHANUM_def IS_ALPHA_def IS_NUM_def IS_MARK_def url_delimiter_def
        url_field_of_def uf_begin_def uf_extend_def u16_def http_parse_host_def http_parse_host_char_def
        IS_HOST_CHAR_def host_field_step_def host_state_final_def parse_url_port_def Let_def insert_commute)
  then show ?thesis using http_parser_parse_url_safe [of "''a.b:443''" True http_parser_url_init]
    by auto
qed

text \<open>C15. Parsing inverts printing: an absolute URL put together from a schema, a host, an
  optional port, a path and an optional query, and shorter than 64 KB, is accepted; every field the
  parser reports is the part it was made of, and the port is the value of its digits.\<close>

theorem parse_url_composed:
  assumes "sch \<noteq> []" "list_all IS_ALPHA sch" "host \<noteq> []" "list_all IS_HOST_CHAR host" "list_all IS_NUM ds"
    and "digits_val 0 ds \<le> 65535" "list_all IS_URL_CHAR path" "list_all IS_URL_CHAR query"
    and "length (url_text sch host ds (CHR ''/'' # path) query) < 65536"
  shows "\<exists>u'. http_parser_parse_url (url_text sch host ds (CHR ''/'' # path) query) False u = UrlOk u' \<and>
    map (url_slice (url_text sch host ds (CHR ''/'' # path) query) u')
      [UF_SCHEMA, UF_HOST, UF_PORT, UF_PATH, UF_QUERY, UF_FRAGMENT, UF_USERINFO] =
      [sch, host, ds, CHR ''/'' # path, query, [], []] \<and> u_port u' = digits_val 0 ds"
  using assms by (intro parse_url_text) (simp_all add: list_all_iff)

theorem parse_url_composed_witness:
  "\<exists>u'. http_parser_parse_url (url_text ''http'' ''a.com'' ''80'' ''/x'' ''y=1'') False http_parser_url_init = UrlOk u' \<and>
    map (url_slice (url_text ''http'' ''a.com'' ''80'' ''/x'' ''y=1'') u')
      [UF_SCHEMA, UF_HOST, UF_PORT, UF_PATH, UF_QUERY, UF_FRAGMENT, UF_USERINFO] =
      [''http'', ''a.com'', ''80'', ''/x'', ''y=1'', [], []] \<and> u_port u' = digits_val 0 ''80''"
  using parse_url_composed [of "''http''" "''a.com''" "''80''" "''x''" "''y=1''" http_parser_url_init]
  by (simp add: IS_ALPHA_def IS_HOST_CHAR_def IS_ALPHANUM_def IS_NUM_def IS_URL_CHAR_def normal_url_char_def
      url_text_def opt_part_def is_digit_def digit_val_def)

end
