(* ===== verification/Http_Parser.thy ===== *)
theory Http_Parser
  imports Url_Parser
begin

text \<open>
  \<open>http_parser_execute\<close> (\<open>src/src/protocol/srs_protocol_http_stack.cpp\<close>).  The local
  variables of the function are the record \<open>exec\<close>; one definition per case of its switch maps
  them and the current position to an \<open>outcome\<close>: \<open>Break\<close> (leave the switch and go on with
  the next byte), \<open>Reexec\<close> (\<open>goto reexecute\<close>), \<open>GotoError\<close>, \<open>Return\<close>
  and \<open>Abort\<close> (a failed assertion, an access outside an array).  The macros
  \<open>CALLBACK_NOTIFY\<close>, \<open>CALLBACK_DATA\<close> and \<open>COUNT_HEADER_SIZE\<close> take what follows
  them as a continuation.  \<open>goto reexecute\<close> and the loop over the bytes spend fuel, because a
  callback may set the state of the parser; \<open>NoFuel\<close> is the outcome when it is used up, and
  for callbacks that leave the parser alone it is never reached.
\<close>

section \<open>Local state and control\<close>

record 'u exec =
  prs :: http_parser
  p_state :: state
  nread :: nat
  header_field_mark :: "nat option"
  header_value_mark :: "nat option"
  url_mark :: "nat option"
  body_mark :: "nat option"
  status_mark :: "nat option"
  lenient :: bool
  x_user :: 'u

record 'u env =
  e_settings :: "'u http_parser_settings"
  e_max_header_size :: nat
  e_data :: string

datatype (plugins only: code) 'u outcome =
    Break nat "'u exec"
  | Reexec nat char "'u exec"
  | GotoError nat "'u exec"
  | Return nat "'u exec"
  | Abort
  | NoFuel

definition UPDATE_STATE :: "state \<Rightarrow> 'u exec \<Rightarrow> 'u exec" where
  "UPDATE_STATE s x = x\<lparr>p_state := s\<rparr>"

definition SET_ERRNO :: "http_errno \<Rightarrow> 'u exec \<Rightarrow> 'u exec" where
  "SET_ERRNO e x = x\<lparr>prs := (prs x)\<lparr>hp_nread := nread x, hp_http_errno := e\<rparr>\<rparr>"

text \<open>\<open>SET_ERRNO(e); goto error;\<close>\<close>

definition fail :: "http_errno \<Rightarrow> nat \<Rightarrow> 'u exec \<Rightarrow> 'u outcome" where
  "fail e p x = GotoError p (SET_ERRNO e x)"

definition STRICT_CHECK :: "bool \<Rightarrow> nat \<Rightarrow> 'u exec \<Rightarrow> 'u outcome \<Rightarrow> 'u outcome" where
  "STRICT_CHECK cond p x k = (if cond then fail HPE_STRICT p x else k)"

definition c_assert :: "bool \<Rightarrow> 'u outcome \<Rightarrow> 'u outcome" where
  "c_assert cond k = (if cond then k else Abort)"

definition upd_parser :: "(http_parser \<Rightarrow> http_parser) \<Rightarrow> 'u exec \<Rightarrow> 'u exec" where
  "upd_parser f x = x\<lparr>prs := f (prs x)\<rparr>"

definition add_flag :: "http_flag \<Rightarrow> 'u exec \<Rightarrow> 'u exec" where
  "add_flag f x = x\<lparr>prs := (prs x)\<lparr>hp_flags := insert f (hp_flags (prs x))\<rparr>\<rparr>"

abbreviation has_flag :: "http_flag \<Rightarrow> 'u exec \<Rightarrow> bool" where
  "has_flag f x \<equiv> f \<in> hp_flags (prs x)"

text \<open>What both callback macros do around the call: store the state for the callback to
  see, record a failure, take the state back, and leave when an error is set.\<close>

definition after_callback ::
    "http_errno \<Rightarrow> nat \<Rightarrow> 'u exec \<Rightarrow> int \<times> http_parser \<times> 'u \<Rightarrow> ('u exec \<Rightarrow> 'u outcome) \<Rightarrow> 'u outcome"
where
  "after_callback e ER x result k =
     (case result of (r, pr, u) \<Rightarrow>
        let pr' = (if r \<noteq> 0 then pr\<lparr>hp_nread := nread x, hp_http_errno := e\<rparr> else pr);
            x' = x\<lparr>prs := pr', p_state := hp_state pr', x_user := u\<rparr>
        in if hp_http_errno pr' \<noteq> HPE_OK then Return ER x' else k x')"

definition CALLBACK_NOTIFY ::
    "'u http_cb option \<Rightarrow> http_errno \<Rightarrow> nat \<Rightarrow> 'u exec \<Rightarrow> ('u exec \<Rightarrow> 'u outcome) \<Rightarrow> 'u outcome"
where
  "CALLBACK_NOTIFY cb e ER x k =
     c_assert (hp_http_errno (prs x) = HPE_OK)
       (case cb of
          None \<Rightarrow> k x
        | Some f \<Rightarrow> after_callback e ER x (f ((prs x)\<lparr>hp_state := p_state x\<rparr>) (x_user x)) k)"

text \<open>\<open>CALLBACK_DATA\<close> with the mark \<open>m\<close>, which \<open>clear\<close> resets, and \<open>LEN\<close> bytes.\<close>

definition CALLBACK_DATA ::
    "string \<Rightarrow> 'u http_data_cb option \<Rightarrow> http_errno \<Rightarrow> nat option \<Rightarrow> ('u exec \<Rightarrow> 'u exec) \<Rightarrow> nat \<Rightarrow> nat
      \<Rightarrow> 'u exec \<Rightarrow> ('u exec \<Rightarrow> 'u outcome) \<Rightarrow> 'u outcome"
where
  "CALLBACK_DATA buf cb e m clear LEN ER x k =
     c_assert (hp_http_errno (prs x) = HPE_OK)
       (case m of
          None \<Rightarrow> k x
        | Some at \<Rightarrow>
            (case cb of
               None \<Rightarrow> k (clear x)
             | Some f \<Rightarrow>
                 after_callback e ER x
                   (f ((prs x)\<lparr>hp_state := p_state x\<rparr>) at (take LEN (drop at buf)) (x_user x))
                   (\<lambda>y. k (clear y))))"

definition mark_len :: "nat option \<Rightarrow> nat \<Rightarrow> nat" where
  "mark_len m p = (case m of None \<Rightarrow> 0 | Some at \<Rightarrow> p - at)"

definition DATA_header_field :: "'u env \<Rightarrow> nat \<Rightarrow> nat \<Rightarrow> 'u exec \<Rightarrow> ('u exec \<Rightarrow> 'u outcome) \<Rightarrow> 'u outcome" where
  "DATA_header_field env p ER x k =
     CALLBACK_DATA (e_data env) (on_header_field (e_settings env)) HPE_CB_header_field
       (header_field_mark x) (\<lambda>y. y\<lparr>header_field_mark := None\<rparr>) (mark_len (header_field_mark x) p) ER x k"

definition DATA_header_value :: "'u env \<Rightarrow> nat \<Rightarrow> nat \<Rightarrow> 'u exec \<Rightarrow> ('u exec \<Rightarrow> 'u outcome) \<Rightarrow> 'u outcome" where
  "DATA_header_value env p ER x k =
     CALLBACK_DATA (e_data env) (on_header_value (e_settings env)) HPE_CB_header_value
       (header_value_mark x) (\<lambda>y. y\<lparr>header_value_mark := None\<rparr>) (mark_len (header_value_mark x) p) ER x k"

definition DATA_url :: "'u env \<Rightarrow> nat \<Rightarrow> nat \<Rightarrow> 'u exec \<Rightarrow> ('u exec \<Rightarrow> 'u outcome) \<Rightarrow> 'u outcome" where
  "DATA_url env p ER x k =
     CALLBACK_DATA (e_data env) (on_url (e_settings env)) HPE_CB_url
       (url_mark x) (\<lambda>y. y\<lparr>url_mark := None\<rparr>) (mark_len (url_mark x) p) ER x k"

definition DATA_body :: "'u env \<Rightarrow> nat \<Rightarrow> nat \<Rightarrow> 'u exec \<Rightarrow> ('u exec \<Rightarrow> 'u outcome) \<Rightarrow> 'u outcome" where
  "DATA_body env p ER x k =
     CALLBACK_DATA (e_data env) (on_body (e_settings env)) HPE_CB_body
       (body_mark x) (\<lambda>y. y\<lparr>body_mark := None\<rparr>) (mark_len (body_mark x) p) ER x k"

definition DATA_status :: "'u env \<Rightarrow> nat \<Rightarrow> nat \<Rightarrow> 'u exec \<Rightarrow> ('u exec \<Rightarrow> 'u outcome) \<Rightarrow> 'u outcome" where
  "DATA_status env p ER x k =
     CALLBACK_DATA (e_data env) (on_status (e_settings env)) HPE_CB_status
       (status_mark x) (\<lambda>y. y\<lparr>status_mark := None\<rparr>) (mark_len (status_mark x) p) ER x k"

definition NOTIFY_message_begin :: "'u env \<Rightarrow> nat \<Rightarrow> 'u exec \<Rightarrow> ('u exec \<Rightarrow> 'u outcome) \<Rightarrow> 'u outcome" where
  "NOTIFY_message_begin env = CALLBACK_NOTIFY (on_message_begin (e_settings env)) HPE_CB_message_begin"

definition NOTIFY_message_complete :: "'u env \<Rightarrow> nat \<Rightarrow> 'u exec \<Rightarrow> ('u exec \<Rightarrow> 'u outcome) \<Rightarrow> 'u outcome" where
  "NOTIFY_message_complete env =
     CALLBACK_NOTIFY (on_message_complete (e_settings env)) HPE_CB_message_complete"

definition NOTIFY_chunk_header :: "'u env \<Rightarrow> nat \<Rightarrow> 'u exec \<Rightarrow> ('u exec \<Rightarrow> 'u outcome) \<Rightarrow> 'u outcome" where
  "NOTIFY_chunk_header env = CALLBACK_NOTIFY (on_chunk_header (e_settings env)) HPE_CB_chunk_header"

definition NOTIFY_chunk_complete :: "'u env \<Rightarrow> nat \<Rightarrow> 'u exec \<Rightarrow> ('u exec \<Rightarrow> 'u outcome) \<Rightarrow> 'u outcome" where
  "NOTIFY_chunk_complete env =
     CALLBACK_NOTIFY (on_chunk_complete (e_settings env)) HPE_CB_chunk_complete"

definition MARK :: "nat option \<Rightarrow> nat \<Rightarrow> nat option" where
  "MARK m p = (case m of None \<Rightarrow> Some p | Some at \<Rightarrow> Some at)"

definition COUNT_HEADER_SIZE ::
    "'u env \<Rightarrow> nat \<Rightarrow> nat \<Rightarrow> 'u exec \<Rightarrow> ('u exec \<Rightarrow> 'u outcome) \<Rightarrow> 'u outcome" where
  "COUNT_HEADER_SIZE env V p x k =
     (let x' = x\<lparr>nread := (nread x + V) mod 2 ^ 32\<rparr> in
      if nread x' > e_max_header_size env then fail HPE_HEADER_OVERFLOW p x' else k x')"

text \<open>\<open>RETURN(V)\<close> stores the local counters; \<open>return\<close> alone does not.\<close>

definition RETURN :: "nat \<Rightarrow> 'u exec \<Rightarrow> 'u outcome" where
  "RETURN v x = Return v (x\<lparr>prs := (prs x)\<lparr>hp_nread := nread x, hp_state := p_state x\<rparr>\<rparr>)"

section \<open>Start of a message and the response line\<close>

type_synonym 'u action = "'u env \<Rightarrow> nat \<Rightarrow> char \<Rightarrow> 'u exec \<Rightarrow> 'u outcome"

definition go_dead :: "'u action" where
  "go_dead env p ch x =
     (if ch = CR \<or> ch = LF then Break p x else fail HPE_CLOSED_CONNECTION p x)"

text \<open>\<open>parser->flags = 0; parser->content_length = ULLONG_MAX;\<close>\<close>

definition reset_message :: "'u exec \<Rightarrow> 'u exec" where
  "reset_message x = x\<lparr>prs := (prs x)\<lparr>hp_flags := {}, hp_content_length := ULLONG_MAX\<rparr>\<rparr>"

definition go_start_req_or_res :: "'u action" where
  "go_start_req_or_res env p ch x =
     (if ch = CR \<or> ch = LF then Break p x
      else
        let x = reset_message x in
        if ch = CHR ''H'' then
          NOTIFY_message_begin env (p + 1) (UPDATE_STATE s_res_or_resp_H x) (Break p)
        else
          Reexec p ch (UPDATE_STATE s_start_req
            (upd_parser (\<lambda>q. q\<lparr>hp_type := HTTP_REQUEST\<rparr>) x)))"

definition go_res_or_resp_H :: "'u action" where
  "go_res_or_resp_H env p ch x =
     (if ch = CHR ''T'' then
        Break p (UPDATE_STATE s_res_HT (upd_parser (\<lambda>q. q\<lparr>hp_type := HTTP_RESPONSE\<rparr>) x))
      else if ch \<noteq> CHR ''E'' then fail HPE_INVALID_CONSTANT p x
      else
        Break p (UPDATE_STATE s_req_method
          (upd_parser (\<lambda>q. q\<lparr>hp_type := HTTP_REQUEST, hp_method := HTTP_HEAD, hp_index := 2\<rparr>) x)))"

definition go_start_res :: "'u action" where
  "go_start_res env p ch x =
     (if ch = CR \<or> ch = LF then Break p x
      else
        let x = reset_message x in
        if ch = CHR ''H'' then
          NOTIFY_message_begin env (p + 1) (UPDATE_STATE s_res_H x) (Break p)
        else fail HPE_INVALID_CONSTANT p x)"

text \<open>The states that wait for one fixed character.\<close>

definition go_expect :: "char \<Rightarrow> state \<Rightarrow> 'u action" where
  "go_expect c s env p ch x = STRICT_CHECK (ch \<noteq> c) p x (Break p (UPDATE_STATE s x))"

definition digit_of :: "char \<Rightarrow> nat" where
  "digit_of ch = of_char ch - 48"

definition go_http_major :: "state \<Rightarrow> 'u action" where
  "go_http_major s env p ch x =
     (if \<not> IS_NUM ch then fail HPE_INVALID_VERSION p x
      else Break p (UPDATE_STATE s (upd_parser (\<lambda>q. q\<lparr>hp_http_major := digit_of ch\<rparr>) x)))"

definition go_http_dot :: "state \<Rightarrow> 'u action" where
  "go_http_dot s env p ch x =
     (if ch \<noteq> CHR ''.'' then fail HPE_INVALID_VERSION p x else Break p (UPDATE_STATE s x))"

definition go_http_minor :: "state \<Rightarrow> 'u action" where
  "go_http_minor s env p ch x =
     (if \<not> IS_NUM ch then fail HPE_INVALID_VERSION p x
      else Break p (UPDATE_STATE s (upd_parser (\<lambda>q. q\<lparr>hp_http_minor := digit_of ch\<rparr>) x)))"

definition go_res_http_end :: "'u action" where
  "go_res_http_end env p ch x =
     (if ch \<noteq> CHR '' '' then fail HPE_INVALID_VERSION p x
      else Break p (UPDATE_STATE s_res_first_status_code x))"

definition go_res_first_status_code :: "'u action" where
  "go_res_first_status_code env p ch x =
     (if \<not> IS_NUM ch then
        if ch = CHR '' '' then Break p x else fail HPE_INVALID_STATUS p x
      else Break p (UPDATE_STATE s_res_status_code
             (upd_parser (\<lambda>q. q\<lparr>hp_status_code := digit_of ch\<rparr>) x)))"

definition go_res_status_code :: "'u action" where
  "go_res_status_code env p ch x =
     (if \<not> IS_NUM ch then
        if ch = CHR '' '' then Break p (UPDATE_STATE s_res_status_start x)
        else if ch = CR \<or> ch = LF then Reexec p ch (UPDATE_STATE s_res_status_start x)
        else fail HPE_INVALID_STATUS p x
      else
        let x = upd_parser (\<lambda>q. q\<lparr>hp_status_code :=
                  (hp_status_code q * 10 mod 2 ^ 16 + digit_of ch) mod 2 ^ 16\<rparr>) x in
        if hp_status_code (prs x) > 999 then fail HPE_INVALID_STATUS p x else Break p x)"

definition go_res_status_start :: "'u action" where
  "go_res_status_start env p ch x =
     (let x = upd_parser (\<lambda>q. q\<lparr>hp_index := 0\<rparr>)
                (UPDATE_STATE s_res_status (x\<lparr>status_mark := MARK (status_mark x) p\<rparr>)) in
      if ch = CR \<or> ch = LF then Reexec p ch x else Break p x)"

definition go_res_status :: "'u action" where
  "go_res_status env p ch x =
     (if ch = CR then DATA_status env p (p + 1) (UPDATE_STATE s_res_line_almost_done x) (Break p)
      else if ch = LF then DATA_status env p (p + 1) (UPDATE_STATE s_header_field_start x) (Break p)
      else Break p x)"

section \<open>The request line\<close>

definition first_method :: "char \<Rightarrow> http_method option" where
  "first_method ch =
     (if ch = CHR ''A'' then Some HTTP_ACL
      else if ch = CHR ''B'' then Some HTTP_BIND
      else if ch = CHR ''C'' then Some HTTP_CONNECT
      else if ch = CHR ''D'' then Some HTTP_DELETE
      else if ch = CHR ''G'' then Some HTTP_GET
      else if ch = CHR ''H'' then Some HTTP_HEAD
      else if ch = CHR ''L'' then Some HTTP_LOCK
      else if ch = CHR ''M'' then Some HTTP_MKCOL
      else if ch = CHR ''N'' then Some HTTP_NOTIFY
      else if ch = CHR ''O'' then Some HTTP_OPTIONS
      else if ch = CHR ''P'' then Some HTTP_POST
      else if ch = CHR ''R'' then Some HTTP_REPORT
      else if ch = CHR ''S'' then Some HTTP_SUBSCRIBE
      else if ch = CHR ''T'' then Some HTTP_TRACE
      else if ch = CHR ''U'' then Some HTTP_UNLOCK
      else None)"

definition go_start_req :: "'u action" where
  "go_start_req env p ch x =
     (if ch = CR \<or> ch = LF then Break p x
      else
        let x = reset_message x in
        if \<not> IS_ALPHA ch then fail HPE_INVALID_METHOD p x
        else
          let x = upd_parser (\<lambda>q. q\<lparr>hp_method := HTTP_DELETE, hp_index := 1\<rparr>) x in
          case first_method ch of
            None \<Rightarrow> fail HPE_INVALID_METHOD p x
          | Some m \<Rightarrow>
              NOTIFY_message_begin env (p + 1)
                (UPDATE_STATE s_req_method (upd_parser (\<lambda>q. q\<lparr>hp_method := m\<rparr>) x)) (Break p))"

text \<open>The character of a C string literal at an index, with its terminating zero;
  \<open>None\<close> beyond it.\<close>

definition c_str_at :: "string \<Rightarrow> nat \<Rightarrow> char option" where
  "c_str_at s i = (if i < length s then Some (s ! i) else if i = length s then Some NUL else None)"

text \<open>The switch on \<open>parser->method << 16 | parser->index << 8 | ch\<close>.\<close>

definition method_switch :: "http_method \<Rightarrow> nat \<Rightarrow> char \<Rightarrow> http_method option" where
  "method_switch m i ch =
     (if m = HTTP_POST \<and> i = 1 \<and> ch = CHR ''U'' then Some HTTP_PUT
      else if m = HTTP_POST \<and> i = 1 \<and> ch = CHR ''A'' then Some HTTP_PATCH
      else if m = HTTP_POST \<and> i = 1 \<and> ch = CHR ''R'' then Some HTTP_PROPFIND
      else if m = HTTP_PUT \<and> i = 2 \<and> ch = CHR ''R'' then Some HTTP_PURGE
      else if m = HTTP_CONNECT \<and> i = 1 \<and> ch = CHR ''H'' then Some HTTP_CHECKOUT
      else if m = HTTP_CONNECT \<and> i = 2 \<and> ch = CHR ''P'' then Some HTTP_COPY
      else if m = HTTP_MKCOL \<and> i = 1 \<and> ch = CHR ''O'' then Some HTTP_MOVE
      else if m = HTTP_MKCOL \<and> i = 1 \<and> ch = CHR ''E'' then Some HTTP_MERGE
      else if m = HTTP_MKCOL \<and> i = 1 \<and> ch = CHR ''-'' then Some HTTP_MSEARCH
      else if m = HTTP_MKCOL \<and> i = 2 \<and> ch = CHR ''A'' then Some HTTP_MKACTIVITY
      else if m = HTTP_MKCOL \<and> i = 3 \<and> ch = CHR ''A'' then Some HTTP_MKCALENDAR
      else if m = HTTP_SUBSCRIBE \<and> i = 1 \<and> ch = CHR ''E'' then Some HTTP_SEARCH
      else if m = HTTP_SUBSCRIBE \<and> i = 1 \<and> ch = CHR ''O'' then Some HTTP_SOURCE
      else if m = HTTP_REPORT \<and> i = 2 \<and> ch = CHR ''B'' then Some HTTP_REBIND
      else if m = HTTP_PROPFIND \<and> i = 4 \<and> ch = CHR ''P'' then Some HTTP_PROPPATCH
      else if m = HTTP_LOCK \<and> i = 1 \<and> ch = CHR ''I'' then Some HTTP_LINK
      else if m = HTTP_UNLOCK \<and> i = 2 \<and> ch = CHR ''S'' then Some HTTP_UNSUBSCRIBE
      else if m = HTTP_UNLOCK \<and> i = 2 \<and> ch = CHR ''B'' then Some HTTP_UNBIND
      else if m = HTTP_UNLOCK \<and> i = 3 \<and> ch = CHR ''I'' then Some HTTP_UNLINK
      else None)"

definition incr_index :: "http_parser \<Rightarrow> http_parser" where
  "incr_index q = q\<lparr>hp_index := (hp_index q + 1) mod 2 ^ 7\<rparr>"

definition go_req_method :: "'u action" where
  "go_req_method env p ch x =
     (if ch = NUL then fail HPE_INVALID_METHOD p x
      else
        let m = hp_method (prs x); i = hp_index (prs x) in
        case c_str_at (method_strings m) i of
          None \<Rightarrow> Abort
        | Some c \<Rightarrow>
            if ch = CHR '' '' \<and> c = NUL then
              Break p (upd_parser incr_index (UPDATE_STATE s_req_spaces_before_url x))
            else if ch = c then Break p (upd_parser incr_index x)
            else if (CHR ''A'' \<le> ch \<and> ch \<le> CHR ''Z'') \<or> ch = CHR ''-'' then
              (case method_switch m i ch of
                 None \<Rightarrow> fail HPE_INVALID_METHOD p x
               | Some m' \<Rightarrow> Break p (upd_parser (\<lambda>q. incr_index (q\<lparr>hp_method := m'\<rparr>)) x))
            else fail HPE_INVALID_METHOD p x)"

definition go_req_spaces_before_url :: "'u action" where
  "go_req_spaces_before_url env p ch x =
     (if ch = CHR '' '' then Break p x
      else
        let x = x\<lparr>url_mark := MARK (url_mark x) p\<rparr>;
            x = (if hp_method (prs x) = HTTP_CONNECT then UPDATE_STATE s_req_server_start x else x);
            x = UPDATE_STATE (parse_url_char (p_state x) ch) x in
        if p_state x = s_dead then fail HPE_INVALID_URL p x else Break p x)"

definition go_req_schema :: "'u action" where
  "go_req_schema env p ch x =
     (if ch = CHR '' '' \<or> ch = CR \<or> ch = LF then fail HPE_INVALID_URL p x
      else
        let x = UPDATE_STATE (parse_url_char (p_state x) ch) x in
        if p_state x = s_dead then fail HPE_INVALID_URL p x else Break p x)"

definition go_req_url :: "'u action" where
  "go_req_url env p ch x =
     (if ch = CHR '' '' then DATA_url env p (p + 1) (UPDATE_STATE s_req_http_start x) (Break p)
      else if ch = CR \<or> ch = LF then
        DATA_url env p (p + 1)
          (UPDATE_STATE (if ch = CR then s_req_line_almost_done else s_header_field_start)
            (upd_parser (\<lambda>q. q\<lparr>hp_http_major := 0, hp_http_minor := 9\<rparr>) x)) (Break p)
      else
        let x = UPDATE_STATE (parse_url_char (p_state x) ch) x in
        if p_state x = s_dead then fail HPE_INVALID_URL p x else Break p x)"

definition go_req_http_start :: "'u action" where
  "go_req_http_start env p ch x =
     (if ch = CHR '' '' then Break p x
      else if ch = CHR ''H'' then Break p (UPDATE_STATE s_req_http_H x)
      else if ch = CHR ''I'' \<and> hp_method (prs x) = HTTP_SOURCE then
        Break p (UPDATE_STATE s_req_http_I x)
      else fail HPE_INVALID_CONSTANT p x)"

definition go_req_http_end :: "'u action" where
  "go_req_http_end env p ch x =
     (if ch = CR then Break p (UPDATE_STATE s_req_line_almost_done x)
      else if ch = LF then Break p (UPDATE_STATE s_header_field_start x)
      else fail HPE_INVALID_VERSION p x)"

definition go_req_line_almost_done :: "'u action" where
  "go_req_line_almost_done env p ch x =
     (if ch \<noteq> LF then fail HPE_LF_EXPECTED p x
      else Break p (UPDATE_STATE s_header_field_start x))"

section \<open>Header fields\<close>

definition go_header_field_start :: "'u action" where
  "go_header_field_start env p ch x =
     (if ch = CR then Break p (UPDATE_STATE s_headers_almost_done x)
      else if ch = LF then Reexec p ch (UPDATE_STATE s_headers_almost_done x)
      else
        let c = TOKEN ch in
        if c = NUL then fail HPE_INVALID_HEADER_TOKEN p x
        else
          Break p (UPDATE_STATE s_header_field
            (upd_parser
              (\<lambda>q. q\<lparr>hp_index := 0, hp_header_state :=
                 (if c = CHR ''c'' then h_C
                  else if c = CHR ''p'' then h_matching_proxy_connection
                  else if c = CHR ''t'' then h_matching_transfer_encoding
                  else if c = CHR ''u'' then h_matching_upgrade
                  else h_general)\<rparr>)
              (x\<lparr>header_field_mark := MARK (header_field_mark x) p\<rparr>))))"

text \<open>One character of a header name or value against the literal \<open>s\<close>:
  \<open>miss\<close> when it differs or the literal is exceeded, \<open>hit\<close> on its last character.\<close>

definition match_literal :: "string \<Rightarrow> header_states \<Rightarrow> header_states \<Rightarrow> header_states \<Rightarrow> char \<Rightarrow> nat \<Rightarrow> header_states" where
  "match_literal s same miss hit c i =
     (case c_str_at s i of
        None \<Rightarrow> miss
      | Some d \<Rightarrow> if c \<noteq> d then miss else if i = length s - 1 then hit else same)"

text \<open>The inner \<open>while\<close> of \<open>h_general\<close>: skip to the last token character before \<open>pe\<close>.\<close>

function skip_token :: "string \<Rightarrow> nat \<Rightarrow> nat \<Rightarrow> nat" where
  "skip_token buf p pe =
     (if p + 1 < pe \<and> p + 1 < length buf \<and> TOKEN (buf ! (p + 1)) \<noteq> NUL
      then skip_token buf (p + 1) pe else p)"
  by pat_completeness auto
termination
  by (relation "measure (\<lambda>(buf, p, pe). pe - p)") auto

declare skip_token.simps [simp del]

lemma skip_token_ge: "p \<le> skip_token buf p pe"
proof (induction buf p pe rule: skip_token.induct)
  case (1 buf p pe)
  then show ?case by (subst skip_token.simps) (auto intro: le_trans [of p "p + 1"])
qed

text \<open>The switch on \<open>parser->header_state\<close>; \<open>None\<close> for the assertion in its default case.\<close>

definition header_field_char :: "'u env \<Rightarrow> nat \<Rightarrow> char \<Rightarrow> char \<Rightarrow> http_parser \<Rightarrow> (nat \<times> http_parser) option" where
  "header_field_char env p ch c q =
     (let i = (hp_index q + 1) mod 2 ^ 7;
          next = (\<lambda>h. Some (p, q\<lparr>hp_index := i, hp_header_state := h\<rparr>));
          blank = (if ch \<noteq> CHR '' '' then Some (p, q\<lparr>hp_header_state := h_general\<rparr>) else Some (p, q))
      in case hp_header_state q of
        h_general \<Rightarrow>
          Some (skip_token (e_data env) p (p + min (length (e_data env) - p) (e_max_header_size env)), q)
      | h_C \<Rightarrow> next (if c = CHR ''o'' then h_CO else h_general)
      | h_CO \<Rightarrow> next (if c = CHR ''n'' then h_CON else h_general)
      | h_CON \<Rightarrow> next (if c = CHR ''n'' then h_matching_connection
                       else if c = CHR ''t'' then h_matching_content_length else h_general)
      | h_matching_connection \<Rightarrow>
          next (match_literal ''connection'' h_matching_connection h_general h_connection c i)
      | h_matching_proxy_connection \<Rightarrow>
          next (match_literal ''proxy-connection'' h_matching_proxy_connection h_general h_connection c i)
      | h_matching_content_length \<Rightarrow>
          next (match_literal ''content-length'' h_matching_content_length h_general h_content_length c i)
      | h_matching_transfer_encoding \<Rightarrow>
          next (match_literal ''transfer-encoding'' h_matching_transfer_encoding h_general
                  h_transfer_encoding c i)
      | h_matching_upgrade \<Rightarrow> next (match_literal ''upgrade'' h_matching_upgrade h_general h_upgrade c i)
      | h_connection \<Rightarrow> blank
      | h_content_length \<Rightarrow> blank
      | h_transfer_encoding \<Rightarrow> blank
      | h_upgrade \<Rightarrow> blank
      | _ \<Rightarrow> None)"

lemma header_field_char_ge: "header_field_char env p ch c q = Some (p', q') \<Longrightarrow> p \<le> p'"
  by (auto simp: header_field_char_def Let_def skip_token_ge split: header_states.splits if_splits)

function header_field_loop :: "'u env \<Rightarrow> nat \<Rightarrow> char \<Rightarrow> http_parser \<Rightarrow> (nat \<times> char \<times> http_parser) option" where
  "header_field_loop env p ch q =
     (if p < length (e_data env) then
        let ch = e_data env ! p; c = TOKEN ch in
        if c = NUL then Some (p, ch, q)
        else (case header_field_char env p ch c q of
                None \<Rightarrow> None
              | Some (p', q') \<Rightarrow> header_field_loop env (p' + 1) ch q')
      else Some (p, ch, q))"
  by pat_completeness auto
termination
proof (relation "measure (\<lambda>(env, p, ch, q). length (e_data env) - p)", goal_cases)
  case (2 env p ch q x xa x2 a b)
  then have "p \<le> a" using header_field_char_ge by blast
  with 2 show ?case by simp
qed simp

declare header_field_loop.simps [simp del]

definition go_header_field :: "'u action" where
  "go_header_field env p ch x =
     (case header_field_loop env p ch (prs x) of
        None \<Rightarrow> Abort
      | Some (p', ch', q) \<Rightarrow>
          let x = x\<lparr>prs := q\<rparr> in
          if p' = length (e_data env) then
            COUNT_HEADER_SIZE env (p' - 1 - p) (p' - 1) x (Break (p' - 1))
          else
            COUNT_HEADER_SIZE env (p' - p) p' x (\<lambda>x.
              if ch' = CHR '':'' then
                DATA_header_field env p' (p' + 1) (UPDATE_STATE s_header_value_discard_ws x) (Break p')
              else fail HPE_INVALID_HEADER_TOKEN p' x))"

section \<open>Header values\<close>

definition go_header_value_start :: "'u action" where
  "go_header_value_start env p ch x =
     (let x = upd_parser (\<lambda>q. q\<lparr>hp_index := 0\<rparr>)
                (UPDATE_STATE s_header_value (x\<lparr>header_value_mark := MARK (header_value_mark x) p\<rparr>));
          c = LOWER ch;
          hs = (\<lambda>h. upd_parser (\<lambda>q. q\<lparr>hp_header_state := h\<rparr>))
      in case hp_header_state (prs x) of
        h_upgrade \<Rightarrow> Break p (hs h_general (add_flag F_UPGRADE x))
      | h_transfer_encoding \<Rightarrow>
          Break p (hs (if CHR ''c'' = c then h_matching_transfer_encoding_chunked else h_general) x)
      | h_content_length \<Rightarrow>
          if \<not> IS_NUM ch then fail HPE_INVALID_CONTENT_LENGTH p x
          else if has_flag F_CONTENTLENGTH x then fail HPE_UNEXPECTED_CONTENT_LENGTH p x
          else Break p (hs h_content_length_num
                 (upd_parser (\<lambda>q. q\<lparr>hp_content_length := digit_of ch\<rparr>) (add_flag F_CONTENTLENGTH x)))
      | h_content_length_ws \<Rightarrow> Break p x
      | h_connection \<Rightarrow>
          Break p (hs (if c = CHR ''k'' then h_matching_connection_keep_alive
                       else if c = CHR ''c'' then h_matching_connection_close
                       else if c = CHR ''u'' then h_matching_connection_upgrade
                       else h_matching_connection_token) x)
      | h_matching_connection_token_start \<Rightarrow> Break p x
      | _ \<Rightarrow> Break p (hs h_general x))"

definition go_header_value_discard_ws :: "'u action" where
  "go_header_value_discard_ws env p ch x =
     (if ch = CHR '' '' \<or> ch = HT then Break p x
      else if ch = CR then Break p (UPDATE_STATE s_header_value_discard_ws_almost_done x)
      else if ch = LF then Break p (UPDATE_STATE s_header_value_discard_lws x)
      else go_header_value_start env p ch x)"

text \<open>The inner loop of \<open>h_general\<close> over a header value: up to \<open>pe\<close>, stopping one
  before a line end; \<open>None\<close> at a byte that may not occur.  The result is the position before
  the adjustment at the end of the buffer, or the position of the offending byte.\<close>

function skip_value :: "string \<Rightarrow> bool \<Rightarrow> nat \<Rightarrow> nat \<Rightarrow> nat + nat" where
  "skip_value buf lenient_headers p pe =
     (if p < pe \<and> p < length buf then
        let ch = buf ! p in
        if ch = CR \<or> ch = LF then Inr (p - 1)
        else if \<not> lenient_headers \<and> \<not> IS_HEADER_CHAR ch then Inl p
        else skip_value buf lenient_headers (p + 1) pe
      else Inr p)"
  by pat_completeness auto
termination
  by (relation "measure (\<lambda>(buf, l, p, pe). pe - p)") auto

declare skip_value.simps [simp del]

lemma skip_value_ge:
  "skip_value buf l p pe = Inr p' \<Longrightarrow> p < pe \<and> p < length buf \<and> buf ! p \<noteq> CR \<and> buf ! p \<noteq> LF \<Longrightarrow>
     p \<le> p' \<and> p' \<le> length buf"
proof (induction buf l p pe rule: skip_value.induct)
  case (1 buf l p pe)
  from "1.prems" have rec: "skip_value buf l (p + 1) pe = Inr p'"
    by (simp add: skip_value.simps [of buf l p pe] Let_def split: if_splits)
  show ?case
  proof (cases "p + 1 < pe \<and> p + 1 < length buf \<and> buf ! (p + 1) \<noteq> CR \<and> buf ! (p + 1) \<noteq> LF")
    case True
    moreover from "1.prems" have "\<not> (\<not> l \<and> \<not> IS_HEADER_CHAR (buf ! p))"
      by (simp add: skip_value.simps [of buf l p pe] Let_def split: if_splits)
    ultimately have "p + 1 \<le> p' \<and> p' \<le> length buf"
      using "1.IH" [OF _ refl _ _ rec] "1.prems" by simp
    then show ?thesis by simp
  next
    case False
    with rec "1.prems" show ?thesis
      by (auto simp: skip_value.simps [of buf l "Suc p" pe] Let_def split: if_splits)
  qed
qed

definition fail_hs :: "http_errno \<Rightarrow> header_states \<Rightarrow> nat \<Rightarrow> 'u exec \<Rightarrow> 'u outcome" where
  "fail_hs e h p x = GotoError p (upd_parser (\<lambda>q. q\<lparr>hp_header_state := h\<rparr>) (SET_ERRNO e x))"

datatype (plugins only: code) 'u hv =
    HvNext nat "'u exec" header_states
  | HvStop "'u outcome"

definition hv_content_length_num :: "nat \<Rightarrow> char \<Rightarrow> 'u exec \<Rightarrow> 'u hv" where
  "hv_content_length_num p ch x =
     (let h = h_content_length_num; cl = hp_content_length (prs x);
          t = (cl * 10 mod 2 ^ 64 + digit_of ch) mod 2 ^ 64 in
      if ch = CHR '' '' then HvNext p x h_content_length_ws
      else if \<not> IS_NUM ch then HvStop (fail_hs HPE_INVALID_CONTENT_LENGTH h p x)
      else if (ULLONG_MAX - 10) div 10 < cl then HvStop (fail_hs HPE_INVALID_CONTENT_LENGTH h p x)
      else HvNext p (upd_parser (\<lambda>q. q\<lparr>hp_content_length := t\<rparr>) x) h)"

definition connection_flag :: "header_states \<Rightarrow> http_flag option" where
  "connection_flag h =
     (case h of
        h_connection_keep_alive \<Rightarrow> Some F_CONNECTION_KEEP_ALIVE
      | h_connection_close \<Rightarrow> Some F_CONNECTION_CLOSE
      | h_connection_upgrade \<Rightarrow> Some F_CONNECTION_UPGRADE
      | _ \<Rightarrow> None)"

definition add_flag_opt :: "http_flag option \<Rightarrow> 'u exec \<Rightarrow> 'u exec" where
  "add_flag_opt f x = (case f of None \<Rightarrow> x | Some g \<Rightarrow> add_flag g x)"

definition header_value_char :: "'u env \<Rightarrow> nat \<Rightarrow> char \<Rightarrow> 'u exec \<Rightarrow> header_states \<Rightarrow> 'u hv" where
  "header_value_char env p ch x h =
     (let c = LOWER ch; n = length (e_data env);
          i = (hp_index (prs x) + 1) mod 2 ^ 7;
          next = (\<lambda>h'. HvNext p (upd_parser incr_index x) h');
          listed = (if ch = CHR '','' then
                      HvNext p (upd_parser (\<lambda>q. q\<lparr>hp_index := 0\<rparr>) (add_flag_opt (connection_flag h) x))
                        h_matching_connection_token_start
                    else if ch \<noteq> CHR '' '' then HvNext p x h_matching_connection_token
                    else HvNext p x h)
      in case h of
        h_general \<Rightarrow>
          (case skip_value (e_data env) (lenient x) p (p + min (n - p) (e_max_header_size env)) of
             Inl p' \<Rightarrow> HvStop (fail HPE_INVALID_HEADER_TOKEN p' x)
           | Inr p' \<Rightarrow> HvNext (if p' = n then p' - 1 else p') x h_general)
      | h_connection \<Rightarrow> HvStop Abort
      | h_transfer_encoding \<Rightarrow> HvStop Abort
      | h_content_length \<Rightarrow>
          if ch = CHR '' '' then HvNext p x h else hv_content_length_num p ch x
      | h_content_length_num \<Rightarrow> hv_content_length_num p ch x
      | h_content_length_ws \<Rightarrow>
          if ch = CHR '' '' then HvNext p x h
          else HvStop (fail_hs HPE_INVALID_CONTENT_LENGTH h p x)
      | h_matching_transfer_encoding_chunked \<Rightarrow>
          next (match_literal ''chunked'' h h_general h_transfer_encoding_chunked c i)
      | h_matching_connection_token_start \<Rightarrow>
          if c = CHR ''k'' then HvNext p x h_matching_connection_keep_alive
          else if c = CHR ''c'' then HvNext p x h_matching_connection_close
          else if c = CHR ''u'' then HvNext p x h_matching_connection_upgrade
          else if STRICT_TOKEN c \<noteq> NUL then HvNext p x h_matching_connection_token
          else if c = CHR '' '' \<or> c = HT then HvNext p x h
          else HvNext p x h_general
      | h_matching_connection_keep_alive \<Rightarrow>
          next (match_literal ''keep-alive'' h h_matching_connection_token h_connection_keep_alive c i)
      | h_matching_connection_close \<Rightarrow>
          next (match_literal ''close'' h h_matching_connection_token h_connection_close c i)
      | h_matching_connection_upgrade \<Rightarrow>
          next (match_literal ''upgrade'' h h_matching_connection_token h_connection_upgrade c i)
      | h_matching_connection_token \<Rightarrow>
          if ch = CHR '','' then
            HvNext p (upd_parser (\<lambda>q. q\<lparr>hp_index := 0\<rparr>) x) h_matching_connection_token_start
          else HvNext p x h
      | h_transfer_encoding_chunked \<Rightarrow> HvNext p x (if ch \<noteq> CHR '' '' then h_general else h)
      | h_connection_keep_alive \<Rightarrow> listed
      | h_connection_close \<Rightarrow> listed
      | h_connection_upgrade \<Rightarrow> listed
      | _ \<Rightarrow> HvNext p (UPDATE_STATE s_header_value x) h_general)"

lemma hv_content_length_num_pos: "hv_content_length_num p ch x = HvNext p' x' h' \<Longrightarrow> p' = p"
  by (auto simp: hv_content_length_num_def Let_def split: if_splits)

lemma header_value_char_ge:
  assumes "header_value_char env p ch x h = HvNext p' x' h'"
    and "p < length (e_data env)" "e_data env ! p \<noteq> CR" "e_data env ! p \<noteq> LF"
  shows "p \<le> p'"
proof (cases "h = h_general")
  case False
  with assms(1) show ?thesis
    by (cases h)
      (auto simp: header_value_char_def Let_def dest: hv_content_length_num_pos split: if_splits)
next
  case True
  let ?pe = "p + min (length (e_data env) - p) (e_max_header_size env)"
  from True assms(1) obtain q where
    q: "skip_value (e_data env) (lenient x) p ?pe = Inr q"
    and p': "p' = (if q = length (e_data env) then q - 1 else q)"
    by (auto simp: header_value_char_def Let_def split: sum.splits)
  show ?thesis
  proof (cases "p < ?pe")
    case True
    with q assms have "p \<le> q \<and> q \<le> length (e_data env)"
      using skip_value_ge [OF q] by simp
    with p' assms(2) show ?thesis by auto
  next
    case False
    with q assms(2) have "q = p" by (auto simp: skip_value.simps)
    with p' assms(2) show ?thesis by simp
  qed
qed

definition set_header_state :: "header_states \<Rightarrow> 'u exec \<Rightarrow> 'u exec" where
  "set_header_state h = upd_parser (\<lambda>q. q\<lparr>hp_header_state := h\<rparr>)"

text \<open>The code after the loop, reached with \<open>break\<close> or at the end of the buffer.\<close>

definition header_value_end :: "'u env \<Rightarrow> nat \<Rightarrow> nat \<Rightarrow> header_states \<Rightarrow> 'u exec \<Rightarrow> 'u outcome" where
  "header_value_end env start p h x =
     (let p = (if p = length (e_data env) then p - 1 else p) in
      COUNT_HEADER_SIZE env (p - start) p (set_header_state h x) (Break p))"

function header_value_loop :: "'u env \<Rightarrow> nat \<Rightarrow> nat \<Rightarrow> 'u exec \<Rightarrow> header_states \<Rightarrow> 'u outcome" where
  "header_value_loop env start p x h =
     (if p < length (e_data env) then
        let ch = e_data env ! p in
        if ch = CR then
          DATA_header_value env p (p + 1) (set_header_state h (UPDATE_STATE s_header_almost_done x))
            (header_value_end env start p h)
        else if ch = LF then
          COUNT_HEADER_SIZE env (p - start) p (UPDATE_STATE s_header_almost_done x) (\<lambda>x.
            DATA_header_value env p p (set_header_state h x) (Reexec p ch))
        else if \<not> lenient x \<and> \<not> IS_HEADER_CHAR ch then fail HPE_INVALID_HEADER_TOKEN p x
        else (case header_value_char env p ch x h of
                HvStop out \<Rightarrow> out
              | HvNext p' x' h' \<Rightarrow> header_value_loop env start (p' + 1) x' h')
      else header_value_end env start p h x)"
  by pat_completeness auto
termination
proof (relation "measure (\<lambda>(env, start, p, x, h). length (e_data env) - p)", goal_cases)
  case (2 env start p x h ch p' x' h')
  then have "p \<le> p'" using header_value_char_ge by blast
  with 2 show ?case by simp
qed simp

declare header_value_loop.simps [simp del]

definition go_header_value :: "'u action" where
  "go_header_value env p ch x = header_value_loop env p p x (hp_header_state (prs x))"

definition go_header_almost_done :: "'u action" where
  "go_header_almost_done env p ch x =
     (if ch \<noteq> LF then fail HPE_LF_EXPECTED p x
      else Break p (UPDATE_STATE s_header_value_lws x))"

text \<open>The flag that a finished header value sets.\<close>

definition finished_header :: "'u exec \<Rightarrow> 'u exec" where
  "finished_header x =
     (case hp_header_state (prs x) of
        h_connection_keep_alive \<Rightarrow> add_flag F_CONNECTION_KEEP_ALIVE x
      | h_connection_close \<Rightarrow> add_flag F_CONNECTION_CLOSE x
      | h_transfer_encoding_chunked \<Rightarrow> add_flag F_CHUNKED x
      | h_connection_upgrade \<Rightarrow> add_flag F_CONNECTION_UPGRADE x
      | _ \<Rightarrow> x)"

definition go_header_value_lws :: "'u action" where
  "go_header_value_lws env p ch x =
     (if ch = CHR '' '' \<or> ch = HT then
        Reexec p ch (UPDATE_STATE s_header_value_start
          (if hp_header_state (prs x) = h_content_length_num
           then set_header_state h_content_length_ws x else x))
      else Reexec p ch (UPDATE_STATE s_header_field_start (finished_header x)))"

definition go_header_value_discard_lws :: "'u action" where
  "go_header_value_discard_lws env p ch x =
     (if ch = CHR '' '' \<or> ch = HT then Break p (UPDATE_STATE s_header_value_discard_ws x)
      else if hp_header_state (prs x) = h_content_length then fail HPE_INVALID_CONTENT_LENGTH p x
      else
        let x = finished_header x;
            x = UPDATE_STATE s_header_field_start
                  (x\<lparr>header_value_mark := MARK (header_value_mark x) p\<rparr>)
        in DATA_header_value env p p x (Reexec p ch))"

section \<open>End of the headers and bodies\<close>

text \<open>The special treatment of \<open>on_headers_complete\<close>: 1 skips the body, 2 also upgrades.
  The parser it sees still holds the state of before the switch, since only the callback macros
  store \<open>p_state\<close>, and \<open>p_state\<close> is not read back.\<close>

definition headers_complete ::
    "'u env \<Rightarrow> nat \<Rightarrow> 'u exec \<Rightarrow> ('u exec \<Rightarrow> 'u outcome) \<Rightarrow> 'u outcome" where
  "headers_complete env p x k =
     (let after = (\<lambda>x. if hp_http_errno (prs x) \<noteq> HPE_OK then RETURN p x else k x) in
      case on_headers_complete (e_settings env) of
        None \<Rightarrow> after x
      | Some f \<Rightarrow>
          (case f (prs x) (x_user x) of (r, pr, u) \<Rightarrow>
             let x = x\<lparr>prs := pr, x_user := u\<rparr> in
             if r = 0 then after x
             else if r = 2 then
               after (add_flag F_SKIPBODY (upd_parser (\<lambda>q. q\<lparr>hp_upgrade := True\<rparr>) x))
             else if r = 1 then after (add_flag F_SKIPBODY x)
             else RETURN p (SET_ERRNO HPE_CB_headers_complete x)))"

definition upgrade_value :: "http_parser \<Rightarrow> bool" where
  "upgrade_value q =
     (if F_UPGRADE \<in> hp_flags q \<and> F_CONNECTION_UPGRADE \<in> hp_flags q
      then hp_type q = HTTP_REQUEST \<or> hp_status_code q = 101
      else hp_method q = HTTP_CONNECT)"

definition go_headers_almost_done :: "'u action" where
  "go_headers_almost_done env p ch x =
     STRICT_CHECK (ch \<noteq> LF) p x
       (if has_flag F_TRAILING x then
          NOTIFY_chunk_complete env p (UPDATE_STATE s_message_done x) (Reexec p ch)
        else if has_flag F_CHUNKED x \<and> has_flag F_CONTENTLENGTH x then
          fail HPE_UNEXPECTED_CONTENT_LENGTH p x
        else
          headers_complete env p
            (upd_parser (\<lambda>q. q\<lparr>hp_upgrade := upgrade_value q\<rparr>) (UPDATE_STATE s_headers_done x))
            (Reexec p ch))"

definition has_body :: "http_parser \<Rightarrow> bool" where
  "has_body q \<longleftrightarrow> F_CHUNKED \<in> hp_flags q \<or>
     (hp_content_length q > 0 \<and> hp_content_length q \<noteq> ULLONG_MAX)"

definition new_message :: "'u env \<Rightarrow> nat \<Rightarrow> 'u exec \<Rightarrow> ('u exec \<Rightarrow> 'u outcome) \<Rightarrow> 'u outcome" where
  "new_message env p x k =
     NOTIFY_message_complete env (p + 1) (UPDATE_STATE (NEW_MESSAGE (prs x)) x) k"

definition reset_nread :: "'u exec \<Rightarrow> 'u exec" where
  "reset_nread x = x\<lparr>prs := (prs x)\<lparr>hp_nread := 0\<rparr>, nread := 0\<rparr>"

definition go_headers_done :: "'u action" where
  "go_headers_done env p ch x =
     STRICT_CHECK (ch \<noteq> LF) p x
       (let x = reset_nread x; q = prs x in
        if hp_upgrade q \<and> (hp_method q = HTTP_CONNECT \<or> F_SKIPBODY \<in> hp_flags q \<or> \<not> has_body q) then
          new_message env p x (RETURN (p + 1))
        else if F_SKIPBODY \<in> hp_flags q then new_message env p x (Break p)
        else if F_CHUNKED \<in> hp_flags q then Break p (UPDATE_STATE s_chunk_size_start x)
        else if hp_content_length q = 0 then new_message env p x (Break p)
        else if hp_content_length q \<noteq> ULLONG_MAX then Break p (UPDATE_STATE s_body_identity x)
        else if \<not> http_message_needs_eof q then new_message env p x (Break p)
        else Break p (UPDATE_STATE s_body_identity_eof x))"

definition mark_body :: "nat \<Rightarrow> 'u exec \<Rightarrow> 'u exec" where
  "mark_body p x = x\<lparr>body_mark := MARK (body_mark x) p\<rparr>"

definition go_body_identity :: "'u action" where
  "go_body_identity env p ch x =
     (let to_read = min (hp_content_length (prs x)) (length (e_data env) - p) in
      c_assert (hp_content_length (prs x) \<noteq> 0 \<and> hp_content_length (prs x) \<noteq> ULLONG_MAX)
        (let x = upd_parser (\<lambda>q. q\<lparr>hp_content_length := hp_content_length q - to_read\<rparr>) (mark_body p x);
             p' = p + to_read - 1 in
         if hp_content_length (prs x) = 0 then
           DATA_body env (p' + 1) p' (UPDATE_STATE s_message_done x) (Reexec p' ch)
         else Break p' x))"

definition go_body_identity_eof :: "'u action" where
  "go_body_identity_eof env p ch x = Break (length (e_data env) - 1) (mark_body p x)"

definition go_message_done :: "'u action" where
  "go_message_done env p ch x =
     new_message env p x (\<lambda>x. if hp_upgrade (prs x) then RETURN (p + 1) x else Break p x)"

definition go_chunk_size_start :: "'u action" where
  "go_chunk_size_start env p ch x =
     c_assert (nread x = 1) (c_assert (has_flag F_CHUNKED x)
       (if unhex ch = - 1 then fail HPE_INVALID_CHUNK_SIZE p x
        else Break p (UPDATE_STATE s_chunk_size
               (upd_parser (\<lambda>q. q\<lparr>hp_content_length := nat (unhex ch)\<rparr>) x))))"

definition go_chunk_size :: "'u action" where
  "go_chunk_size env p ch x =
     c_assert (has_flag F_CHUNKED x)
       (if ch = CR then Break p (UPDATE_STATE s_chunk_size_almost_done x)
        else if unhex ch = - 1 then
          if ch = CHR '';'' \<or> ch = CHR '' '' then Break p (UPDATE_STATE s_chunk_parameters x)
          else fail HPE_INVALID_CHUNK_SIZE p x
        else
          let cl = hp_content_length (prs x);
              t = (cl * 16 mod 2 ^ 64 + nat (unhex ch)) mod 2 ^ 64 in
          if (ULLONG_MAX - 16) div 16 < cl then fail HPE_INVALID_CONTENT_LENGTH p x
          else Break p (upd_parser (\<lambda>q. q\<lparr>hp_content_length := t\<rparr>) x))"

definition go_chunk_parameters :: "'u action" where
  "go_chunk_parameters env p ch x =
     c_assert (has_flag F_CHUNKED x)
       (if ch = CR then Break p (UPDATE_STATE s_chunk_size_almost_done x) else Break p x)"

definition go_chunk_size_almost_done :: "'u action" where
  "go_chunk_size_almost_done env p ch x =
     c_assert (has_flag F_CHUNKED x)
       (STRICT_CHECK (ch \<noteq> LF) p x
         (let x = reset_nread x;
              x = (if hp_content_length (prs x) = 0
                   then UPDATE_STATE s_header_field_start (add_flag F_TRAILING x)
                   else UPDATE_STATE s_chunk_data x)
          in NOTIFY_chunk_header env (p + 1) x (Break p)))"

definition go_chunk_data :: "'u action" where
  "go_chunk_data env p ch x =
     (let to_read = min (hp_content_length (prs x)) (length (e_data env) - p) in
      c_assert (has_flag F_CHUNKED x)
        (c_assert (hp_content_length (prs x) \<noteq> 0 \<and> hp_content_length (prs x) \<noteq> ULLONG_MAX)
          (let x = upd_parser (\<lambda>q. q\<lparr>hp_content_length := hp_content_length q - to_read\<rparr>) (mark_body p x);
               p' = p + to_read - 1 in
           Break p' (if hp_content_length (prs x) = 0
                     then UPDATE_STATE s_chunk_data_almost_done x else x))))"

definition go_chunk_data_almost_done :: "'u action" where
  "go_chunk_data_almost_done env p ch x =
     c_assert (has_flag F_CHUNKED x) (c_assert (hp_content_length (prs x) = 0)
       (STRICT_CHECK (ch \<noteq> CR) p x
         (DATA_body env p (p + 1) (UPDATE_STATE s_chunk_data_done x) (Break p))))"

definition go_chunk_data_done :: "'u action" where
  "go_chunk_data_done env p ch x =
     c_assert (has_flag F_CHUNKED x)
       (STRICT_CHECK (ch \<noteq> LF) p x
         (NOTIFY_chunk_complete env (p + 1) (UPDATE_STATE s_chunk_size_start (reset_nread x)) (Break p)))"

section \<open>The switch and the loop\<close>

definition switch :: "'u action" where
  "switch env p ch x =
     (case p_state x of
        s_dead \<Rightarrow> go_dead env p ch x
      | s_start_req_or_res \<Rightarrow> go_start_req_or_res env p ch x
      | s_res_or_resp_H \<Rightarrow> go_res_or_resp_H env p ch x
      | s_start_res \<Rightarrow> go_start_res env p ch x
      | s_res_H \<Rightarrow> go_expect (CHR ''T'') s_res_HT env p ch x
      | s_res_HT \<Rightarrow> go_expect (CHR ''T'') s_res_HTT env p ch x
      | s_res_HTT \<Rightarrow> go_expect (CHR ''P'') s_res_HTTP env p ch x
      | s_res_HTTP \<Rightarrow> go_expect (CHR ''/'') s_res_http_major env p ch x
      | s_res_http_major \<Rightarrow> go_http_major s_res_http_dot env p ch x
      | s_res_http_dot \<Rightarrow> go_http_dot s_res_http_minor env p ch x
      | s_res_http_minor \<Rightarrow> go_http_minor s_res_http_end env p ch x
      | s_res_http_end \<Rightarrow> go_res_http_end env p ch x
      | s_res_first_status_code \<Rightarrow> go_res_first_status_code env p ch x
      | s_res_status_code \<Rightarrow> go_res_status_code env p ch x
      | s_res_status_start \<Rightarrow> go_res_status_start env p ch x
      | s_res_status \<Rightarrow> go_res_status env p ch x
      | s_res_line_almost_done \<Rightarrow> go_expect LF s_header_field_start env p ch x
      | s_start_req \<Rightarrow> go_start_req env p ch x
      | s_req_method \<Rightarrow> go_req_method env p ch x
      | s_req_spaces_before_url \<Rightarrow> go_req_spaces_before_url env p ch x
      | s_req_schema \<Rightarrow> go_req_schema env p ch x
      | s_req_schema_slash \<Rightarrow> go_req_schema env p ch x
      | s_req_schema_slash_slash \<Rightarrow> go_req_schema env p ch x
      | s_req_server_start \<Rightarrow> go_req_schema env p ch x
      | s_req_server \<Rightarrow> go_req_url env p ch x
      | s_req_server_with_at \<Rightarrow> go_req_url env p ch x
      | s_req_path \<Rightarrow> go_req_url env p ch x
      | s_req_query_string_start \<Rightarrow> go_req_url env p ch x
      | s_req_query_string \<Rightarrow> go_req_url env p ch x
      | s_req_fragment_start \<Rightarrow> go_req_url env p ch x
      | s_req_fragment \<Rightarrow> go_req_url env p ch x
      | s_req_http_start \<Rightarrow> go_req_http_start env p ch x
      | s_req_http_H \<Rightarrow> go_expect (CHR ''T'') s_req_http_HT env p ch x
      | s_req_http_HT \<Rightarrow> go_expect (CHR ''T'') s_req_http_HTT env p ch x
      | s_req_http_HTT \<Rightarrow> go_expect (CHR ''P'') s_req_http_HTTP env p ch x
      | s_req_http_I \<Rightarrow> go_expect (CHR ''C'') s_req_http_IC env p ch x
      | s_req_http_IC \<Rightarrow> go_expect (CHR ''E'') s_req_http_HTTP env p ch x
      | s_req_http_HTTP \<Rightarrow> go_expect (CHR ''/'') s_req_http_major env p ch x
      | s_req_http_major \<Rightarrow> go_http_major s_req_http_dot env p ch x
      | s_req_http_dot \<Rightarrow> go_http_dot s_req_http_minor env p ch x
      | s_req_http_minor \<Rightarrow> go_http_minor s_req_http_end env p ch x
      | s_req_http_end \<Rightarrow> go_req_http_end env p ch x
      | s_req_line_almost_done \<Rightarrow> go_req_line_almost_done env p ch x
      | s_header_field_start \<Rightarrow> go_header_field_start env p ch x
      | s_header_field \<Rightarrow> go_header_field env p ch x
      | s_header_value_discard_ws \<Rightarrow> go_header_value_discard_ws env p ch x
      | s_header_value_start \<Rightarrow> go_header_value_start env p ch x
      | s_header_value \<Rightarrow> go_header_value env p ch x
      | s_header_almost_done \<Rightarrow> go_header_almost_done env p ch x
      | s_header_value_lws \<Rightarrow> go_header_value_lws env p ch x
      | s_header_value_discard_ws_almost_done \<Rightarrow> go_expect LF s_header_value_discard_lws env p ch x
      | s_header_value_discard_lws \<Rightarrow> go_header_value_discard_lws env p ch x
      | s_headers_almost_done \<Rightarrow> go_headers_almost_done env p ch x
      | s_headers_done \<Rightarrow> go_headers_done env p ch x
      | s_body_identity \<Rightarrow> go_body_identity env p ch x
      | s_body_identity_eof \<Rightarrow> go_body_identity_eof env p ch x
      | s_message_done \<Rightarrow> go_message_done env p ch x
      | s_chunk_size_start \<Rightarrow> go_chunk_size_start env p ch x
      | s_chunk_size \<Rightarrow> go_chunk_size env p ch x
      | s_chunk_parameters \<Rightarrow> go_chunk_parameters env p ch x
      | s_chunk_size_almost_done \<Rightarrow> go_chunk_size_almost_done env p ch x
      | s_chunk_data \<Rightarrow> go_chunk_data env p ch x
      | s_chunk_data_almost_done \<Rightarrow> go_chunk_data_almost_done env p ch x
      | s_chunk_data_done \<Rightarrow> go_chunk_data_done env p ch x)"

text \<open>\<open>goto reexecute\<close>, at most \<open>reexec_fuel\<close> times for one byte.\<close>

definition reexec_fuel :: nat where "reexec_fuel = 5"

fun reexecute :: "nat \<Rightarrow> 'u env \<Rightarrow> nat \<Rightarrow> char \<Rightarrow> 'u exec \<Rightarrow> 'u outcome" where
  "reexecute 0 env p ch x = NoFuel"
| "reexecute (Suc n) env p ch x =
     (case switch env p ch x of
        Reexec p' ch' x' \<Rightarrow> reexecute n env p' ch' x'
      | out \<Rightarrow> out)"

definition exec_byte :: "'u env \<Rightarrow> nat \<Rightarrow> 'u exec \<Rightarrow> 'u outcome" where
  "exec_byte env p x =
     (let ch = e_data env ! p in
      if PARSING_HEADER (p_state x) then COUNT_HEADER_SIZE env 1 p x (reexecute reexec_fuel env p ch)
      else reexecute reexec_fuel env p ch x)"

text \<open>After the loop: the callbacks for the marks that are left over.\<close>

definition mark_count :: "'u exec \<Rightarrow> nat" where
  "mark_count x = of_bool (header_field_mark x \<noteq> None) + of_bool (header_value_mark x \<noteq> None) +
     of_bool (url_mark x \<noteq> None) + of_bool (body_mark x \<noteq> None) + of_bool (status_mark x \<noteq> None)"

definition exec_end :: "'u env \<Rightarrow> nat \<Rightarrow> 'u exec \<Rightarrow> 'u outcome" where
  "exec_end env p x =
     c_assert (mark_count x \<le> 1)
       (DATA_header_field env p p x (\<lambda>x.
        DATA_header_value env p p x (\<lambda>x.
        DATA_url env p p x (\<lambda>x.
        DATA_body env p p x (\<lambda>x.
        DATA_status env p p x (RETURN (length (e_data env))))))))"

fun exec_loop :: "nat \<Rightarrow> 'u env \<Rightarrow> nat \<Rightarrow> 'u exec \<Rightarrow> 'u outcome" where
  "exec_loop 0 env p x = NoFuel"
| "exec_loop (Suc n) env p x =
     (if p = length (e_data env) then exec_end env p x
      else (case exec_byte env p x of
              Break p' x' \<Rightarrow> exec_loop n env (p' + 1) x'
            | out \<Rightarrow> out))"

text \<open>The marks a call starts with, from the state the previous one stopped in.\<close>

definition url_state :: "state \<Rightarrow> bool" where
  "url_state s \<longleftrightarrow>
     s \<in> {s_req_path, s_req_schema, s_req_schema_slash, s_req_schema_slash_slash, s_req_server_start,
       s_req_server, s_req_server_with_at, s_req_query_string_start, s_req_query_string,
       s_req_fragment_start, s_req_fragment}"

definition exec_init :: "http_parser \<Rightarrow> 'u \<Rightarrow> 'u exec" where
  "exec_init parser u =
     (let s = hp_state parser; mark = (\<lambda>b. if b then Some 0 else None) in
      \<lparr>prs = parser, p_state = s, nread = hp_nread parser,
       header_field_mark = mark (s = s_header_field), header_value_mark = mark (s = s_header_value),
       url_mark = mark (url_state s), body_mark = None, status_mark = mark (s = s_res_status),
       lenient = hp_lenient parser, x_user = u\<rparr>)"

datatype (plugins only: code) 'u exec_result =
    Parsed nat http_parser 'u
  | Aborted
  | OutOfFuel

definition exec_finish :: "'u outcome \<Rightarrow> 'u exec_result" where
  "exec_finish out =
     (case out of
        Return n x \<Rightarrow> Parsed n (prs x) (x_user x)
      | GotoError p x \<Rightarrow>
          (let x = (if hp_http_errno (prs x) = HPE_OK then SET_ERRNO HPE_UNKNOWN x else x) in
           Parsed p ((prs x)\<lparr>hp_nread := nread x, hp_state := p_state x\<rparr>) (x_user x))
      | Abort \<Rightarrow> Aborted
      | _ \<Rightarrow> OutOfFuel)"

text \<open>\<open>http_parser_execute(parser, settings, data, len)\<close>; \<open>mx\<close> is the static variable
  \<open>max_header_size\<close>.\<close>

definition http_parser_execute ::
    "nat \<Rightarrow> http_parser \<Rightarrow> 'u http_parser_settings \<Rightarrow> string \<Rightarrow> 'u \<Rightarrow> 'u exec_result" where
  "http_parser_execute mx parser stg buf u =
     (let env = \<lparr>e_settings = stg, e_max_header_size = mx, e_data = buf\<rparr>; x = exec_init parser u in
      if hp_http_errno parser \<noteq> HPE_OK then Parsed 0 parser u
      else if buf = [] then
        (if p_state x = s_body_identity_eof then
           exec_finish (NOTIFY_message_complete env 0 x (Return 0))
         else if p_state x \<in> {s_dead, s_start_req_or_res, s_start_res, s_start_req} then Parsed 0 parser u
         else exec_finish (Return 1 (SET_ERRNO HPE_INVALID_EOF_STATE x)))
      else exec_finish (exec_loop (length buf + 1) env 0 x))"

end
