(* ===== verification/Http_Parser_Safety.thy ===== *)
theory Http_Parser_Safety
  imports Http_Parser
begin

text \<open>
  Safety of \<open>http_parser_execute\<close>.  The invariant \<open>exec_ok\<close> relates the state of the
  parser to its other fields and to the marks of the running call; the locale
  \<open>parser_callbacks\<close> states what the callbacks promise (they leave the parser alone and keep
  a predicate \<open>I\<close> of their owner), and in it every case of the switch is shown to keep the
  invariant, to move forward inside the buffer, and never to fail an assertion or index outside
  an array.
\<close>

section \<open>The invariant\<close>

definition chunk_states :: "state set" where
  "chunk_states =
     {s_chunk_size_start, s_chunk_size, s_chunk_parameters, s_chunk_size_almost_done,
      s_chunk_data, s_chunk_data_almost_done, s_chunk_data_done}"

definition body_mark_states :: "state set" where
  "body_mark_states = {s_body_identity, s_body_identity_eof, s_chunk_data, s_chunk_data_almost_done}"

definition field_header_states :: "header_states set" where
  "field_header_states =
     {h_general, h_C, h_CO, h_CON, h_matching_connection, h_matching_proxy_connection,
      h_matching_content_length, h_matching_transfer_encoding, h_matching_upgrade,
      h_connection, h_content_length, h_transfer_encoding, h_upgrade}"

text \<open>What holds of the parser record when it is in state \<open>s\<close>.\<close>

definition parser_ok :: "state \<Rightarrow> http_parser \<Rightarrow> bool" where
  "parser_ok s q \<longleftrightarrow>
     hp_content_length q \<le> ULLONG_MAX \<and>
     (s = s_req_method \<longrightarrow> hp_index q \<le> length (method_strings (hp_method q))) \<and>
     (s \<in> chunk_states \<longrightarrow> F_CHUNKED \<in> hp_flags q) \<and>
     (s \<in> chunk_states \<union> {s_headers_done, s_body_identity, s_body_identity_eof} \<longrightarrow>
        \<not> (F_CHUNKED \<in> hp_flags q \<and> F_CONTENTLENGTH \<in> hp_flags q)) \<and>
     (s = s_chunk_data \<or> s = s_body_identity \<longrightarrow>
        hp_content_length q \<noteq> 0 \<and> hp_content_length q \<noteq> ULLONG_MAX) \<and>
     (s = s_chunk_size \<or> s = s_chunk_parameters \<or> s = s_chunk_size_almost_done \<longrightarrow>
        hp_content_length q \<noteq> ULLONG_MAX) \<and>
     (s = s_chunk_data_almost_done \<longrightarrow> hp_content_length q = 0) \<and>
     (s = s_header_field \<longrightarrow> hp_header_state q \<in> field_header_states) \<and>
     (s = s_header_value \<longrightarrow> hp_header_state q \<noteq> h_connection \<and> hp_header_state q \<noteq> h_transfer_encoding)"

definition mark_ok :: "nat \<Rightarrow> nat option \<Rightarrow> bool \<Rightarrow> bool" where
  "mark_ok p m b \<longleftrightarrow> (case m of None \<Rightarrow> True | Some at \<Rightarrow> b \<and> at \<le> p)"

definition marks_ok :: "nat \<Rightarrow> 'u exec \<Rightarrow> bool" where
  "marks_ok p x \<longleftrightarrow>
     mark_ok p (header_field_mark x) (p_state x = s_header_field) \<and>
     mark_ok p (header_value_mark x) (p_state x = s_header_value) \<and>
     mark_ok p (url_mark x) (url_state (p_state x)) \<and>
     mark_ok p (body_mark x) (p_state x \<in> body_mark_states) \<and>
     mark_ok p (status_mark x) (p_state x = s_res_status)"

text \<open>\<open>n\<close> is the number of bytes counted in \<open>s_chunk_size_start\<close>: 0 between two
  bytes, 1 inside the switch.\<close>

definition exec_ok :: "nat \<Rightarrow> 'u env \<Rightarrow> nat \<Rightarrow> 'u exec \<Rightarrow> bool" where
  "exec_ok n env p x \<longleftrightarrow>
     hp_http_errno (prs x) = HPE_OK \<and> parser_ok (p_state x) (prs x) \<and>
     nread x \<le> e_max_header_size env \<and> (p_state x = s_chunk_size_start \<longrightarrow> nread x = n) \<and>
     marks_ok p x"

text \<open>The parser record between two calls.\<close>

definition parser_inv :: "nat \<Rightarrow> http_parser \<Rightarrow> bool" where
  "parser_inv mx q \<longleftrightarrow>
     hp_http_errno q \<noteq> HPE_OK \<or>
     parser_ok (hp_state q) q \<and> hp_nread q \<le> mx \<and> (hp_state q = s_chunk_size_start \<longrightarrow> hp_nread q = 0)"

text \<open>How often a byte may still be re-examined in a state.\<close>

definition reexec_rank :: "state \<Rightarrow> nat" where
  "reexec_rank s =
     (if s = s_header_value_lws \<or> s = s_header_value_discard_lws then 3
      else if s = s_header_field_start \<or> s = s_res_status_code then 2
      else if s = s_headers_almost_done \<or> s = s_res_status_start \<or> s = s_start_req_or_res \<or>
           s = s_header_value \<or> s = s_body_identity then 1
      else 0)"

text \<open>What a step may do from position \<open>p\<close>, with at most \<open>n\<close> more re-examinations.\<close>

primrec outcome_ok :: "('u \<Rightarrow> bool) \<Rightarrow> 'u env \<Rightarrow> nat \<Rightarrow> nat \<Rightarrow> 'u outcome \<Rightarrow> bool" where
  "outcome_ok I env p n (Break p' x) \<longleftrightarrow>
     p \<le> p' \<and> p' < length (e_data env) \<and> exec_ok 0 env (p' + 1) x \<and> I (x_user x)"
| "outcome_ok I env p n (Reexec p' ch x) \<longleftrightarrow>
     p \<le> p' \<and> p' < length (e_data env) \<and> exec_ok 1 env p' x \<and> I (x_user x) \<and>
     reexec_rank (p_state x) < n"
| "outcome_ok I env p n (GotoError p' x) \<longleftrightarrow>
     p' \<le> length (e_data env) \<and> hp_http_errno (prs x) \<noteq> HPE_OK \<and> I (x_user x)"
| "outcome_ok I env p n (Return v x) \<longleftrightarrow>
     v \<le> length (e_data env) \<and> parser_inv (e_max_header_size env) (prs x) \<and> I (x_user x) \<and>
     (hp_http_errno (prs x) \<noteq> HPE_OK \<or> hp_upgrade (prs x) \<or> v = length (e_data env))"
| "outcome_ok I env p n Abort \<longleftrightarrow> False"
| "outcome_ok I env p n NoFuel \<longleftrightarrow> False"

text \<open>The states that ask nothing of the other fields, and in which no mark is set.\<close>

definition plain_state :: "state \<Rightarrow> bool" where
  "plain_state s \<longleftrightarrow>
     s \<notin> {s_req_method, s_headers_done, s_header_field, s_header_value, s_res_status,
       s_body_identity, s_body_identity_eof,
       s_chunk_size_start, s_chunk_size, s_chunk_parameters, s_chunk_size_almost_done,
       s_chunk_data, s_chunk_data_almost_done, s_chunk_data_done,
       s_req_path, s_req_schema, s_req_schema_slash, s_req_schema_slash_slash, s_req_server_start,
       s_req_server, s_req_server_with_at, s_req_query_string_start, s_req_query_string,
       s_req_fragment_start, s_req_fragment}"

lemmas ok_defs = exec_ok_def parser_ok_def marks_ok_def chunk_states_def
  body_mark_states_def field_header_states_def url_state_def

lemmas step_defs = UPDATE_STATE_def SET_ERRNO_def fail_def STRICT_CHECK_def upd_parser_def
  add_flag_def c_assert_def RETURN_def

lemma outcome_ok_fail [simp]:
  "outcome_ok I env p n (fail e p' x) \<longleftrightarrow> p' \<le> length (e_data env) \<and> e \<noteq> HPE_OK \<and> I (x_user x)"
  by (simp add: step_defs)

lemma mark_ok_simps [simp]:
  "mark_ok p None b" "mark_ok p (Some at) b \<longleftrightarrow> b \<and> at \<le> p"
  by (simp_all add: mark_ok_def)

lemma mark_ok_MARK [simp]: "mark_ok p (MARK m p) b \<longleftrightarrow> b \<and> (m = None \<or> mark_ok p m b)"
  by (auto simp: mark_ok_def MARK_def split: option.splits)

lemma mark_ok_mono: "mark_ok p m b \<Longrightarrow> p \<le> p' \<Longrightarrow> (b \<Longrightarrow> b') \<Longrightarrow> mark_ok p' m b'"
  by (auto simp: mark_ok_def split: option.splits)

lemma mark_ok_Suc [simp]: "mark_ok p m b \<Longrightarrow> mark_ok (Suc p) m b"
  by (simp add: mark_ok_mono)

lemma mark_ok_False [simp]: "mark_ok p m False \<longleftrightarrow> m = None"
  by (auto simp: mark_ok_def split: option.splits)

definition no_marks :: "'u exec \<Rightarrow> bool" where
  "no_marks x \<longleftrightarrow> header_field_mark x = None \<and> header_value_mark x = None \<and> url_mark x = None \<and>
     body_mark x = None \<and> status_mark x = None"

definition exec_base :: "'u env \<Rightarrow> 'u exec \<Rightarrow> bool" where
  "exec_base env x \<longleftrightarrow> hp_http_errno (prs x) = HPE_OK \<and> hp_content_length (prs x) \<le> ULLONG_MAX \<and>
     nread x \<le> e_max_header_size env"

definition no_both :: "http_parser \<Rightarrow> bool" where
  "no_both q \<longleftrightarrow> \<not> (F_CHUNKED \<in> hp_flags q \<and> F_CONTENTLENGTH \<in> hp_flags q)"

definition chunked_only :: "http_parser \<Rightarrow> bool" where
  "chunked_only q \<longleftrightarrow> F_CHUNKED \<in> hp_flags q \<and> F_CONTENTLENGTH \<notin> hp_flags q"

text \<open>The invariant state by state.\<close>

lemma exec_ok_plain:
  "plain_state (p_state x) \<Longrightarrow> exec_ok n env p x \<longleftrightarrow> exec_base env x \<and> no_marks x"
  unfolding plain_state_def ok_defs no_marks_def exec_base_def by auto

lemma exec_ok_req_method:
  "p_state x = s_req_method \<Longrightarrow>
     exec_ok n env p x \<longleftrightarrow> exec_base env x \<and> no_marks x \<and>
       hp_index (prs x) \<le> length (method_strings (hp_method (prs x)))"
  unfolding ok_defs no_marks_def exec_base_def by auto

lemma exec_ok_headers_done:
  "p_state x = s_headers_done \<Longrightarrow> exec_ok n env p x \<longleftrightarrow> exec_base env x \<and> no_marks x \<and> no_both (prs x)"
  unfolding ok_defs no_marks_def exec_base_def no_both_def by auto

lemma exec_ok_header_field:
  "p_state x = s_header_field \<Longrightarrow>
     exec_ok n env p x \<longleftrightarrow> exec_base env x \<and> mark_ok p (header_field_mark x) True \<and>
       header_value_mark x = None \<and> url_mark x = None \<and> body_mark x = None \<and> status_mark x = None \<and>
       hp_header_state (prs x) \<in> field_header_states"
  unfolding ok_defs exec_base_def by auto

lemma exec_ok_header_value:
  "p_state x = s_header_value \<Longrightarrow>
     exec_ok n env p x \<longleftrightarrow> exec_base env x \<and> mark_ok p (header_value_mark x) True \<and>
       header_field_mark x = None \<and> url_mark x = None \<and> body_mark x = None \<and> status_mark x = None \<and>
       hp_header_state (prs x) \<noteq> h_connection \<and> hp_header_state (prs x) \<noteq> h_transfer_encoding"
  unfolding ok_defs exec_base_def by auto

lemma exec_ok_res_status:
  "p_state x = s_res_status \<Longrightarrow>
     exec_ok n env p x \<longleftrightarrow> exec_base env x \<and> mark_ok p (status_mark x) True \<and>
       header_field_mark x = None \<and> header_value_mark x = None \<and> url_mark x = None \<and> body_mark x = None"
  unfolding ok_defs exec_base_def by auto

lemma exec_ok_url:
  "url_state (p_state x) \<Longrightarrow>
     exec_ok n env p x \<longleftrightarrow> exec_base env x \<and> mark_ok p (url_mark x) True \<and>
       header_field_mark x = None \<and> header_value_mark x = None \<and> body_mark x = None \<and> status_mark x = None"
  unfolding url_state_def by (elim insertE emptyE; simp add: ok_defs exec_base_def; blast)

lemma exec_ok_identity:
  "p_state x = s_body_identity \<or> p_state x = s_body_identity_eof \<Longrightarrow>
     exec_ok n env p x \<longleftrightarrow> exec_base env x \<and> mark_ok p (body_mark x) True \<and>
       header_field_mark x = None \<and> header_value_mark x = None \<and> url_mark x = None \<and> status_mark x = None \<and>
       no_both (prs x) \<and> (p_state x = s_body_identity \<longrightarrow>
         hp_content_length (prs x) \<noteq> 0 \<and> hp_content_length (prs x) \<noteq> ULLONG_MAX)"
  by (elim disjE; simp add: ok_defs exec_base_def no_both_def; blast)

lemma exec_ok_chunk_data:
  "p_state x = s_chunk_data \<or> p_state x = s_chunk_data_almost_done \<Longrightarrow>
     exec_ok n env p x \<longleftrightarrow> exec_base env x \<and> mark_ok p (body_mark x) True \<and>
       header_field_mark x = None \<and> header_value_mark x = None \<and> url_mark x = None \<and> status_mark x = None \<and>
       chunked_only (prs x) \<and> (p_state x = s_chunk_data \<longrightarrow>
         hp_content_length (prs x) \<noteq> 0 \<and> hp_content_length (prs x) \<noteq> ULLONG_MAX) \<and>
       (p_state x = s_chunk_data_almost_done \<longrightarrow> hp_content_length (prs x) = 0)"
  by (elim disjE; simp add: ok_defs exec_base_def chunked_only_def; blast)

lemma exec_ok_chunk_size:
  "p_state x \<in> {s_chunk_size_start, s_chunk_size, s_chunk_parameters, s_chunk_size_almost_done,
       s_chunk_data_done} \<Longrightarrow>
     exec_ok n env p x \<longleftrightarrow> exec_base env x \<and> no_marks x \<and> chunked_only (prs x) \<and>
       (p_state x = s_chunk_size_start \<longrightarrow> nread x = n) \<and>
       (p_state x \<noteq> s_chunk_size_start \<and> p_state x \<noteq> s_chunk_data_done \<longrightarrow>
          hp_content_length (prs x) \<noteq> ULLONG_MAX)"
  by (elim insertE emptyE; simp add: ok_defs exec_base_def no_marks_def chunked_only_def; blast)

lemmas exec_ok_simps = exec_ok_plain exec_ok_req_method exec_ok_headers_done exec_ok_header_field
  exec_ok_header_value exec_ok_res_status exec_ok_url exec_ok_identity exec_ok_chunk_data
  exec_ok_chunk_size

lemma first_method_length: "first_method ch = Some m \<Longrightarrow> 1 \<le> length (method_strings m)"
  by (auto simp: first_method_def split: if_splits)

lemma method_switch_prefix:
  "method_switch m i ch = Some m' \<Longrightarrow>
     i < length (method_strings m') \<and> method_strings m' ! i = ch \<and>
     take i (method_strings m') = take i (method_strings m)"
  by (simp add: method_switch_def split: if_splits)

lemma parser_inv_plain:
  "plain_state (hp_state q) \<Longrightarrow> hp_content_length q \<le> ULLONG_MAX \<Longrightarrow> hp_nread q \<le> mx \<Longrightarrow> parser_inv mx q"
  unfolding plain_state_def parser_inv_def parser_ok_def chunk_states_def by simp

lemma plain_NEW_MESSAGE [simp]: "plain_state (NEW_MESSAGE q)"
  by (simp add: NEW_MESSAGE_def start_state_def plain_state_def)

section \<open>Reading header names and values\<close>

lemma skip_token_less: "p < length buf \<Longrightarrow> skip_token buf p pe < length buf"
proof (induction buf p pe rule: skip_token.induct)
  case (1 buf p pe)
  then show ?case by (subst skip_token.simps) auto
qed

text \<open>The fields that reading a header name or value may change.\<close>

definition name_frame :: "http_parser \<Rightarrow> http_parser \<Rightarrow> bool" where
  "name_frame q q' \<longleftrightarrow> q' = q\<lparr>hp_index := hp_index q', hp_header_state := hp_header_state q'\<rparr>"

lemma name_frame_refl [simp]: "name_frame q q"
  by (simp add: name_frame_def)

lemma name_frame_trans: "name_frame q q' \<Longrightarrow> name_frame q' q'' \<Longrightarrow> name_frame q q''"
  by (cases q; cases q'; cases q'') (simp add: name_frame_def)

lemma name_frame_fields:
  assumes "name_frame q q'"
  shows "hp_http_errno q' = hp_http_errno q" "hp_content_length q' = hp_content_length q"
  by (use assms in \<open>cases q; cases q'; simp add: name_frame_def\<close>)+

lemma field_header_states_simps [simp]:
  "h_general \<in> field_header_states" "h_C \<in> field_header_states" "h_CO \<in> field_header_states"
  "h_CON \<in> field_header_states" "h_matching_connection \<in> field_header_states"
  "h_matching_proxy_connection \<in> field_header_states" "h_matching_content_length \<in> field_header_states"
  "h_matching_transfer_encoding \<in> field_header_states" "h_matching_upgrade \<in> field_header_states"
  "h_connection \<in> field_header_states" "h_content_length \<in> field_header_states"
  "h_transfer_encoding \<in> field_header_states" "h_upgrade \<in> field_header_states"
  by (simp_all add: field_header_states_def)

lemma match_literal_cases: "P same \<Longrightarrow> P miss \<Longrightarrow> P hit \<Longrightarrow> P (match_literal s same miss hit c i)"
  by (simp add: match_literal_def split: option.split)

lemma header_field_char_ok:
  assumes "hp_header_state q \<in> field_header_states" "p < length (e_data env)"
  shows "\<exists>p' q'. header_field_char env p ch c q = Some (p', q') \<and> p \<le> p' \<and> p' < length (e_data env) \<and>
    name_frame q q' \<and> hp_header_state q' \<in> field_header_states"
  using assms(1) unfolding field_header_states_def
  by (elim insertE emptyE;
      use assms(2) in \<open>simp add: header_field_char_def Let_def skip_token_ge skip_token_less name_frame_def
        match_literal_cases [where P = "\<lambda>h. h \<in> field_header_states", simplified]
        flip: field_header_states_def\<close>)

lemma header_field_loop_ok:
  assumes "hp_header_state q \<in> field_header_states" "p \<le> length (e_data env)"
  shows "\<exists>p' ch' q'. header_field_loop env p ch q = Some (p', ch', q') \<and> p \<le> p' \<and>
    p' \<le> length (e_data env) \<and> name_frame q q' \<and> hp_header_state q' \<in> field_header_states"
  using assms
proof (induction env p ch q rule: header_field_loop.induct)
  case (1 env p ch q)
  show ?case
  proof (cases "p < length (e_data env) \<and> TOKEN (e_data env ! p) \<noteq> NUL")
    case True
    let ?ch = "e_data env ! p"
    obtain p' q' where c: "header_field_char env p ?ch (TOKEN ?ch) q = Some (p', q')" "p \<le> p'"
      "p' < length (e_data env)" "name_frame q q'" "hp_header_state q' \<in> field_header_states"
      using header_field_char_ok [of q p env ?ch "TOKEN ?ch"] "1.prems" True by blast
    from "1.IH" [OF _ refl refl _ c(1) refl] c True obtain p'' ch'' q'' where
      "header_field_loop env (p' + 1) ?ch q' = Some (p'', ch'', q'')" "p' + 1 \<le> p''"
      "p'' \<le> length (e_data env)" "name_frame q' q''" "hp_header_state q'' \<in> field_header_states"
      by auto
    with c True show ?thesis
      by (subst header_field_loop.simps) (auto simp: Let_def intro: name_frame_trans)
  next
    case False
    with "1.prems" show ?thesis by (subst header_field_loop.simps) (auto simp: Let_def)
  qed
qed

text \<open>The local state while a header value is read, and what one of its bytes may do.\<close>

definition hv_inv :: "'u env \<Rightarrow> nat \<Rightarrow> 'u exec \<Rightarrow> bool" where
  "hv_inv env p x \<longleftrightarrow> p_state x = s_header_value \<and> exec_base env x \<and>
     mark_ok p (header_value_mark x) True \<and> header_field_mark x = None \<and> url_mark x = None \<and>
     body_mark x = None \<and> status_mark x = None"

primrec hv_ok :: "('u \<Rightarrow> bool) \<Rightarrow> 'u env \<Rightarrow> nat \<Rightarrow> 'u hv \<Rightarrow> bool" where
  "hv_ok I env p (HvNext p' x h) \<longleftrightarrow>
     p \<le> p' \<and> p' < length (e_data env) \<and> hv_inv env p x \<and> I (x_user x) \<and>
     h \<noteq> h_connection \<and> h \<noteq> h_transfer_encoding"
| "hv_ok I env p (HvStop out) \<longleftrightarrow>
     (\<exists>p' x. out = GotoError p' x \<and> p' \<le> length (e_data env) \<and> hp_http_errno (prs x) \<noteq> HPE_OK \<and>
        I (x_user x))"

lemma content_length_step:
  assumes "cl \<le> (ULLONG_MAX - 10) div 10" "d < 10"
  shows "(cl * 10 mod 2 ^ 64 + d) mod 2 ^ 64 = cl * 10 + d" "cl * 10 + d < ULLONG_MAX"
  using assms by simp_all

lemma IS_NUM_digit_of: "IS_NUM ch \<Longrightarrow> digit_of ch < 10"
  by (cases ch) (auto simp: IS_NUM_def digit_of_def less_eq_char_def of_char_def split: if_splits)

lemma hv_content_length_num_ok:
  assumes "hv_inv env p x" "I (x_user x)" "p < length (e_data env)"
  shows "hv_ok I env p (hv_content_length_num p ch x)"
  using assms IS_NUM_digit_of [of ch] content_length_step [of "hp_content_length (prs x)" "digit_of ch"]
  by (auto simp: hv_content_length_num_def Let_def fail_hs_def step_defs hv_inv_def exec_base_def
      simp del: power_numeral)

lemma skip_value_le:
  "p \<le> length buf \<Longrightarrow> case skip_value buf l p pe of Inl p' \<Rightarrow> p' < length buf | Inr p' \<Rightarrow> p' \<le> length buf"
proof (induction buf l p pe rule: skip_value.induct)
  case (1 buf l p pe)
  then show ?case by (subst skip_value.simps) (auto simp: Let_def)
qed

lemma hv_inv_upd:
  "hv_inv env p x \<Longrightarrow> hv_inv env p (upd_parser incr_index x)"
  "hv_inv env p x \<Longrightarrow> hv_inv env p (upd_parser (\<lambda>q. q\<lparr>hp_index := i\<rparr>) x)"
  "hv_inv env p x \<Longrightarrow> hv_inv env p (add_flag_opt f x)"
  "hv_inv env p x \<Longrightarrow> hv_inv env p (UPDATE_STATE s_header_value x)"
  by (simp_all add: hv_inv_def exec_base_def step_defs incr_index_def add_flag_opt_def split: option.split)

lemma hv_user_upd [simp]:
  "x_user (upd_parser f x) = x_user x" "x_user (add_flag_opt g x) = x_user x"
  "x_user (UPDATE_STATE s x) = x_user x" "x_user (set_header_state h x) = x_user x"
  by (simp_all add: step_defs add_flag_opt_def set_header_state_def split: option.split)

lemma hv_general_ok:
  assumes "hv_inv env p x" "I (x_user x)" "p < length (e_data env)"
    "e_data env ! p \<noteq> CR" "e_data env ! p \<noteq> LF"
  shows "hv_ok I env p (header_value_char env p ch x h_general)"
proof -
  let ?pe = "p + min (length (e_data env) - p) (e_max_header_size env)"
  let ?v = "skip_value (e_data env) (lenient x) p ?pe"
  have le: "case ?v of Inl p' \<Rightarrow> p' < length (e_data env) | Inr p' \<Rightarrow> p' \<le> length (e_data env)"
    using assms(3) by (simp add: skip_value_le)
  show ?thesis
  proof (cases ?v)
    case (Inl p')
    with le assms show ?thesis by (simp add: header_value_char_def Let_def fail_def SET_ERRNO_def)
  next
    case (Inr p')
    let ?p = "if p' = length (e_data env) then p' - 1 else p'"
    from Inr have eq: "header_value_char env p ch x h_general = HvNext ?p x h_general"
      by (simp add: header_value_char_def Let_def)
    with header_value_char_ge [OF eq] assms le Inr show ?thesis by (cases "e_data env") auto
  qed
qed

lemma header_value_char_ok:
  assumes x: "hv_inv env p x" "I (x_user x)" and p: "p < length (e_data env)"
    "e_data env ! p \<noteq> CR" "e_data env ! p \<noteq> LF" and h: "h \<noteq> h_connection" "h \<noteq> h_transfer_encoding"
  shows "hv_ok I env p (header_value_char env p ch x h)"
proof -
  have match: "hv_ok I env p (HvNext p (upd_parser incr_index x) (match_literal s same miss hit c i))"
    if "{same, miss, hit} \<inter> {h_connection, h_transfer_encoding} = {}" for s same miss hit c i
    by (rule match_literal_cases [where P = "\<lambda>h. hv_ok I env p (HvNext p (upd_parser incr_index x) h)"])
      (use that x p hv_inv_upd in auto)
  have stop: "hv_ok I env p (HvStop (fail_hs HPE_INVALID_CONTENT_LENGTH h' p x))" for h'
    using x p by (simp add: fail_hs_def step_defs)
  show ?thesis
  proof (cases h)
    case h_general
    with assms show ?thesis by (simp add: hv_general_ok)
  next
    case h_content_length
    with x p hv_content_length_num_ok [of env p x I ch] show ?thesis
      by (simp add: header_value_char_def Let_def)
  next
    case h_content_length_num
    with x p hv_content_length_num_ok [of env p x I ch] show ?thesis
      by (simp add: header_value_char_def Let_def)
  qed (use x p h match stop in \<open>simp_all add: header_value_char_def Let_def connection_flag_def hv_inv_upd\<close>)
qed

lemma unhex_range: "unhex ch \<noteq> - 1 \<Longrightarrow> 0 \<le> unhex ch \<and> unhex ch < 16"
proof -
  have "(of_char ch :: int) = int (of_char ch)" by (rule of_nat_of_char [symmetric])
  then show "unhex ch \<noteq> - 1 \<Longrightarrow> 0 \<le> unhex ch \<and> unhex ch < 16"
    by (auto simp: unhex_def less_eq_char_def split: if_splits)
qed

lemma chunk_size_step:
  assumes "cl \<le> (ULLONG_MAX - 16) div 16" "d < 16"
  shows "(cl * 16 mod 2 ^ 64 + d) mod 2 ^ 64 = cl * 16 + d" "cl * 16 + d < ULLONG_MAX"
  using assms by simp_all

section \<open>The callbacks\<close>

locale parser_callbacks =
  fixes env :: "'u env" and I :: "'u \<Rightarrow> bool"
  assumes notify:
    "\<lbrakk>Some f \<in> {on_message_begin (e_settings env), on_headers_complete (e_settings env),
        on_message_complete (e_settings env), on_chunk_header (e_settings env),
        on_chunk_complete (e_settings env)}; I u; f q u = (r, q', u')\<rbrakk> \<Longrightarrow> q' = q \<and> I u'"
  and notify_data:
    "\<lbrakk>Some g \<in> {on_url (e_settings env), on_status (e_settings env), on_header_field (e_settings env),
        on_header_value (e_settings env), on_body (e_settings env)}; I u;
      at + n \<le> length (e_data env); g q at (take n (drop at (e_data env))) u = (r, q', u')\<rbrakk>
      \<Longrightarrow> q' = q \<and> I u'"
begin

lemma CALLBACK_NOTIFY_ok:
  assumes cb: "cb \<in> {on_message_begin (e_settings env), on_message_complete (e_settings env),
        on_chunk_header (e_settings env), on_chunk_complete (e_settings env)}"
    and x: "hp_http_errno (prs x) = HPE_OK" "I (x_user x)" "e \<noteq> HPE_OK" "ER \<le> length (e_data env)"
    and k: "\<And>s u. I u \<Longrightarrow> s = p_state x \<or> s = hp_state (prs x) \<Longrightarrow>
        outcome_ok I env p n (k (x\<lparr>prs := (prs x)\<lparr>hp_state := s\<rparr>, x_user := u\<rparr>))"
  shows "outcome_ok I env p n (CALLBACK_NOTIFY cb e ER x k)"
proof (cases cb)
  case None
  then show ?thesis using x k [of "x_user x" "hp_state (prs x)"]
    by (simp add: CALLBACK_NOTIFY_def c_assert_def)
next
  case (Some f)
  obtain r q' u' where f: "f ((prs x)\<lparr>hp_state := p_state x\<rparr>) (x_user x) = (r, q', u')"
    by (cases "f ((prs x)\<lparr>hp_state := p_state x\<rparr>) (x_user x)") auto
  with Some cb x have "q' = (prs x)\<lparr>hp_state := p_state x\<rparr>" "I u'"
    using notify [of f "x_user x" "(prs x)\<lparr>hp_state := p_state x\<rparr>" r q' u'] by auto
  with Some f x k [of u' "p_state x"] show ?thesis
    by (auto simp: CALLBACK_NOTIFY_def after_callback_def c_assert_def parser_inv_def Let_def)
qed

lemma CALLBACK_DATA_ok:
  assumes cb: "cb \<in> {on_url (e_settings env), on_status (e_settings env),
        on_header_field (e_settings env), on_header_value (e_settings env), on_body (e_settings env)}"
    and x: "hp_http_errno (prs x) = HPE_OK" "I (x_user x)" "e \<noteq> HPE_OK" "ER \<le> length (e_data env)"
    and m: "\<And>at. m = Some at \<Longrightarrow> at + LEN \<le> length (e_data env)"
    and none: "m = None \<Longrightarrow> clear x = x"
    and clear: "\<And>s u. clear (x\<lparr>prs := (prs x)\<lparr>hp_state := s\<rparr>, x_user := u\<rparr>) =
        (clear x)\<lparr>prs := (prs x)\<lparr>hp_state := s\<rparr>, x_user := u\<rparr>"
    and k: "\<And>s u. I u \<Longrightarrow>
        outcome_ok I env p n (k ((clear x)\<lparr>prs := (prs x)\<lparr>hp_state := s\<rparr>, x_user := u\<rparr>))"
  shows "outcome_ok I env p n (CALLBACK_DATA (e_data env) cb e m clear LEN ER x k)"
proof -
  have id: "(clear x)\<lparr>prs := prs x, x_user := x_user x\<rparr> = clear x"
    using clear [of "x_user x" "hp_state (prs x)"] by simp
  have k0: "outcome_ok I env p n (k (clear x))"
    using k [of "x_user x" "hp_state (prs x)"] x id by simp
  show ?thesis
  proof (cases m)
    case None
    with x k0 none show ?thesis by (simp add: CALLBACK_DATA_def c_assert_def)
  next
    case at: (Some at)
    show ?thesis
    proof (cases cb)
      case None
      with at x k0 show ?thesis by (simp add: CALLBACK_DATA_def c_assert_def)
    next
      case (Some g)
      let ?q = "(prs x)\<lparr>hp_state := p_state x\<rparr>" and ?s = "take LEN (drop at (e_data env))"
      obtain r q' u' where g: "g ?q at ?s (x_user x) = (r, q', u')"
        by (cases "g ?q at ?s (x_user x)") auto
      with Some cb x m at have "q' = ?q" "I u'"
        using notify_data [of g "x_user x" at LEN ?q r q' u'] by auto
      with Some at g x clear k [of u' "p_state x"] show ?thesis
        by (auto simp: CALLBACK_DATA_def after_callback_def c_assert_def parser_inv_def Let_def)
    qed
  qed
qed

lemma NOTIFY_ok:
  assumes "hp_http_errno (prs x) = HPE_OK" "I (x_user x)" "ER \<le> length (e_data env)"
    and "\<And>s u. I u \<Longrightarrow> outcome_ok I env p n (k (x\<lparr>prs := (prs x)\<lparr>hp_state := s\<rparr>, x_user := u\<rparr>))"
  shows "outcome_ok I env p n (NOTIFY_message_begin env ER x k)"
    and "outcome_ok I env p n (NOTIFY_message_complete env ER x k)"
    and "outcome_ok I env p n (NOTIFY_chunk_header env ER x k)"
    and "outcome_ok I env p n (NOTIFY_chunk_complete env ER x k)"
  using assms
  by (auto simp: NOTIFY_message_begin_def NOTIFY_message_complete_def NOTIFY_chunk_header_def
      NOTIFY_chunk_complete_def intro!: CALLBACK_NOTIFY_ok)

lemma DATA_ok:
  assumes "hp_http_errno (prs x) = HPE_OK" "I (x_user x)" "ER \<le> length (e_data env)"
    "p' \<le> length (e_data env)"
  shows "\<lbrakk>mark_ok p' (header_field_mark x) b; \<And>s u. I u \<Longrightarrow> outcome_ok I env p n
      (k (x\<lparr>header_field_mark := None, prs := (prs x)\<lparr>hp_state := s\<rparr>, x_user := u\<rparr>))\<rbrakk> \<Longrightarrow>
      outcome_ok I env p n (DATA_header_field env p' ER x k)"
    and "\<lbrakk>mark_ok p' (header_value_mark x) b; \<And>s u. I u \<Longrightarrow> outcome_ok I env p n
      (k (x\<lparr>header_value_mark := None, prs := (prs x)\<lparr>hp_state := s\<rparr>, x_user := u\<rparr>))\<rbrakk> \<Longrightarrow>
      outcome_ok I env p n (DATA_header_value env p' ER x k)"
    and "\<lbrakk>mark_ok p' (url_mark x) b; \<And>s u. I u \<Longrightarrow> outcome_ok I env p n
      (k (x\<lparr>url_mark := None, prs := (prs x)\<lparr>hp_state := s\<rparr>, x_user := u\<rparr>))\<rbrakk> \<Longrightarrow>
      outcome_ok I env p n (DATA_url env p' ER x k)"
    and "\<lbrakk>mark_ok p' (body_mark x) b; \<And>s u. I u \<Longrightarrow> outcome_ok I env p n
      (k (x\<lparr>body_mark := None, prs := (prs x)\<lparr>hp_state := s\<rparr>, x_user := u\<rparr>))\<rbrakk> \<Longrightarrow>
      outcome_ok I env p n (DATA_body env p' ER x k)"
    and "\<lbrakk>mark_ok p' (status_mark x) b; \<And>s u. I u \<Longrightarrow> outcome_ok I env p n
      (k (x\<lparr>status_mark := None, prs := (prs x)\<lparr>hp_state := s\<rparr>, x_user := u\<rparr>))\<rbrakk> \<Longrightarrow>
      outcome_ok I env p n (DATA_status env p' ER x k)"
  unfolding DATA_header_field_def DATA_header_value_def DATA_url_def DATA_body_def DATA_status_def
  using assms by (auto simp: mark_len_def mark_ok_def intro!: CALLBACK_DATA_ok)

section \<open>One lemma per case of the switch\<close>

lemmas act_defs = step_defs reset_message_def reexec_rank_def no_marks_def exec_base_def
  exec_ok_simps plain_state_def

lemma go_dead_ok:
  assumes "exec_ok 1 env p x" "I (x_user x)" "p < length (e_data env)" "p_state x = s_dead"
  shows "outcome_ok I env p 0 (go_dead env p ch x)"
  using assms by (simp add: go_dead_def exec_ok_plain plain_state_def)

lemma go_expect_ok:
  assumes "exec_ok 1 env p x" "I (x_user x)" "p < length (e_data env)"
    "plain_state (p_state x)" "plain_state s"
  shows "outcome_ok I env p 0 (go_expect c s env p ch x)"
  using assms by (simp add: go_expect_def exec_ok_plain step_defs exec_base_def no_marks_def)

lemma go_start_req_or_res_ok:
  assumes "exec_ok 1 env p x" "I (x_user x)" "p < length (e_data env)" "p_state x = s_start_req_or_res"
  shows "outcome_ok I env p 1 (go_start_req_or_res env p ch x)"
  using assms by (auto simp: go_start_req_or_res_def Let_def act_defs intro!: NOTIFY_ok)

lemma go_start_res_ok:
  assumes "exec_ok 1 env p x" "I (x_user x)" "p < length (e_data env)" "p_state x = s_start_res"
  shows "outcome_ok I env p 0 (go_start_res env p ch x)"
  using assms by (auto simp: go_start_res_def Let_def act_defs intro!: NOTIFY_ok)

lemma go_res_or_resp_H_ok:
  assumes "exec_ok 1 env p x" "I (x_user x)" "p < length (e_data env)" "p_state x = s_res_or_resp_H"
  shows "outcome_ok I env p 0 (go_res_or_resp_H env p ch x)"
  using assms by (auto simp: go_res_or_resp_H_def act_defs)

lemma go_start_req_ok:
  assumes "exec_ok 1 env p x" "I (x_user x)" "p < length (e_data env)" "p_state x = s_start_req"
  shows "outcome_ok I env p 0 (go_start_req env p ch x)"
  using assms first_method_length [of ch]
  by (auto simp: go_start_req_def Let_def act_defs intro!: NOTIFY_ok split: option.splits)

lemma go_http_version_ok:
  assumes "exec_ok 1 env p x" "I (x_user x)" "p < length (e_data env)"
    "plain_state (p_state x)" "plain_state s"
  shows "outcome_ok I env p 0 (go_http_major s env p ch x)"
    and "outcome_ok I env p 0 (go_http_dot s env p ch x)"
    and "outcome_ok I env p 0 (go_http_minor s env p ch x)"
  using assms
  by (simp_all add: go_http_major_def go_http_dot_def go_http_minor_def exec_ok_plain step_defs
      exec_base_def no_marks_def)

lemma go_res_code_ok:
  assumes "exec_ok 1 env p x" "I (x_user x)" "p < length (e_data env)"
  shows "p_state x = s_res_http_end \<Longrightarrow> outcome_ok I env p 0 (go_res_http_end env p ch x)"
    and "p_state x = s_res_first_status_code \<Longrightarrow>
      outcome_ok I env p 0 (go_res_first_status_code env p ch x)"
    and "p_state x = s_res_status_code \<Longrightarrow> outcome_ok I env p 2 (go_res_status_code env p ch x)"
  using assms
  by (simp_all add: go_res_http_end_def go_res_first_status_code_def go_res_status_code_def
      Let_def act_defs)

lemma go_res_status_start_ok:
  assumes "exec_ok 1 env p x" "I (x_user x)" "p < length (e_data env)" "p_state x = s_res_status_start"
  shows "outcome_ok I env p 1 (go_res_status_start env p ch x)"
  using assms by (simp add: go_res_status_start_def Let_def act_defs MARK_def)

lemma go_res_status_ok:
  assumes "exec_ok 1 env p x" "I (x_user x)" "p < length (e_data env)" "p_state x = s_res_status"
  shows "outcome_ok I env p 0 (go_res_status env p ch x)"
  using assms
  by (auto simp: go_res_status_def act_defs intro!: DATA_ok(5) [where b = True])

lemma go_req_method_ok:
  assumes "exec_ok 1 env p x" "I (x_user x)" "p < length (e_data env)" "p_state x = s_req_method"
  shows "outcome_ok I env p 0 (go_req_method env p ch x)"
proof -
  let ?m = "hp_method (prs x)" and ?i = "hp_index (prs x)"
  have i: "?i \<le> length (method_strings ?m)" using assms by (simp add: exec_ok_req_method)
  have bound: "length (method_strings m) < 16" for m by (cases m) simp_all
  have incr: "(?i + 1) mod 2 ^ 7 = ?i + 1" using i bound [of ?m] by simp
  obtain c where c: "c_str_at (method_strings ?m) ?i = Some c" "c \<noteq> NUL \<longrightarrow> ?i < length (method_strings ?m)"
    using i by (cases "?i < length (method_strings ?m)") (auto simp: c_str_at_def)
  have x: "exec_base env x" "no_marks x" using assms by (simp_all add: exec_ok_req_method)
  have sw: "outcome_ok I env p 0 (Break p (upd_parser (\<lambda>q. incr_index (q\<lparr>hp_method := m'\<rparr>)) x))"
    if "?i < length (method_strings m')" for m'
    using that assms x incr
    by (simp add: exec_ok_req_method upd_parser_def incr_index_def exec_base_def no_marks_def)
  from sw [of ?m] have same: "outcome_ok I env p 0 (Break p (upd_parser incr_index x))"
    if "?i < length (method_strings ?m)" using that by (simp add: upd_parser_def)
  show ?thesis
    using assms c x same sw method_switch_prefix [of ?m ?i ch]
    by (auto simp: go_req_method_def Let_def exec_ok_plain plain_state_def UPDATE_STATE_def
        upd_parser_def incr_index_def exec_base_def no_marks_def split: option.split)
qed

lemma parse_url_char_state [simp]: "parse_url_char s ch \<noteq> s_dead \<Longrightarrow> url_state (parse_url_char s ch)"
  by (cases s; simp add: parse_url_char_def parse_server_char_def parse_query_char_def url_state_def
      split: if_splits)

lemma go_req_spaces_before_url_ok:
  assumes "exec_ok 1 env p x" "I (x_user x)" "p < length (e_data env)"
    "p_state x = s_req_spaces_before_url"
  shows "outcome_ok I env p 0 (go_req_spaces_before_url env p ch x)"
  using assms
  by (auto simp: go_req_spaces_before_url_def Let_def step_defs exec_ok_url exec_ok_plain
      plain_state_def exec_base_def no_marks_def MARK_def)

lemma go_req_schema_ok:
  assumes "exec_ok 1 env p x" "I (x_user x)" "p < length (e_data env)" "url_state (p_state x)"
  shows "outcome_ok I env p 0 (go_req_schema env p ch x)"
  using assms
  by (auto simp: go_req_schema_def Let_def step_defs exec_ok_url exec_base_def)

lemma go_req_url_ok:
  assumes "exec_ok 1 env p x" "I (x_user x)" "p < length (e_data env)" "url_state (p_state x)"
  shows "outcome_ok I env p 0 (go_req_url env p ch x)"
  using assms
  by (auto simp: go_req_url_def Let_def step_defs exec_ok_url exec_ok_plain plain_state_def
      exec_base_def no_marks_def intro!: DATA_ok(3) [where b = True])

lemma go_req_http_ok:
  assumes "exec_ok 1 env p x" "I (x_user x)" "p < length (e_data env)"
  shows "p_state x = s_req_http_start \<Longrightarrow> outcome_ok I env p 0 (go_req_http_start env p ch x)"
    and "p_state x = s_req_http_end \<Longrightarrow> outcome_ok I env p 0 (go_req_http_end env p ch x)"
    and "p_state x = s_req_line_almost_done \<Longrightarrow>
      outcome_ok I env p 0 (go_req_line_almost_done env p ch x)"
    and "p_state x = s_header_almost_done \<Longrightarrow> outcome_ok I env p 0 (go_header_almost_done env p ch x)"
  using assms
  by (simp_all add: go_req_http_start_def go_req_http_end_def go_req_line_almost_done_def
      go_header_almost_done_def act_defs)

lemma go_header_field_start_ok:
  assumes "exec_ok 1 env p x" "I (x_user x)" "p < length (e_data env)" "p_state x = s_header_field_start"
  shows "outcome_ok I env p 2 (go_header_field_start env p ch x)"
  using assms by (simp add: go_header_field_start_def Let_def act_defs MARK_def field_header_states_def)

lemma COUNT_HEADER_SIZE_ok:
  assumes "I (x_user x)" "p' \<le> length (e_data env)"
    and "\<And>m. m \<le> e_max_header_size env \<Longrightarrow> outcome_ok I env p n (k (x\<lparr>nread := m\<rparr>))"
  shows "outcome_ok I env p n (COUNT_HEADER_SIZE env V p' x k)"
  using assms by (simp add: COUNT_HEADER_SIZE_def Let_def)

lemma go_header_field_ok:
  assumes "exec_ok 1 env p x" "I (x_user x)" "p < length (e_data env)" "p_state x = s_header_field"
  shows "outcome_ok I env p 0 (go_header_field env p ch x)"
proof -
  obtain p' ch' q where loop: "header_field_loop env p ch (prs x) = Some (p', ch', q)" "p \<le> p'"
    "p' \<le> length (e_data env)" "name_frame (prs x) q" "hp_header_state q \<in> field_header_states"
    using header_field_loop_ok [of "prs x" p env ch] assms by (auto simp: exec_ok_header_field)
  from loop(4) have q: "hp_http_errno q = hp_http_errno (prs x)"
    "hp_content_length q = hp_content_length (prs x)"
    by (simp_all add: name_frame_fields)
  show ?thesis
  proof (cases "p' = length (e_data env)")
    case True
    from assms obtain l where l: "length (e_data env) = Suc l" by (cases "e_data env") auto
    with assms have "mark_ok (Suc l) (header_field_mark x) True"
      by (auto simp: exec_ok_header_field intro: mark_ok_mono [of p])
    with True l loop q assms show ?thesis
      by (auto simp: go_header_field_def exec_ok_header_field exec_base_def intro!: COUNT_HEADER_SIZE_ok)
  next
    case False
    from loop assms have "mark_ok p' (header_field_mark x) True"
      by (auto simp: exec_ok_header_field intro: mark_ok_mono [of p])
    with False loop q assms show ?thesis
      by (auto simp: go_header_field_def exec_ok_header_field exec_ok_plain plain_state_def UPDATE_STATE_def
          exec_base_def no_marks_def intro!: COUNT_HEADER_SIZE_ok DATA_ok(1) [where b = True])
  qed
qed

lemma header_value_end_ok:
  assumes "hv_inv env p x" "I (x_user x)" "p0 \<le> p" "p = length (e_data env)" "p0 < length (e_data env)"
    "h \<noteq> h_connection" "h \<noteq> h_transfer_encoding"
  shows "outcome_ok I env p0 n (header_value_end env start p h x)"
proof -
  from assms obtain l where "length (e_data env) = Suc l" by (cases "e_data env") auto
  with assms show ?thesis
    by (auto simp: header_value_end_def Let_def set_header_state_def step_defs exec_ok_header_value
        hv_inv_def exec_base_def intro!: COUNT_HEADER_SIZE_ok)
qed

lemma header_value_line_end_ok:
  assumes "hv_inv env p x" "I (x_user x)" "p0 \<le> p" "p < length (e_data env)"
  shows "outcome_ok I env p0 1
      (DATA_header_value env p (p + 1) (set_header_state h (UPDATE_STATE s_header_almost_done x))
        (header_value_end env start p h))"
    and "outcome_ok I env p0 1
      (COUNT_HEADER_SIZE env (p - start) p (UPDATE_STATE s_header_almost_done x) (\<lambda>x.
        DATA_header_value env p p (set_header_state h x) (Reexec p LF)))"
  using assms
  by (auto simp: header_value_end_def Let_def set_header_state_def step_defs exec_ok_plain plain_state_def
      hv_inv_def exec_base_def no_marks_def reexec_rank_def
      intro!: COUNT_HEADER_SIZE_ok DATA_ok(2) [where b = True])

lemma header_value_loop_ok:
  assumes "hv_inv env p x" "I (x_user x)" "p0 \<le> p" "p \<le> length (e_data env)" "p0 < length (e_data env)"
    "h \<noteq> h_connection" "h \<noteq> h_transfer_encoding"
  shows "outcome_ok I env p0 1 (header_value_loop env start p x h)"
  using assms
proof (induction "length (e_data env) - p" arbitrary: p x h rule: less_induct)
  case less
  show ?case
  proof (cases "p < length (e_data env)")
    case False
    with less.prems header_value_end_ok [of p x p0 h 1 start] show ?thesis
      by (subst header_value_loop.simps) simp
  next
    case p: True
    let ?ch = "e_data env ! p"
    consider "?ch = CR" | "?ch = LF" | "\<not> lenient x" "\<not> IS_HEADER_CHAR ?ch" "?ch \<noteq> CR" "?ch \<noteq> LF"
      | "?ch \<noteq> CR" "?ch \<noteq> LF" "lenient x \<or> IS_HEADER_CHAR ?ch" by blast
    then show ?thesis
    proof cases
      case 1
      with p less.prems header_value_line_end_ok(1) [of p x p0 h start] show ?thesis
        by (subst header_value_loop.simps) (simp add: Let_def)
    next
      case 2
      with p less.prems header_value_line_end_ok(2) [of p x p0 start h] show ?thesis
        by (subst header_value_loop.simps) (simp add: Let_def)
    next
      case 3
      with p less.prems show ?thesis by (subst header_value_loop.simps) (simp add: Let_def)
    next
      case 4
      have ok: "hv_ok I env p (header_value_char env p ?ch x h)"
        using header_value_char_ok less.prems p 4 by blast
      show ?thesis
      proof (cases "header_value_char env p ?ch x h")
        case (HvStop out)
        with ok p 4 show ?thesis by (subst header_value_loop.simps) (auto simp: Let_def)
      next
        case (HvNext p' x' h')
        with ok have n: "p \<le> p'" "p' < length (e_data env)" "hv_inv env p x'" "I (x_user x')"
          "h' \<noteq> h_connection" "h' \<noteq> h_transfer_encoding" by auto
        then have "hv_inv env (p' + 1) x'" by (auto simp: hv_inv_def intro: mark_ok_mono [of p])
        with n less.prems have "outcome_ok I env p0 1 (header_value_loop env start (p' + 1) x' h')"
          by (intro less.hyps) auto
        with HvNext p 4 show ?thesis by (subst header_value_loop.simps) (auto simp: Let_def)
      qed
    qed
  qed
qed

lemma go_header_value_ok:
  assumes "exec_ok 1 env p x" "I (x_user x)" "p < length (e_data env)" "p_state x = s_header_value"
  shows "outcome_ok I env p 1 (go_header_value env p ch x)"
  unfolding go_header_value_def
  by (rule header_value_loop_ok) (use assms in \<open>simp_all add: exec_ok_header_value hv_inv_def\<close>)

lemma go_header_value_start_ok:
  assumes "exec_ok 1 env p x" "I (x_user x)" "p < length (e_data env)"
    "p_state x = s_header_value_start \<or> p_state x = s_header_value_discard_ws"
  shows "outcome_ok I env p 0 (go_header_value_start env p ch x)"
proof -
  have "exec_base env x" "no_marks x" using assms by (auto simp: exec_ok_plain plain_state_def)
  moreover have "digit_of ch \<le> ULLONG_MAX" if "IS_NUM ch"
    using IS_NUM_digit_of [OF that] by simp
  ultimately show ?thesis
    using assms(2,3)
    by (cases "hp_header_state (prs x)")
      (simp_all add: go_header_value_start_def Let_def step_defs exec_ok_header_value exec_base_def
        no_marks_def MARK_def)
qed

lemma go_header_value_discard_ws_ok:
  assumes "exec_ok 1 env p x" "I (x_user x)" "p < length (e_data env)"
    "p_state x = s_header_value_discard_ws"
  shows "outcome_ok I env p 0 (go_header_value_discard_ws env p ch x)"
  using assms go_header_value_start_ok [of p x ch]
  by (simp add: go_header_value_discard_ws_def act_defs)

lemma finished_header_simps [simp]:
  "p_state (finished_header x) = p_state x" "nread (finished_header x) = nread x"
  "x_user (finished_header x) = x_user x"
  "header_field_mark (finished_header x) = header_field_mark x"
  "header_value_mark (finished_header x) = header_value_mark x"
  "url_mark (finished_header x) = url_mark x" "body_mark (finished_header x) = body_mark x"
  "status_mark (finished_header x) = status_mark x"
  "hp_http_errno (prs (finished_header x)) = hp_http_errno (prs x)"
  "hp_content_length (prs (finished_header x)) = hp_content_length (prs x)"
  by (simp_all add: finished_header_def add_flag_def split: header_states.splits)

lemma go_header_value_lws_ok:
  assumes "exec_ok 1 env p x" "I (x_user x)" "p < length (e_data env)"
  shows "p_state x = s_header_value_lws \<Longrightarrow> outcome_ok I env p 3 (go_header_value_lws env p ch x)"
    and "p_state x = s_header_value_discard_lws \<Longrightarrow>
      outcome_ok I env p 3 (go_header_value_discard_lws env p ch x)"
  using assms
  by (auto simp: go_header_value_lws_def go_header_value_discard_lws_def set_header_state_def Let_def
      MARK_def act_defs intro!: DATA_ok(2) [where b = True])

lemma headers_complete_ok:
  assumes x: "exec_ok 1 env p x" "I (x_user x)" "p < length (e_data env)" "p_state x = s_headers_done"
  shows "outcome_ok I env p 1 (headers_complete env p x (Reexec p ch))"
proof (cases "on_headers_complete (e_settings env)")
  case None
  with assms show ?thesis by (simp add: headers_complete_def exec_ok_headers_done exec_base_def reexec_rank_def)
next
  case (Some f)
  obtain r q' u' where f: "f (prs x) (x_user x) = (r, q', u')" by (cases "f (prs x) (x_user x)") auto
  with Some x have "q' = prs x" "I u'" using notify [of f "x_user x" "prs x" r q' u'] by auto
  with Some f assms show ?thesis
    by (simp add: headers_complete_def Let_def exec_ok_headers_done exec_base_def no_marks_def no_both_def
        reexec_rank_def step_defs parser_inv_def)
qed

lemma go_headers_almost_done_ok:
  assumes "exec_ok 1 env p x" "I (x_user x)" "p < length (e_data env)" "p_state x = s_headers_almost_done"
  shows "outcome_ok I env p 1 (go_headers_almost_done env p ch x)"
  using assms
  by (auto simp: go_headers_almost_done_def STRICT_CHECK_def UPDATE_STATE_def upd_parser_def exec_ok_plain
      exec_ok_headers_done plain_state_def exec_base_def no_marks_def no_both_def reexec_rank_def
      intro!: NOTIFY_ok headers_complete_ok [unfolded One_nat_def])

lemma new_message_ok:
  assumes "exec_base env x" "no_marks x" "I (x_user x)" "p < length (e_data env)"
  shows "outcome_ok I env p n (new_message env p x (Break p))"
    and "hp_upgrade (prs x) \<Longrightarrow> outcome_ok I env p n (new_message env p x (RETURN (p + 1)))"
    and "outcome_ok I env p n
      (new_message env p x (\<lambda>x. if hp_upgrade (prs x) then RETURN (p + 1) x else Break p x))"
  using assms
  by (auto simp: new_message_def UPDATE_STATE_def RETURN_def exec_ok_plain exec_base_def no_marks_def
      intro!: NOTIFY_ok parser_inv_plain)

lemma go_headers_done_ok:
  assumes "exec_ok 1 env p x" "I (x_user x)" "p < length (e_data env)" "p_state x = s_headers_done"
  shows "outcome_ok I env p 0 (go_headers_done env p ch x)"
proof -
  let ?x = "reset_nread x"
  have x: "exec_base env ?x" "no_marks ?x" "I (x_user ?x)" "no_both (prs ?x)"
    "hp_content_length (prs ?x) \<le> ULLONG_MAX"
    using assms by (simp_all add: exec_ok_headers_done reset_nread_def exec_base_def no_marks_def no_both_def)
  have body: "outcome_ok I env p 0 (Break p (UPDATE_STATE s_chunk_size_start ?x))"
    if "F_CHUNKED \<in> hp_flags (prs ?x)"
    using that x assms(3)
    by (simp add: UPDATE_STATE_def exec_ok_chunk_size exec_base_def no_marks_def no_both_def
        chunked_only_def reset_nread_def)
  have ident: "outcome_ok I env p 0 (Break p (UPDATE_STATE s ?x))"
    if "s = s_body_identity \<and> hp_content_length (prs ?x) \<noteq> 0 \<and> hp_content_length (prs ?x) \<noteq> ULLONG_MAX
        \<or> s = s_body_identity_eof" for s
    using that x assms(3)
    by (auto simp: UPDATE_STATE_def exec_ok_identity exec_base_def no_marks_def)
  show ?thesis
    unfolding go_headers_done_def STRICT_CHECK_def Let_def
    using new_message_ok [OF x(1-3) assms(3)] body ident [of s_body_identity] ident [of s_body_identity_eof] assms
    by (simp del: outcome_ok.simps)
qed

lemma go_message_done_ok:
  assumes "exec_ok 1 env p x" "I (x_user x)" "p < length (e_data env)" "p_state x = s_message_done"
  shows "outcome_ok I env p 0 (go_message_done env p ch x)"
  using assms new_message_ok [of x p 0]
  by (simp add: go_message_done_def exec_ok_plain plain_state_def)

lemma go_body_identity_ok:
  assumes "exec_ok 1 env p x" "I (x_user x)" "p < length (e_data env)" "p_state x = s_body_identity"
  shows "outcome_ok I env p 1 (go_body_identity env p ch x)"
proof -
  let ?n = "min (hp_content_length (prs x)) (length (e_data env) - p)"
  have cl: "hp_content_length (prs x) \<noteq> 0" "hp_content_length (prs x) \<noteq> ULLONG_MAX"
    "hp_content_length (prs x) \<le> ULLONG_MAX"
    using assms by (simp_all add: exec_ok_identity exec_base_def)
  with assms(3) obtain k where k: "?n = Suc k" by (cases ?n) auto
  then have "p + k < length (e_data env)" by linarith
  moreover have "mark_ok (p + k) (MARK (body_mark x) p) True"
    using assms by (auto simp: exec_ok_identity MARK_def mark_ok_def split: option.splits)
  ultimately show ?thesis
    using assms cl k
    by (auto simp: go_body_identity_def Let_def c_assert_def upd_parser_def mark_body_def UPDATE_STATE_def
        exec_ok_identity exec_ok_plain plain_state_def exec_base_def no_marks_def no_both_def reexec_rank_def
        intro!: DATA_ok(4) [where b = True] diff_le_mono)
qed

lemma go_body_identity_eof_ok:
  assumes "exec_ok 1 env p x" "I (x_user x)" "p < length (e_data env)" "p_state x = s_body_identity_eof"
  shows "outcome_ok I env p 0 (go_body_identity_eof env p ch x)"
proof -
  from assms obtain l where "length (e_data env) = Suc l" by (cases "e_data env") auto
  moreover have "mark_ok (length (e_data env)) (MARK (body_mark x) p) True"
    using assms by (auto simp: exec_ok_identity MARK_def mark_ok_def split: option.splits)
  ultimately show ?thesis
    using assms by (auto simp: go_body_identity_eof_def mark_body_def exec_ok_identity exec_base_def)
qed

lemma go_chunk_data_ok:
  assumes "exec_ok 1 env p x" "I (x_user x)" "p < length (e_data env)" "p_state x = s_chunk_data"
  shows "outcome_ok I env p 0 (go_chunk_data env p ch x)"
proof -
  let ?n = "min (hp_content_length (prs x)) (length (e_data env) - p)"
  have cl: "hp_content_length (prs x) \<noteq> 0" "hp_content_length (prs x) \<noteq> ULLONG_MAX"
    "hp_content_length (prs x) \<le> ULLONG_MAX"
    using assms by (simp_all add: exec_ok_chunk_data exec_base_def)
  with assms(3) obtain k where k: "?n = Suc k" by (cases ?n) auto
  then have "p + k < length (e_data env)" by linarith
  moreover have "mark_ok (Suc (p + k)) (MARK (body_mark x) p) True"
    using assms by (auto simp: exec_ok_chunk_data MARK_def mark_ok_def split: option.splits)
  ultimately show ?thesis
    using assms cl k
    by (auto simp: go_chunk_data_def Let_def c_assert_def upd_parser_def mark_body_def UPDATE_STATE_def
        exec_ok_chunk_data exec_base_def chunked_only_def)
qed

lemma go_chunk_size_ok:
  assumes "exec_ok 1 env p x" "I (x_user x)" "p < length (e_data env)"
  shows "p_state x = s_chunk_size_start \<Longrightarrow> outcome_ok I env p 0 (go_chunk_size_start env p ch x)"
    and "p_state x = s_chunk_size \<Longrightarrow> outcome_ok I env p 0 (go_chunk_size env p ch x)"
    and "p_state x = s_chunk_parameters \<Longrightarrow> outcome_ok I env p 0 (go_chunk_parameters env p ch x)"
proof -
  let ?d = "nat (unhex ch)"
  have d: "?d < 16" if "unhex ch \<noteq> - 1" using unhex_range [OF that] by auto
  note defs = c_assert_def upd_parser_def UPDATE_STATE_def exec_ok_chunk_size exec_base_def no_marks_def
    chunked_only_def
  show "p_state x = s_chunk_size_start \<Longrightarrow> outcome_ok I env p 0 (go_chunk_size_start env p ch x)"
    using assms d by (auto simp: go_chunk_size_start_def defs)
  show "p_state x = s_chunk_size \<Longrightarrow> outcome_ok I env p 0 (go_chunk_size env p ch x)"
    using assms d chunk_size_step [of "hp_content_length (prs x)" ?d]
    by (auto simp: go_chunk_size_def Let_def defs)
  show "p_state x = s_chunk_parameters \<Longrightarrow> outcome_ok I env p 0 (go_chunk_parameters env p ch x)"
    using assms by (auto simp: go_chunk_parameters_def defs)
qed

lemma go_chunk_size_almost_done_ok:
  assumes "exec_ok 1 env p x" "I (x_user x)" "p < length (e_data env)" "p_state x = s_chunk_size_almost_done"
  shows "outcome_ok I env p 0 (go_chunk_size_almost_done env p ch x)"
  using assms
  by (auto simp: go_chunk_size_almost_done_def Let_def c_assert_def STRICT_CHECK_def add_flag_def
      reset_nread_def UPDATE_STATE_def exec_ok_chunk_size exec_ok_chunk_data exec_ok_plain plain_state_def
      exec_base_def no_marks_def chunked_only_def intro!: NOTIFY_ok)

lemma go_chunk_data_end_ok:
  assumes "exec_ok 1 env p x" "I (x_user x)" "p < length (e_data env)"
  shows "p_state x = s_chunk_data_almost_done \<Longrightarrow>
      outcome_ok I env p 0 (go_chunk_data_almost_done env p ch x)"
    and "p_state x = s_chunk_data_done \<Longrightarrow> outcome_ok I env p 0 (go_chunk_data_done env p ch x)"
  using assms
  by (auto simp: go_chunk_data_almost_done_def go_chunk_data_done_def c_assert_def STRICT_CHECK_def
      reset_nread_def UPDATE_STATE_def exec_ok_chunk_size exec_ok_chunk_data exec_base_def no_marks_def
      chunked_only_def intro!: NOTIFY_ok DATA_ok(4) [where b = True])

section \<open>The switch and the loop\<close>

lemmas switch_cases = go_dead_ok go_expect_ok go_start_req_or_res_ok go_start_res_ok go_res_or_resp_H_ok
  go_start_req_ok go_http_version_ok go_res_code_ok go_res_status_start_ok go_res_status_ok
  go_req_method_ok go_req_spaces_before_url_ok go_req_schema_ok go_req_url_ok go_req_http_ok
  go_header_field_start_ok go_header_field_ok go_header_value_ok go_header_value_start_ok
  go_header_value_discard_ws_ok go_header_value_lws_ok go_headers_almost_done_ok go_headers_done_ok
  go_message_done_ok go_body_identity_ok go_body_identity_eof_ok go_chunk_data_ok go_chunk_size_ok
  go_chunk_size_almost_done_ok go_chunk_data_end_ok

lemma switch_ok:
  assumes "exec_ok 1 env p x" "I (x_user x)" "p < length (e_data env)"
  shows "outcome_ok I env p (reexec_rank (p_state x)) (switch env p ch x)"
  by (cases "p_state x"; use assms in \<open>simp add: switch_def reexec_rank_def switch_cases plain_state_def
      url_state_def del: One_nat_def\<close>)

lemma reexecute_ok:
  assumes "exec_ok 1 env p x" "I (x_user x)" "p < length (e_data env)" "reexec_rank (p_state x) < n"
  shows "case reexecute n env p ch x of Reexec _ _ _ \<Rightarrow> False | out \<Rightarrow> outcome_ok I env p 0 out"
  using assms
proof (induction n arbitrary: p ch x)
  case (Suc n)
  have ok: "outcome_ok I env p (reexec_rank (p_state x)) (switch env p ch x)"
    using switch_ok Suc.prems by blast
  show ?case
  proof (cases "switch env p ch x")
    case (Reexec p' ch' x')
    with ok have "p \<le> p'" "p' < length (e_data env)" "exec_ok 1 env p' x'" "I (x_user x')"
      "reexec_rank (p_state x') < reexec_rank (p_state x)" by auto
    moreover from this Suc.prems have
      "case reexecute n env p' ch' x' of Reexec _ _ _ \<Rightarrow> False | out \<Rightarrow> outcome_ok I env p' 0 out"
      by (intro Suc.IH) auto
    ultimately show ?thesis using Reexec by (auto split: outcome.splits)
  qed (use ok in auto)
qed simp

lemma exec_byte_ok:
  assumes "exec_ok 0 env p x" "I (x_user x)" "p < length (e_data env)"
  shows "case exec_byte env p x of Reexec _ _ _ \<Rightarrow> False | out \<Rightarrow> outcome_ok I env p 0 out"
proof (cases "PARSING_HEADER (p_state x)")
  case True
  let ?m = "(nread x + 1) mod 2 ^ 32"
  have "exec_ok 1 env p (x\<lparr>nread := ?m\<rparr>)" if "?m \<le> e_max_header_size env"
    using that assms(1) by (auto simp: exec_ok_def marks_ok_def)
  moreover have "reexec_rank s < reexec_fuel" for s by (simp add: reexec_rank_def reexec_fuel_def)
  ultimately show ?thesis
    using True assms reexecute_ok [of p "x\<lparr>nread := ?m\<rparr>" reexec_fuel "e_data env ! p"]
    by (simp add: exec_byte_def COUNT_HEADER_SIZE_def Let_def fail_def SET_ERRNO_def)
next
  case False
  then have "p_state x \<noteq> s_chunk_size_start" by (auto simp: PARSING_HEADER_def)
  with assms(1) have "exec_ok 1 env p x" by (simp add: exec_ok_def)
  moreover have "reexec_rank s < reexec_fuel" for s by (simp add: reexec_rank_def reexec_fuel_def)
  ultimately show ?thesis
    using False assms reexecute_ok [of p x reexec_fuel "e_data env ! p"] by (simp add: exec_byte_def)
qed

lemma mark_count_le:
  assumes "marks_ok p x"
  shows "mark_count x \<le> 1"
proof -
  have le: "of_bool (m \<noteq> None) \<le> (of_bool b :: nat)" if "mark_ok p m b" for m b
    using that by (auto simp: mark_ok_def)
  have "of_bool (p_state x = s_header_field) + of_bool (p_state x = s_header_value) +
      of_bool (url_state (p_state x)) + of_bool (p_state x \<in> body_mark_states) +
      of_bool (p_state x = s_res_status) \<le> (1 :: nat)"
    by (cases "p_state x"; simp add: url_state_def body_mark_states_def)
  with assms le show ?thesis unfolding marks_ok_def mark_count_def by (meson add_mono le_trans)
qed

lemma parser_ok_frame [simp]:
  "parser_ok s (q\<lparr>hp_state := s'\<rparr>) = parser_ok s q" "parser_ok s (q\<lparr>hp_nread := m\<rparr>) = parser_ok s q"
  by (simp_all add: parser_ok_def)

lemma exec_end_ok:
  assumes "exec_ok 0 env (length (e_data env)) x" "I (x_user x)"
  shows "outcome_ok I env p n (exec_end env (length (e_data env)) x)"
proof -
  have "mark_count x \<le> 1" using assms mark_count_le by (auto simp: exec_ok_def)
  moreover have "mark_ok (length (e_data env)) (header_field_mark x) True"
    "mark_ok (length (e_data env)) (header_value_mark x) True"
    "mark_ok (length (e_data env)) (url_mark x) True" "mark_ok (length (e_data env)) (body_mark x) True"
    "mark_ok (length (e_data env)) (status_mark x) True"
    using assms by (auto simp: exec_ok_def marks_ok_def intro: mark_ok_mono)
  ultimately show ?thesis
    using assms
    by (auto simp: exec_end_def c_assert_def RETURN_def exec_ok_def parser_inv_def
        intro!: DATA_ok [where b = True])
qed

text \<open>With the end of the buffer as position, \<open>outcome_ok\<close> admits only the outcomes that
  leave the function.\<close>

lemma exec_loop_ok:
  assumes "exec_ok 0 env p x" "I (x_user x)" "p \<le> length (e_data env)" "length (e_data env) - p < n"
  shows "outcome_ok I env (length (e_data env)) 0 (exec_loop n env p x)"
  using assms
proof (induction n arbitrary: p x)
  case (Suc n)
  show ?case
  proof (cases "p = length (e_data env)")
    case True
    with exec_end_ok [of x] Suc.prems show ?thesis by simp
  next
    case False
    with Suc.prems exec_byte_ok [of p x] have
      ok: "case exec_byte env p x of Reexec _ _ _ \<Rightarrow> False | out \<Rightarrow> outcome_ok I env p 0 out" by simp
    show ?thesis
    proof (cases "exec_byte env p x")
      case (Break p' x')
      with ok have "p \<le> p'" "p' < length (e_data env)" "exec_ok 0 env (p' + 1) x'" "I (x_user x')" by auto
      with Suc.prems False have "outcome_ok I env (length (e_data env)) 0 (exec_loop n env (p' + 1) x')"
        by (intro Suc.IH) auto
      with Break False show ?thesis by simp
    qed (use ok False in auto)
  qed
qed simp

lemma exec_init_ok:
  assumes "parser_inv (e_max_header_size env) q" "hp_http_errno q = HPE_OK"
  shows "exec_ok 0 env 0 (exec_init q u)"
  using assms by (simp add: exec_init_def Let_def exec_ok_def parser_inv_def marks_ok_def)

lemma http_parser_execute_ok:
  assumes "parser_inv (e_max_header_size env) q" "I u"
  shows "\<exists>n q' u'. http_parser_execute (e_max_header_size env) q (e_settings env) (e_data env) u =
      Parsed n q' u' \<and> parser_inv (e_max_header_size env) q' \<and> I u' \<and> n \<le> max 1 (length (e_data env)) \<and>
      (hp_http_errno q' = HPE_OK \<and> \<not> hp_upgrade q' \<longrightarrow> n = length (e_data env))"
proof -
  have env: "\<lparr>e_settings = e_settings env, e_max_header_size = e_max_header_size env, e_data = e_data env\<rparr> = env"
    by simp
  let ?x = "exec_init q u"
  have x: "prs ?x = q" "p_state ?x = hp_state q" "x_user ?x = u"
    by (simp_all add: exec_init_def Let_def)
  have fin: "\<exists>n q' u'. exec_finish out = Parsed n q' u' \<and> parser_inv (e_max_header_size env) q' \<and> I u' \<and>
      n \<le> max 1 (length (e_data env)) \<and>
      (hp_http_errno q' = HPE_OK \<and> \<not> hp_upgrade q' \<longrightarrow> n = length (e_data env))"
    if "outcome_ok I env (length (e_data env)) 0 out" for out
    using that by (cases out) (auto simp: exec_finish_def parser_inv_def)
  show ?thesis
  proof (cases "hp_http_errno q = HPE_OK")
    case False
    with assms show ?thesis by (simp add: http_parser_execute_def parser_inv_def)
  next
    case ok: True
    show ?thesis
    proof (cases "e_data env = []")
      case True
      then have run: "http_parser_execute (e_max_header_size env) q (e_settings env) (e_data env) u =
          (if hp_state q = s_body_identity_eof then exec_finish (NOTIFY_message_complete env 0 ?x (Return 0))
           else if hp_state q \<in> {s_dead, s_start_req_or_res, s_start_res, s_start_req} then Parsed 0 q u
           else exec_finish (Return 1 (SET_ERRNO HPE_INVALID_EOF_STATE ?x)))"
        using ok x by (simp add: http_parser_execute_def NOTIFY_message_complete_def)
      from True assms ok x have "outcome_ok I env (length (e_data env)) 0
          (NOTIFY_message_complete env 0 ?x (Return 0))" if "hp_state q = s_body_identity_eof"
        using that by (auto simp: NOTIFY_message_complete_def parser_inv_def intro!: CALLBACK_NOTIFY_ok)
      with fin have "hp_state q = s_body_identity_eof \<Longrightarrow> ?thesis" unfolding run by simp
      moreover have "hp_state q \<noteq> s_body_identity_eof \<Longrightarrow> ?thesis"
        unfolding run using True assms x by (simp add: exec_finish_def SET_ERRNO_def parser_inv_def)
      ultimately show ?thesis by blast
    next
      case False
      with assms ok x env have "outcome_ok I env (length (e_data env)) 0
          (exec_loop (length (e_data env) + 1) env 0 ?x)"
        by (intro exec_loop_ok exec_init_ok) auto
      from fin [OF this] show ?thesis
        unfolding http_parser_execute_def Let_def env using False ok by (simp del: exec_loop.simps)
    qed
  qed
qed

end

end
