(* ===== verification/Kernel_Utility.thy ===== *)
theory Kernel_Utility
  imports Prelude
begin

text \<open>
  The string, path and clock functions of \<open>src/src/kernel/srs_kernel_utility.cpp\<close> and
  \<open>srs_parse_query_string\<close> of \<open>src/src/protocol/srs_protocol_utility.cpp\<close>.  The replacement
  loop of \<open>srs_string_replace\<close> does not end for an empty pattern, so its result is an
  \<open>option\<close>; the splitting loops end because each turn drops a separator.  The system calls
  (\<open>gettimeofday\<close>, and \<open>socket\<close> in \<open>srs_any_address_for_listener\<close>) are arguments.
\<close>

section \<open>Definitions\<close>

record sys_clock =
  system_time_us_cache :: int
  system_time_startup_time :: int

definition SYS_TIME_RESOLUTION_US :: int where "SYS_TIME_RESOLUTION_US = 300 * 1000"

text \<open>\<open>now\<close> is what \<open>gettimeofday\<close> reports, \<open>None\<close> when it fails.\<close>

definition srs_update_system_time :: "(int \<times> int) option \<Rightarrow> sys_clock \<Rightarrow> int \<times> sys_clock" where
  "srs_update_system_time now c =
     (case now of
        None \<Rightarrow> (- 1, c)
      | Some (tv_sec, tv_usec) \<Rightarrow>
          let now_us = tv_sec * 1000 * 1000 + tv_usec in
          if system_time_us_cache c \<le> 0 then
            (now_us, c\<lparr>system_time_us_cache := now_us, system_time_startup_time := now_us\<rparr>)
          else
            let diff = max 0 (now_us - system_time_us_cache c);
                startup = (if diff < 0 \<or> diff > 1000 * SYS_TIME_RESOLUTION_US
                           then system_time_startup_time c + diff else system_time_startup_time c)
            in (now_us, c\<lparr>system_time_us_cache := now_us, system_time_startup_time := startup\<rparr>))"

definition srs_get_system_time :: "(int \<times> int) option \<Rightarrow> sys_clock \<Rightarrow> int \<times> sys_clock" where
  "srs_get_system_time now c =
     (let c' = (if system_time_us_cache c \<le> 0 then snd (srs_update_system_time now c) else c)
      in (system_time_us_cache c', c'))"

definition srs_get_system_startup_time :: "(int \<times> int) option \<Rightarrow> sys_clock \<Rightarrow> int \<times> sys_clock" where
  "srs_get_system_startup_time now c =
     (let c' = (if system_time_startup_time c \<le> 0 then snd (srs_update_system_time now c) else c)
      in (system_time_startup_time c', c'))"

partial_function (option) replace_loop :: "string \<Rightarrow> string \<Rightarrow> string \<Rightarrow> nat \<Rightarrow> string option" where
  "replace_loop old_str new_str ret pos =
     (case str_find_from ret old_str pos of
        None \<Rightarrow> Some ret
      | Some p \<Rightarrow>
          replace_loop old_str new_str (take p ret @ new_str @ drop (p + length old_str) ret)
            (p + length new_str))"

definition srs_string_replace :: "string \<Rightarrow> string \<Rightarrow> string \<Rightarrow> string option" where
  "srs_string_replace str old_str new_str =
     (if old_str = new_str then Some str else replace_loop old_str new_str str 0)"

definition srs_string_ends_with :: "string \<Rightarrow> string \<Rightarrow> bool" where
  "srs_string_ends_with str flag =
     (case str_rfind str flag of None \<Rightarrow> False | Some pos \<Rightarrow> pos = length str - length flag)"

definition srs_int2str :: "int \<Rightarrow> string" where
  "srs_int2str v = int_to_str v"

definition srs_string_contains :: "string \<Rightarrow> string \<Rightarrow> bool" where
  "srs_string_contains str flag = (str_find str flag \<noteq> None)"

definition srs_string_contains2 :: "string \<Rightarrow> string \<Rightarrow> string \<Rightarrow> bool" where
  "srs_string_contains2 str flag0 flag1 = (str_find str flag0 \<noteq> None \<or> str_find str flag1 \<noteq> None)"

definition srs_string_contains3 :: "string \<Rightarrow> string \<Rightarrow> string \<Rightarrow> string \<Rightarrow> bool" where
  "srs_string_contains3 str flag0 flag1 flag2 =
     (str_find str flag0 \<noteq> None \<or> str_find str flag1 \<noteq> None \<or> str_find str flag2 \<noteq> None)"

text \<open>The loop over the separators keeps the smallest position so far and its separator.\<close>

fun min_match_loop :: "string \<Rightarrow> string list \<Rightarrow> nat option \<Rightarrow> string \<Rightarrow> string" where
  "min_match_loop str [] min_pos m = m"
| "min_match_loop str (seperator # ss) min_pos m =
     (case str_find str seperator of
        None \<Rightarrow> min_match_loop str ss min_pos m
      | Some pos \<Rightarrow>
          if min_pos = None \<or> pos < the min_pos then min_match_loop str ss (Some pos) seperator
          else min_match_loop str ss min_pos m)"

definition srs_string_min_match :: "string \<Rightarrow> string list \<Rightarrow> string" where
  "srs_string_min_match str seperators =
     (if seperators = [] then str else min_match_loop str seperators None [])"

function split_any_loop :: "string \<Rightarrow> string list \<Rightarrow> string list" where
  "split_any_loop s seperators =
     (let seperator = srs_string_min_match s seperators; last = (if s \<noteq> [] then [s] else []) in
      if seperator = [] then last
      else (case str_find s seperator of
              None \<Rightarrow> last
            | Some pos \<Rightarrow> take pos s # split_any_loop (drop (pos + length seperator) s) seperators))"
  by pat_completeness auto
termination
proof (relation "measure (\<lambda>(s, seps). length s)", goal_cases)
  case (2 s seperators sep last pos)
  then have "pos + length sep \<le> length s" "0 < length sep" by (auto dest: str_find_Some)
  then have "length s - (pos + length sep) < length s" by linarith
  then show ?case by simp
qed simp

declare split_any_loop.simps [simp del]

definition srs_string_split_any :: "string \<Rightarrow> string list \<Rightarrow> string list" where
  "srs_string_split_any str seperators = split_any_loop str seperators"

function split_loop :: "string \<Rightarrow> string \<Rightarrow> nat \<Rightarrow> string list" where
  "split_loop s seperator posBegin =
     (if seperator = [] then [drop posBegin s]
      else case str_find_from s seperator posBegin of
        None \<Rightarrow> [drop posBegin s]
      | Some pos \<Rightarrow> take (pos - posBegin) (drop posBegin s) # split_loop s seperator (pos + length seperator))"
  by pat_completeness auto
termination
proof (relation "measure (\<lambda>(s, sep, p). length s - p)", goal_cases)
  case (2 s sep p pos)
  then obtain i where i: "str_find (drop p s) sep = Some i" "pos = i + p" "p \<le> length s"
    by (auto simp: str_find_from_def split: if_splits)
  from str_find_Some [OF i(1)] have "i + length sep \<le> length s - p" by simp
  with 2 i show ?case by (cases sep) auto
qed simp

declare split_loop.simps [simp del]

definition srs_string_split :: "string \<Rightarrow> string \<Rightarrow> string list" where
  "srs_string_split s seperator = (if seperator = [] then [s] else split_loop s seperator 0)"

definition srs_path_dirname :: "string \<Rightarrow> string" where
  "srs_path_dirname path =
     (case str_rfind path ''/'' of
        None \<Rightarrow> ''./''
      | Some pos \<Rightarrow> if pos = 0 then ''/'' else take pos path)"

definition srs_path_basename :: "string \<Rightarrow> string" where
  "srs_path_basename path =
     (case str_rfind path ''/'' of
        None \<Rightarrow> path
      | Some pos \<Rightarrow> if length path = 1 then path else drop (pos + 1) path)"

definition srs_path_filename :: "string \<Rightarrow> string" where
  "srs_path_filename path = (case str_rfind path ''.'' of None \<Rightarrow> path | Some pos \<Rightarrow> take pos path)"

definition srs_path_filext :: "string \<Rightarrow> string" where
  "srs_path_filext path = (case str_rfind path ''.'' of None \<Rightarrow> [] | Some pos \<Rightarrow> drop pos path)"

text \<open>The two flags tell whether an IPv4 and an IPv6 socket can be created.\<close>

definition srs_any_address_for_listener :: "bool \<Rightarrow> bool \<Rightarrow> string" where
  "srs_any_address_for_listener ipv4_active ipv6_active =
     (if ipv6_active \<and> \<not> ipv4_active then ''::'' else ''0.0.0.0'')"

definition srs_parse_endpoint :: "string \<Rightarrow> string \<Rightarrow> string \<times> int" where
  "srs_parse_endpoint any_address hostport =
     (case str_rfind hostport '':'' of
        Some pos \<Rightarrow>
          ((if pos \<ge> 1 \<and> hostport ! 0 = CHR ''['' \<and> hostport ! (pos - 1) = CHR '']''
            then take (pos - 2) (drop 1 hostport) else take pos hostport),
           c_atoi (drop (pos + 1) hostport))
      | None \<Rightarrow> (any_address, c_atoi hostport))"

fun query_pairs :: "string list \<Rightarrow> (string, string) smap \<Rightarrow> (string, string) smap" where
  "query_pairs [] query = query"
| "query_pairs [k] query = smap_set k [] query"
| "query_pairs (k # v # kvs) query = query_pairs kvs (smap_set k v query)"

definition srs_parse_query_string :: "string \<Rightarrow> (string, string) smap \<Rightarrow> (string, string) smap" where
  "srs_parse_query_string q query =
     query_pairs (srs_string_split_any q [''='', '','', ''&&'', ''&'', '';'']) query"

section \<open>Searching from the end\<close>

lemma str_rfind_None: "str_rfind s sub = None \<longleftrightarrow> (\<forall>j \<le> length s. \<not> prefix sub (drop j s))"
proof (induction s)
  case (Cons c s)
  have "(\<forall>j \<le> length (c # s). \<not> prefix sub (drop j (c # s))) \<longleftrightarrow>
      \<not> prefix sub (c # s) \<and> (\<forall>j \<le> length s. \<not> prefix sub (drop j s))"
    by (auto simp: All_less_Suc2 less_Suc_eq_le [symmetric])
  with Cons show ?case by (auto split: option.splits)
qed auto

lemma str_rfind_last:
  assumes "c \<notin> set vs"
  shows "str_rfind (us @ c # vs) [c] = Some (length us)"
proof (cases "str_rfind (us @ c # vs) [c]")
  case None
  then show ?thesis by (auto simp: str_rfind_None dest: spec [of _ "length us"])
next
  case (Some i)
  note i = str_rfind_Some [OF Some]
  have "\<not> length us < i"
  proof
    assume lt: "length us < i"
    then have "drop i (us @ c # vs) = drop (i - length us - 1) vs" by (simp add: drop_Cons')
    with i show False using assms
      by (metis in_set_dropD list.set_intros(1) prefix_def append_Cons)
  qed
  moreover have "\<not> i < length us" using i by (auto dest!: spec [of _ "length us"])
  ultimately show ?thesis using Some by simp
qed

lemma str_rfind_absent: "c \<notin> set s \<Longrightarrow> str_rfind s [c] = None"
  unfolding str_rfind_None by (metis in_set_dropD list.set_intros(1) prefix_def append_Cons)

lemma srs_string_ends_with_suffix: "srs_string_ends_with str flag \<longleftrightarrow> suffix flag str"
proof
  assume "srs_string_ends_with str flag"
  then have "str_rfind str flag = Some (length str - length flag)"
    by (auto simp: srs_string_ends_with_def split: option.splits)
  from str_rfind_Some [OF this] obtain vs where "drop (length str - length flag) str = flag @ vs"
    "length flag \<le> length str" by (auto elim!: prefixE)
  moreover from this have "vs = []" by (metis diff_diff_cancel length_append length_drop add_right_cancel
      append_is_Nil_conv length_0_conv self_append_conv add_cancel_right_right)
  ultimately show "suffix flag str" by (metis append.right_neutral suffix_drop)
next
  assume "suffix flag str"
  then obtain us where s: "str = us @ flag" by (auto elim: suffixE)
  show "srs_string_ends_with str flag"
  proof (cases "str_rfind str flag")
    case None
    then have "\<forall>j \<le> length str. \<not> prefix flag (drop j str)" by (simp only: str_rfind_None)
    from spec [OF this, of "length us"] show ?thesis by (simp add: s)
  next
    case (Some i)
    have "\<not> i < length us" using str_rfind_Some [OF Some] by (auto simp: s dest!: spec [of _ "length us"])
    moreover have "i \<le> length us" using str_rfind_Some [OF Some] by (simp add: s)
    ultimately show ?thesis using Some by (simp add: srs_string_ends_with_def s)
  qed
qed

section \<open>Splitting, joining, replacing\<close>

fun str_join :: "string \<Rightarrow> string list \<Rightarrow> string" where
  "str_join sep [] = []"
| "str_join sep [x] = x"
| "str_join sep (x # y # xs) = x @ sep @ str_join sep (y # xs)"

lemma str_join_Cons: "xs \<noteq> [] \<Longrightarrow> str_join sep (x # xs) = x @ sep @ str_join sep xs"
  by (cases xs) auto

lemma split_loop_nonempty: "split_loop s sep p \<noteq> []"
  by (subst split_loop.simps) (simp split: option.split)

lemma str_find_split:
  assumes "str_find s sub = Some i"
  shows "s = take i s @ sub @ drop (i + length sub) s" "sub \<noteq> [] \<Longrightarrow> \<not> sublist sub (take i s)"
proof -
  from str_find_Some [OF assms] obtain vs where vs: "drop i s = sub @ vs" and
    first: "\<forall>j < i. \<not> prefix sub (drop j s)" and i: "i + length sub \<le> length s" by (auto elim: prefixE)
  then have "drop (i + length sub) s = vs" by (metis add.commute append_eq_conv_conj drop_drop)
  with vs show eq: "s = take i s @ sub @ drop (i + length sub) s" by (metis append_take_drop_id)
  show "\<not> sublist sub (take i s)" if "sub \<noteq> []"
  proof
    assume "sublist sub (take i s)"
    then obtain us ws where t: "take i s = us @ sub @ ws" by (auto simp: sublist_def)
    then have "length us + length sub + length ws = i" using i by (metis add.assoc length_append length_take min.absorb2 add_leD1)
    moreover have "drop (length us) s = sub @ ws @ drop i s"
      by (metis append.assoc append_eq_conv_conj append_take_drop_id t)
    ultimately show False using first that by (metis add.assoc length_greater_0_conv less_add_same_cancel1 prefixI trans_less_add1)
  qed
qed

lemma split_loop_drop:
  assumes "p \<le> length s"
  shows "split_loop s sep p = split_loop (drop p s) sep 0"
  using assms
proof (induction "length s - p" arbitrary: s p rule: less_induct)
  case less
  show ?case
  proof (cases "sep = [] \<or> str_find (drop p s) sep = None")
    case True
    with less.prems show ?thesis
      by (subst (1 2) split_loop.simps) (auto simp: str_find_from_def)
  next
    case False
    then obtain i where i: "str_find (drop p s) sep = Some i" "sep \<noteq> []" by auto
    from str_find_Some [OF i(1)] less.prems have b: "i + length sep + p \<le> length s" by auto
    with i have "split_loop s sep (i + p + length sep) = split_loop (drop (i + p + length sep) s) sep 0"
      by (intro less.hyps) (auto simp: less_diff_conv2)
    moreover have "split_loop (drop p s) sep (i + length sep) = split_loop (drop (i + length sep) (drop p s)) sep 0"
      using i b less.prems by (intro less.hyps) (auto simp: less_diff_conv2)
    ultimately show ?thesis
      using i less.prems by (subst (1 2) split_loop.simps) (simp add: str_find_from_def ac_simps)
  qed
qed

lemma split_loop_spec:
  assumes "sep \<noteq> []"
  shows "str_join sep (split_loop s sep 0) = s \<and> (\<forall>x \<in> set (split_loop s sep 0). \<not> sublist sep x)"
proof (induction "length s" arbitrary: s rule: less_induct)
  case less
  show ?case
  proof (cases "str_find s sep")
    case None
    with assms have "split_loop s sep 0 = [s]" by (subst split_loop.simps) (simp add: str_find_from_def)
    moreover from None have "\<not> sublist sep s" by (simp flip: str_contains_sublist add: str_contains_def)
    ultimately show ?thesis by simp
  next
    case (Some i)
    let ?t = "drop (i + length sep) s"
    from str_find_Some [OF Some] have b: "i + length sep \<le> length s" by simp
    with assms Some have eq: "split_loop s sep 0 = take i s # split_loop ?t sep 0"
      by (subst split_loop.simps) (simp add: str_find_from_def split_loop_drop [of "i + length sep"])
    have "length ?t < length s" using b assms by (cases sep) auto
    from less [OF this] str_find_split [OF Some] assms show ?thesis
      unfolding eq by (simp add: str_join_Cons split_loop_nonempty)
  qed
qed

lemma replace_loop_spec:
  assumes "old_str \<noteq> []"
  shows "replace_loop old_str new_str (pre @ rest) (length pre) =
    Some (pre @ str_join new_str (split_loop rest old_str 0))"
proof (induction "length rest" arbitrary: pre rest rule: less_induct)
  case less
  show ?case
  proof (cases "str_find rest old_str")
    case None
    with assms have "split_loop rest old_str 0 = [rest]" by (subst split_loop.simps) (simp add: str_find_from_def)
    with None show ?thesis by (subst replace_loop.simps) (simp add: str_find_from_def)
  next
    case (Some i)
    let ?t = "drop (i + length old_str) rest"
    from str_find_Some [OF Some] have b: "i + length old_str \<le> length rest" by simp
    with assms Some have eq: "split_loop rest old_str 0 = take i rest # split_loop ?t old_str 0"
      by (subst split_loop.simps) (simp add: str_find_from_def split_loop_drop [of "i + length old_str"])
    have "length ?t < length rest" using b assms by (cases old_str) auto
    from less [OF this, of "pre @ take i rest @ new_str"] Some b show ?thesis
      by (subst replace_loop.simps)
        (simp add: str_find_from_def eq str_join_Cons split_loop_nonempty ac_simps)
  qed
qed

section \<open>Endpoints\<close>

lemma nat_to_str_not_in: "\<not> is_digit c \<Longrightarrow> c \<notin> set (nat_to_str n)"
  using nat_to_str_digits by blast

lemma srs_parse_endpoint_port:
  assumes "n < 2 ^ 31"
  shows "srs_parse_endpoint any_address (h @ CHR '':'' # nat_to_str n) =
     ((if h \<noteq> [] \<and> hd h = CHR ''['' \<and> last h = CHR '']'' then butlast (tl h) else h), int n)"
proof -
  have "CHR '':'' \<notin> set (nat_to_str n)" by (rule nat_to_str_not_in) (simp add: is_digit_def)
  then have r: "str_rfind (h @ CHR '':'' # nat_to_str n) '':'' = Some (length h)" by (rule str_rfind_last)
  show ?thesis
  proof (cases "h = []")
    case True
    with r show ?thesis by (simp add: srs_parse_endpoint_def c_atoi_nat_to_str [OF assms])
  next
    case False
    then have ends: "(h @ xs) ! 0 = hd h" "(h @ xs) ! (length h - 1) = last h" for xs
      by (simp_all add: nth_append hd_conv_nth last_conv_nth)
    have "take (length h - 2) (drop 1 (h @ xs)) = butlast (tl h)" for xs
      by (simp add: butlast_conv_take drop_Suc False tl_append2 diff_diff_left numeral_2_eq_2)
    with False r ends show ?thesis
      by (simp add: srs_parse_endpoint_def c_atoi_nat_to_str [OF assms] Suc_le_eq)
  qed
qed

section \<open>Properties\<close>

text \<open>Splitting a text at a separator and joining the pieces gives the text back, and no
  piece contains the separator.\<close>

lemma srs_string_split_join:
  assumes "seperator \<noteq> []"
  shows "str_join seperator (srs_string_split s seperator) = s \<and>
    (\<forall>x \<in> set (srs_string_split s seperator). \<not> srs_string_contains x seperator)"
  using assms split_loop_spec [OF assms, of s]
  by (simp add: srs_string_split_def srs_string_contains_def str_contains_def flip: str_contains_sublist)

text \<open>Replacement ends for every non-empty pattern, and it is splitting at the pattern and
  joining the pieces with the new text: occurrences are replaced from left to right and what was
  inserted is not searched again.\<close>

lemma srs_string_replace_is_split_join:
  assumes "old_str \<noteq> []"
  shows "srs_string_replace str old_str new_str =
    Some (if old_str = new_str then str else str_join new_str (srs_string_split str old_str))"
  using assms replace_loop_spec [OF assms, of new_str "[]" str]
  by (simp add: srs_string_replace_def srs_string_split_def)

end
