(* ===== verification/Kernel_Error.thy ===== *)
theory Kernel_Error
  imports Prelude
begin

text \<open>
  \<open>SrsCplxError\<close> (\<open>src/src/kernel/srs_kernel_error.cpp\<close>) and the error codes the modelled
  components return.  An error is a chain of frames, the outermost first; the text of a frame is
  the output of \<open>vsnprintf\<close>, of which at most 4095 bytes are kept.  The other theories represent
  an error by its code alone; \<open>wrap_chain_code\<close> justifies it: however often an error is
  wrapped on its way up, its code stays that of the innermost frame.
\<close>

section \<open>Definitions\<close>

abbreviation ERROR_SUCCESS :: int where "ERROR_SUCCESS \<equiv> 0"
abbreviation ERROR_SOCKET_READ :: int where "ERROR_SOCKET_READ \<equiv> 1007"
abbreviation ERROR_SOCKET_READ_FULLY :: int where "ERROR_SOCKET_READ_FULLY \<equiv> 1008"
abbreviation ERROR_SOCKET_WRITE :: int where "ERROR_SOCKET_WRITE \<equiv> 1009"
abbreviation ERROR_SYSTEM_FILE_EOF :: int where "ERROR_SYSTEM_FILE_EOF \<equiv> 1046"
abbreviation ERROR_HTTP_PARSE_URI :: int where "ERROR_HTTP_PARSE_URI \<equiv> 3007"
abbreviation ERROR_HTTP_DATA_INVALID :: int where "ERROR_HTTP_DATA_INVALID \<equiv> 3008"
abbreviation ERROR_HTTP_PARSE_HEADER :: int where "ERROR_HTTP_PARSE_HEADER \<equiv> 3009"
abbreviation ERROR_HTTP_PATTERN_EMPTY :: int where "ERROR_HTTP_PATTERN_EMPTY \<equiv> 4000"
abbreviation ERROR_HTTP_PATTERN_DUPLICATED :: int where "ERROR_HTTP_PATTERN_DUPLICATED \<equiv> 4001"
abbreviation ERROR_HTTP_URL_NOT_CLEAN :: int where "ERROR_HTTP_URL_NOT_CLEAN \<equiv> 4002"
abbreviation ERROR_HTTP_CONTENT_LENGTH :: int where "ERROR_HTTP_CONTENT_LENGTH \<equiv> 4003"
abbreviation ERROR_HTTP_RESPONSE_EOF :: int where "ERROR_HTTP_RESPONSE_EOF \<equiv> 4025"
abbreviation ERROR_HTTP_INVALID_CHUNK_HEADER :: int where "ERROR_HTTP_INVALID_CHUNK_HEADER \<equiv> 4026"
abbreviation ERROR_HTTP_REQUEST_EOF :: int where "ERROR_HTTP_REQUEST_EOF \<equiv> 4029"
abbreviation ERROR_HTTP_STREAM_EOF :: int where "ERROR_HTTP_STREAM_EOF \<equiv> 4040"

datatype SrsCplxError =
  SrsCplxError (err_code: int) (err_func: string) (err_file: string) (err_line: int) (err_rerrno: int)
    (err_msg: string) (err_wrapped: "SrsCplxError option")

definition err_text :: "string \<Rightarrow> string" where
  "err_text text = (if length text > 0 \<and> length text < 4096 then text else [])"

definition srs_error_new :: "string \<Rightarrow> string \<Rightarrow> int \<Rightarrow> int \<Rightarrow> int \<Rightarrow> string \<Rightarrow> SrsCplxError" where
  "srs_error_new func file line rerrno code text =
     SrsCplxError code func file line rerrno (err_text text) None"

text \<open>The null pointer \<open>v\<close> stands for success; wrapping it keeps the code
  \<open>ERROR_SUCCESS\<close> of the constructor.\<close>

definition srs_error_wrap ::
    "string \<Rightarrow> string \<Rightarrow> int \<Rightarrow> int \<Rightarrow> SrsCplxError option \<Rightarrow> string \<Rightarrow> SrsCplxError" where
  "srs_error_wrap func file line rerrno v text =
     SrsCplxError (case v of None \<Rightarrow> ERROR_SUCCESS | Some e \<Rightarrow> err_code e) func file line rerrno
       (err_text text) v"

primrec srs_error_copy :: "SrsCplxError \<Rightarrow> SrsCplxError" where
  "srs_error_copy (SrsCplxError code func file line rerrno msg w) =
     SrsCplxError code func file line rerrno msg (map_option srs_error_copy w)"

primrec error_summary :: "SrsCplxError \<Rightarrow> string" where
  "error_summary (SrsCplxError code func file line rerrno msg w) =
     '' : '' @ msg @ (case map_option error_summary w of None \<Rightarrow> [] | Some s \<Rightarrow> s)"

definition srs_error_summary :: "SrsCplxError option \<Rightarrow> string" where
  "srs_error_summary err = (case err of None \<Rightarrow> ''Success'' | Some e \<Rightarrow> error_summary e)"

definition srs_error_code :: "SrsCplxError option \<Rightarrow> int" where
  "srs_error_code err = (case err of None \<Rightarrow> ERROR_SUCCESS | Some e \<Rightarrow> err_code e)"

definition srs_is_client_gracefully_close :: "SrsCplxError option \<Rightarrow> bool" where
  "srs_is_client_gracefully_close err =
     (let error_code = srs_error_code err in
      error_code = ERROR_SOCKET_READ \<or> error_code = ERROR_SOCKET_READ_FULLY \<or>
      error_code = ERROR_SOCKET_WRITE)"

definition srs_is_server_gracefully_close :: "SrsCplxError option \<Rightarrow> bool" where
  "srs_is_server_gracefully_close err = (srs_error_code err = ERROR_HTTP_STREAM_EOF)"

section \<open>Chains of wrapped errors\<close>

text \<open>One call of \<open>srs_error_wrap\<close> per level of the call stack, with its location and text.\<close>

type_synonym error_frame = "string \<times> string \<times> int \<times> int \<times> string"

definition wrap_chain :: "error_frame list \<Rightarrow> SrsCplxError \<Rightarrow> SrsCplxError" where
  "wrap_chain frames e =
     fold (\<lambda>(func, file, line, rerrno, text) e. srs_error_wrap func file line rerrno (Some e) text) frames e"

lemma srs_error_copy_id: "srs_error_copy e = e"
  by (induction e) (auto simp: map_option_case split: option.splits)

lemma err_code_wrap_chain: "err_code (wrap_chain frames e) = err_code e"
  by (induction frames arbitrary: e) (auto simp: wrap_chain_def srs_error_wrap_def)

lemma error_summary_wrap_chain:
  "error_summary (wrap_chain frames e) =
     concat (map (\<lambda>(_, _, _, _, text). '' : '' @ err_text text) (rev frames)) @ error_summary e"
  by (induction frames arbitrary: e) (auto simp: wrap_chain_def srs_error_wrap_def)

section \<open>Wrapping keeps the code\<close>

text \<open>However many levels of the call stack wrap an error, the code that the caller
  tests is the code it was created with, and the summary lists the texts of all frames, the
  outermost first.\<close>

lemma wrap_chain_code:
  "srs_error_code (Some (wrap_chain frames (srs_error_new func file line rerrno code text))) = code \<and>
   srs_error_summary (Some (wrap_chain frames (srs_error_new func file line rerrno code text))) =
     concat (map (\<lambda>(_, _, _, _, t). '' : '' @ err_text t) (rev frames)) @ '' : '' @ err_text text"
  by (simp add: srs_error_code_def srs_error_summary_def err_code_wrap_chain error_summary_wrap_chain
      srs_error_new_def)

end
