(* ===== verification/Http_Uri.thy ===== *)
theory Http_Uri
  imports Kernel_Utility Kernel_Error Url_Parser_Safety "HOL-Library.Monad_Syntax"
begin

text \<open>
  The class \<open>SrsHttpUri\<close> of \<open>src/src/protocol/srs_protocol_http_stack.cpp\<close>.  The result of
  \<open>initialize\<close> is the error code (0 for success) with the object as it is left, or
  \<open>None\<close> when the call would not return: a failed assertion in the URL parser,
  \<open>std::out_of_range\<close> from \<open>substr\<close>, or an endless replacement; the first property shows that
  this never happens.
\<close>

section \<open>Definitions\<close>

record SrsHttpUri =
  uri_url :: string
  uri_schema :: string
  uri_host :: string
  uri_port :: int
  uri_path :: string
  uri_query :: string
  uri_username :: string
  uri_password :: string
  uri_query_values :: "(string, string) smap"

definition SrsHttpUri_new :: SrsHttpUri where
  "SrsHttpUri_new =
     \<lparr>uri_url = [], uri_schema = [], uri_host = [], uri_port = 0, uri_path = [], uri_query = [],
      uri_username = [], uri_password = [], uri_query_values = []\<rparr>"

text \<open>\<open>None\<close> where \<open>substr\<close> throws.\<close>

definition get_uri_field :: "string \<Rightarrow> http_parser_url \<Rightarrow> http_parser_url_fields \<Rightarrow> string option" where
  "get_uri_field uri hp_u f =
     (if f \<notin> field_set hp_u then Some []
      else if field_off hp_u f > length uri then None
      else Some (take (field_len hp_u f) (drop (field_off hp_u f) uri)))"

definition DEFAULT_VHOST_URL :: string where "DEFAULT_VHOST_URL = ''://__defaultVhost__''"

definition default_port :: "string \<Rightarrow> int" where
  "default_port schema =
     (if schema = ''https'' then 443
      else if schema = ''rtmp'' then 1935
      else if schema = ''redis'' then 6379
      else 80)"

definition parse_query :: "SrsHttpUri \<Rightarrow> SrsHttpUri" where
  "parse_query u =
     (if uri_query u = [] then u
      else
        let begin = (case str_find (uri_query u) ''?'' of None \<Rightarrow> 0 | Some i \<Rightarrow> i + 1) in
        u\<lparr>uri_query_values := srs_parse_query_string (drop begin (uri_query u)) []\<rparr>)"

text \<open>The user information up to the first colon is the name, the rest the password.\<close>

definition split_userinfo :: "string \<Rightarrow> SrsHttpUri \<Rightarrow> SrsHttpUri" where
  "split_userinfo info u =
     (case str_find info '':'' of
        None \<Rightarrow> u\<lparr>uri_username := info\<rparr>
      | Some pos \<Rightarrow> u\<lparr>uri_password := drop (pos + 1) info, uri_username := take pos info\<rparr>)"

definition store_fields :: "string \<Rightarrow> bool \<Rightarrow> http_parser_url \<Rightarrow> SrsHttpUri \<Rightarrow> SrsHttpUri option" where
  "store_fields parsing_url vhost hp_u u =
     do {
       sch \<leftarrow> get_uri_field parsing_url hp_u UF_SCHEMA;
       h \<leftarrow> (if vhost then Some ''__defaultVhost__'' else get_uri_field parsing_url hp_u UF_HOST);
       port \<leftarrow> get_uri_field parsing_url hp_u UF_PORT;
       path \<leftarrow> get_uri_field parsing_url hp_u UF_PATH;
       query \<leftarrow> get_uri_field parsing_url hp_u UF_QUERY;
       info \<leftarrow> get_uri_field parsing_url hp_u UF_USERINFO;
       let u = (if sch \<noteq> [] then u\<lparr>uri_schema := sch\<rparr> else u);
       let u = u\<lparr>uri_host := h\<rparr>;
       let u = (if port \<noteq> [] then u\<lparr>uri_port := c_atoi port\<rparr> else u);
       let u = (if uri_port u \<le> 0 then u\<lparr>uri_port := default_port (uri_schema u)\<rparr> else u);
       Some (split_userinfo info (u\<lparr>uri_path := path, uri_query := query\<rparr>))
     }"

definition SrsHttpUri_initialize :: "string \<Rightarrow> SrsHttpUri \<Rightarrow> (int \<times> SrsHttpUri) option" where
  "SrsHttpUri_initialize url u =
     do {
       let u = u\<lparr>uri_schema := [], uri_host := [], uri_path := [], uri_query := [], uri_url := url\<rparr>;
       let vhost = (str_find url DEFAULT_VHOST_URL \<noteq> None);
       parsing_url \<leftarrow> (if vhost then srs_string_replace url DEFAULT_VHOST_URL ''://safe.vhost.default.ossrs.io''
                       else Some url);
       (case http_parser_parse_url parsing_url False http_parser_url_init of
          UrlFail \<Rightarrow> Some (ERROR_HTTP_PARSE_URI, u)
        | UrlAbort \<Rightarrow> None
        | UrlOk hp_u \<Rightarrow> map_option (\<lambda>u. (ERROR_SUCCESS, parse_query u)) (store_fields parsing_url vhost hp_u u))
     }"

definition set_schema :: "string \<Rightarrow> SrsHttpUri \<Rightarrow> SrsHttpUri" where
  "set_schema v u =
     (let u = u\<lparr>uri_schema := v\<rparr> in
      case str_find (uri_url u) ''://'' of
        None \<Rightarrow> u
      | Some pos \<Rightarrow> u\<lparr>uri_url := v @ ''://'' @ drop (pos + 3) (uri_url u)\<rparr>)"

definition get_query_by_key :: "string \<Rightarrow> SrsHttpUri \<Rightarrow> string" where
  "get_query_by_key key u = (case smap_get (uri_query_values u) key of None \<Rightarrow> [] | Some v \<Rightarrow> v)"

section \<open>Lemmas\<close>

lemma get_uri_field_slice:
  "fields_within (length uri) hp_u \<Longrightarrow> get_uri_field uri hp_u f = Some (url_slice uri hp_u f)"
  by (auto simp: get_uri_field_def url_slice_def fields_within_def)

lemma DEFAULT_VHOST_URL_nonempty: "DEFAULT_VHOST_URL \<noteq> []"
  by (simp add: DEFAULT_VHOST_URL_def)

lemma http_parser_parse_url_cases:
  obtains "http_parser_parse_url buf is_connect u0 = UrlFail"
  | u where "http_parser_parse_url buf is_connect u0 = UrlOk u" "fields_within (length buf) u"
  using http_parser_parse_url_ok [of buf is_connect u0]
  by (cases "http_parser_parse_url buf is_connect u0") auto

lemma split_userinfo_frame [simp]:
  "uri_url (split_userinfo i u) = uri_url u" "uri_port (split_userinfo i u) = uri_port u"
  "uri_schema (split_userinfo i u) = uri_schema u" "uri_host (split_userinfo i u) = uri_host u"
  "uri_path (split_userinfo i u) = uri_path u" "uri_query (split_userinfo i u) = uri_query u"
  by (simp_all add: split_userinfo_def split: option.split)

lemma parse_query_frame [simp]:
  "uri_url (parse_query u) = uri_url u" "uri_port (parse_query u) = uri_port u"
  "uri_schema (parse_query u) = uri_schema u" "uri_host (parse_query u) = uri_host u"
  "uri_path (parse_query u) = uri_path u" "uri_query (parse_query u) = uri_query u"
  by (simp_all add: parse_query_def Let_def)

lemma default_port_pos: "default_port s > 0"
  by (simp add: default_port_def)

lemma store_fields_some:
  assumes "fields_within (length uri) hp_u"
  shows "\<exists>u'. store_fields uri vhost hp_u u = Some u' \<and> uri_url u' = uri_url u \<and> uri_port u' > 0"
  using assms default_port_pos
  by (auto simp: store_fields_def get_uri_field_slice Let_def)

lemma store_fields_slices:
  assumes "map (get_uri_field uri hp_u) [UF_SCHEMA, UF_HOST, UF_PORT, UF_PATH, UF_QUERY, UF_FRAGMENT, UF_USERINFO] =
      map Some [sch, host, ds, path, query, [], []]" "sch \<noteq> []" "uri_port u = 0"
  shows "\<exists>u'. store_fields uri False hp_u u = Some u' \<and> uri_schema u' = sch \<and> uri_host u' = host \<and>
    uri_path u' = path \<and> uri_query u' = query \<and> uri_url u' = uri_url u \<and>
    uri_port u' = (if c_atoi ds \<le> 0 then default_port sch else c_atoi ds)"
proof -
  have "c_atoi [] = 0" by (simp add: c_atoi_digits)
  with assms show ?thesis by (auto simp: store_fields_def Let_def)
qed

section \<open>Properties\<close>

text \<open>Initialising a URI from any text returns: either the parse error, or success with
  the text stored and a positive port; it never fails an assertion, throws or loops.\<close>

lemma SrsHttpUri_initialize_total:
  "\<exists>code u'. SrsHttpUri_initialize url u = Some (code, u') \<and> uri_url u' = url \<and>
     (code = ERROR_HTTP_PARSE_URI \<or> code = ERROR_SUCCESS \<and> uri_port u' > 0)"
proof -
  let ?v = "str_find url DEFAULT_VHOST_URL \<noteq> None"
  let ?u = "u\<lparr>uri_schema := [], uri_host := [], uri_path := [], uri_query := [], uri_url := url\<rparr>"
  obtain purl where p: "(if ?v then srs_string_replace url DEFAULT_VHOST_URL ''://safe.vhost.default.ossrs.io''
      else Some url) = Some purl"
    using replace_loop_spec [OF DEFAULT_VHOST_URL_nonempty, of "''://safe.vhost.default.ossrs.io''" "[]" url]
    by (cases ?v) (auto simp: srs_string_replace_def DEFAULT_VHOST_URL_def)
  show ?thesis
  proof (rule http_parser_parse_url_cases [of purl False http_parser_url_init])
    assume "http_parser_parse_url purl False http_parser_url_init = UrlFail"
    with p show ?thesis by (simp add: SrsHttpUri_initialize_def Let_def)
  next
    fix hp assume hp: "http_parser_parse_url purl False http_parser_url_init = UrlOk hp" "fields_within (length purl) hp"
    from store_fields_some [OF hp(2), of ?v ?u] p hp(1) show ?thesis
      by (auto simp: SrsHttpUri_initialize_def Let_def)
  qed
qed

text \<open>A new URI object initialised from a composed absolute URL holds the schema, host,
  path and query it was made of, and its port: the one in the text, or the default of the schema
  when there is none or it is 0.\<close>

lemma SrsHttpUri_initialize_composed:
  assumes "sch \<noteq> []" "list_all IS_ALPHA sch" "host \<noteq> []" "list_all IS_HOST_CHAR host" "list_all IS_NUM ds"
    and "digits_val 0 ds \<le> 65535" "list_all IS_URL_CHAR path" "list_all IS_URL_CHAR query"
    and "url = url_text sch host ds (CHR ''/'' # path) query" "length url < 65536"
    and "\<not> srs_string_contains url DEFAULT_VHOST_URL"
  shows "\<exists>u'. SrsHttpUri_initialize url SrsHttpUri_new = Some (ERROR_SUCCESS, u') \<and> uri_schema u' = sch \<and>
    uri_host u' = host \<and> uri_path u' = CHR ''/'' # path \<and> uri_query u' = query \<and>
    uri_port u' = (if digits_val 0 ds = 0 then default_port sch else int (digits_val 0 ds))"
proof -
  let ?u = "SrsHttpUri_new\<lparr>uri_schema := [], uri_host := [], uri_path := [], uri_query := [], uri_url := url\<rparr>"
  from parse_url_text [of sch host ds path query http_parser_url_init] assms obtain hp where
    hp: "http_parser_parse_url url False http_parser_url_init = UrlOk hp"
    and sl: "map (url_slice url hp) [UF_SCHEMA, UF_HOST, UF_PORT, UF_PATH, UF_QUERY, UF_FRAGMENT, UF_USERINFO] =
      [sch, host, ds, CHR ''/'' # path, query, [], []]" by (auto simp: list_all_iff)
  have w: "fields_within (length url) hp"
    using http_parser_parse_url_ok [of url False http_parser_url_init] hp by simp
  have "\<exists>u'. store_fields url False hp ?u = Some u' \<and> uri_schema u' = sch \<and> uri_host u' = host \<and>
      uri_path u' = CHR ''/'' # path \<and> uri_query u' = query \<and> uri_url u' = uri_url ?u \<and>
      uri_port u' = (if c_atoi ds \<le> 0 then default_port sch else c_atoi ds)"
    using sl assms(1) get_uri_field_slice [OF w] by (intro store_fields_slices) (simp_all add: SrsHttpUri_new_def)
  moreover have "c_atoi ds = int (digits_val 0 ds)"
    using assms(5,6) c_atoi_digits [of ds] by (simp add: list_all_iff IS_NUM_is_digit)
  ultimately show ?thesis
    using hp assms(11) by (auto simp: SrsHttpUri_initialize_def Let_def srs_string_contains_def)
qed

end
