(* ===== verification/Http_Header.thy ===== *)
theory Http_Header
  imports Kernel_Utility Kernel_Error
begin

text \<open>
  Status texts and header fields: \<open>srs_generate_http_status_text\<close>,
  \<open>srs_go_http_body_allowd\<close>, \<open>srs_go_http_detect\<close> and the class \<open>SrsHttpHeader\<close> of
  \<open>src/src/protocol/srs_protocol_http_stack.cpp\<close>.  The header keeps its fields in a
  \<open>std::map\<close> (here \<open>smap\<close>, whose list order is the order of iteration) and its cookies in a
  list.  \<open>content_length\<close> reads the field with \<open>atof\<close>: the decimal text is rounded to the 53
  bits of a \<open>double\<close> and truncated; a value outside the range of \<open>int64_t\<close>, for which
  the conversion is undefined in C++, gives the smallest integer as on x86-64.
\<close>

section \<open>Status codes\<close>

definition status_map :: "(int \<times> string) list" where
  "status_map =
     [(100, ''Continue''), (101, ''Switching Protocols''), (200, ''OK''), (201, ''Created''),
      (202, ''Accepted''), (203, ''Non Authoritative Information''), (204, ''No Content''),
      (205, ''Reset Content''), (206, ''Partial Content''), (300, ''Multiple Choices''),
      (301, ''Moved Permanently''), (302, ''Found''), (303, ''See Other''), (304, ''Not Modified''),
      (305, ''Use Proxy''), (307, ''Temporary Redirect''), (400, ''Bad Request''),
      (401, ''Unauthorized''), (402, ''Payment Required''), (403, ''Forbidden''), (404, ''Not Found''),
      (405, ''Method Not Allowed''), (406, ''Not Acceptable''), (407, ''Proxy Authentication Required''),
      (408, ''Request Timeout''), (409, ''Conflict''), (410, ''Gone''), (411, ''Length Required''),
      (412, ''Precondition Failed''), (413, ''Request Entity Too Large''), (414, ''Request URI Too Large''),
      (415, ''Unsupported Media Type''), (416, ''Requested Range Not Satisfiable''),
      (417, ''Expectation Failed''), (500, ''Internal Server Error''), (501, ''Not Implemented''),
      (502, ''Bad Gateway''), (503, ''Service Unavailable''), (504, ''Gateway Timeout''),
      (505, ''HTTP Version Not Supported'')]"

definition srs_generate_http_status_text :: "int \<Rightarrow> string" where
  "srs_generate_http_status_text status =
     (case map_of status_map status of None \<Rightarrow> ''Status Unknown'' | Some t \<Rightarrow> t)"

definition srs_go_http_body_allowd :: "int \<Rightarrow> bool" where
  "srs_go_http_body_allowd status =
     (if status \<ge> 100 \<and> status < 200 then False
      else if status = 204 \<or> status = 304 then False
      else True)"

definition srs_go_http_detect :: "string \<Rightarrow> string" where
  "srs_go_http_detect data = ''application/octet-stream''"

section \<open>Reading a number with atof\<close>

text \<open>The decimal texts: digits, an optional fraction and an optional exponent; the value is
  \<open>m * 10 ^ e\<close>.\<close>

definition decimal_exponent :: "string \<Rightarrow> int" where
  "decimal_exponent s =
     (case s of
        c # t \<Rightarrow>
          if c = CHR ''e'' \<or> c = CHR ''E'' then
            (case t of
               d # r \<Rightarrow> if is_digit d then int (digits_val 0 t)
                         else if d = CHR ''-'' then - int (digits_val 0 r)
                         else if d = CHR ''+'' then int (digits_val 0 r) else 0
             | [] \<Rightarrow> 0)
          else 0
      | [] \<Rightarrow> 0)"

definition decimal_value :: "string \<Rightarrow> nat \<times> int" where
  "decimal_value s =
     (let whole = takeWhile is_digit s; r = dropWhile is_digit s in
      case r of
        c # t \<Rightarrow>
          if c = CHR ''.'' then
            let frac = takeWhile is_digit t in
            if whole = [] \<and> frac = [] then (0, 0)
            else (digits_val 0 (whole @ frac), decimal_exponent (dropWhile is_digit t) - int (length frac))
          else if whole = [] then (0, 0) else (digits_val 0 whole, decimal_exponent r)
      | [] \<Rightarrow> (digits_val 0 whole, 0))"

fun bit_len :: "nat \<Rightarrow> nat" where
  "bit_len n = (if n = 0 then 0 else Suc (bit_len (n div 2)))"

declare bit_len.simps [simp del]

text \<open>The quotient of two numbers rounded to the nearest, ties to even.\<close>

definition round_half_even :: "nat \<Rightarrow> nat \<Rightarrow> nat" where
  "round_half_even p q =
     (let n = p div q; r = p mod q in
      if 2 * r < q then n else if 2 * r > q then n + 1 else n + n mod 2)"

text \<open>The integer part of the \<open>double\<close> nearest to \<open>p / q\<close>.\<close>

definition double_floor :: "nat \<Rightarrow> nat \<Rightarrow> nat" where
  "double_floor p q =
     (let k = 53 + int (bit_len q) - int (bit_len p);
          scaled = (\<lambda>k. if k \<ge> 0 then (p * 2 ^ nat k, q) else (p, q * 2 ^ nat (- k)));
          k = (if fst (scaled k) div snd (scaled k) \<ge> 2 ^ 53 then k - 1 else k);
          n = round_half_even (fst (scaled k)) (snd (scaled k))
      in if k \<ge> 0 then n div 2 ^ nat k else n * 2 ^ nat (- k))"

definition INT64_MIN :: int where "INT64_MIN = - (2 ^ 63)"

definition atof_int64 :: "string \<Rightarrow> int" where
  "atof_int64 s =
     (let t = dropWhile is_space s;
          neg = (case t of c # _ \<Rightarrow> c = CHR ''-'' | [] \<Rightarrow> False);
          t = (case t of c # r \<Rightarrow> if c = CHR ''-'' \<or> c = CHR ''+'' then r else t | [] \<Rightarrow> t);
          (m, e) = decimal_value t;
          v = int (if e \<ge> 0 then double_floor (m * 10 ^ nat e) 1 else double_floor m (10 ^ nat (- e)));
          v = (if neg then - v else v)
      in if v < INT64_MIN \<or> v \<ge> 2 ^ 63 then INT64_MIN else v)"

section \<open>SrsHttpHeader\<close>

record SrsHttpHeader =
  headers :: "(string, string) smap"
  cookie_list :: "string list"

definition SrsHttpHeader_new :: SrsHttpHeader where
  "SrsHttpHeader_new = \<lparr>headers = [], cookie_list = []\<rparr>"

text \<open>The loop that converts a key to UpperCamelCase; \<open>pchar\<close> is the previous character.\<close>

fun camel_case_loop :: "bool \<Rightarrow> char \<Rightarrow> string \<Rightarrow> string" where
  "camel_case_loop first pchar [] = []"
| "camel_case_loop first pchar (ch # s) =
     (if (first \<or> pchar = CHR ''-'') \<and> CHR ''a'' \<le> ch \<and> ch \<le> CHR ''z'' then char_of (of_char ch - 32 :: nat) else ch)
       # camel_case_loop False ch s"

definition canonical_key :: "string \<Rightarrow> string" where
  "canonical_key key = camel_case_loop True (CHR 0x00) key"

definition header_set :: "string \<Rightarrow> string \<Rightarrow> SrsHttpHeader \<Rightarrow> SrsHttpHeader" where
  "header_set key v h = h\<lparr>headers := smap_set (canonical_key key) v (headers h)\<rparr>"

definition addCookie :: "string \<Rightarrow> SrsHttpHeader \<Rightarrow> SrsHttpHeader" where
  "addCookie cookie h = h\<lparr>cookie_list := cookie_list h @ [cookie]\<rparr>"

definition header_get :: "string \<Rightarrow> SrsHttpHeader \<Rightarrow> string" where
  "header_get key h = (case smap_get (headers h) key of None \<Rightarrow> [] | Some v \<Rightarrow> v)"

definition header_del :: "string \<Rightarrow> SrsHttpHeader \<Rightarrow> SrsHttpHeader" where
  "header_del key h = h\<lparr>headers := smap_del key (headers h)\<rparr>"

definition header_count :: "SrsHttpHeader \<Rightarrow> nat" where
  "header_count h = length (headers h)"

definition content_length :: "SrsHttpHeader \<Rightarrow> int" where
  "content_length h = (let cl = header_get ''Content-Length'' h in if cl = [] then - 1 else atof_int64 cl)"

definition set_content_length :: "int \<Rightarrow> SrsHttpHeader \<Rightarrow> SrsHttpHeader" where
  "set_content_length sz h = header_set ''Content-Length'' (srs_int2str sz) h"

definition content_type :: "SrsHttpHeader \<Rightarrow> string" where
  "content_type h = header_get ''Content-Type'' h"

definition set_content_type :: "string \<Rightarrow> SrsHttpHeader \<Rightarrow> SrsHttpHeader" where
  "set_content_type ct h = header_set ''Content-Type'' ct h"

definition header_write :: "SrsHttpHeader \<Rightarrow> string" where
  "header_write h =
     concat (map (\<lambda>(k, v). k @ '': '' @ v @ CRLF) (headers h)) @
     concat (map (\<lambda>cookie. ''Set-Cookie: '' @ cookie @ CRLF) (cookie_list h))"

section \<open>Lemmas\<close>

lemma camel_case_idem: "camel_case_loop first p (camel_case_loop first p s) = camel_case_loop first p s"
proof (induction s arbitrary: first p)
  case (Cons ch s)
  let ?up = "char_of (of_char ch - 32 :: nat) :: char"
  have up: "\<not> CHR ''a'' \<le> ?up" "?up \<noteq> CHR ''-''" if "CHR ''a'' \<le> ch" "ch \<le> CHR ''z''"
  proof -
    from that have b: "97 \<le> (of_char ch :: nat)" "(of_char ch :: nat) \<le> 122" by (simp_all add: less_eq_char_def)
    then have o: "(of_char ?up :: nat) = of_char ch - 32" by simp
    with b show "\<not> CHR ''a'' \<le> ?up" by (simp add: less_eq_char_def)
    from o b show "?up \<noteq> CHR ''-''" by (auto dest: arg_cong [where f = "of_char :: char \<Rightarrow> nat"])
  qed
  have same: "camel_case_loop False q t = camel_case_loop False q' t" if "q = CHR ''-'' \<longleftrightarrow> q' = CHR ''-''" for q q' t
    using that by (cases t) auto
  show ?case
  proof (cases "(first \<or> p = CHR ''-'') \<and> CHR ''a'' \<le> ch \<and> ch \<le> CHR ''z''")
    case True
    then have "ch \<noteq> CHR ''-''" by (auto simp: less_eq_char_def)
    with True up same [of ?up ch] Cons.IH [of False ch] show ?thesis by simp
  next
    case False
    with Cons.IH [of False ch] show ?thesis by auto
  qed
qed simp

lemma canonical_key_idem [simp]: "canonical_key (canonical_key k) = canonical_key k"
  by (simp add: canonical_key_def camel_case_idem)

text \<open>The invariant of the class: the map is ordered and its keys are canonical.\<close>

definition header_inv :: "SrsHttpHeader \<Rightarrow> bool" where
  "header_inv h \<longleftrightarrow> smap_inv (headers h) \<and> (\<forall>k \<in> fst ` set (headers h). canonical_key k = k)"

lemma header_inv_new: "header_inv SrsHttpHeader_new"
  by (simp add: header_inv_def SrsHttpHeader_new_def smap_inv_def)

lemma header_inv_set [simp]: "header_inv h \<Longrightarrow> header_inv (header_set k v h)"
  by (simp add: header_inv_def header_set_def smap_inv_set keys_smap_set)

lemma header_inv_del [simp]: "header_inv h \<Longrightarrow> header_inv (header_del k h)"
  by (simp add: header_inv_def header_del_def smap_inv_del) (auto simp: smap_del_def)

lemma header_inv_cookie [simp]: "header_inv h \<Longrightarrow> header_inv (addCookie c h)"
  by (simp add: header_inv_def addCookie_def)

lemma header_get_set:
  "header_get k (header_set k' v h) = (if k = canonical_key k' then v else header_get k h)"
  by (simp add: header_get_def header_set_def map_of_smap_set)

lemma header_get_del: "header_get k (header_del k' h) = (if k = k' then [] else header_get k h)"
  by (simp add: header_get_def header_del_def map_of_smap_del)

lemma header_get_cookie [simp]: "header_get k (addCookie c h) = header_get k h"
  by (simp add: header_get_def addCookie_def)

lemma header_get_other: "header_inv h \<Longrightarrow> canonical_key k \<noteq> k \<Longrightarrow> header_get k h = []"
  by (force simp: header_inv_def header_get_def split: option.splits dest: map_of_SomeD)

lemma bit_len_bound: "n < 2 ^ k \<Longrightarrow> bit_len n \<le> k"
proof (induction n arbitrary: k rule: bit_len.induct)
  case (1 n)
  then show ?case by (cases k) (auto simp: bit_len.simps [of n] bit_len.simps [of 0])
qed

lemma double_floor_exact: "n < 2 ^ 53 \<Longrightarrow> double_floor n 1 = n"
proof -
  assume n: "n < 2 ^ 53"
  have one: "bit_len 1 = 1" by (simp add: bit_len.simps)
  have rh: "round_half_even m (Suc 0) = m" for m by (simp add: round_half_even_def)
  from bit_len_bound [OF n] obtain d where d: "53 = bit_len n + d" by (metis le_Suc_ex)
  then have k: "53 + int (bit_len 1) - int (bit_len n) = int (Suc d)" "nat (int (Suc d) - 1) = d" "nat (int (Suc d)) = Suc d"
    unfolding one by simp_all
  show ?thesis
    unfolding double_floor_def Let_def k by (simp add: rh nat_add_distrib)
qed

lemma decimal_value_nat: "decimal_value (nat_to_str n) = (n, 0)"
proof -
  have "takeWhile is_digit (nat_to_str n) = nat_to_str n" "dropWhile is_digit (nat_to_str n) = []"
    using nat_to_str_digits [of n] by (simp_all add: takeWhile_eq_all_conv dropWhile_eq_Nil_conv)
  from this show ?thesis unfolding decimal_value_def Let_def by (simp only: list.case digits_val_nat_to_str_0)
qed

lemma atof_int64_nat: "n < 2 ^ 53 \<Longrightarrow> atof_int64 (nat_to_str n) = int n"
proof -
  assume n: "n < 2 ^ 53"
  obtain c t where s: "nat_to_str n = c # t" by (cases "nat_to_str n") auto
  then have "is_digit c" using nat_to_str_digits [of n] by simp
  then have "\<not> is_space c" "c \<noteq> CHR ''-''" "c \<noteq> CHR ''+''" by (auto simp: is_digit_def is_space_def)
  then show ?thesis
    using n decimal_value_nat [of n] double_floor_exact [OF n]
    by (simp add: atof_int64_def s INT64_MIN_def)
qed

lemma canonical_keys [simp]:
  "canonical_key ''Content-Length'' = ''Content-Length''"
  "canonical_key ''Content-Type'' = ''Content-Type''"
  "canonical_key ''Server'' = ''Server''"
  "canonical_key ''Transfer-Encoding'' = ''Transfer-Encoding''"
  "canonical_key ''Connection'' = ''Connection''"
  by (simp_all add: canonical_key_def less_eq_char_def char_of_def bit_0)

text \<open>The length stored with \<open>set_content_length\<close> is the length read back with
  \<open>content_length\<close>, for every length a \<open>double\<close> holds exactly (below 2 to the 53).\<close>

lemma content_length_set: "0 \<le> n \<Longrightarrow> n < 2 ^ 53 \<Longrightarrow> content_length (set_content_length n h) = n"
  using atof_int64_nat [of "nat n"]
  by (simp add: content_length_def set_content_length_def header_get_set srs_int2str_def int_to_str_def)

section \<open>Properties\<close>

text \<open>A header set under any spelling of its name is found under the canonical spelling
  and under no other; other fields keep their value, and every operation keeps the fields ordered,
  canonical and unique.\<close>

lemma header_set_get:
  assumes "header_inv h"
  shows "header_inv (header_set k v h) \<and>
    header_get k' (header_set k v h) =
      (if k' = canonical_key k then v else if canonical_key k' = k' then header_get k' h else [])"
  using assms header_get_other [OF assms, of k'] by (auto simp: header_get_set)

end
