(* ===== verification/St_Socket.thy ===== *)
theory St_Socket
  imports Kernel_Error
begin

text \<open>
  \<open>SrsStSocket\<close> (\<open>src/src/protocol/srs_protocol_st.cpp\<close>) over the State Threads library.
  The library is a third-party package: its calls \<open>st_read\<close>, \<open>st_read_fully\<close>,
  \<open>st_peek\<close>, \<open>st_write\<close> and \<open>st_writev\<close> are arguments that act on the state
  \<open>'n\<close> of the network, with their documented results.  The socket is one that was initialised
  with a descriptor, so \<open>srs_assert(stfd_)\<close> holds.  The interface \<open>ISrsReader\<close> that the
  stream buffer and the HTTP parser read from is the locale \<open>byte_reader\<close>, and
  \<open>ISrsWriter\<close> is \<open>byte_writer\<close>; \<open>SrsStSocket\<close> implements both for every
  library that keeps the contracts \<open>st_reading\<close> and \<open>st_writing\<close>.
\<close>

section \<open>Definitions\<close>

abbreviation ERROR_SOCKET_TIMEOUT :: int where "ERROR_SOCKET_TIMEOUT \<equiv> 1011"
abbreviation ERROR_READER_BUFFER_OVERFLOW :: int where "ERROR_READER_BUFFER_OVERFLOW \<equiv> 1022"
abbreviation ERROR_SOCKET_PEEK :: int where "ERROR_SOCKET_PEEK \<equiv> 1087"
abbreviation SRS_UTIME_NO_TIMEOUT :: int where "SRS_UTIME_NO_TIMEOUT \<equiv> - 1"

text \<open>A call of the library delivers bytes (none at the end of the stream), or fails with
  \<open>ETIME\<close> or another error.\<close>

datatype st_in = StBytes string | StTimedOut | StFailed

text \<open>A write returns the number of bytes written, or fails.\<close>

datatype st_out = StWrote nat | StWriteTimedOut | StWriteFailed

record 'n SrsStSocket =
  rtm :: int
  stm :: int
  rbytes :: nat
  sbytes :: nat
  net :: 'n

definition SrsStSocket_init :: "'n \<Rightarrow> 'n SrsStSocket" where
  "SrsStSocket_init n =
     \<lparr>rtm = SRS_UTIME_NO_TIMEOUT, stm = SRS_UTIME_NO_TIMEOUT, rbytes = 0, sbytes = 0, net = n\<rparr>"

type_synonym 'n st_read = "nat \<Rightarrow> int \<Rightarrow> 'n \<Rightarrow> st_in \<times> 'n"
type_synonym 'n st_write = "string \<Rightarrow> int \<Rightarrow> 'n \<Rightarrow> st_out \<times> 'n"

definition SrsStSocket_read :: "'n st_read \<Rightarrow> nat \<Rightarrow> 'n SrsStSocket \<Rightarrow> string srs \<times> 'n SrsStSocket" where
  "SrsStSocket_read st_read sz s =
     (case st_read sz (rtm s) (net s) of (r, n) \<Rightarrow>
        let s = s\<lparr>net := n\<rparr> in
        case r of
          StTimedOut \<Rightarrow> (Err ERROR_SOCKET_TIMEOUT, s)
        | StFailed \<Rightarrow> (Err ERROR_SOCKET_READ, s)
        | StBytes bs \<Rightarrow>
            if bs = [] then (Err ERROR_SOCKET_READ, s)
            else (Ok bs, s\<lparr>rbytes := rbytes s + length bs\<rparr>))"

definition SrsStSocket_read_fully ::
    "'n st_read \<Rightarrow> nat \<Rightarrow> 'n SrsStSocket \<Rightarrow> string srs \<times> 'n SrsStSocket" where
  "SrsStSocket_read_fully st_read_fully sz s =
     (case st_read_fully sz (rtm s) (net s) of (r, n) \<Rightarrow>
        let s = s\<lparr>net := n\<rparr> in
        case r of
          StTimedOut \<Rightarrow> (Err ERROR_SOCKET_TIMEOUT, s)
        | StFailed \<Rightarrow> (Err ERROR_SOCKET_READ_FULLY, s)
        | StBytes bs \<Rightarrow>
            if length bs \<noteq> sz then (Err ERROR_SOCKET_READ_FULLY, s)
            else (Ok bs, s\<lparr>rbytes := rbytes s + length bs\<rparr>))"

definition SrsStSocket_peek :: "'n st_read \<Rightarrow> nat \<Rightarrow> 'n SrsStSocket \<Rightarrow> string srs \<times> 'n SrsStSocket" where
  "SrsStSocket_peek st_peek sz s =
     (case st_peek sz (rtm s) (net s) of (r, n) \<Rightarrow>
        let s = s\<lparr>net := n\<rparr> in
        case r of
          StTimedOut \<Rightarrow> (Err ERROR_SOCKET_TIMEOUT, s)
        | StFailed \<Rightarrow> (Err ERROR_SOCKET_PEEK, s)
        | StBytes bs \<Rightarrow> if bs = [] then (Err ERROR_SOCKET_PEEK, s) else (Ok bs, s))"

text \<open>\<open>write\<close>; \<open>writev\<close> is the same on the concatenation of its vectors, with
  \<open>st_writev\<close> in the place of \<open>st_write\<close>.\<close>

definition SrsStSocket_write :: "'n st_write \<Rightarrow> string \<Rightarrow> 'n SrsStSocket \<Rightarrow> int \<times> 'n SrsStSocket" where
  "SrsStSocket_write st_write buf s =
     (case st_write buf (stm s) (net s) of (r, n) \<Rightarrow>
        let s = s\<lparr>net := n\<rparr> in
        case r of
          StWriteTimedOut \<Rightarrow> (ERROR_SOCKET_TIMEOUT, s)
        | StWriteFailed \<Rightarrow> (ERROR_SOCKET_WRITE, s)
        | StWrote k \<Rightarrow>
            if k = 0 then (ERROR_SOCKET_WRITE, s) else (ERROR_SUCCESS, s\<lparr>sbytes := sbytes s + k\<rparr>))"

definition SrsStSocket_writev :: "'n st_write \<Rightarrow> string list \<Rightarrow> 'n SrsStSocket \<Rightarrow> int \<times> 'n SrsStSocket" where
  "SrsStSocket_writev st_writev iov s = SrsStSocket_write st_writev (concat iov) s"

section \<open>The interfaces\<close>

text \<open>\<open>ISrsReader::read\<close>: success delivers at least one and at most \<open>n\<close> bytes, the next
  ones of \<open>pending\<close>; an error consumes nothing.\<close>

locale byte_reader =
  fixes read :: "nat \<Rightarrow> 'r \<Rightarrow> string srs \<times> 'r" and pending :: "'r \<Rightarrow> string"
  assumes read_Ok: "read n r = (Ok bs, r') \<Longrightarrow> 0 < n \<Longrightarrow>
      bs \<noteq> [] \<and> length bs \<le> n \<and> pending r = bs @ pending r'"
    and read_Err: "read n r = (Err e, r') \<Longrightarrow> pending r' = pending r"
begin

lemma read_prefix: "read n r = (Ok bs, r') \<Longrightarrow> 0 < n \<Longrightarrow> prefix bs (pending r)"
  by (auto dest: read_Ok)

lemma read_shrinks: "read n r = (Ok bs, r') \<Longrightarrow> 0 < n \<Longrightarrow> length (pending r') < length (pending r)"
  using read_Ok [of n r bs r'] by (cases bs) auto

end

text \<open>\<open>ISrsWriter::write\<close>: success appends the bytes to what the peer has been sent.\<close>

locale byte_writer =
  fixes put :: "string \<Rightarrow> 'w \<Rightarrow> int \<times> 'w" and sent :: "'w \<Rightarrow> string"
  assumes put_Ok: "put bs w = (0, w') \<Longrightarrow> sent w' = sent w @ bs"

text \<open>The documented contracts of the State Threads calls.\<close>

locale st_reading =
  fixes st_read :: "'n st_read" and incoming :: "'n \<Rightarrow> string"
  assumes st_read_bytes: "st_read n tm w = (StBytes bs, w') \<Longrightarrow> length bs \<le> n \<and> incoming w = bs @ incoming w'"
    and st_read_failed: "st_read n tm w = (r, w') \<Longrightarrow> r = StTimedOut \<or> r = StFailed \<Longrightarrow> incoming w' = incoming w"

locale st_writing =
  fixes st_write :: "'n st_write" and outgoing :: "'n \<Rightarrow> string"
  assumes st_write_bytes: "st_write bs tm w = (StWrote k, w') \<Longrightarrow> 0 < k \<Longrightarrow> outgoing w' = outgoing w @ bs"

sublocale st_reading < socket: byte_reader "SrsStSocket_read st_read" "\<lambda>s. incoming (net s)"
proof
  fix n s bs s'
  assume "SrsStSocket_read st_read n s = (Ok bs, s')"
  then show "bs \<noteq> [] \<and> length bs \<le> n \<and> incoming (net s) = bs @ incoming (net s')"
    by (auto simp: SrsStSocket_read_def Let_def split: prod.splits st_in.splits if_splits dest: st_read_bytes)
next
  fix n s e s'
  assume "SrsStSocket_read st_read n s = (Err e, s')"
  then show "incoming (net s') = incoming (net s)"
    by (auto simp: SrsStSocket_read_def Let_def split: prod.splits st_in.splits if_splits
        dest: st_read_bytes st_read_failed)
qed

sublocale st_writing < socket: byte_writer "SrsStSocket_write st_write" "\<lambda>s. outgoing (net s)"
  by unfold_locales
    (auto simp: SrsStSocket_write_def Let_def split: prod.splits st_out.splits if_splits dest: st_write_bytes)

context st_reading
begin

lemma socket_reader: "byte_reader (SrsStSocket_read st_read) (\<lambda>s. incoming (net s))"
  by unfold_locales

end

text \<open>A reader that fails only at the end of its stream.\<close>

locale reliable_reader = byte_reader +
  assumes read_end: "read n r = (Err e, r') \<Longrightarrow> 0 < n \<Longrightarrow> pending r = []"

locale st_reliable = st_reading +
  assumes st_read_end: "st_read n tm w = (r, w') \<Longrightarrow> 0 < n \<Longrightarrow> r = StBytes [] \<or> r = StTimedOut \<or> r = StFailed \<Longrightarrow>
      incoming w = []"

sublocale st_reliable < socket: reliable_reader "SrsStSocket_read st_read" "\<lambda>s. incoming (net s)"
  by unfold_locales
    (auto simp: SrsStSocket_read_def Let_def split: prod.splits st_in.splits if_splits dest: st_read_end)

context st_reliable
begin

lemma socket_reliable: "reliable_reader (SrsStSocket_read st_read) (\<lambda>s. incoming (net s))"
  by unfold_locales

end

section \<open>A scripted network\<close>

text \<open>An instance of the library: the network delivers the given segments one by one, the end
  of the stream after the last one, and takes everything that is written.\<close>

record script =
  segments :: "string list"
  delivered :: string

definition script_read :: "script st_read" where
  "script_read n tm w =
     (case dropWhile (\<lambda>s. s = []) (segments w) of
        [] \<Rightarrow> (StBytes [], w)
      | s # ss \<Rightarrow>
          if length s \<le> n then (StBytes s, w\<lparr>segments := ss\<rparr>)
          else (StBytes (take n s), w\<lparr>segments := drop n s # ss\<rparr>))"

definition script_write :: "script st_write" where
  "script_write bs tm w = (StWrote (length bs), w\<lparr>delivered := delivered w @ bs\<rparr>)"

lemma concat_dropWhile_Nil: "concat (dropWhile (\<lambda>s. s = []) ss) = concat ss"
  by (induction ss) auto

interpretation script_in: st_reliable script_read "\<lambda>w. concat (segments w)"
proof
  fix n tm w bs w'
  assume "script_read n tm w = (StBytes bs, w')"
  then show "length bs \<le> n \<and> concat (segments w) = bs @ concat (segments w')"
    using concat_dropWhile_Nil [of "segments w"]
    by (auto simp: script_read_def append_assoc [symmetric] simp del: append_assoc split: list.splits if_splits)
next
  fix n tm w r w'
  assume "script_read n tm w = (r, w')" "r = StTimedOut \<or> r = StFailed"
  then show "concat (segments w') = concat (segments w)"
    by (auto simp: script_read_def split: list.splits if_splits)
next
  fix n tm w r w'
  assume "script_read n tm w = (r, w')" "0 < n" "r = StBytes [] \<or> r = StTimedOut \<or> r = StFailed"
  then show "concat (segments w) = []"
    using concat_dropWhile_Nil [of "segments w"]
    by (auto simp: script_read_def split: list.splits if_splits dest: dropWhile_eq_Cons_conv [THEN iffD1])
qed

interpretation script_out: st_writing script_write delivered
  by unfold_locales (auto simp: script_write_def)

end
