(* ===== verification/Fast_Stream.thy ===== *)
theory Fast_Stream
  imports St_Socket
begin

text \<open>
  \<open>SrsFastStream\<close> (\<open>src/src/protocol/srs_protocol_stream.cpp\<close>): a linear buffer with a
  read pointer \<open>p\<close> and a write pointer \<open>end\<close>, both kept as offsets into the memory block.
  The memory is a function from offsets to bytes; what \<open>malloc\<close> and \<open>realloc\<close> leave
  undefined is whatever the function says there.  A call ends with a result, with an error code, or
  with a crash: a failed \<open>srs_assert\<close>, or a reader that delivers more than it was asked for and
  so writes behind the block.  The specification is a queue of bytes: \<open>stream_bytes\<close> abstracts
  the buffer to the bytes between the pointers.
\<close>

section \<open>Definitions\<close>

definition SRS_DEFAULT_RECV_BUFFER_SIZE :: nat where "SRS_DEFAULT_RECV_BUFFER_SIZE = 131072"
definition SRS_MAX_SOCKET_BUFFER :: nat where "SRS_MAX_SOCKET_BUFFER = 262144"

record SrsFastStream =
  fs_mem :: "nat \<Rightarrow> char"
  nb_buffer :: nat
  fs_p :: nat
  fs_end :: nat

datatype 'a fs_result = FsOk 'a | FsErr int 'a | FsCrash

definition SrsFastStream_new :: "nat \<Rightarrow> (nat \<Rightarrow> char) \<Rightarrow> SrsFastStream" where
  "SrsFastStream_new sz mem =
     \<lparr>fs_mem = mem, nb_buffer = (if sz \<noteq> 0 then sz else SRS_DEFAULT_RECV_BUFFER_SIZE), fs_p = 0, fs_end = 0\<rparr>"

definition stream_size :: "SrsFastStream \<Rightarrow> nat" where
  "stream_size s = fs_end s - fs_p s"

text \<open>What lies between the pointers: the \<open>size()\<close> bytes from \<open>bytes()\<close> on.\<close>

definition stream_bytes :: "SrsFastStream \<Rightarrow> string" where
  "stream_bytes s = map (fs_mem s) [fs_p s..<fs_end s]"

definition set_buffer :: "nat \<Rightarrow> SrsFastStream \<Rightarrow> SrsFastStream" where
  "set_buffer buffer_size s =
     (let nb_resize_buf = min buffer_size SRS_MAX_SOCKET_BUFFER in
      if nb_resize_buf \<le> nb_buffer s then s else s\<lparr>nb_buffer := nb_resize_buf\<rparr>)"

definition read_1byte :: "SrsFastStream \<Rightarrow> (char \<times> SrsFastStream) option" where
  "read_1byte s =
     (if fs_end s - fs_p s \<ge> 1 then Some (fs_mem s (fs_p s), s\<lparr>fs_p := fs_p s + 1\<rparr>) else None)"

text \<open>The slice that \<open>read_slice\<close> returns is a pointer into the memory; the model returns
  its bytes.\<close>

definition read_slice :: "nat \<Rightarrow> SrsFastStream \<Rightarrow> (string \<times> SrsFastStream) option" where
  "read_slice sz s =
     (if fs_end s - fs_p s \<ge> sz
      then Some (map (fs_mem s) [fs_p s..<fs_p s + sz], s\<lparr>fs_p := fs_p s + sz\<rparr>) else None)"

text \<open>\<open>skip\<close> also takes a negative size, to step back.\<close>

definition skip :: "int \<Rightarrow> SrsFastStream \<Rightarrow> SrsFastStream option" where
  "skip sz s =
     (if int (fs_end s) - int (fs_p s) \<ge> sz \<and> int (fs_p s) + sz \<ge> 0
      then Some (s\<lparr>fs_p := nat (int (fs_p s) + sz)\<rparr>) else None)"

definition mem_write :: "nat \<Rightarrow> string \<Rightarrow> (nat \<Rightarrow> char) \<Rightarrow> nat \<Rightarrow> char" where
  "mem_write at bs mem = (\<lambda>i. if at \<le> i \<and> i < at + length bs then bs ! (i - at) else mem i)"

text \<open>The first part of \<open>grow\<close>: reset or move the bytes when the space behind them is too small.\<close>

definition make_room :: "nat \<Rightarrow> SrsFastStream \<Rightarrow> SrsFastStream" where
  "make_room required_size s =
     (let nb_exists_bytes = fs_end s - fs_p s in
      if nb_exists_bytes + (nb_buffer s - fs_end s) < required_size then
        if nb_exists_bytes = 0 then s\<lparr>fs_p := 0, fs_end := 0\<rparr>
        else if nb_exists_bytes < nb_buffer s \<and> fs_p s > 0 then
          s\<lparr>fs_mem := (\<lambda>i. if i < nb_exists_bytes then fs_mem s (fs_p s + i) else fs_mem s i),
            fs_p := 0, fs_end := nb_exists_bytes\<rparr>
        else s
      else s)"

text \<open>The reading loop; \<open>read\<close> is \<open>reader->read\<close>.\<close>

function grow_loop ::
    "(nat \<Rightarrow> 'r \<Rightarrow> string srs \<times> 'r) \<Rightarrow> nat \<Rightarrow> SrsFastStream \<Rightarrow> 'r \<Rightarrow> (SrsFastStream \<times> 'r) fs_result" where
  "grow_loop read required_size s r =
     (if fs_end s - fs_p s < required_size then
        (case read (nb_buffer s - fs_end s) r of
           (Err e, r') \<Rightarrow> FsErr e (s, r')
         | (Ok bs, r') \<Rightarrow>
             if bs = [] \<or> length bs > nb_buffer s - fs_end s \<or> fs_end s < fs_p s then FsCrash
             else grow_loop read required_size
                    (s\<lparr>fs_mem := mem_write (fs_end s) bs (fs_mem s), fs_end := fs_end s + length bs\<rparr>) r')
      else FsOk (s, r))"
  by pat_completeness auto
termination
proof (relation "measure (\<lambda>(read, n, s, r). n - (fs_end s - fs_p s))", goal_cases)
  case (2 read required_size s r res r' bs)
  then obtain k where "length bs = Suc k" by (cases bs) auto
  with 2 show ?case by auto
qed simp

declare grow_loop.simps [simp del]

definition grow ::
    "(nat \<Rightarrow> 'r \<Rightarrow> string srs \<times> 'r) \<Rightarrow> nat \<Rightarrow> SrsFastStream \<Rightarrow> 'r \<Rightarrow> (SrsFastStream \<times> 'r) fs_result" where
  "grow read required_size s r =
     (if fs_end s - fs_p s \<ge> required_size then FsOk (s, r)
      else
        let s = make_room required_size s in
        if fs_end s - fs_p s + (nb_buffer s - fs_end s) < required_size
        then FsErr ERROR_READER_BUFFER_OVERFLOW (s, r)
        else grow_loop read required_size s r)"

section \<open>The invariant and the abstraction\<close>

definition stream_inv :: "SrsFastStream \<Rightarrow> bool" where
  "stream_inv s \<longleftrightarrow> fs_p s \<le> fs_end s \<and> fs_end s \<le> nb_buffer s"

lemma stream_inv_new: "stream_inv (SrsFastStream_new sz mem)"
  by (simp add: stream_inv_def SrsFastStream_new_def)

lemma length_stream_bytes [simp]: "length (stream_bytes s) = stream_size s"
  by (simp add: stream_bytes_def stream_size_def)

lemma stream_bytes_new [simp]: "stream_bytes (SrsFastStream_new sz mem) = []"
  by (simp add: stream_bytes_def SrsFastStream_new_def)

lemma set_buffer_refines: "stream_inv s \<Longrightarrow> stream_inv (set_buffer n s) \<and> stream_bytes (set_buffer n s) = stream_bytes s"
  by (auto simp: set_buffer_def stream_inv_def stream_bytes_def Let_def)

lemma read_slice_refines:
  assumes "stream_inv s"
  shows "read_slice n s \<noteq> None \<longleftrightarrow> n \<le> stream_size s"
    and "read_slice n s = Some (bs, s') \<Longrightarrow>
      stream_inv s' \<and> bs = take n (stream_bytes s) \<and> stream_bytes s' = drop n (stream_bytes s)"
  using assms
  by (auto simp: read_slice_def stream_size_def stream_bytes_def stream_inv_def drop_map take_map split: if_splits)

lemma read_1byte_refines:
  assumes "stream_inv s" "read_1byte s = Some (c, s')"
  shows "stream_inv s' \<and> stream_bytes s = c # stream_bytes s'"
  using assms by (auto simp: read_1byte_def stream_bytes_def stream_inv_def upt_conv_Cons split: if_splits)

lemma make_room_refines:
  assumes "stream_inv s"
  shows "stream_inv (make_room n s)" "stream_bytes (make_room n s) = stream_bytes s"
    "nb_buffer (make_room n s) = nb_buffer s"
    "n \<le> nb_buffer s \<Longrightarrow>
       stream_size (make_room n s) + (nb_buffer s - fs_end (make_room n s)) \<ge> n"
  using assms
  by (auto simp: make_room_def Let_def stream_inv_def stream_bytes_def stream_size_def
      intro!: nth_equalityI)

lemma stream_bytes_write:
  assumes "stream_inv s" "length bs \<le> nb_buffer s - fs_end s"
  shows "stream_inv (s\<lparr>fs_mem := mem_write (fs_end s) bs (fs_mem s), fs_end := fs_end s + length bs\<rparr>) \<and>
    stream_bytes (s\<lparr>fs_mem := mem_write (fs_end s) bs (fs_mem s), fs_end := fs_end s + length bs\<rparr>) =
      stream_bytes s @ bs"
proof -
  have "map (mem_write (fs_end s) bs (fs_mem s)) [fs_end s..<fs_end s + length bs] = bs"
    by (rule nth_equalityI) (simp_all add: mem_write_def)
  moreover have "[fs_p s..<fs_end s + length bs] = [fs_p s..<fs_end s] @ [fs_end s..<fs_end s + length bs]"
    using assms by (intro upt_add_eq_append) (simp add: stream_inv_def)
  ultimately show ?thesis
    using assms by (auto simp: stream_bytes_def stream_inv_def mem_write_def)
qed

text \<open>The effect of a call of \<open>grow\<close>: it does not crash; the buffer is extended by
  bytes that the reader had pending, also when it fails; and on success it holds at least
  \<open>n\<close> bytes.\<close>

definition extends :: "('r \<Rightarrow> string) \<Rightarrow> SrsFastStream \<Rightarrow> 'r \<Rightarrow> SrsFastStream \<Rightarrow> 'r \<Rightarrow> bool" where
  "extends pending s r s' r' \<longleftrightarrow> stream_inv s' \<and> nb_buffer s' = nb_buffer s \<and>
     (\<exists>bs. stream_bytes s' = stream_bytes s @ bs \<and> pending r = bs @ pending r')"

definition grown :: "('r \<Rightarrow> string) \<Rightarrow> nat \<Rightarrow> SrsFastStream \<Rightarrow> 'r \<Rightarrow> (SrsFastStream \<times> 'r) fs_result \<Rightarrow> bool" where
  "grown pending n s r res \<longleftrightarrow>
     (case res of
        FsOk (s', r') \<Rightarrow> extends pending s r s' r' \<and> n \<le> stream_size s'
      | FsErr e (s', r') \<Rightarrow> extends pending s r s' r'
      | FsCrash \<Rightarrow> False)"

lemma extends_refl: "stream_inv s \<Longrightarrow> extends pending s r s r"
  by (simp add: extends_def)

lemma extends_trans: "extends pd s r s' r' \<Longrightarrow> extends pd s' r' s'' r'' \<Longrightarrow> extends pd s r s'' r''"
  by (auto simp: extends_def)

lemma grown_trans: "extends pd s r s' r' \<Longrightarrow> grown pd n s' r' res \<Longrightarrow> grown pd n s r res"
  by (auto simp: grown_def split: fs_result.splits intro: extends_trans)

context byte_reader
begin

lemma grow_loop_ok:
  assumes "stream_inv s" "stream_size s + (nb_buffer s - fs_end s) \<ge> required_size"
  shows "grown pending required_size s r (grow_loop read required_size s r)"
  using assms
proof (induction "required_size - stream_size s" arbitrary: s r rule: less_induct)
  case less
  show ?case
  proof (cases "stream_size s < required_size")
    case False
    with less.prems show ?thesis
      by (subst grow_loop.simps) (simp add: stream_size_def grown_def extends_refl)
  next
    case True
    let ?free = "nb_buffer s - fs_end s"
    have free: "0 < ?free" using True less.prems(2) by simp
    show ?thesis
    proof (cases "read ?free r")
      case (Pair a r')
      show ?thesis
      proof (cases a)
        case (Inl e)
        with Pair True read_Err [of ?free r e r'] less.prems show ?thesis
          by (subst grow_loop.simps) (simp add: stream_size_def grown_def extends_def)
      next
        case (Inr bs)
        with Pair read_Ok [of ?free r bs r'] free have
          bs: "bs \<noteq> []" "length bs \<le> ?free" "pending r = bs @ pending r'" by auto
        let ?s = "s\<lparr>fs_mem := mem_write (fs_end s) bs (fs_mem s), fs_end := fs_end s + length bs\<rparr>"
        have w: "stream_inv ?s" "stream_bytes ?s = stream_bytes s @ bs"
          using stream_bytes_write [OF less.prems(1) bs(2)] by auto
        have sz: "stream_size ?s = stream_size s + length bs" using less.prems(1)
          by (simp add: stream_size_def stream_inv_def)
        have eq: "grow_loop read required_size s r = grow_loop read required_size ?s r'"
          using Pair Inr True bs less.prems(1)
          by (subst grow_loop.simps) (auto simp: stream_size_def stream_inv_def)
        have "required_size - stream_size ?s < required_size - stream_size s"
          using True bs(1) sz by (cases bs) auto
        moreover have "stream_size ?s + (nb_buffer ?s - fs_end ?s) \<ge> required_size"
          using less.prems sz bs(2) by simp
        ultimately have "grown pending required_size ?s r' (grow_loop read required_size ?s r')"
          using less.hyps [of ?s r'] w(1) by blast
        moreover have "extends pending s r ?s r'" using w bs(3) by (simp add: extends_def)
        ultimately show ?thesis unfolding eq by (rule grown_trans [rotated])
      qed
    qed
  qed
qed

lemma grow_ok:
  assumes "stream_inv s"
  shows "grown pending required_size s r (grow read required_size s r)"
proof (cases "stream_size s \<ge> required_size")
  case True
  with assms show ?thesis by (simp add: grow_def stream_size_def grown_def extends_refl)
next
  case False
  let ?s = "make_room required_size s"
  note m = make_room_refines [OF assms, of required_size]
  then have ext: "extends pending s r ?s r" by (simp add: extends_def)
  show ?thesis
  proof (cases "stream_size ?s + (nb_buffer ?s - fs_end ?s) < required_size")
    case True
    with False ext show ?thesis by (simp add: grow_def Let_def stream_size_def grown_def)
  next
    case ok: False
    with m have "grown pending required_size ?s r (grow_loop read required_size ?s r)"
      by (intro grow_loop_ok) auto
    with False ok grown_trans [OF ext] show ?thesis by (simp add: grow_def Let_def stream_size_def)
  qed
qed

end

text \<open>With a reader that fails only at its end, growing succeeds whenever the bytes exist and fit.\<close>

context reliable_reader
begin

lemma grow_loop_end:
  assumes "grow_loop read n s r = FsErr e (s', r')" "stream_inv s" "stream_size s + (nb_buffer s - fs_end s) \<ge> n"
  shows "stream_size s' < n \<and> pending r' = []"
  using assms
proof (induction "n - stream_size s" arbitrary: s r rule: less_induct)
  case less
  let ?free = "nb_buffer s - fs_end s"
  have lt: "fs_end s - fs_p s < n"
  proof (rule ccontr)
    assume "\<not> fs_end s - fs_p s < n"
    then have "grow_loop read n s r = FsOk (s, r)" by (subst grow_loop.simps) simp
    with less.prems(1) show False by simp
  qed
  with less.prems(3) have free: "0 < ?free" by (simp add: stream_size_def)
  obtain a r1 where ra: "read ?free r = (a, r1)" by (cases "read ?free r")
  show ?case
  proof (cases a)
    case (Inl e1)
    with ra lt have "grow_loop read n s r = FsErr e1 (s, r1)" by (subst grow_loop.simps) simp
    with less.prems(1) have "s' = s" "r' = r1" by auto
    with lt read_end [of ?free r e1 r1] read_Err [of ?free r e1 r1] ra Inl free show ?thesis
      by (simp add: stream_size_def)
  next
    case (Inr bs)
    with ra read_Ok [of ?free r bs r1] free have bs: "bs \<noteq> []" "length bs \<le> ?free" by auto
    let ?s = "s\<lparr>fs_mem := mem_write (fs_end s) bs (fs_mem s), fs_end := fs_end s + length bs\<rparr>"
    have sz: "stream_size ?s = stream_size s + length bs"
      using less.prems(2) by (simp add: stream_size_def stream_inv_def)
    have eq: "grow_loop read n s r = grow_loop read n ?s r1"
      using ra Inr lt bs less.prems(2) by (subst grow_loop.simps) (auto simp: stream_inv_def)
    have "n - stream_size ?s < n - stream_size s" using lt bs(1) sz by (cases bs) (auto simp: stream_size_def)
    moreover have "stream_size ?s + (nb_buffer ?s - fs_end ?s) \<ge> n" using less.prems(3) sz bs(2) by simp
    ultimately show ?thesis
      using less.hyps [of ?s r1] less.prems(1) stream_bytes_write [OF less.prems(2) bs(2)] unfolding eq by blast
  qed
qed

lemma grow_reliable:
  assumes "stream_inv s" "n \<le> length (stream_bytes s @ pending r)" "n \<le> nb_buffer s"
  obtains s' r' where "grow read n s r = FsOk (s', r')" "stream_inv s'" "nb_buffer s' = nb_buffer s"
    "stream_bytes s' @ pending r' = stream_bytes s @ pending r" "n \<le> stream_size s'"
proof -
  note ok = grow_ok [OF assms(1), of n r]
  show ?thesis
  proof (cases "grow read n s r")
    case (FsOk x)
    with ok that show ?thesis by (cases x) (auto simp: grown_def extends_def)
  next
    case (FsErr e x)
    obtain s' r' where x: "x = (s', r')" by (cases x)
    let ?s = "make_room n s"
    note m = make_room_refines [OF assms(1), of n]
    from FsErr x have lt: "stream_size s < n" by (auto simp: grow_def stream_size_def split: if_splits)
    with FsErr x m(3) m(4) [OF assms(3)] have "grow_loop read n ?s r = FsErr e (s', r')"
      by (auto simp: grow_def Let_def stream_size_def split: if_splits)
    from grow_loop_end [OF this] m assms(3) have "stream_size s' < n" "pending r' = []" by auto
    moreover from ok FsErr x have "stream_bytes s' @ pending r' = stream_bytes s @ pending r"
      by (auto simp: grown_def extends_def)
    ultimately show ?thesis using assms(2) by (metis append_Nil2 length_stream_bytes not_le)
  next
    case FsCrash
    with ok show ?thesis by (simp add: grown_def)
  qed
qed

end

section \<open>Properties\<close>

text \<open>C31. Reading from the socket into the buffer: from a well-formed buffer, growing it never
  fails an assertion or writes outside the block, for every State Threads library that keeps its
  contract; the bytes in the buffer followed by those still to come stay the same sequence, on
  success and on error, and on success the required number of bytes is there.\<close>

theorem grow_refines_queue:
  assumes "st_reading st_read incoming" "stream_inv s"
  shows "\<exists>s' sk'. stream_inv s' \<and> nb_buffer s' = nb_buffer s \<and>
    stream_bytes s' @ incoming (net sk') = stream_bytes s @ incoming (net sk) \<and>
    (grow (SrsStSocket_read st_read) n s sk = FsOk (s', sk') \<and> n \<le> stream_size s' \<or>
     (\<exists>e. grow (SrsStSocket_read st_read) n s sk = FsErr e (s', sk')))"
proof -
  have "byte_reader (SrsStSocket_read st_read) (\<lambda>s. incoming (net s))"
    by (rule st_reading.socket_reader [OF assms(1)])
  from byte_reader.grow_ok [OF this assms(2), of n sk] show ?thesis
    by (auto simp: grown_def extends_def split: fs_result.splits)
qed

theorem grow_refines_queue_witness:
  "stream_inv (SrsFastStream_new 8 (\<lambda>_. CHR ''x'')) \<and>
   (\<exists>s' sk'. stream_inv s' \<and> nb_buffer s' = 8 \<and>
    stream_bytes s' @ concat (segments (net sk')) = ''abcd'' \<and>
    (grow (SrsStSocket_read script_read) 3 (SrsFastStream_new 8 (\<lambda>_. CHR ''x''))
       (SrsStSocket_init \<lparr>segments = [''ab'', ''cd''], delivered = []\<rparr>) = FsOk (s', sk') \<and> 3 \<le> stream_size s' \<or>
     (\<exists>e. grow (SrsStSocket_read script_read) 3 (SrsFastStream_new 8 (\<lambda>_. CHR ''x''))
       (SrsStSocket_init \<lparr>segments = [''ab'', ''cd''], delivered = []\<rparr>) = FsErr e (s', sk'))))"
  using grow_refines_queue [OF script_in.st_reading_axioms stream_inv_new [of 8 "\<lambda>_. CHR ''x''"],
      of "SrsStSocket_init \<lparr>segments = [''ab'', ''cd''], delivered = []\<rparr>" 3]
  by (simp add: stream_inv_new SrsStSocket_init_def) (simp add: SrsFastStream_new_def)

end
