(* ===== verification/Http_Body.thy ===== *)
theory Http_Body
  imports Fast_Stream Url_Escape
begin

text \<open>
  Reading the body of a message: \<open>SrsHttpResponseReader\<close>
  (\<open>src/src/protocol/srs_protocol_http_conn.cpp\<close>) and \<open>srs_ioutil_read_all\<close>,
  \<open>srs_ioutil_read_part\<close> (\<open>src/src/protocol/srs_protocol_utility.cpp\<close>).  A call gets the
  reader object, the stream buffer and the socket and returns them changed: \<open>BdOk\<close> with the
  bytes it delivered (none when \<open>nb_read\<close> is 0), \<open>BdErr\<close> with an error code, or \<open>BdCrash\<close> for
  a failed assertion.  The search for the end of a chunk header grows the buffer byte by byte until
  it is full, so \<open>nb_buffer + 1\<close> rounds of fuel suffice; \<open>srs_ioutil_read_all\<close> may read
  forever and is a partial function.
\<close>

section \<open>Numbers\<close>

fun hex_val :: "nat \<Rightarrow> string \<Rightarrow> nat" where
  "hex_val n [] = n"
| "hex_val n (c # s) = hex_val (16 * n + hex_to_num c) s"

text \<open>An optional \<open>0x\<close> in front of a hexadecimal digit.\<close>

definition skip_0x :: "string \<Rightarrow> string" where
  "skip_0x t =
     (if length t \<ge> 3 \<and> t ! 0 = CHR ''0'' \<and> (t ! 1 = CHR ''x'' \<or> t ! 1 = CHR ''X'') \<and> ishex (t ! 2)
      then drop 2 t else t)"

text \<open>\<open>strtol(s, &end, 16)\<close>: the value, the number of bytes used and whether \<open>ERANGE\<close> was set.\<close>

definition c_strtol16 :: "string \<Rightarrow> int \<times> nat \<times> bool" where
  "c_strtol16 s =
     (let t = dropWhile is_space s;
          neg = (case t of c # _ \<Rightarrow> c = CHR ''-'' | [] \<Rightarrow> False);
          t = (case t of c # r \<Rightarrow> if c = CHR ''-'' \<or> c = CHR ''+'' then r else t | [] \<Rightarrow> t);
          t = skip_0x t;
          ds = takeWhile ishex t;
          v = int (hex_val 0 ds)
      in if ds = [] then (0, 0, False)
         else if neg then
           (if v > 2 ^ 63 then (- (2 ^ 63), length s - length (drop (length ds) t), True)
            else (- v, length s - length (drop (length ds) t), False))
         else
           (if v > 2 ^ 63 - 1 then (2 ^ 63 - 1, length s - length (drop (length ds) t), True)
            else (v, length s - length (drop (length ds) t), False)))"

text \<open>\<open>snprintf("%x")\<close>.\<close>

definition lower_hex :: "nat \<Rightarrow> char" where
  "lower_hex d = (if d < 10 then char_of (48 + d) else char_of (87 + d))"

fun to_hex :: "nat \<Rightarrow> string" where
  "to_hex n = (if n < 16 then [lower_hex n] else to_hex (n div 16) @ [lower_hex (n mod 16)])"

declare to_hex.simps [simp del]

section \<open>SrsHttpResponseReader\<close>

text \<open>What the reader asks of the message that owns it.\<close>

record body_owner =
  is_chunked :: bool
  owner_content_length :: int

record SrsHttpResponseReader =
  is_eof :: bool
  nb_left_chunk :: nat
  nb_chunk :: nat
  nb_total_read :: int

definition SrsHttpResponseReader_new :: SrsHttpResponseReader where
  "SrsHttpResponseReader_new = \<lparr>is_eof = False, nb_left_chunk = 0, nb_chunk = 0, nb_total_read = 0\<rparr>"

definition reader_close :: "SrsHttpResponseReader \<Rightarrow> SrsHttpResponseReader" where
  "reader_close b = b\<lparr>is_eof := True\<rparr>"

datatype 'r body_result =
    BdOk string SrsHttpResponseReader SrsFastStream 'r
  | BdErr int SrsHttpResponseReader SrsFastStream 'r
  | BdCrash

type_synonym 'r reader_fun = "nat \<Rightarrow> 'r \<Rightarrow> string srs \<times> 'r"

text \<open>The second half of \<open>read_specified\<close>, with at least one byte in the buffer.\<close>

definition take_specified ::
    "body_owner \<Rightarrow> nat \<Rightarrow> SrsHttpResponseReader \<Rightarrow> SrsFastStream \<Rightarrow> 'r \<Rightarrow> 'r body_result" where
  "take_specified m nb_data b s r =
     (let nb_bytes = min nb_data (stream_size s) in
      if nb_bytes = 0 then BdCrash
      else case read_slice nb_bytes s of
        None \<Rightarrow> BdCrash
      | Some (bs, s') \<Rightarrow>
          let b = b\<lparr>nb_total_read := nb_total_read b + int nb_bytes\<rparr>;
              b = (if \<not> is_chunked m \<and> owner_content_length m \<noteq> - 1 \<and>
                      nb_total_read b \<ge> to_int32 (owner_content_length m)
                   then b\<lparr>is_eof := True\<rparr> else b)
          in BdOk bs b s' r)"

definition read_specified ::
    "'r reader_fun \<Rightarrow> body_owner \<Rightarrow> nat \<Rightarrow> SrsHttpResponseReader \<Rightarrow> SrsFastStream \<Rightarrow> 'r \<Rightarrow> 'r body_result" where
  "read_specified read m nb_data b s r =
     (if stream_size s = 0 then
        (case grow read 1 s r of
           FsCrash \<Rightarrow> BdCrash
         | FsErr e (s', r') \<Rightarrow> BdErr e b s' r'
         | FsOk (s', r') \<Rightarrow> take_specified m nb_data b s' r')
      else take_specified m nb_data b s r)"

text \<open>The position of the first CR LF of the buffer.\<close>

definition find_crlf :: "string \<Rightarrow> nat option" where
  "find_crlf bs = str_find bs CRLF"

datatype 'r chunk_header = ChOk string SrsFastStream 'r | ChErr int SrsFastStream 'r | ChCrash

fun read_chunk_header :: "nat \<Rightarrow> 'r reader_fun \<Rightarrow> SrsFastStream \<Rightarrow> 'r \<Rightarrow> 'r chunk_header" where
  "read_chunk_header 0 read s r = ChCrash"
| "read_chunk_header (Suc n) read s r =
     (case find_crlf (stream_bytes s) of
        Some i \<Rightarrow>
          if i = 0 then ChErr ERROR_HTTP_INVALID_CHUNK_HEADER s r
          else (case read_slice (i + 2) s of
                  None \<Rightarrow> ChCrash
                | Some (at, s') \<Rightarrow> ChOk at s' r)
      | None \<Rightarrow>
          (case grow read (stream_size s + 1) s r of
             FsCrash \<Rightarrow> ChCrash
           | FsErr e (s', r') \<Rightarrow> ChErr e s' r'
           | FsOk (s', r') \<Rightarrow> read_chunk_header n read s' r'))"

text \<open>The size in a chunk header; \<open>None\<close> when it is refused.\<close>

definition chunk_length :: "string \<Rightarrow> nat option" where
  "chunk_length at =
     (let text = takeWhile (\<lambda>c. c \<noteq> CHR 0x00) (take (length at - 2) at) in
      case c_strtol16 text of (v, used, erange) \<Rightarrow>
        let ilength = to_int32 v in
        if ilength < 0 \<or> erange \<or> used \<noteq> length at - 2 then None else Some (nat ilength))"

text \<open>The two bytes CR LF of the header become zeros in the buffer.\<close>

definition cut_header :: "SrsFastStream \<Rightarrow> SrsFastStream" where
  "cut_header s = s\<lparr>fs_mem := mem_write (fs_p s - 2) [CHR 0x00, CHR 0x00] (fs_mem s)\<rparr>"

text \<open>The CR LF behind the payload of a chunk.\<close>

definition end_of_chunk ::
    "'r reader_fun \<Rightarrow> string \<Rightarrow> SrsHttpResponseReader \<Rightarrow> SrsFastStream \<Rightarrow> 'r \<Rightarrow> 'r body_result" where
  "end_of_chunk read bs b s r =
     (case grow read 2 s r of
        FsCrash \<Rightarrow> BdCrash
      | FsErr e (s', r') \<Rightarrow> BdErr e b s' r'
      | FsOk (s', r') \<Rightarrow>
          (case read_slice 2 s' of None \<Rightarrow> BdCrash | Some (_, s'') \<Rightarrow> BdOk bs b s'' r'))"

definition read_chunk_data ::
    "'r reader_fun \<Rightarrow> body_owner \<Rightarrow> nat \<Rightarrow> SrsHttpResponseReader \<Rightarrow> SrsFastStream \<Rightarrow> 'r \<Rightarrow> 'r body_result" where
  "read_chunk_data read m nb_data b s r =
     (if nb_chunk b = 0 then end_of_chunk read [] (b\<lparr>is_eof := True\<rparr>) s r
      else if nb_left_chunk b = 0 then BdCrash
      else
        let nb_bytes = min (nb_left_chunk b) nb_data in
        case read_specified read m nb_bytes b s r of
          BdCrash \<Rightarrow> BdCrash
        | BdErr e b' s' r' \<Rightarrow> BdErr e (b'\<lparr>nb_left_chunk := nb_left_chunk b' - nb_bytes\<rparr>) s' r'
        | BdOk bs b' s' r' \<Rightarrow>
            let b' = b'\<lparr>nb_left_chunk := nb_left_chunk b' - length bs\<rparr> in
            if nb_left_chunk b' > 0 then BdOk bs b' s' r' else end_of_chunk read bs b' s' r')"

definition read_chunked ::
    "'r reader_fun \<Rightarrow> body_owner \<Rightarrow> nat \<Rightarrow> SrsHttpResponseReader \<Rightarrow> SrsFastStream \<Rightarrow> 'r \<Rightarrow> 'r body_result" where
  "read_chunked read m nb_data b s r =
     (if nb_left_chunk b = 0 then
        (case read_chunk_header (nb_buffer s + 1) read s r of
           ChCrash \<Rightarrow> BdCrash
         | ChErr e s' r' \<Rightarrow> BdErr e b s' r'
         | ChOk at s' r' \<Rightarrow>
             (case chunk_length at of
                None \<Rightarrow> BdErr ERROR_HTTP_INVALID_CHUNK_HEADER b (cut_header s') r'
              | Some n \<Rightarrow>
                  read_chunk_data read m nb_data (b\<lparr>nb_chunk := n, nb_left_chunk := n\<rparr>) (cut_header s') r'))
      else read_chunk_data read m nb_data b s r)"

definition reader_read ::
    "'r reader_fun \<Rightarrow> body_owner \<Rightarrow> nat \<Rightarrow> SrsHttpResponseReader \<Rightarrow> SrsFastStream \<Rightarrow> 'r \<Rightarrow> 'r body_result" where
  "reader_read read m nb_data b s r =
     (if is_eof b then BdErr ERROR_HTTP_RESPONSE_EOF b s r
      else if is_chunked m then read_chunked read m nb_data b s r
      else if owner_content_length m \<noteq> - 1 then
        let left = nat ((owner_content_length m - nb_total_read b) mod 2 ^ 64) in
        if left = 0 then BdOk [] (b\<lparr>is_eof := True\<rparr>) s r
        else read_specified read m (min nb_data left) b s r
      else
        (case read_specified read m nb_data b s r of
           BdErr e b' s' r' \<Rightarrow>
             if e = ERROR_SOCKET_READ then BdOk [] (b'\<lparr>is_eof := True\<rparr>) s' r' else BdErr e b' s' r'
         | res \<Rightarrow> res))"

section \<open>Reading everything\<close>

definition SRS_HTTP_READ_CACHE_BYTES :: nat where "SRS_HTTP_READ_CACHE_BYTES = 4096"

definition is_eof_code :: "int \<Rightarrow> bool" where
  "is_eof_code code \<longleftrightarrow> code = ERROR_SYSTEM_FILE_EOF \<or> code = ERROR_HTTP_RESPONSE_EOF \<or>
     code = ERROR_HTTP_REQUEST_EOF \<or> code = ERROR_HTTP_STREAM_EOF"

text \<open>Returns what \<open>content\<close> holds at the end, also when reading fails, and the outcome.\<close>

partial_function (option) srs_ioutil_read_all ::
    "'r reader_fun \<Rightarrow> body_owner \<Rightarrow> string \<Rightarrow> SrsHttpResponseReader \<Rightarrow> SrsFastStream \<Rightarrow> 'r \<Rightarrow>
      (string \<times> 'r body_result) option"
where
  "srs_ioutil_read_all read m content b s r =
     (case reader_read read m SRS_HTTP_READ_CACHE_BYTES b s r of
        BdCrash \<Rightarrow> Some (content, BdCrash)
      | BdErr e b' s' r' \<Rightarrow> Some (content, if is_eof_code e then BdOk [] b' s' r' else BdErr e b' s' r')
      | BdOk bs b' s' r' \<Rightarrow> srs_ioutil_read_all read m (content @ bs) b' s' r')"

text \<open>Returns also \<open>finish\<close>, which is set when the body has ended or failed.\<close>

partial_function (option) srs_ioutil_read_part ::
    "'r reader_fun \<Rightarrow> body_owner \<Rightarrow> nat \<Rightarrow> string \<Rightarrow> SrsHttpResponseReader \<Rightarrow> SrsFastStream \<Rightarrow> 'r \<Rightarrow>
      (bool \<times> 'r body_result) option"
where
  "srs_ioutil_read_part read m sz content b s r =
     (case reader_read read m SRS_HTTP_READ_CACHE_BYTES b s r of
        BdCrash \<Rightarrow> Some (False, BdCrash)
      | BdErr e b' s' r' \<Rightarrow> Some (True, if is_eof_code e then BdOk content b' s' r' else BdErr e b' s' r')
      | BdOk bs b' s' r' \<Rightarrow>
          if length (content @ bs) > sz then Some (False, BdOk (content @ bs) b' s' r')
          else srs_ioutil_read_part read m sz (content @ bs) b' s' r')"

section \<open>Hexadecimal numbers\<close>

lemma of_char_lower_hex:
  "d < 16 \<Longrightarrow> (of_char (lower_hex d) :: nat) = (if d < 10 then 48 + d else 87 + d)"
  by (simp add: lower_hex_def)

lemma ishex_lower_hex: "d < 16 \<Longrightarrow> ishex (lower_hex d)"
  by (simp add: ishex_def less_eq_char_def of_char_lower_hex)

lemma hex_to_num_lower_hex: "d < 16 \<Longrightarrow> hex_to_num (lower_hex d) = d"
  by (simp add: hex_to_num_def less_eq_char_def of_char_lower_hex)

lemma hex_val_append: "hex_val n (xs @ ys) = hex_val (hex_val n xs) ys"
  by (induction n xs rule: hex_val.induct) auto

lemma hex_val_to_hex: "hex_val 0 (to_hex n) = n"
proof (induction n rule: to_hex.induct)
  case (1 n)
  then show ?case
    by (subst to_hex.simps) (simp add: hex_val_append hex_to_num_lower_hex)
qed

lemma ishex_to_hex: "list_all ishex (to_hex n)"
proof (induction n rule: to_hex.induct)
  case (1 n)
  then show ?case by (subst to_hex.simps) (simp add: ishex_lower_hex)
qed

lemma to_hex_nonempty [simp]: "to_hex n \<noteq> []"
  by (subst to_hex.simps) simp

lemma ishex_plain: "ishex c \<Longrightarrow> \<not> is_space c \<and> c \<noteq> CHR ''-'' \<and> c \<noteq> CHR ''+'' \<and> c \<noteq> CHR ''x'' \<and>
    c \<noteq> CHR ''X'' \<and> c \<noteq> CR \<and> c \<noteq> LF \<and> c \<noteq> CHR 0x00"
  by (auto simp: ishex_def is_space_def split: if_splits)

lemma length_to_hex: "n < 16 ^ k \<Longrightarrow> 0 < k \<Longrightarrow> length (to_hex n) \<le> k"
proof (induction k arbitrary: n)
  case (Suc k)
  show ?case
  proof (cases "n < 16")
    case True
    then show ?thesis by (subst to_hex.simps) simp
  next
    case False
    with Suc.prems have "n div 16 < 16 ^ k" "0 < k" by (auto simp: less_mult_imp_div_less mult.commute) (cases k; simp)
    with Suc.IH False show ?thesis by (subst to_hex.simps) simp
  qed
qed simp

lemma c_strtol16_to_hex:
  assumes "n < 2 ^ 63"
  shows "c_strtol16 (to_hex n) = (int n, length (to_hex n), False)"
proof -
  have all: "\<forall>c \<in> set (to_hex n). ishex c" using ishex_to_hex [of n] by (simp add: list_all_iff)
  obtain c t where s: "to_hex n = c # t" by (cases "to_hex n") auto
  with all ishex_plain have c: "\<not> is_space c" "c \<noteq> CHR ''-''" "c \<noteq> CHR ''+''" by auto
  have "to_hex n ! 1 \<noteq> CHR ''x'' \<and> to_hex n ! 1 \<noteq> CHR ''X''" if "length (to_hex n) \<ge> 3"
    using ishex_plain [of "to_hex n ! 1"] all that by auto
  then have skip: "skip_0x (c # t) = c # t" by (auto simp: skip_0x_def s)
  have tw: "ishex c" "takeWhile ishex t = t" using all s by (simp_all add: takeWhile_eq_all_conv)
  have "hex_val 0 (c # t) = n" using hex_val_to_hex [of n] s by simp
  with c assms show ?thesis unfolding s c_strtol16_def Let_def by (simp add: skip tw)
qed

lemma chunk_length_to_hex:
  assumes "n < 2 ^ 31"
  shows "chunk_length (to_hex n @ CRLF) = Some n"
proof -
  have tw: "takeWhile (\<lambda>c. c \<noteq> CHR 0x00) (to_hex n) = to_hex n"
    using ishex_to_hex [of n] ishex_plain by (auto simp: takeWhile_eq_all_conv list_all_iff)
  from assms c_strtol16_to_hex [of n] to_int32_small [of "int n"] show ?thesis
    by (simp add: chunk_length_def Let_def tw)
qed

lemma find_crlf_header:
  assumes "list_all ishex h"
  shows "find_crlf (take k (h @ CRLF @ w)) = (if length h + 2 \<le> k then Some (length h) else None)"
proof (cases "length h + 2 \<le> k")
  case True
  then obtain j where "k = length h + 2 + j" by (metis le_Suc_ex)
  then have t: "take k (h @ CRLF @ w) = h @ CRLF @ take j w" by simp
  have "str_find (h @ CRLF @ take j w) CRLF = Some (length h)"
  proof (rule str_find_append)
    fix i assume i: "i < length h"
    then have "(h @ CRLF @ take j w) ! i = h ! i" by (simp add: nth_append)
    moreover from i assms have "h ! i \<noteq> CR" using ishex_plain by (simp add: list_all_length)
    moreover from i have "drop i (h @ CRLF @ take j w) \<noteq> []" by simp
    ultimately show "\<not> prefix CRLF (drop i (h @ CRLF @ take j w))"
      using i by (metis (no_types, lifting) Cons_nth_drop_Suc Cons_prefix_Cons length_append trans_less_add1)
  qed simp_all
  with True t show ?thesis by (simp add: find_crlf_def)
next
  case False
  have "\<not> prefix CRLF (drop i (take k (h @ CRLF @ w)))" for i
  proof
    assume "prefix CRLF (drop i (take k (h @ CRLF @ w)))"
    then have "\<exists>zs. drop i (take k (h @ CRLF @ w)) = CRLF @ zs" by (auto elim: prefixE)
    then obtain zs where zs: "drop i (take k (h @ CRLF @ w)) = CR # LF # zs" by auto
    then have "length (drop i (take k (h @ CRLF @ w))) = Suc (Suc (length zs))" by simp
    then have len: "i + 1 < k" "i + 1 < length (h @ CRLF @ w)" by (simp_all add: min_def split: if_splits)
    from nth_via_drop [OF zs] have "take k (h @ CRLF @ w) ! i = CR" .
    with len(1) have "(h @ CRLF @ w) ! i = CR" by (metis Suc_eq_plus1 Suc_lessD nth_take)
    moreover have "i < length h"
      using len(1) False by simp
    ultimately show False using assms ishex_plain by (auto simp: nth_append list_all_length)
  qed
  with False show ?thesis by (simp add: find_crlf_def str_find_None)
qed

section \<open>Decoding a chunked body\<close>

text \<open>The encoding of a list of chunks, with the last chunk and no trailer.\<close>

definition chunk_encode :: "string list \<Rightarrow> string" where
  "chunk_encode cs = concat (map (\<lambda>c. to_hex (length c) @ CRLF @ c @ CRLF) cs) @ ''0'' @ CRLF @ CRLF"

definition chunk_ok :: "string \<Rightarrow> bool" where
  "chunk_ok c \<longleftrightarrow> c \<noteq> [] \<and> length c < 2 ^ 31"

text \<open>The wire when \<open>d\<close> of the current chunk is still to come and \<open>w\<close> follows the chunk.\<close>

definition chunk_wire :: "string \<Rightarrow> string \<Rightarrow> string" where
  "chunk_wire d w = (if d = [] then w else d @ CRLF @ w)"

text \<open>What is left of a body: \<open>data\<close> is still to be delivered, \<open>rest\<close> follows the body on the wire,
  and \<open>pend\<close> is what the reader has pending behind the buffer.\<close>

definition body_left :: "body_owner \<Rightarrow> string \<Rightarrow> string \<Rightarrow> SrsHttpResponseReader \<Rightarrow> SrsFastStream \<Rightarrow> string \<Rightarrow> bool" where
  "body_left m data rest b s pend \<longleftrightarrow> stream_inv s \<and>
     (if is_eof b then data = [] \<and> stream_bytes s @ pend = rest
      else if is_chunked m then
        (\<exists>d cs. data = d @ concat cs \<and> stream_bytes s @ pend = chunk_wire d (chunk_encode cs @ rest) \<and>
           list_all chunk_ok cs \<and> 10 \<le> nb_buffer s \<and> nb_left_chunk b = length d \<and> (d \<noteq> [] \<longrightarrow> nb_chunk b \<noteq> 0))
      else stream_bytes s @ pend = data @ rest \<and> 0 < nb_buffer s \<and>
        owner_content_length m = nb_total_read b + int (length data) \<and>
        owner_content_length m < 2 ^ 31 \<and> 0 \<le> nb_total_read b)"

lemma chunk_encode_Cons:
  "chunk_encode (c # cs) @ rest = to_hex (length c) @ CRLF @ (c @ CRLF @ chunk_encode cs @ rest)"
  by (simp add: chunk_encode_def)

lemma chunk_encode_Nil: "chunk_encode [] @ rest = to_hex 0 @ CRLF @ (CRLF @ rest)"
proof -
  have "to_hex 0 = ''0''" by (subst to_hex.simps) (simp add: lower_hex_def char_of_def bit_0)
  then show ?thesis by (simp add: chunk_encode_def)
qed

lemma to_hex_size: "n < 2 ^ 31 \<Longrightarrow> length (to_hex n) \<le> 8"
  by (rule length_to_hex) simp_all

lemma stream_frame_cut [simp]:
  assumes "stream_inv s" "2 \<le> fs_p s"
  shows "stream_inv (cut_header s)" "stream_bytes (cut_header s) = stream_bytes s"
    "nb_buffer (cut_header s) = nb_buffer s" "stream_size (cut_header s) = stream_size s"
  using assms by (auto simp: cut_header_def stream_inv_def stream_bytes_def stream_size_def mem_write_def)

text \<open>No call delivers more than it was asked for.\<close>

lemma read_specified_size: "read_specified read m n b s r = BdOk bs b' s' r' \<Longrightarrow> length bs \<le> n"
  by (auto simp: read_specified_def take_specified_def Let_def read_slice_def split: if_splits fs_result.splits)

lemma end_of_chunk_bytes: "end_of_chunk read bs b s r = BdOk bs' b' s' r' \<Longrightarrow> bs' = bs"
  by (auto simp: end_of_chunk_def split: fs_result.splits option.splits)

lemma read_chunk_data_size: "read_chunk_data read m n b s r = BdOk bs b' s' r' \<Longrightarrow> length bs \<le> n"
  by (auto simp: read_chunk_data_def Let_def dest!: end_of_chunk_bytes read_specified_size
      split: if_splits body_result.splits)

lemma reader_read_size: "reader_read read m n b s r = BdOk bs b' s' r' \<Longrightarrow> length bs \<le> n"
  by (auto simp: reader_read_def read_chunked_def Let_def dest!: read_chunk_data_size read_specified_size
      split: if_splits chunk_header.splits option.splits body_result.splits)

context reliable_reader
begin

lemma read_specified_reliable:
  assumes "stream_inv s" "0 < nb_data" "stream_bytes s @ pending r \<noteq> []" "0 < nb_buffer s"
  obtains bs b' s' r' where "read_specified read m nb_data b s r = BdOk bs b' s' r'" "bs \<noteq> []"
    "length bs \<le> nb_data" "stream_inv s'" "nb_buffer s' = nb_buffer s"
    "stream_bytes s @ pending r = bs @ stream_bytes s' @ pending r'"
    "nb_left_chunk b' = nb_left_chunk b" "nb_chunk b' = nb_chunk b" "is_chunked m \<longrightarrow> is_eof b' = is_eof b"
    "nb_total_read b' = nb_total_read b + int (length bs)"
    "is_eof b' \<longleftrightarrow> is_eof b \<or> \<not> is_chunked m \<and> owner_content_length m \<noteq> - 1 \<and>
       nb_total_read b' \<ge> to_int32 (owner_content_length m)"
proof -
  have tk: "\<exists>bs b' s'. take_specified m nb_data b s1 r1 = BdOk bs b' s' r1 \<and> bs \<noteq> [] \<and> length bs \<le> nb_data \<and>
      stream_inv s' \<and> nb_buffer s' = nb_buffer s1 \<and> stream_bytes s1 = bs @ stream_bytes s' \<and>
      nb_left_chunk b' = nb_left_chunk b \<and> nb_chunk b' = nb_chunk b \<and> (is_chunked m \<longrightarrow> is_eof b' = is_eof b) \<and>
      nb_total_read b' = nb_total_read b + int (length bs) \<and>
      (is_eof b' \<longleftrightarrow> is_eof b \<or> \<not> is_chunked m \<and> owner_content_length m \<noteq> - 1 \<and>
         nb_total_read b' \<ge> to_int32 (owner_content_length m))"
    if s1: "stream_inv s1" "0 < stream_size s1" for s1 r1
  proof -
    let ?n = "min nb_data (stream_size s1)"
    from read_slice_refines(1) [OF s1(1), of ?n] obtain bs s' where sl: "read_slice ?n s1 = Some (bs, s')" by auto
    from read_slice_refines(2) [OF s1(1) sl] have "stream_inv s'" "bs = take ?n (stream_bytes s1)"
      "stream_bytes s' = drop ?n (stream_bytes s1)" by auto
    moreover from sl have "nb_buffer s' = nb_buffer s1" by (auto simp: read_slice_def split: if_splits)
    moreover have "length (take ?n (stream_bytes s1)) = ?n" by simp
    moreover have n0: "0 < ?n" using s1(2) assms(2) by simp
    moreover have "take ?n (stream_bytes s1) \<noteq> []" using n0 s1(2)
      by (auto simp: length_stream_bytes [symmetric] simp del: length_stream_bytes)
    ultimately show ?thesis using sl by (simp add: take_specified_def Let_def)
  qed
  show ?thesis
  proof (cases "stream_size s = 0")
    case True
    then have "stream_bytes s = []" by (metis length_0_conv length_stream_bytes)
    with assms have "1 \<le> length (stream_bytes s @ pending r)" by (cases "pending r") auto
    then obtain s1 r1 where g: "grow read 1 s r = FsOk (s1, r1)" "stream_inv s1" "nb_buffer s1 = nb_buffer s"
      "stream_bytes s1 @ pending r1 = stream_bytes s @ pending r" "1 \<le> stream_size s1"
      using grow_reliable [OF assms(1), of 1 r] assms(4) by auto
    have eq: "read_specified read m nb_data b s r = take_specified m nb_data b s1 r1"
      using True g(1) by (simp add: read_specified_def)
    from g(5) have "0 < stream_size s1" by simp
    from tk [OF g(2) this, of r1] that show ?thesis unfolding eq g(3) g(4) [symmetric] by (metis append_assoc)
  next
    case False
    then have eq: "read_specified read m nb_data b s r = take_specified m nb_data b s r" and "0 < stream_size s"
      by (simp_all add: read_specified_def)
    from tk [OF assms(1) this(2), of r] that show ?thesis unfolding eq by (metis append_assoc)
  qed
qed

lemma read_chunk_header_reliable:
  assumes "list_all ishex h" "h \<noteq> []" "length h + 2 \<le> nb_buffer s" "stream_inv s"
    "stream_bytes s @ pending r = h @ CRLF @ w" "nb_buffer s - stream_size s < k"
  shows "\<exists>s' r'. read_chunk_header k read s r = ChOk (h @ CRLF) s' r' \<and> stream_inv s' \<and>
    nb_buffer s' = nb_buffer s \<and> stream_bytes s' @ pending r' = w \<and> 2 \<le> fs_p s'"
  using assms(3-)
proof (induction k arbitrary: s r)
  case (Suc k)
  have bytes: "stream_bytes s = take (stream_size s) (h @ CRLF @ w)"
    by (metis Suc.prems(3) append_eq_conv_conj length_stream_bytes)
  show ?case
  proof (cases "length h + 2 \<le> stream_size s")
    case True
    then have fc: "find_crlf (stream_bytes s) = Some (length h)"
      using find_crlf_header [OF assms(1), of "stream_size s" w] bytes by simp
    from read_slice_refines(1) [OF Suc.prems(2), of "length h + 2"] True obtain at s' where
      sl: "read_slice (length h + 2) s = Some (at, s')" by auto
    have "nb_buffer s' = nb_buffer s" "2 \<le> fs_p s'" using sl by (auto simp: read_slice_def split: if_splits)
    moreover have "at = h @ CRLF" using read_slice_refines(2) [OF Suc.prems(2) sl] True bytes
      by (simp add: min_absorb1 min_absorb2)
    moreover have "stream_bytes s' @ pending r = w"
    proof -
      have "stream_bytes s' @ pending r = drop (length h + 2) (stream_bytes s @ pending r)"
        using read_slice_refines(2) [OF Suc.prems(2) sl] True by simp
      then show ?thesis unfolding Suc.prems(3) by simp
    qed
    ultimately show ?thesis
      using fc sl assms(2) read_slice_refines(2) [OF Suc.prems(2) sl] by simp
  next
    case False
    then have fc: "find_crlf (stream_bytes s) = None"
      using find_crlf_header [OF assms(1), of "stream_size s" w] bytes by simp
    from False Suc.prems(1) have le: "stream_size s + 1 \<le> nb_buffer s"
      "stream_size s + 1 \<le> length (stream_bytes s @ pending r)" unfolding Suc.prems(3) by auto
    obtain s1 r1 where g: "grow read (stream_size s + 1) s r = FsOk (s1, r1)" "stream_inv s1"
      "nb_buffer s1 = nb_buffer s" "stream_bytes s1 @ pending r1 = stream_bytes s @ pending r"
      "stream_size s + 1 \<le> stream_size s1"
      using grow_reliable [OF Suc.prems(2) le(2,1)] by blast
    moreover have "stream_size s1 \<le> nb_buffer s1" using g(2) by (auto simp: stream_inv_def stream_size_def)
    ultimately show ?thesis
      using Suc.IH [of s1 r1] Suc.prems fc by auto
  qed
qed simp

lemma end_of_chunk_reliable:
  assumes "stream_inv s" "stream_bytes s @ pending r = CRLF @ w" "2 \<le> nb_buffer s"
  shows "\<exists>s' r'. end_of_chunk read bs b s r = BdOk bs b s' r' \<and> stream_inv s' \<and>
    nb_buffer s' = nb_buffer s \<and> stream_bytes s' @ pending r' = w"
proof -
  have "2 \<le> length (stream_bytes s @ pending r)" unfolding assms(2) by simp
  then obtain s1 r1 where g: "grow read 2 s r = FsOk (s1, r1)" "stream_inv s1" "nb_buffer s1 = nb_buffer s"
    "stream_bytes s1 @ pending r1 = stream_bytes s @ pending r" "2 \<le> stream_size s1"
    using grow_reliable [OF assms(1) _ assms(3), of r] by blast
  from read_slice_refines(1) [OF g(2), of 2] g(5) obtain x s2 where sl: "read_slice 2 s1 = Some (x, s2)" by auto
  have "stream_bytes s2 @ pending r1 = drop 2 (stream_bytes s1 @ pending r1)"
    using read_slice_refines(2) [OF g(2) sl] g(5) by simp
  with g(4) assms(2) have "stream_bytes s2 @ pending r1 = w" by simp
  moreover from sl have "nb_buffer s2 = nb_buffer s1" by (auto simp: read_slice_def split: if_splits)
  ultimately show ?thesis
    using g sl read_slice_refines(2) [OF g(2) sl] by (simp add: end_of_chunk_def)
qed

lemma read_chunk_data_reliable:
  assumes "stream_inv s" "stream_bytes s @ pending r = d @ CRLF @ w" "d \<noteq> []" "2 \<le> nb_buffer s" "0 < nb_data"
    "is_chunked m" "\<not> is_eof b" "nb_left_chunk b = length d" "nb_chunk b \<noteq> 0"
  shows "\<exists>bs d' b' s' r'. read_chunk_data read m nb_data b s r = BdOk bs b' s' r' \<and> bs \<noteq> [] \<and> d = bs @ d' \<and>
    \<not> is_eof b' \<and> nb_left_chunk b' = length d' \<and> nb_chunk b' \<noteq> 0 \<and> stream_inv s' \<and>
    nb_buffer s' = nb_buffer s \<and> stream_bytes s' @ pending r' = chunk_wire d' w"
proof -
  let ?n = "min (length d) nb_data"
  have n: "0 < ?n" using assms(3,5) by simp
  have ne: "stream_bytes s @ pending r \<noteq> []" "0 < nb_buffer s" using assms(2,4) by auto
  obtain bs b1 s1 r1 where rs: "read_specified read m ?n b s r = BdOk bs b1 s1 r1" "bs \<noteq> []"
    "length bs \<le> ?n" "stream_inv s1" "nb_buffer s1 = nb_buffer s"
    "stream_bytes s @ pending r = bs @ stream_bytes s1 @ pending r1"
    "nb_left_chunk b1 = nb_left_chunk b" "nb_chunk b1 = nb_chunk b" "is_chunked m \<longrightarrow> is_eof b1 = is_eof b"
    using read_specified_reliable [OF assms(1) n ne] by metis
  have len: "length bs \<le> length d" using rs(3) by simp
  define d' where "d' = drop (length bs) d"
  have bs: "bs = take (length bs) d"
    using arg_cong [OF rs(6), of "take (length bs)"] len unfolding assms(2) by simp
  then have d: "d = bs @ d'" using append_take_drop_id [of "length bs" d] d'_def by simp
  with rs(6) assms(2) have w1: "stream_bytes s1 @ pending r1 = d' @ CRLF @ w" by simp
  let ?b = "b1\<lparr>nb_left_chunk := length d'\<rparr>"
  have upd: "b1\<lparr>nb_left_chunk := nb_left_chunk b1 - length bs\<rparr> = ?b" using rs(7) assms(8) by (simp add: d'_def)
  have eq: "read_chunk_data read m nb_data b s r =
      (if length d' > 0 then BdOk bs ?b s1 r1 else end_of_chunk read bs ?b s1 r1)"
    using rs(1,7) assms(3,8,9) by (simp add: read_chunk_data_def Let_def d'_def)
  show ?thesis
  proof (cases "d' = []")
    case False
    with eq d rs assms w1 show ?thesis by (auto simp: chunk_wire_def)
  next
    case True
    with w1 have "stream_bytes s1 @ pending r1 = CRLF @ w" by simp
    from end_of_chunk_reliable [OF rs(4) this, of bs ?b] rs(5) assms(4) obtain s2 r2 where
      "end_of_chunk read bs ?b s1 r1 = BdOk bs ?b s2 r2" "stream_inv s2" "nb_buffer s2 = nb_buffer s"
      "stream_bytes s2 @ pending r2 = w" by auto
    with True eq d rs assms show ?thesis by (auto simp: chunk_wire_def)
  qed
qed

lemma read_chunk_start:
  assumes "stream_inv s" "stream_bytes s @ pending r = to_hex n @ CRLF @ w" "n < 2 ^ 31" "10 \<le> nb_buffer s"
    "nb_left_chunk b = 0"
  obtains s' r' where "stream_inv s'" "nb_buffer s' = nb_buffer s" "stream_bytes s' @ pending r' = w"
    "read_chunked read m nb_data b s r = read_chunk_data read m nb_data (b\<lparr>nb_chunk := n, nb_left_chunk := n\<rparr>) s' r'"
proof -
  have le: "length (to_hex n) + 2 \<le> nb_buffer s" using to_hex_size [OF assms(3)] assms(4) by simp
  have "nb_buffer s - stream_size s < nb_buffer s + 1" by simp
  from read_chunk_header_reliable [OF ishex_to_hex to_hex_nonempty le assms(1,2) this] obtain s1 r1 where h: "read_chunk_header (nb_buffer s + 1) read s r = ChOk (to_hex n @ CRLF) s1 r1"
    "stream_inv s1" "nb_buffer s1 = nb_buffer s" "stream_bytes s1 @ pending r1 = w" "2 \<le> fs_p s1" by blast
  show ?thesis
  proof (rule that [of "cut_header s1" r1])
    show "read_chunked read m nb_data b s r =
        read_chunk_data read m nb_data (b\<lparr>nb_chunk := n, nb_left_chunk := n\<rparr>) (cut_header s1) r1"
      using h(1) assms(5) by (simp add: read_chunked_def chunk_length_to_hex [OF assms(3)])
  qed (use h stream_frame_cut [OF h(2,5)] in simp_all)
qed

lemma read_chunked_step:
  assumes "stream_inv s" "stream_bytes s @ pending r = chunk_wire d (chunk_encode cs @ rest)"
    "list_all chunk_ok cs" "10 \<le> nb_buffer s" "0 < nb_data" "is_chunked m" "\<not> is_eof b"
    "nb_left_chunk b = length d" "d \<noteq> [] \<longrightarrow> nb_chunk b \<noteq> 0" "d @ concat cs \<noteq> []"
  obtains bs d' cs' b' s' r' where "read_chunked read m nb_data b s r = BdOk bs b' s' r'" "bs \<noteq> []"
    "d @ concat cs = bs @ d' @ concat cs'" "\<not> is_eof b'" "nb_left_chunk b' = length d'"
    "d' \<noteq> [] \<longrightarrow> nb_chunk b' \<noteq> 0" "stream_inv s'" "nb_buffer s' = nb_buffer s" "list_all chunk_ok cs'"
    "stream_bytes s' @ pending r' = chunk_wire d' (chunk_encode cs' @ rest)"
proof (cases "d = []")
  case False
  with assms(2) have w: "stream_bytes s @ pending r = d @ CRLF @ (chunk_encode cs @ rest)" by (simp add: chunk_wire_def)
  from False assms(8) have eq: "read_chunked read m nb_data b s r = read_chunk_data read m nb_data b s r"
    by (simp add: read_chunked_def)
  have sz: "2 \<le> nb_buffer s" "nb_chunk b \<noteq> 0" using assms(4,9) False by auto
  from read_chunk_data_reliable [OF assms(1) w False sz(1) assms(5-8) sz(2)] obtain bs d' b' s' r' where
    "read_chunk_data read m nb_data b s r = BdOk bs b' s' r'" "bs \<noteq> []" "d = bs @ d'" "\<not> is_eof b'"
    "nb_left_chunk b' = length d'" "nb_chunk b' \<noteq> 0" "stream_inv s'"
    "nb_buffer s' = nb_buffer s" "stream_bytes s' @ pending r' = chunk_wire d' (chunk_encode cs @ rest)" by blast
  then show ?thesis using assms(3) eq by (intro that [of bs b' s' r' d' cs]) auto
next
  case True
  with assms(10) obtain c cs1 where cs: "cs = c # cs1" by (cases cs) auto
  with assms(3) have c: "c \<noteq> []" "length c < 2 ^ 31" "list_all chunk_ok cs1" by (auto simp: chunk_ok_def)
  have w: "stream_bytes s @ pending r = to_hex (length c) @ CRLF @ (c @ CRLF @ chunk_encode cs1 @ rest)"
    using True assms(2) unfolding cs chunk_encode_Cons by (simp add: chunk_wire_def)
  from True assms(8) have "nb_left_chunk b = 0" by simp
  from read_chunk_start [OF assms(1) w c(2) assms(4) this] obtain s1 r1 where s1: "stream_inv s1"
    "nb_buffer s1 = nb_buffer s" "stream_bytes s1 @ pending r1 = c @ CRLF @ chunk_encode cs1 @ rest"
    "read_chunked read m nb_data b s r =
       read_chunk_data read m nb_data (b\<lparr>nb_chunk := length c, nb_left_chunk := length c\<rparr>) s1 r1" by metis
  let ?b = "b\<lparr>nb_chunk := length c, nb_left_chunk := length c\<rparr>"
  have sz: "2 \<le> nb_buffer s1" "\<not> is_eof ?b" "nb_left_chunk ?b = length c" "nb_chunk ?b \<noteq> 0"
    using assms(4,7) s1(2) c(1) by auto
  from read_chunk_data_reliable [OF s1(1,3) c(1) sz(1) assms(5,6) sz(2-)] obtain bs d' b' s' r' where
    "read_chunk_data read m nb_data ?b s1 r1 = BdOk bs b' s' r'" "bs \<noteq> []" "c = bs @ d'" "\<not> is_eof b'"
    "nb_left_chunk b' = length d'" "nb_chunk b' \<noteq> 0" "stream_inv s'"
    "nb_buffer s' = nb_buffer s1" "stream_bytes s' @ pending r' = chunk_wire d' (chunk_encode cs1 @ rest)" by blast
  then show ?thesis using True cs c(3) s1(2,4) by (intro that [of bs b' s' r' d' cs1]) auto
qed

lemma read_chunked_last:
  assumes "stream_inv s" "stream_bytes s @ pending r = chunk_encode [] @ rest" "10 \<le> nb_buffer s" "nb_left_chunk b = 0"
  obtains b' s' r' where "read_chunked read m nb_data b s r = BdOk [] b' s' r'" "is_eof b'" "stream_inv s'"
    "nb_buffer s' = nb_buffer s" "stream_bytes s' @ pending r' = rest"
proof -
  from read_chunk_start [OF assms(1) assms(2) [unfolded chunk_encode_Nil] _ assms(3,4)] obtain s1 r1 where
    s1: "stream_inv s1" "nb_buffer s1 = nb_buffer s" "stream_bytes s1 @ pending r1 = CRLF @ rest"
    "read_chunked read m nb_data b s r =
       read_chunk_data read m nb_data (b\<lparr>nb_chunk := 0, nb_left_chunk := 0\<rparr>) s1 r1" by (metis zero_less_numeral zero_less_power)
  let ?b = "b\<lparr>nb_chunk := 0, nb_left_chunk := 0, is_eof := True\<rparr>"
  from end_of_chunk_reliable [OF s1(1,3), of "[]" ?b] s1(2) assms(3) obtain s2 r2 where
    "end_of_chunk read [] ?b s1 r1 = BdOk [] ?b s2 r2" "stream_inv s2" "nb_buffer s2 = nb_buffer s"
    "stream_bytes s2 @ pending r2 = rest" by auto
  with s1(4) show ?thesis by (intro that [of ?b s2 r2]) (auto simp: read_chunk_data_def)
qed

lemma reader_read_chunked_left:
  assumes "body_left m data rest b s (pending r)" "\<not> is_eof b" "is_chunked m"
  obtains bs data' b' s' r' where "reader_read read m SRS_HTTP_READ_CACHE_BYTES b s r = BdOk bs b' s' r'"
    "data = bs @ data'" "body_left m data' rest b' s' (pending r')" "bs \<noteq> [] \<or> is_eof b'"
proof -
  have rd: "reader_read read m SRS_HTTP_READ_CACHE_BYTES b s r = read_chunked read m SRS_HTTP_READ_CACHE_BYTES b s r"
    using assms(2,3) by (simp add: reader_read_def)
  have cache: "0 < SRS_HTTP_READ_CACHE_BYTES" by (simp add: SRS_HTTP_READ_CACHE_BYTES_def)
  from assms obtain d cs where left: "data = d @ concat cs" "stream_inv s"
    "stream_bytes s @ pending r = chunk_wire d (chunk_encode cs @ rest)" "list_all chunk_ok cs" "10 \<le> nb_buffer s"
    "nb_left_chunk b = length d" "d \<noteq> [] \<longrightarrow> nb_chunk b \<noteq> 0" by (auto simp: body_left_def)
  show ?thesis
  proof (cases "data = []")
    case False
    with left(1) have "d @ concat cs \<noteq> []" by simp
    from read_chunked_step [OF left(2,3,4,5) cache assms(3,2) left(6,7) this] obtain bs d' cs' b' s' r' where
      st: "read_chunked read m SRS_HTTP_READ_CACHE_BYTES b s r = BdOk bs b' s' r'" "bs \<noteq> []"
      "d @ concat cs = bs @ d' @ concat cs'" "\<not> is_eof b'" "nb_left_chunk b' = length d'"
      "d' \<noteq> [] \<longrightarrow> nb_chunk b' \<noteq> 0" "stream_inv s'" "nb_buffer s' = nb_buffer s" "list_all chunk_ok cs'"
      "stream_bytes s' @ pending r' = chunk_wire d' (chunk_encode cs' @ rest)" by metis
    have "body_left m (d' @ concat cs') rest b' s' (pending r')"
      using st(4-) assms(3) left(5) unfolding body_left_def by auto
    with st rd left(1) show ?thesis by (intro that [of bs b' s' r' "d' @ concat cs'"]) auto
  next
    case True
    with left(1,4) have d: "d = []" "cs = []" by (cases cs; auto simp: chunk_ok_def)+
    with left(3,6) have "stream_bytes s @ pending r = chunk_encode [] @ rest" "nb_left_chunk b = 0"
      by (auto simp: chunk_wire_def)
    from read_chunked_last [OF left(2) this(1) left(5) this(2)] obtain b' s' r' where
      "read_chunked read m SRS_HTTP_READ_CACHE_BYTES b s r = BdOk [] b' s' r'" "is_eof b'" "stream_inv s'"
      "stream_bytes s' @ pending r' = rest" by metis
    with rd True show ?thesis by (intro that [of "[]" b' s' r' "[]"]) (auto simp: body_left_def)
  qed
qed

lemma reader_read_length_left:
  assumes "body_left m data rest b s (pending r)" "\<not> is_eof b" "\<not> is_chunked m"
  obtains bs data' b' s' r' where "reader_read read m SRS_HTTP_READ_CACHE_BYTES b s r = BdOk bs b' s' r'"
    "data = bs @ data'" "body_left m data' rest b' s' (pending r')" "bs \<noteq> [] \<or> is_eof b'"
proof -
  from assms have l: "stream_inv s" "stream_bytes s @ pending r = data @ rest" "0 < nb_buffer s"
    "owner_content_length m = nb_total_read b + int (length data)" "owner_content_length m < 2 ^ 31"
    "0 \<le> nb_total_read b" by (auto simp: body_left_def)
  have left: "nat ((owner_content_length m - nb_total_read b) mod 2 ^ 64) = length data"
    using l(4-6) by (simp del: power.simps)
  show ?thesis
  proof (cases "data = []")
    case True
    have "reader_read read m SRS_HTTP_READ_CACHE_BYTES b s r = BdOk [] (b\<lparr>is_eof := True\<rparr>) s r"
      unfolding reader_read_def Let_def left using True assms(2,3) l(4,6) by auto
    with True l show ?thesis
      by (intro that [of "[]" "b\<lparr>is_eof := True\<rparr>" s r "[]"]) (auto simp: body_left_def)
  next
    case False
    let ?n = "min SRS_HTTP_READ_CACHE_BYTES (length data)"
    have n: "0 < ?n" using False by (simp add: SRS_HTTP_READ_CACHE_BYTES_def)
    have ne: "stream_bytes s @ pending r \<noteq> []" using False l(2) by simp
    have rd: "reader_read read m SRS_HTTP_READ_CACHE_BYTES b s r = read_specified read m ?n b s r"
      unfolding reader_read_def Let_def left using False assms(2,3) l(4,6) by simp
    obtain bs b1 s1 r1 where rs: "read_specified read m ?n b s r = BdOk bs b1 s1 r1" "bs \<noteq> []"
      "length bs \<le> ?n" "stream_inv s1" "nb_buffer s1 = nb_buffer s"
      "stream_bytes s @ pending r = bs @ stream_bytes s1 @ pending r1"
      "nb_total_read b1 = nb_total_read b + int (length bs)"
      "is_eof b1 \<longleftrightarrow> is_eof b \<or> \<not> is_chunked m \<and> owner_content_length m \<noteq> - 1 \<and>
         nb_total_read b1 \<ge> to_int32 (owner_content_length m)"
      using read_specified_reliable [OF l(1) n ne l(3)] by metis
    have d: "data = bs @ drop (length bs) data"
      using rs(3,6) l(2) by (metis append_eq_append_conv_if append_take_drop_id min.bounded_iff)
    have w1: "stream_bytes s1 @ pending r1 = drop (length bs) data @ rest"
      using rs(6) l(2) d by (metis append_assoc same_append_eq)
    have clen: "owner_content_length m = nb_total_read b1 + int (length (drop (length bs) data))"
      using l(4) rs(3,7) by simp
    have eof: "is_eof b1 \<longrightarrow> drop (length bs) data = []"
      using rs(8) assms(2) clen to_int32_small [of "owner_content_length m"] l(4-6) by auto
    have "body_left m (drop (length bs) data) rest b1 s1 (pending r1)"
      unfolding body_left_def using rs(4,5,7) w1 clen eof assms(3) l(3,5,6) by auto
    with rd rs(1,2) d show ?thesis by (intro that [of bs b1 s1 r1 "drop (length bs) data"]) auto
  qed
qed

lemma reader_read_left:
  assumes "body_left m data rest b s (pending r)" "\<not> is_eof b"
  obtains bs data' b' s' r' where "reader_read read m SRS_HTTP_READ_CACHE_BYTES b s r = BdOk bs b' s' r'"
    "data = bs @ data'" "body_left m data' rest b' s' (pending r')" "bs \<noteq> [] \<or> is_eof b'"
proof (cases "is_chunked m")
  case True
  from reader_read_chunked_left [OF assms this] that show ?thesis by metis
next
  case False
  from reader_read_length_left [OF assms this] that show ?thesis by metis
qed

text \<open>The whole body, however the network cuts it into pieces; reading ends by itself.\<close>

lemma read_all_left:
  assumes "body_left m data rest b s (pending r)"
  shows "\<exists>b' s' r'. srs_ioutil_read_all read m content b s r = Some (content @ data, BdOk [] b' s' r') \<and>
    is_eof b' \<and> body_left m [] rest b' s' (pending r')"
  using assms
proof (induction "length data + (if is_eof b then 0 else 1)" arbitrary: content data b s r rule: less_induct)
  case less
  show ?case
  proof (cases "is_eof b")
    case True
    with less.prems have "data = []" by (simp add: body_left_def)
    with True less.prems show ?thesis
      by (subst srs_ioutil_read_all.simps) (simp add: reader_read_def is_eof_code_def)
  next
    case False
    from reader_read_left [OF less.prems False] obtain bs data' b' s' r' where
      st: "reader_read read m SRS_HTTP_READ_CACHE_BYTES b s r = BdOk bs b' s' r'" "data = bs @ data'"
      "body_left m data' rest b' s' (pending r')" "bs \<noteq> [] \<or> is_eof b'" by metis
    have "length data' + (if is_eof b' then 0 else 1) < length data + (if is_eof b then 0 else 1)"
      using False st(2,4) by (cases bs) auto
    from less.hyps [OF this st(3), of "content @ bs"] st(1,2) show ?thesis
      by (subst srs_ioutil_read_all.simps) simp
  qed
qed

text \<open>A part of the body: more than \<open>sz\<close> bytes, or all that was left.\<close>

lemma read_part_left:
  assumes "body_left m data rest b s (pending r)"
  shows "\<exists>fin x data' b' s' r'. srs_ioutil_read_part read m sz content b s r = Some (fin, BdOk (content @ x) b' s' r') \<and>
    data = x @ data' \<and> body_left m data' rest b' s' (pending r') \<and> (fin \<longrightarrow> data' = [] \<and> is_eof b') \<and>
    (\<not> fin \<longrightarrow> sz < length (content @ x)) \<and> (length content \<le> sz \<longrightarrow> length (content @ x) \<le> sz + SRS_HTTP_READ_CACHE_BYTES)"
  using assms
proof (induction "length data + (if is_eof b then 0 else 1)" arbitrary: content data b s r rule: less_induct)
  case less
  show ?case
  proof (cases "is_eof b")
    case True
    with less.prems have "data = []" by (simp add: body_left_def)
    with True less.prems show ?thesis
      by (subst srs_ioutil_read_part.simps) (auto simp: reader_read_def is_eof_code_def)
  next
    case False
    from reader_read_left [OF less.prems False] obtain bs data' b' s' r' where
      st: "reader_read read m SRS_HTTP_READ_CACHE_BYTES b s r = BdOk bs b' s' r'" "data = bs @ data'"
      "body_left m data' rest b' s' (pending r')" "bs \<noteq> [] \<or> is_eof b'" by metis
    have lt: "length data' + (if is_eof b' then 0 else 1) < length data + (if is_eof b then 0 else 1)"
      using False st(2,4) by (cases bs) auto
    show ?thesis
    proof (cases "length (content @ bs) > sz")
      case True
      then have "srs_ioutil_read_part read m sz content b s r = Some (False, BdOk (content @ bs) b' s' r')"
        using st(1) by (subst srs_ioutil_read_part.simps) simp
      with st True reader_read_size [OF st(1)] show ?thesis by force
    next
      case more: False
      then have eq: "srs_ioutil_read_part read m sz content b s r = srs_ioutil_read_part read m sz (content @ bs) b' s' r'"
        using st(1) by (subst srs_ioutil_read_part.simps) simp
      from less.hyps [OF lt st(3), of "content @ bs"] obtain fin x data2 b2 s2 r2 where
        "srs_ioutil_read_part read m sz (content @ bs) b' s' r' = Some (fin, BdOk ((content @ bs) @ x) b2 s2 r2)"
        "data' = x @ data2" "body_left m data2 rest b2 s2 (pending r2)" "fin \<longrightarrow> data2 = [] \<and> is_eof b2"
        "\<not> fin \<longrightarrow> sz < length ((content @ bs) @ x)"
        "length (content @ bs) \<le> sz \<longrightarrow> length ((content @ bs) @ x) \<le> sz + SRS_HTTP_READ_CACHE_BYTES" by blast
      then show ?thesis unfolding eq st(2) using more
        by (intro exI [of _ fin] exI [of _ "bs @ x"] exI [of _ data2] exI [of _ b2] exI [of _ s2] exI [of _ r2]) auto
    qed
  qed
qed

end

lemma body_left_chunked:
  assumes "stream_inv s" "stream_bytes s @ pend = chunk_encode cs @ rest" "list_all chunk_ok cs" "10 \<le> nb_buffer s"
    "is_chunked m" "\<not> is_eof b" "nb_left_chunk b = 0"
  shows "body_left m (concat cs) rest b s pend"
  using assms by (auto simp: body_left_def chunk_wire_def intro!: exI [of _ "[]"] exI [of _ cs])

lemma body_left_length:
  assumes "stream_inv s" "stream_bytes s @ pend = data @ rest" "0 < nb_buffer s" "\<not> is_chunked m"
    "owner_content_length m = int (length data)" "length data < 2 ^ 31" "\<not> is_eof b" "nb_total_read b = 0"
  shows "body_left m data rest b s pend"
  using assms by (simp add: body_left_def)

section \<open>Properties\<close>

text \<open>C12. Reading a chunked body: for every list of non-empty chunks below 2 GB, every division of
  the bytes into what is already buffered and what the socket delivers in pieces of any size, and
  a buffer of at least 10 bytes, reading everything returns the concatenation of the chunks, ends
  at the end of the message and leaves the bytes behind it in the buffer and the socket.\<close>

theorem chunked_body_decodes:
  assumes "st_reliable st_read incoming" "stream_inv s" "10 \<le> nb_buffer s" "is_chunked m"
    "list_all chunk_ok cs" "stream_bytes s @ incoming (net sk) = chunk_encode cs @ rest"
  shows "\<exists>b' s' sk'. srs_ioutil_read_all (SrsStSocket_read st_read) m [] SrsHttpResponseReader_new s sk =
      Some (concat cs, BdOk [] b' s' sk') \<and> is_eof b' \<and> stream_inv s' \<and>
    stream_bytes s' @ incoming (net sk') = rest"
proof -
  have "body_left m (concat cs) rest SrsHttpResponseReader_new s (incoming (net sk))"
    using assms by (intro body_left_chunked) (auto simp: SrsHttpResponseReader_new_def)
  from reliable_reader.read_all_left [OF st_reliable.socket_reliable [OF assms(1)] this, of "[]"] show ?thesis
    by (auto simp: body_left_def)
qed

theorem chunked_body_decodes_witness:
  "list_all chunk_ok [''hello '', ''world''] \<and>
   (\<exists>b' s' sk'. srs_ioutil_read_all (SrsStSocket_read script_read) \<lparr>is_chunked = True, owner_content_length = - 1\<rparr> []
      SrsHttpResponseReader_new (SrsFastStream_new 16 (\<lambda>_. CHR ''x''))
      (SrsStSocket_init \<lparr>segments = [chunk_encode [''hello '', ''world''] @ ''GET''], delivered = []\<rparr>) =
      Some (''hello world'', BdOk [] b' s' sk') \<and> is_eof b' \<and> stream_inv s' \<and>
    stream_bytes s' @ concat (segments (net sk')) = ''GET'')"
proof -
  have "list_all chunk_ok [''hello '', ''world'']" by (simp add: chunk_ok_def)
  then show ?thesis
    using chunked_body_decodes [OF script_in.st_reliable_axioms stream_inv_new [of 16 "\<lambda>_. CHR ''x''"],
        of "\<lparr>is_chunked = True, owner_content_length = - 1\<rparr>" "[''hello '', ''world'']"
        "SrsStSocket_init \<lparr>segments = [chunk_encode [''hello '', ''world''] @ ''GET''], delivered = []\<rparr>" "''GET''"]
    by (simp add: SrsStSocket_init_def SrsFastStream_new_def stream_bytes_def)
qed

text \<open>Reading a body with a content length below 2 GB: however the bytes arrive, reading
  everything returns exactly that many bytes and leaves what follows them.\<close>

lemma length_body_decodes:
  assumes "st_reliable st_read incoming" "stream_inv s" "0 < nb_buffer s" "\<not> is_chunked m"
    "owner_content_length m = int (length body)" "length body < 2 ^ 31"
    "stream_bytes s @ incoming (net sk) = body @ rest"
  shows "\<exists>b' s' sk'. srs_ioutil_read_all (SrsStSocket_read st_read) m [] SrsHttpResponseReader_new s sk =
      Some (body, BdOk [] b' s' sk') \<and> is_eof b' \<and> stream_inv s' \<and>
    stream_bytes s' @ incoming (net sk') = rest"
proof -
  have "body_left m body rest SrsHttpResponseReader_new s (incoming (net sk))"
    using assms by (intro body_left_length) (auto simp: SrsHttpResponseReader_new_def)
  from reliable_reader.read_all_left [OF st_reliable.socket_reliable [OF assms(1)] this, of "[]"] show ?thesis
    by (auto simp: body_left_def)
qed

end
