(* ===== verification/Http_Writer.thy ===== *)
theory Http_Writer
  imports Http_Header Http_Body
begin

text \<open>
  Writing a response: \<open>SrsHttpResponseWriter\<close>
  (\<open>src/src/protocol/srs_protocol_http_conn.cpp\<close>), \<open>srs_write_large_iovs\<close>
  (\<open>src/src/protocol/srs_protocol_utility.cpp\<close>) and \<open>srs_go_http_error\<close>
  (\<open>src/src/protocol/srs_protocol_http_stack.cpp\<close>).  The operations of the connection
  \<open>skt\<close>, \<open>write\<close> and \<open>writev\<close>, are the arguments \<open>put\<close> and \<open>putv\<close>; they act on the
  connection's state and return an error code, 0 for success.  A buffer is given by its bytes,
  below 2 GB; \<open>None\<close> is the null pointer.  The interface of the connection is the locale
  \<open>response_conn\<close>, which \<open>SrsStSocket\<close> implements.
\<close>

section \<open>Definitions\<close>

abbreviation SRS_CONSTS_HTTP_OK :: int where "SRS_CONSTS_HTTP_OK \<equiv> 200"

definition RTMP_SIG_SRS_SERVER :: string where "RTMP_SIG_SRS_SERVER = ''SRS/5.0.61(Bee)''"

type_synonym 'w put = "string \<Rightarrow> 'w \<Rightarrow> int \<times> 'w"
type_synonym 'w putv = "string list \<Rightarrow> 'w \<Rightarrow> int \<times> 'w"

text \<open>The loop that sends at most \<open>limits\<close> vectors at a time.\<close>

function write_iovs_loop :: "'w putv \<Rightarrow> nat \<Rightarrow> string list \<Rightarrow> 'w \<Rightarrow> int \<times> 'w" where
  "write_iovs_loop putv limits iovs w =
     (if iovs = [] \<or> limits = 0 then (ERROR_SUCCESS, w)
      else case putv (take limits iovs) w of
        (e, w') \<Rightarrow> if e \<noteq> ERROR_SUCCESS then (e, w') else write_iovs_loop putv limits (drop limits iovs) w')"
  by pat_completeness auto

termination
  by (relation "measure (\<lambda>(_, _, iovs, _). length iovs)") auto

declare write_iovs_loop.simps [simp del]

definition srs_write_large_iovs :: "'w putv \<Rightarrow> nat \<Rightarrow> string list \<Rightarrow> 'w \<Rightarrow> int \<times> 'w" where
  "srs_write_large_iovs putv limits iovs w =
     (if length iovs \<le> limits then putv iovs w else write_iovs_loop putv limits iovs w)"

record SrsHttpResponseWriter =
  hdr :: SrsHttpHeader
  hf :: "(SrsHttpHeader \<Rightarrow> int \<times> SrsHttpHeader) option"
  header_wrote :: bool
  status :: int
  rw_content_length :: int
  written :: int
  header_sent :: bool

definition SrsHttpResponseWriter_new :: SrsHttpResponseWriter where
  "SrsHttpResponseWriter_new =
     \<lparr>hdr = SrsHttpHeader_new, hf = None, header_wrote = False, status = SRS_CONSTS_HTTP_OK,
      rw_content_length = - 1, written = 0, header_sent = False\<rparr>"

definition rw_write_header :: "int \<Rightarrow> SrsHttpResponseWriter \<Rightarrow> SrsHttpResponseWriter" where
  "rw_write_header code rw =
     (if header_wrote rw then rw
      else rw\<lparr>header_wrote := True, status := code, rw_content_length := content_length (hdr rw)\<rparr>)"

text \<open>The fields that \<open>send_header\<close> adds.\<close>

definition complete_header :: "string option \<Rightarrow> SrsHttpResponseWriter \<Rightarrow> SrsHttpHeader" where
  "complete_header data rw =
     (let h = hdr rw;
          h = (if srs_go_http_body_allowd (status rw) then
                 (case data of
                    Some bs \<Rightarrow> if content_type h = [] then set_content_type (srs_go_http_detect bs) h else h
                  | None \<Rightarrow> h)
               else h);
          h = (if header_get ''Server'' h = [] then header_set ''Server'' RTMP_SIG_SRS_SERVER h else h);
          h = (if rw_content_length rw = - 1 then header_set ''Transfer-Encoding'' ''chunked'' h else h);
          h = (if header_get ''Connection'' h = [] then header_set ''Connection'' ''Keep-Alive'' h else h)
      in h)"

definition status_line :: "int \<Rightarrow> string" where
  "status_line code = ''HTTP/1.1 '' @ srs_int2str code @ '' '' @ srs_generate_http_status_text code @ CRLF"

definition send_header ::
    "'w put \<Rightarrow> string option \<Rightarrow> SrsHttpResponseWriter \<Rightarrow> 'w \<Rightarrow> int \<times> SrsHttpResponseWriter \<times> 'w" where
  "send_header put data rw w =
     (if header_sent rw then (ERROR_SUCCESS, rw, w)
      else
        let rw = rw\<lparr>header_sent := True\<rparr>;
            h = complete_header data rw;
            (e, h) = (case hf rw of None \<Rightarrow> (ERROR_SUCCESS, h) | Some f \<Rightarrow> f h);
            rw = rw\<lparr>hdr := h\<rparr>
        in if e \<noteq> ERROR_SUCCESS then (e, rw, w)
           else case put (status_line (status rw) @ header_write h @ CRLF) w of (e, w') \<Rightarrow> (e, rw, w'))"

definition data_size :: "string option \<Rightarrow> int" where
  "data_size data = (case data of None \<Rightarrow> 0 | Some bs \<Rightarrow> int (length bs))"

definition rw_write ::
    "'w put \<Rightarrow> 'w putv \<Rightarrow> string option \<Rightarrow> SrsHttpResponseWriter \<Rightarrow> 'w \<Rightarrow> int \<times> SrsHttpResponseWriter \<times> 'w" where
  "rw_write put putv data rw w =
     (let size = data_size data;
          rw = (if header_wrote rw then rw
                else
                  let h = hdr rw;
                      h = (if content_type h = [] then set_content_type ''text/plain; charset=utf-8'' h else h);
                      h = (if content_length h = - 1 then set_content_length size h else h)
                  in rw_write_header SRS_CONSTS_HTTP_OK (rw\<lparr>hdr := h\<rparr>))
      in case send_header put data rw w of (e, rw, w) \<Rightarrow>
        if e \<noteq> ERROR_SUCCESS then (e, rw, w)
        else
          let rw = rw\<lparr>written := written rw + size\<rparr> in
          if rw_content_length rw \<noteq> - 1 \<and> written rw > rw_content_length rw then
            (ERROR_HTTP_CONTENT_LENGTH, rw, w)
          else case data of
            None \<Rightarrow> (ERROR_SUCCESS, rw, w)
          | Some bs \<Rightarrow>
              if bs = [] then (ERROR_SUCCESS, rw, w)
              else if rw_content_length rw \<noteq> - 1 then (case put bs w of (e, w) \<Rightarrow> (e, rw, w))
              else (case putv [to_hex (length bs), CRLF, bs, CRLF] w of (e, w) \<Rightarrow> (e, rw, w)))"

definition final_request ::
    "'w put \<Rightarrow> 'w putv \<Rightarrow> SrsHttpResponseWriter \<Rightarrow> 'w \<Rightarrow> int \<times> SrsHttpResponseWriter \<times> 'w" where
  "final_request put putv rw w =
     (let rw = (if header_wrote rw then rw else rw_write_header SRS_CONSTS_HTTP_OK rw) in
      case send_header put None rw w of (e, rw, w) \<Rightarrow>
        if e \<noteq> ERROR_SUCCESS then (e, rw, w)
        else if rw_content_length rw = - 1 then (case put (''0'' @ CRLF @ CRLF) w of (e, w) \<Rightarrow> (e, rw, w))
        else rw_write put putv None rw w)"

text \<open>The vectors one by one.\<close>

fun write_each ::
    "'w put \<Rightarrow> 'w putv \<Rightarrow> string list \<Rightarrow> SrsHttpResponseWriter \<Rightarrow> 'w \<Rightarrow> int \<times> SrsHttpResponseWriter \<times> 'w" where
  "write_each put putv [] rw w = (ERROR_SUCCESS, rw, w)"
| "write_each put putv (bs # iov) rw w =
     (case rw_write put putv (Some bs) rw w of (e, rw, w) \<Rightarrow>
        if e \<noteq> ERROR_SUCCESS then (e, rw, w) else write_each put putv iov rw w)"

definition rw_writev ::
    "'w put \<Rightarrow> 'w putv \<Rightarrow> nat \<Rightarrow> string list \<Rightarrow> SrsHttpResponseWriter \<Rightarrow> 'w \<Rightarrow> int \<times> SrsHttpResponseWriter \<times> 'w" where
  "rw_writev put putv limits iov rw w =
     (if \<not> header_wrote rw \<or> rw_content_length rw \<noteq> - 1 then write_each put putv iov rw w
      else if iov = [] then (ERROR_SUCCESS, rw, w)
      else case send_header put None rw w of (e, rw, w) \<Rightarrow>
        if e \<noteq> ERROR_SUCCESS then (e, rw, w)
        else
          let size = to_int32 (int (length (concat iov)));
              rw = rw\<lparr>written := written rw + size\<rparr>;
              iovss = [to_hex (nat (size mod 2 ^ 32)), CRLF] @ iov @ [CRLF]
          in case srs_write_large_iovs putv limits iovss w of (e, w) \<Rightarrow> (e, rw, w))"

definition srs_go_http_error ::
    "'w put \<Rightarrow> 'w putv \<Rightarrow> int \<Rightarrow> string \<Rightarrow> SrsHttpResponseWriter \<Rightarrow> 'w \<Rightarrow> int \<times> SrsHttpResponseWriter \<times> 'w" where
  "srs_go_http_error put putv code error rw w =
     (let h = set_content_type ''text/plain; charset=utf-8'' (hdr rw);
          h = set_content_length (int (length error)) h;
          rw = rw_write_header code (rw\<lparr>hdr := h\<rparr>)
      in rw_write put putv (Some error) rw w)"

section \<open>The connection\<close>

locale response_conn = byte_writer put sent for put :: "string \<Rightarrow> 'w \<Rightarrow> int \<times> 'w" and sent +
  fixes putv :: "string list \<Rightarrow> 'w \<Rightarrow> int \<times> 'w"
  assumes putv_Ok: "putv iov w = (0, w') \<Longrightarrow> sent w' = sent w @ concat iov"

locale st_conn = st_writing st_write outgoing + v: st_writing st_writev outgoing
  for st_write st_writev :: "'n st_write" and outgoing

sublocale st_conn < skt: response_conn "SrsStSocket_write st_write" "\<lambda>s. outgoing (net s)" "SrsStSocket_writev st_writev"
  by unfold_locales (auto simp: SrsStSocket_writev_def dest: v.socket.put_Ok)

context st_conn
begin

lemma socket_conn:
  "response_conn (SrsStSocket_write st_write) (\<lambda>s. outgoing (net s)) (SrsStSocket_writev st_writev)"
  by unfold_locales

end

interpretation script_link: st_conn script_write script_write delivered
  by unfold_locales

section \<open>Sequences of calls\<close>

text \<open>What a handler does with the writer between \<open>write_header\<close> and \<open>final_request\<close>, and
  the pieces of the body it sends.\<close>

datatype body_op = BodyWrite string | BodyWritev "string list"

definition do_body_op ::
    "'w put \<Rightarrow> 'w putv \<Rightarrow> nat \<Rightarrow> body_op \<Rightarrow> SrsHttpResponseWriter \<Rightarrow> 'w \<Rightarrow> int \<times> SrsHttpResponseWriter \<times> 'w" where
  "do_body_op put putv limits op rw w =
     (case op of
        BodyWrite bs \<Rightarrow> rw_write put putv (Some bs) rw w
      | BodyWritev iov \<Rightarrow> rw_writev put putv limits iov rw w)"

fun respond ::
    "'w put \<Rightarrow> 'w putv \<Rightarrow> nat \<Rightarrow> body_op list \<Rightarrow> SrsHttpResponseWriter \<Rightarrow> 'w \<Rightarrow> int \<times> SrsHttpResponseWriter \<times> 'w" where
  "respond put putv limits [] rw w = final_request put putv rw w"
| "respond put putv limits (op # ops) rw w =
     (case do_body_op put putv limits op rw w of (e, rw, w) \<Rightarrow>
        if e \<noteq> ERROR_SUCCESS then (e, rw, w) else respond put putv limits ops rw w)"

fun op_data :: "body_op \<Rightarrow> string" where
  "op_data (BodyWrite bs) = bs"
| "op_data (BodyWritev iov) = concat iov"

definition body_chunks :: "body_op list \<Rightarrow> string list" where
  "body_chunks ops = filter (\<lambda>bs. bs \<noteq> []) (map op_data ops)"

text \<open>The operations keep to the size of an \<open>int\<close> and do not give \<open>writev\<close> vectors that are
  all empty.\<close>

definition op_ok :: "body_op \<Rightarrow> bool" where
  "op_ok op \<longleftrightarrow> length (op_data op) < 2 ^ 31 \<and> (case op of BodyWrite bs \<Rightarrow> True | BodyWritev iov \<Rightarrow> iov = [] \<or> concat iov \<noteq> [])"

definition response_head :: "SrsHttpResponseWriter \<Rightarrow> string" where
  "response_head rw = status_line (status rw) @ header_write (hdr rw) @ CRLF"

definition chunk_text :: "string \<Rightarrow> string" where
  "chunk_text bs = to_hex (length bs) @ CRLF @ bs @ CRLF"

text \<open>What the connection has been sent: nothing, or the head once and then the body.\<close>

definition on_wire :: "string \<Rightarrow> string \<Rightarrow> string \<Rightarrow> SrsHttpResponseWriter \<Rightarrow> bool" where
  "on_wire base body out rw \<longleftrightarrow> header_wrote rw \<and>
     (if header_sent rw then out = base @ response_head rw @ body else out = base \<and> body = [])"

lemma on_wire_written [simp]: "on_wire base body out (rw\<lparr>written := n\<rparr>) = on_wire base body out rw"
  by (simp add: on_wire_def response_head_def)

lemma on_wire_append: "on_wire base body out rw \<Longrightarrow> header_sent rw \<Longrightarrow> on_wire base (body @ bs) (out @ bs) rw"
  by (simp add: on_wire_def)

lemma chunk_encode_pieces: "chunk_encode cs = concat (map chunk_text cs) @ ''0'' @ CRLF @ CRLF"
  by (simp add: chunk_encode_def chunk_text_def [abs_def])

text \<open>One call in either mode: the data go out framed as a chunk, or plain and within the length.\<close>

definition framed :: "int \<Rightarrow> string \<Rightarrow> string" where
  "framed len bs = (if bs = [] then [] else if len = - 1 then chunk_text bs else bs)"

context response_conn
begin

lemma write_iovs_loop_Ok:
  "write_iovs_loop putv limits iovs w = (0, w') \<Longrightarrow> 0 < limits \<Longrightarrow> sent w' = sent w @ concat iovs"
proof (induction "length iovs" arbitrary: iovs w rule: less_induct)
  case less
  show ?case
  proof (cases "iovs = []")
    case True
    with less.prems show ?thesis by (simp add: write_iovs_loop.simps)
  next
    case False
    obtain e w1 where p: "putv (take limits iovs) w = (e, w1)" by (cases "putv (take limits iovs) w")
    with False less.prems have e: "e = 0" "write_iovs_loop putv limits (drop limits iovs) w1 = (0, w')"
      by (auto simp: write_iovs_loop.simps [of putv limits iovs w] split: if_splits)
    from False less.prems(2) have "length (drop limits iovs) < length iovs" by (cases iovs) auto
    from less.hyps [OF this e(2) less.prems(2)] putv_Ok [of "take limits iovs" w w1] p e(1) show ?thesis
      by (simp flip: concat_append)
  qed
qed

lemma large_iovs_Ok:
  "srs_write_large_iovs putv limits iovs w = (0, w') \<Longrightarrow> 0 < limits \<Longrightarrow> sent w' = sent w @ concat iovs"
  by (auto simp: srs_write_large_iovs_def split: if_splits dest: putv_Ok write_iovs_loop_Ok)

lemma send_header_Ok:
  assumes "send_header put data rw w = (0, rw', w')"
  shows "header_sent rw' \<and> header_wrote rw' = header_wrote rw \<and> rw_content_length rw' = rw_content_length rw \<and>
    written rw' = written rw \<and>
    (if header_sent rw then rw' = rw \<and> w' = w else sent w' = sent w @ response_head rw')"
  using assms
  by (auto simp: send_header_def Let_def response_head_def split: if_splits prod.splits dest: put_Ok)

lemma send_header_wire:
  assumes "send_header put data rw w = (0, rw', w')" "on_wire base body (sent w) rw"
  shows "on_wire base body (sent w') rw' \<and> header_sent rw'"
  using send_header_Ok [OF assms(1)] assms(2) by (auto simp: on_wire_def split: if_splits)

lemma rw_write_Ok:
  assumes "rw_write put putv data rw w = (0, rw', w')" "on_wire base body (sent w) rw"
  shows "on_wire base (body @ framed (rw_content_length rw) (case data of None \<Rightarrow> [] | Some bs \<Rightarrow> bs)) (sent w') rw' \<and>
    rw_content_length rw' = rw_content_length rw \<and> written rw' = written rw + data_size data \<and> header_sent rw' \<and>
    (rw_content_length rw \<noteq> - 1 \<longrightarrow> written rw' \<le> rw_content_length rw)"
proof -
  from assms(2) have hw: "header_wrote rw" by (simp add: on_wire_def)
  obtain e rw1 w1 where sh: "send_header put data rw w = (e, rw1, w1)" by (cases "send_header put data rw w") auto
  with assms(1) hw have e: "e = 0" by (auto simp: rw_write_def Let_def split: if_splits)
  note h = send_header_Ok [OF sh [unfolded e]]
  note ow = send_header_wire [OF sh [unfolded e] assms(2)]
  from ow on_wire_append [of base body "sent w1" rw1] h assms(1) hw e sh
  show ?thesis
    by (auto simp: rw_write_def Let_def data_size_def framed_def chunk_text_def
        split: if_splits option.splits prod.splits dest!: put_Ok putv_Ok)
qed

lemma write_each_Ok:
  assumes "write_each put putv iov rw w = (0, rw', w')" "on_wire base body (sent w) rw" "rw_content_length rw \<noteq> - 1"
  shows "on_wire base (body @ concat iov) (sent w') rw' \<and> rw_content_length rw' = rw_content_length rw \<and>
    written rw' = written rw + int (length (concat iov)) \<and>
    (iov \<noteq> [] \<longrightarrow> written rw' \<le> rw_content_length rw)"
  using assms
proof (induction iov arbitrary: rw w body)
  case (Cons bs iov)
  obtain e rw1 w1 where w1: "rw_write put putv (Some bs) rw w = (e, rw1, w1)"
    by (cases "rw_write put putv (Some bs) rw w") auto
  with Cons.prems(1) have e: "e = 0" "write_each put putv iov rw1 w1 = (0, rw', w')" by (auto split: if_splits)
  from rw_write_Ok [OF w1 [unfolded e] Cons.prems(2)] Cons.prems(3) have
    "on_wire base (body @ bs) (sent w1) rw1" "rw_content_length rw1 = rw_content_length rw"
    "written rw1 = written rw + int (length bs)" "written rw1 \<le> rw_content_length rw"
    by (auto simp: framed_def data_size_def split: if_splits)
  note st = this
  from st Cons.prems(3) have "rw_content_length rw1 \<noteq> - 1" by simp
  from Cons.IH [OF e(2) st(1) this] st e(2) show ?case by (cases "iov = []") simp_all
qed simp

lemma rw_writev_Ok:
  assumes "rw_writev put putv limits iov rw w = (0, rw', w')" "on_wire base body (sent w) rw" "0 < limits"
    "op_ok (BodyWritev iov)"
  shows "on_wire base (body @ framed (rw_content_length rw) (concat iov)) (sent w') rw' \<and>
    rw_content_length rw' = rw_content_length rw \<and> written rw' = written rw + int (length (concat iov)) \<and>
    (rw_content_length rw \<noteq> - 1 \<longrightarrow> iov \<noteq> [] \<longrightarrow> written rw' \<le> rw_content_length rw)"
proof -
  from assms(2) have hw: "header_wrote rw" by (simp add: on_wire_def)
  consider (plain) "rw_content_length rw \<noteq> - 1" | (none) "rw_content_length rw = - 1" "iov = []"
    | (chunk) "rw_content_length rw = - 1" "iov \<noteq> []" "concat iov \<noteq> []"
    using assms(4) by (auto simp: op_ok_def)
  then show ?thesis
  proof cases
    case plain
    with assms(1) have "write_each put putv iov rw w = (0, rw', w')" by (simp add: rw_writev_def)
    moreover have "framed (rw_content_length rw) (concat iov) = concat iov"
      using plain by (cases "concat iov = []") (simp_all add: framed_def del: concat_eq_Nil_conv)
    ultimately show ?thesis using write_each_Ok [OF _ assms(2) plain, of iov rw' w'] by auto
  next
    case none
    with assms(1,2) hw show ?thesis by (simp add: rw_writev_def framed_def)
  next
    case chunk
    have len: "int (length (concat iov)) < 2 ^ 31" using assms(4) by (simp add: op_ok_def)
    have sz: "to_int32 (int (length (concat iov))) = int (length (concat iov))"
      "nat (int (length (concat iov)) mod 2 ^ 32) = length (concat iov)"
      using to_int32_small [OF _ len] len by simp_all
    obtain e rw1 w1 where sh: "send_header put None rw w = (e, rw1, w1)" by (cases "send_header put None rw w") auto
    with assms(1) hw chunk have e: "e = 0" by (auto simp: rw_writev_def Let_def split: if_splits)
    note h = send_header_Ok [OF sh [unfolded e]]
    note ow = send_header_wire [OF sh [unfolded e] assms(2)]
    let ?iovss = "[to_hex (length (concat iov)), CRLF] @ iov @ [CRLF]"
    from assms(1) hw chunk sh e have "srs_write_large_iovs putv limits ?iovss w1 = (0, w')"
      "rw' = rw1\<lparr>written := written rw1 + int (length (concat iov))\<rparr>"
      unfolding rw_writev_def Let_def sz by (auto split: prod.splits if_splits)
    with large_iovs_Ok [OF this(1) assms(3)] h ow on_wire_append [of base body "sent w1" rw1 "chunk_text (concat iov)"] chunk
    show ?thesis by (simp add: framed_def chunk_text_def del: concat_eq_Nil_conv)
  qed
qed

lemma respond_Ok:
  assumes "respond put putv limits ops rw w = (0, rw', w')" "on_wire base body (sent w) rw" "0 < limits"
    "list_all op_ok ops"
  shows "on_wire base (body @ concat (map (framed (rw_content_length rw) \<circ> op_data) ops) @
      (if rw_content_length rw = - 1 then ''0'' @ CRLF @ CRLF else [])) (sent w') rw' \<and> header_sent rw' \<and>
    (rw_content_length rw \<noteq> - 1 \<longrightarrow> written rw + int (length (concat (map op_data ops))) \<le> rw_content_length rw)"
  using assms
proof (induction ops arbitrary: rw w body)
  case Nil
  then have hw: "header_wrote rw" by (simp add: on_wire_def)
  obtain e rw1 w1 where sh: "send_header put None rw w = (e, rw1, w1)" by (cases "send_header put None rw w") auto
  with Nil.prems(1) hw have e: "e = 0" by (auto simp: final_request_def Let_def split: if_splits)
  note h = send_header_Ok [OF sh [unfolded e]]
  note ow = send_header_wire [OF sh [unfolded e] Nil.prems(2)]
  show ?case
  proof (cases "rw_content_length rw = - 1")
    case True
    with h ow Nil.prems(1) hw sh e on_wire_append [of base body "sent w1" rw1 "''0'' @ CRLF @ CRLF"] show ?thesis
      by (auto simp: final_request_def Let_def split: if_splits prod.splits dest!: put_Ok)
  next
    case False
    with Nil.prems(1) hw sh e h have "rw_write put putv None rw1 w1 = (0, rw', w')"
      by (auto simp: final_request_def Let_def split: if_splits)
    from rw_write_Ok [OF this, of base body] ow h False show ?thesis by (simp add: framed_def data_size_def)
  qed
next
  case (Cons op ops)
  obtain e rw1 w1 where d: "do_body_op put putv limits op rw w = (e, rw1, w1)"
    by (cases "do_body_op put putv limits op rw w") auto
  with Cons.prems(1) have e: "e = 0" "respond put putv limits ops rw1 w1 = (0, rw', w')" by (auto split: if_splits)
  have st: "on_wire base (body @ framed (rw_content_length rw) (op_data op)) (sent w1) rw1 \<and>
      rw_content_length rw1 = rw_content_length rw \<and> written rw1 = written rw + int (length (op_data op))"
  proof (cases op)
    case (BodyWrite bs)
    with d e(1) have "rw_write put putv (Some bs) rw w = (0, rw1, w1)" by (simp add: do_body_op_def)
    from rw_write_Ok [OF this Cons.prems(2)] BodyWrite show ?thesis by (simp add: data_size_def)
  next
    case (BodyWritev iov)
    with d e(1) have "rw_writev put putv limits iov rw w = (0, rw1, w1)" by (simp add: do_body_op_def)
    from rw_writev_Ok [OF this Cons.prems(2,3)] BodyWritev Cons.prems(4) show ?thesis by simp
  qed
  from Cons.prems(4) have "list_all op_ok ops" by simp
  from Cons.IH [OF e(2) conjunct1 [OF st] Cons.prems(3) this] st show ?case by (simp add: comp_def add.assoc)
qed

end

lemma concat_framed: "concat (map (framed (- 1) \<circ> op_data) ops) = concat (map chunk_text (body_chunks ops))"
  by (induction ops) (auto simp: body_chunks_def framed_def)

lemma concat_framed_plain: "len \<noteq> - 1 \<Longrightarrow> concat (map (framed len \<circ> op_data) ops) = concat (map op_data ops)"
  by (induction ops) (auto simp: framed_def)

lemma status_texts [simp]: "header_get k SrsHttpHeader_new = []"
  by (simp add: header_get_def SrsHttpHeader_new_def)

lemma complete_header_sent [simp]: "complete_header data (rw\<lparr>header_sent := b\<rparr>) = complete_header data rw"
  by (simp add: complete_header_def)

lemma send_header_head:
  assumes "send_header put data rw w = (e, rw', w')" "\<not> header_sent rw" "hf rw = None"
  shows "rw' = rw\<lparr>header_sent := True, hdr := complete_header data rw\<rparr>"
  using assms by (simp add: send_header_def Let_def split: prod.splits)

lemma rw_write_head:
  assumes "rw_write put putv data rw w = (0, rw', w')" "header_wrote rw" "\<not> header_sent rw" "hf rw = None"
  shows "status rw' = status rw \<and> hdr rw' = complete_header data rw"
proof -
  obtain e rw1 w1 where sh: "send_header put data rw w = (e, rw1, w1)" by (cases "send_header put data rw w") auto
  note rw1 = send_header_head [OF sh assms(3,4)]
  have "status rw' = status rw1 \<and> hdr rw' = hdr rw1"
    using assms(1,2) sh by (auto simp: rw_write_def Let_def split: if_splits option.splits prod.splits)
  with rw1 show ?thesis by simp
qed

section \<open>Properties\<close>

text \<open>C13. A chunked response: whatever sequence of \<open>write\<close> and \<open>writev\<close> calls a handler
  makes after \<open>write_header\<close> without a content length, when every call succeeds the peer has
  received the head of the response once and then the chunked encoding of the non-empty pieces in
  order, closed by the last chunk.\<close>

theorem chunked_response:
  assumes "st_conn st_write st_writev outgoing" "header_wrote rw" "\<not> header_sent rw" "rw_content_length rw = - 1"
    "0 < limits" "list_all op_ok ops"
    "respond (SrsStSocket_write st_write) (SrsStSocket_writev st_writev) limits ops rw sk = (ERROR_SUCCESS, rw', sk')"
  shows "outgoing (net sk') = outgoing (net sk) @ response_head rw' @ chunk_encode (body_chunks ops)"
proof -
  have "on_wire (outgoing (net sk)) [] (outgoing (net sk)) rw" using assms(2,3) by (simp add: on_wire_def)
  from response_conn.respond_Ok [OF st_conn.socket_conn [OF assms(1)] assms(7) this assms(5,6)] assms(4) show ?thesis
    by (simp add: on_wire_def concat_framed chunk_encode_pieces)
qed

theorem chunked_response_witness:
  "\<exists>rw' sk'. respond (SrsStSocket_write script_write) (SrsStSocket_writev script_write) 1024
       [BodyWrite ''hello'', BodyWritev ['' '', ''world'']] (rw_write_header 200 SrsHttpResponseWriter_new)
       (SrsStSocket_init \<lparr>segments = [], delivered = []\<rparr>) = (ERROR_SUCCESS, rw', sk') \<and>
     delivered (net sk') = response_head rw' @ chunk_encode [''hello'', '' world'']"
proof -
  let ?ops = "[BodyWrite ''hello'', BodyWritev ['' '', ''world'']]"
  let ?rw = "rw_write_header 200 SrsHttpResponseWriter_new"
  let ?sk = "SrsStSocket_init \<lparr>segments = [], delivered = []\<rparr>"
  obtain e rw' sk' where run: "respond (SrsStSocket_write script_write) (SrsStSocket_writev script_write) 1024
      ?ops ?rw ?sk = (e, rw', sk')" by (metis prod_cases3)
  have rw: "header_wrote ?rw" "\<not> header_sent ?rw" "rw_content_length ?rw = - 1"
    by (simp_all add: rw_write_header_def SrsHttpResponseWriter_new_def content_length_def)
  have "e = ERROR_SUCCESS"
    using run rw
    by (auto simp: do_body_op_def rw_write_def send_header_def final_request_def Let_def rw_writev_def
        srs_write_large_iovs_def SrsStSocket_write_def SrsStSocket_writev_def script_write_def rw_write_header_def
        SrsHttpResponseWriter_new_def status_line_def split: if_splits)
  with run chunked_response [OF script_link.st_conn_axioms rw, of 1024 ?ops ?sk rw' sk'] show ?thesis
    by (simp add: op_ok_def body_chunks_def SrsStSocket_init_def)
qed

text \<open>C32. A response with a content length: when every call succeeds the peer has received the head
  once and then exactly the bytes of the calls, never more of them than the content length; a write
  that would exceed it is refused with an error, and sends nothing.\<close>

theorem length_response:
  assumes "st_conn st_write st_writev outgoing" "header_wrote rw" "\<not> header_sent rw" "rw_content_length rw \<noteq> - 1"
    "written rw = 0" "0 < limits" "list_all op_ok ops"
  shows "(respond (SrsStSocket_write st_write) (SrsStSocket_writev st_writev) limits ops rw sk = (ERROR_SUCCESS, rw', sk') \<longrightarrow>
      outgoing (net sk') = outgoing (net sk) @ response_head rw' @ concat (map op_data ops) \<and>
      int (length (concat (map op_data ops))) \<le> rw_content_length rw) \<and>
    (header_sent rw1 \<and> header_wrote rw1 \<and> rw_content_length rw1 \<noteq> - 1 \<and>
       written rw1 + int (length bs) > rw_content_length rw1 \<longrightarrow>
     rw_write put putv (Some bs) rw1 w = (ERROR_HTTP_CONTENT_LENGTH, rw1\<lparr>written := written rw1 + int (length bs)\<rparr>, w))"
proof (intro conjI impI)
  assume run: "respond (SrsStSocket_write st_write) (SrsStSocket_writev st_writev) limits ops rw sk = (ERROR_SUCCESS, rw', sk')"
  have "on_wire (outgoing (net sk)) [] (outgoing (net sk)) rw" using assms(2,3) by (simp add: on_wire_def)
  note r = response_conn.respond_Ok [OF st_conn.socket_conn [OF assms(1)] run this assms(6,7)]
  from r assms(4) show "outgoing (net sk') = outgoing (net sk) @ response_head rw' @ concat (map op_data ops)"
    by (simp add: on_wire_def concat_framed_plain)
  from r assms(4,5) show "int (length (concat (map op_data ops))) \<le> rw_content_length rw" by simp
next
  assume "header_sent rw1 \<and> header_wrote rw1 \<and> rw_content_length rw1 \<noteq> - 1 \<and>
    written rw1 + int (length bs) > rw_content_length rw1"
  then show "rw_write put putv (Some bs) rw1 w =
      (ERROR_HTTP_CONTENT_LENGTH, rw1\<lparr>written := written rw1 + int (length bs)\<rparr>, w)"
    by (simp add: rw_write_def send_header_def data_size_def)
qed

theorem length_response_witness:
  "\<exists>rw' sk'. respond (SrsStSocket_write script_write) (SrsStSocket_writev script_write) 1024
       [BodyWrite ''hello''] (rw_write_header 200 (SrsHttpResponseWriter_new\<lparr>hdr := set_content_length 5 SrsHttpHeader_new\<rparr>))
       (SrsStSocket_init \<lparr>segments = [], delivered = []\<rparr>) = (ERROR_SUCCESS, rw', sk') \<and>
     delivered (net sk') = response_head rw' @ ''hello''"
proof -
  let ?rw = "rw_write_header 200 (SrsHttpResponseWriter_new\<lparr>hdr := set_content_length 5 SrsHttpHeader_new\<rparr>)"
  let ?sk = "SrsStSocket_init \<lparr>segments = [], delivered = []\<rparr>"
  obtain e rw' sk' where run: "respond (SrsStSocket_write script_write) (SrsStSocket_writev script_write) 1024
      [BodyWrite ''hello''] ?rw ?sk = (e, rw', sk')" by (metis prod_cases3)
  have rw: "header_wrote ?rw" "\<not> header_sent ?rw" "rw_content_length ?rw = 5" "written ?rw = 0"
    using content_length_set [of 5 SrsHttpHeader_new] by (simp_all add: rw_write_header_def SrsHttpResponseWriter_new_def)
  have "e = ERROR_SUCCESS"
    using run rw
    by (auto simp: do_body_op_def rw_write_def send_header_def final_request_def Let_def data_size_def
        SrsStSocket_write_def script_write_def rw_write_header_def
        SrsHttpResponseWriter_new_def status_line_def split: if_splits)
  with run length_response [OF script_link.st_conn_axioms rw(1,2), of 1024 "[BodyWrite ''hello'']" ?sk rw' sk' ?rw "[]" undefined undefined undefined]
    rw show ?thesis
    by (simp add: op_ok_def SrsStSocket_init_def)
qed

text \<open>\<open>srs_go_http_error\<close> on a new writer sends, when the connection takes it, exactly one
  complete response: the status line of the code, the four header fields in order with the length of
  the message as content length, and the message.\<close>

lemma http_error_response:
  assumes "st_conn st_write st_writev outgoing" "error \<noteq> []" "length error < 2 ^ 31"
    "srs_go_http_error (SrsStSocket_write st_write) (SrsStSocket_writev st_writev) code error
       SrsHttpResponseWriter_new sk = (ERROR_SUCCESS, rw', sk')"
  shows "outgoing (net sk') = outgoing (net sk) @ status_line code @ ''Connection: Keep-Alive'' @ CRLF @
    ''Content-Length: '' @ srs_int2str (int (length error)) @ CRLF @
    ''Content-Type: text/plain; charset=utf-8'' @ CRLF @ ''Server: '' @ RTMP_SIG_SRS_SERVER @ CRLF @ CRLF @ error"
proof -
  let ?h = "set_content_length (int (length error)) (set_content_type ''text/plain; charset=utf-8'' SrsHttpHeader_new)"
  let ?rw = "rw_write_header code (SrsHttpResponseWriter_new\<lparr>hdr := ?h\<rparr>)"
  have run: "rw_write (SrsStSocket_write st_write) (SrsStSocket_writev st_writev) (Some error) ?rw sk = (0, rw', sk')"
    using assms(4) by (simp add: srs_go_http_error_def SrsHttpResponseWriter_new_def Let_def)
  have len: "content_length ?h = int (length error)" using assms(3) by (intro content_length_set) auto
  have rw: "header_wrote ?rw" "\<not> header_sent ?rw" "rw_content_length ?rw = int (length error)" "status ?rw = code"
    "hdr ?rw = ?h" "hf ?rw = None"
    using len by (simp_all add: rw_write_header_def SrsHttpResponseWriter_new_def)
  have "on_wire (outgoing (net sk)) [] (outgoing (net sk)) ?rw" using rw by (simp add: on_wire_def)
  from response_conn.rw_write_Ok [OF st_conn.socket_conn [OF assms(1)] run this] rw(3) assms(2) have
    out: "outgoing (net sk') = outgoing (net sk) @ response_head rw' @ error" by (simp add: on_wire_def framed_def)
  have "status rw' = code \<and> hdr rw' = complete_header (Some error) ?rw"
    using rw_write_head [OF run rw(1,2,6)] rw(4) by simp
  moreover have "header_write (complete_header (Some error) ?rw) = ''Connection: Keep-Alive'' @ CRLF @
    ''Content-Length: '' @ srs_int2str (int (length error)) @ CRLF @
    ''Content-Type: text/plain; charset=utf-8'' @ CRLF @ ''Server: '' @ RTMP_SIG_SRS_SERVER @ CRLF"
    unfolding complete_header_def rw Let_def
    by (simp add: content_type_def set_content_length_def set_content_type_def header_get_set header_set_def
        SrsHttpHeader_new_def header_get_def map_of_smap_set header_write_def RTMP_SIG_SRS_SERVER_def less_char_def)
  ultimately show ?thesis using out by (simp add: response_head_def)
qed

text \<open>In chunked mode \<open>writev\<close> with vectors that are all empty sends the last chunk: it ends
  the body, while a \<open>write\<close> of no bytes sends nothing.\<close>

lemma writev_of_nothing_ends_body:
  assumes "st_conn st_write st_writev outgoing" "header_wrote rw" "header_sent rw" "rw_content_length rw = - 1" "0 < limits"
    "rw_writev (SrsStSocket_write st_write) (SrsStSocket_writev st_writev) limits [[]] rw sk = (ERROR_SUCCESS, rw', sk')"
  shows "outgoing (net sk') = outgoing (net sk) @ chunk_encode [] \<and>
    rw_write (SrsStSocket_write st_write) (SrsStSocket_writev st_writev) (Some []) rw sk = (ERROR_SUCCESS, rw, sk)"
proof -
  have "to_hex 0 = ''0''" by (subst to_hex.simps) (simp add: lower_hex_def char_of_def bit_0)
  with assms(2-4,6) have "srs_write_large_iovs (SrsStSocket_writev st_writev) limits [''0'', CRLF, [], CRLF] sk = (0, sk')"
    by (auto simp: rw_writev_def send_header_def to_int32_def split: prod.splits)
  from response_conn.large_iovs_Ok [OF st_conn.socket_conn [OF assms(1)] this assms(5)] assms(2-4) show ?thesis
    by (simp add: chunk_encode_def rw_write_def send_header_def data_size_def)
qed

end
