(* ===== verification/Http_Message.thy ===== *)
theory Http_Message
  imports Http_Header Http_Uri Http_Body Http_Parser_Types
begin

text \<open>
  \<open>SrsHttpMessage\<close> (\<open>src/src/protocol/srs_protocol_http_conn.cpp\<close>): a parsed request or
  response.  The fields keep the names of the class with the prefix \<open>m_\<close>.  \<open>dest_port\<close> is
  \<open>None\<close> while the member is uninitialised.  \<open>set_url\<close> asks
  \<open>srs_get_public_internet_address\<close> for a host when there is no \<open>Host\<close> field; that
  function has no \<open>return\<close> statement, so what it gives is the argument \<open>public_ip\<close>.
\<close>

section \<open>Definitions\<close>

record SrsHttpMessage =
  m_body :: SrsHttpResponseReader
  m_type :: http_parser_type
  m_method :: http_method
  m_status :: nat
  m_content_length :: int
  m_header :: SrsHttpHeader
  m_keep_alive :: bool
  m_chunked :: bool
  raw_header :: string
  host_no_port :: string
  dest_port :: "int option"
  m_schema :: string
  m_url :: string
  m_ext :: string
  m_uri :: SrsHttpUri
  m_query :: "(string, string) smap"
  m_jsonp :: bool
  jsonp_method :: string

definition SrsHttpMessage_new :: SrsHttpMessage where
  "SrsHttpMessage_new =
     \<lparr>m_body = SrsHttpResponseReader_new, m_type = HTTP_REQUEST, m_method = HTTP_GET, m_status = 200,
      m_content_length = - 1, m_header = SrsHttpHeader_new, m_keep_alive = True, m_chunked = False,
      raw_header = [], host_no_port = [], dest_port = None, m_schema = ''http'', m_url = [], m_ext = [],
      m_uri = SrsHttpUri_new, m_query = [], m_jsonp = False, jsonp_method = []\<rparr>"

definition set_basic :: "http_parser_type \<Rightarrow> http_method \<Rightarrow> nat \<Rightarrow> int \<Rightarrow> SrsHttpMessage \<Rightarrow> SrsHttpMessage" where
  "set_basic type method status len m =
     (let m = m\<lparr>m_type := type, m_method := method, m_status := status\<rparr> in
      if m_content_length m = - 1 then m\<lparr>m_content_length := len\<rparr> else m)"

definition set_header :: "SrsHttpHeader \<Rightarrow> bool \<Rightarrow> SrsHttpMessage \<Rightarrow> SrsHttpMessage" where
  "set_header h keep_alive m =
     (let m = m\<lparr>m_header := h, m_keep_alive := keep_alive,
            m_chunked := (header_get ''Transfer-Encoding'' h = ''chunked'')\<rparr>;
          clv = header_get ''Content-Length'' h;
          m = (if clv \<noteq> [] then m\<lparr>m_content_length := c_atoll clv\<rparr> else m)
      in if \<not> m_chunked m \<and> m_content_length m = - 1 \<and> m_type m = HTTP_REQUEST
         then m\<lparr>m_body := reader_close (m_body m)\<rparr> else m)"

definition query_get :: "string \<Rightarrow> SrsHttpMessage \<Rightarrow> string" where
  "query_get key m = (case smap_get (m_query m) key of None \<Rightarrow> [] | Some v \<Rightarrow> v)"

text \<open>The method as the handlers see it: a JSONP request may name it in the query.\<close>

definition message_method :: "SrsHttpMessage \<Rightarrow> http_method" where
  "message_method m =
     (if m_jsonp m \<and> jsonp_method m \<noteq> [] then
        if jsonp_method m = ''GET'' then HTTP_GET
        else if jsonp_method m = ''PUT'' then HTTP_PUT
        else if jsonp_method m = ''POST'' then HTTP_POST
        else if jsonp_method m = ''DELETE'' then HTTP_DELETE
        else m_method m
      else m_method m)"

definition is_http_get :: "SrsHttpMessage \<Rightarrow> bool" where
  "is_http_get m \<longleftrightarrow> message_method m = HTTP_GET"

definition is_http_put :: "SrsHttpMessage \<Rightarrow> bool" where
  "is_http_put m \<longleftrightarrow> message_method m = HTTP_PUT"

definition is_http_post :: "SrsHttpMessage \<Rightarrow> bool" where
  "is_http_post m \<longleftrightarrow> message_method m = HTTP_POST"

definition is_http_delete :: "SrsHttpMessage \<Rightarrow> bool" where
  "is_http_delete m \<longleftrightarrow> message_method m = HTTP_DELETE"

definition is_http_options :: "SrsHttpMessage \<Rightarrow> bool" where
  "is_http_options m \<longleftrightarrow> m_method m = HTTP_OPTIONS"

definition is_http_connect :: "SrsHttpMessage \<Rightarrow> bool" where
  "is_http_connect m \<longleftrightarrow> m_method m = HTTP_CONNECT"

definition method_str :: "SrsHttpMessage \<Rightarrow> string" where
  "method_str m =
     (if m_jsonp m \<and> jsonp_method m \<noteq> [] then jsonp_method m
      else if is_http_get m then ''GET''
      else if is_http_put m then ''PUT''
      else if is_http_post m then ''POST''
      else if is_http_delete m then ''DELETE''
      else if is_http_options m then ''OPTIONS''
      else ''OTHER'')"

text \<open>The text that \<open>set_url\<close> gives to the URI parser.\<close>

definition request_uri :: "string \<Rightarrow> string \<Rightarrow> SrsHttpMessage \<Rightarrow> string" where
  "request_uri public_ip url m =
     (if srs_string_contains url ''://'' then url
      else
        let host = header_get ''Host'' (m_header m);
            host = (if host = [] then public_ip else host)
        in if host \<noteq> [] then ''http://'' @ host @ url else url)"

definition set_jsonp_method :: "bool \<Rightarrow> SrsHttpMessage \<Rightarrow> SrsHttpMessage" where
  "set_jsonp_method allow_jsonp m =
     (if allow_jsonp then
        let m = (if query_get ''callback'' m \<noteq> [] then m\<lparr>m_jsonp := True\<rparr> else m) in
        if m_jsonp m then m\<lparr>jsonp_method := query_get ''method'' m\<rparr> else m
      else m)"

text \<open>\<open>None\<close> where the URI parser would not return; the code is 0 on success.\<close>

definition set_url :: "string \<Rightarrow> string \<Rightarrow> bool \<Rightarrow> SrsHttpMessage \<Rightarrow> (int \<times> SrsHttpMessage) option" where
  "set_url public_ip url allow_jsonp m =
     (let m = m\<lparr>m_url := url\<rparr> in
      if is_http_connect m then Some (ERROR_SUCCESS, m)
      else
        case SrsHttpUri_initialize (request_uri public_ip url m) (m_uri m) of
          None \<Rightarrow> None
        | Some (code, u) \<Rightarrow>
            let m = m\<lparr>m_uri := u\<rparr> in
            if code \<noteq> ERROR_SUCCESS then Some (code, m)
            else
              let m = m\<lparr>m_ext := srs_path_filext (uri_path u),
                    m_query := srs_parse_query_string (uri_query u) (m_query m)\<rparr>
              in Some (ERROR_SUCCESS, set_jsonp_method allow_jsonp m))"

definition set_https :: "bool \<Rightarrow> SrsHttpMessage \<Rightarrow> SrsHttpMessage" where
  "set_https v m =
     (let m = m\<lparr>m_schema := (if v then ''https'' else ''http'')\<rparr> in
      m\<lparr>m_uri := set_schema (m_schema m) (m_uri m)\<rparr>)"

definition message_host :: "SrsHttpMessage \<Rightarrow> string" where
  "message_host m =
     (if query_get ''vhost'' m \<noteq> [] then query_get ''vhost'' m
      else if query_get ''domain'' m \<noteq> [] then query_get ''domain'' m
      else uri_host (m_uri m))"

definition message_uri :: "SrsHttpMessage \<Rightarrow> string" where
  "message_uri m =
     (let schema = uri_schema (m_uri m) in
      (if schema = [] then ''http'' else schema) @ ''://'' @ message_host m @ uri_path (m_uri m))"

text \<open>The first line of the head that is sent on.\<close>

definition method_name :: "http_method \<Rightarrow> string" where
  "method_name method =
     (if method = HTTP_GET then ''GET''
      else if method = HTTP_POST then ''POST''
      else if method = HTTP_PUT then ''PUT''
      else if method = HTTP_DELETE then ''DELETE''
      else if method = HTTP_OPTIONS then ''OPTIONS''
      else if method = HTTP_CONNECT then ''CONNECT''
      else [])"

definition start_line :: "SrsHttpMessage \<Rightarrow> string" where
  "start_line m =
     (if m_type m = HTTP_REQUEST then method_name (m_method m) @ '' '' @ m_url m @ '' '' @ ''HTTP/1.1'' @ CRLF else []) @
     (if m_type m = HTTP_RESPONSE
      then ''HTTP/1.1 '' @ srs_int2str (int (m_status m)) @ '' '' @ srs_generate_http_status_text (int (m_status m)) @ CRLF
      else [])"

definition restore_http_header :: "SrsHttpMessage \<Rightarrow> SrsHttpMessage" where
  "restore_http_header m = m\<lparr>raw_header := start_line m @ header_write (m_header m) @ CRLF\<rparr>"

text \<open>The destination in \<open>host:port\<close>; the split always has a first piece.\<close>

definition split_dest :: "string \<Rightarrow> int \<Rightarrow> SrsHttpMessage \<Rightarrow> SrsHttpMessage" where
  "split_dest text dflt m =
     (case srs_string_split text '':'' of
        [h] \<Rightarrow> m\<lparr>host_no_port := h, dest_port := Some dflt\<rparr>
      | h # p # _ \<Rightarrow> m\<lparr>host_no_port := h, dest_port := Some (c_atoi p)\<rparr>
      | [] \<Rightarrow> m)"

definition get_host_port :: "SrsHttpMessage \<Rightarrow> SrsHttpMessage" where
  "get_host_port m =
     (if \<not> is_http_connect m then
        (if header_get ''Host'' (m_header m) \<noteq> [] then split_dest (header_get ''Host'' (m_header m)) 80 m else m)
      else split_dest (m_url m) 443 m)"

text \<open>What the body reader asks of its owner, and reading the body.\<close>

definition message_owner :: "SrsHttpMessage \<Rightarrow> body_owner" where
  "message_owner m = \<lparr>is_chunked = m_chunked m, owner_content_length = m_content_length m\<rparr>"

definition body_read_all ::
    "'r reader_fun \<Rightarrow> string \<Rightarrow> SrsHttpMessage \<Rightarrow> SrsFastStream \<Rightarrow> 'r \<Rightarrow> (string \<times> 'r body_result) option" where
  "body_read_all read body m s r = srs_ioutil_read_all read (message_owner m) body (m_body m) s r"

definition body_read_part ::
    "'r reader_fun \<Rightarrow> nat \<Rightarrow> string \<Rightarrow> SrsHttpMessage \<Rightarrow> SrsFastStream \<Rightarrow> 'r \<Rightarrow> (bool \<times> 'r body_result) option" where
  "body_read_part read sz body m s r = srs_ioutil_read_part read (message_owner m) sz body (m_body m) s r"

section \<open>The destination\<close>

lemma str_find_char_None: "c \<notin> set s \<Longrightarrow> str_find s [c] = None"
  by (induction s) auto

lemma str_find_char: "c \<notin> set h \<Longrightarrow> str_find (h @ c # t) [c] = Some (length h)"
  by (induction h) auto

lemma split_char_one: "c \<notin> set s \<Longrightarrow> srs_string_split s [c] = [s]"
  by (simp add: srs_string_split_def split_loop.simps str_find_from_def str_find_char_None)

lemma split_char_Cons: "c \<notin> set h \<Longrightarrow> srs_string_split (h @ c # t) [c] = h # srs_string_split t [c]"
proof -
  assume c: "c \<notin> set h"
  have "split_loop (h @ c # t) [c] (Suc (length h)) = split_loop t [c] 0"
    by (subst split_loop_drop) simp_all
  with c show ?thesis
    by (subst srs_string_split_def, subst split_loop.simps)
      (simp add: str_find_from_def str_find_char srs_string_split_def)
qed

lemma split_dest_plain:
  "CHR '':'' \<notin> set h \<Longrightarrow> split_dest h dflt m = m\<lparr>host_no_port := h, dest_port := Some dflt\<rparr>"
  by (simp add: split_dest_def split_char_one)

lemma split_dest_port:
  assumes "CHR '':'' \<notin> set h" "n < 2 ^ 31"
  shows "split_dest (h @ '':'' @ nat_to_str n) dflt m = m\<lparr>host_no_port := h, dest_port := Some (int n)\<rparr>"
proof -
  have "CHR '':'' \<notin> set (nat_to_str n)" by (rule nat_to_str_not_in) (simp add: is_digit_def)
  with assms show ?thesis by (simp add: split_dest_def split_char_Cons split_char_one c_atoi_nat_to_str)
qed

section \<open>Properties\<close>

text \<open>The destination of a request: a host without a colon goes to port 80, or 443 for
  CONNECT, and \<open>host:port\<close> goes to that port; the host comes from the \<open>Host\<close> field, or from the
  target of CONNECT.  Without a \<open>Host\<close> field the port stays uninitialised.\<close>

lemma destination_of_request:
  assumes "CHR '':'' \<notin> set h" "h \<noteq> []" "n < 65536"
  shows "(\<not> is_http_connect m \<and> header_get ''Host'' (m_header m) = h \<longrightarrow>
      get_host_port m = m\<lparr>host_no_port := h, dest_port := Some 80\<rparr>) \<and>
    (\<not> is_http_connect m \<and> header_get ''Host'' (m_header m) = h @ '':'' @ nat_to_str n \<longrightarrow>
      get_host_port m = m\<lparr>host_no_port := h, dest_port := Some (int n)\<rparr>) \<and>
    (is_http_connect m \<and> m_url m = h \<longrightarrow>
      get_host_port m = m\<lparr>host_no_port := h, dest_port := Some 443\<rparr>) \<and>
    (is_http_connect m \<and> m_url m = h @ '':'' @ nat_to_str n \<longrightarrow>
      get_host_port m = m\<lparr>host_no_port := h, dest_port := Some (int n)\<rparr>) \<and>
    (\<not> is_http_connect m \<and> header_get ''Host'' (m_header m) = [] \<longrightarrow> get_host_port m = m)"
  using assms split_dest_plain [OF assms(1)] split_dest_port [OF assms(1), of n]
  by (auto simp: get_host_port_def)

text \<open>A request without a length and without chunked encoding has no body: whatever is on the
  connection, reading the body returns nothing and touches neither the buffer nor the socket.\<close>

lemma request_without_length_has_no_body:
  assumes "header_get ''Transfer-Encoding'' h \<noteq> ''chunked''" "header_get ''Content-Length'' h = []"
  shows "body_read_all read content (set_header h ka (set_basic HTTP_REQUEST method st (- 1) SrsHttpMessage_new)) s r =
    Some (content, BdOk [] (reader_close SrsHttpResponseReader_new) s r)"
proof -
  let ?m = "set_header h ka (set_basic HTTP_REQUEST method st (- 1) SrsHttpMessage_new)"
  have "m_body ?m = reader_close SrsHttpResponseReader_new"
    using assms by (simp add: set_header_def set_basic_def SrsHttpMessage_new_def Let_def)
  then show ?thesis
    by (simp add: body_read_all_def, subst srs_ioutil_read_all.simps)
      (simp add: reader_read_def reader_close_def is_eof_code_def)
qed

text \<open>The head that is sent on for a request whose method is not one of six has no method:
  its first line starts with a space.\<close>

lemma restore_drops_method:
  assumes "m_type m = HTTP_REQUEST" "m_method m \<notin> {HTTP_GET, HTTP_POST, HTTP_PUT, HTTP_DELETE, HTTP_OPTIONS, HTTP_CONNECT}"
  shows "raw_header (restore_http_header m) = '' '' @ m_url m @ '' HTTP/1.1'' @ CRLF @ header_write (m_header m) @ CRLF"
  using assms by (simp add: restore_http_header_def start_line_def method_name_def)

end
