(* ===== verification/Srs_Http_Parser.thy ===== *)
theory Srs_Http_Parser
  imports Http_Message Http_Parser_Safety
begin

text \<open>
  \<open>SrsHttpParser\<close> (\<open>src/src/protocol/srs_protocol_http_conn.cpp\<close>): it reads from a
  connection into its buffer, feeds \<open>http_parser_execute\<close> and collects the head of one
  message.  The object is the state of the parser's callbacks.  The pointers \<open>p_body_start\<close> and
  \<open>p_header_tail\<close> into the buffer are offsets into its memory; they survive a move of the
  buffered bytes, as the pointers do.  \<open>parse_message_imp\<close> ends with a result, an error code, or a
  crash: a failed assertion of \<open>read_slice\<close> or of \<open>http_parser_execute\<close>.  It loops as long
  as the reader delivers and is a partial function.
\<close>

section \<open>Definitions\<close>

datatype SrsHttpParseState =
    SrsHttpParseStateInit | SrsHttpParseStateStart | SrsHttpParseStateHeaderComplete
  | SrsHttpParseStateBody | SrsHttpParseStateMessageComplete

text \<open>\<open>state >= SrsHttpParseStateHeaderComplete\<close>.\<close>

definition header_completed :: "SrsHttpParseState \<Rightarrow> bool" where
  "header_completed s \<longleftrightarrow> s \<noteq> SrsHttpParseStateInit \<and> s \<noteq> SrsHttpParseStateStart"

record SrsHttpParser =
  sp_parser :: http_parser
  sp_state :: SrsHttpParseState
  sp_buffer :: SrsFastStream
  sp_jsonp :: bool
  field_name :: string
  field_value :: string
  hp_header :: http_parser
  sp_url :: string
  sp_header :: SrsHttpHeader
  sp_type :: http_parser_type
  p_body_start :: "nat option"
  p_header_tail :: "nat option"

text \<open>The record filled with zeros; 0 is not the number of a state, and the field is not read
  before \<open>on_headers_complete\<close> has replaced the record.\<close>

definition http_parser_zero :: http_parser where
  "http_parser_zero = (http_parser_init HTTP_REQUEST)\<lparr>hp_state := s_dead\<rparr>"

definition srs_on_message_begin :: "SrsHttpParser http_cb" where
  "srs_on_message_begin parser obj = (0, parser, obj\<lparr>sp_state := SrsHttpParseStateStart\<rparr>)"

definition srs_on_headers_complete :: "SrsHttpParser http_cb" where
  "srs_on_headers_complete parser obj =
     (0, parser, obj\<lparr>hp_header := parser, sp_state := SrsHttpParseStateHeaderComplete,
        p_body_start := Some (fs_p (sp_buffer obj) + stream_size (sp_buffer obj))\<rparr>)"

definition srs_on_message_complete :: "SrsHttpParser http_cb" where
  "srs_on_message_complete parser obj = (0, parser, obj\<lparr>sp_state := SrsHttpParseStateMessageComplete\<rparr>)"

definition srs_on_url :: "SrsHttpParser http_data_cb" where
  "srs_on_url parser at bs obj =
     (0, parser, obj\<lparr>sp_url := sp_url obj @ bs, p_header_tail := Some (fs_p (sp_buffer obj) + at)\<rparr>)"

definition srs_on_header_field :: "SrsHttpParser http_data_cb" where
  "srs_on_header_field parser at bs obj =
     (let obj = (if field_name obj \<noteq> [] then
                   (if field_name obj = ''Set-Cookie'' \<or> field_name obj = ''set-cookie''
                    then obj\<lparr>sp_header := addCookie (field_value obj) (sp_header obj)\<rparr>
                    else obj\<lparr>sp_header := header_set (field_name obj) (field_value obj) (sp_header obj)\<rparr>)
                     \<lparr>field_name := [], field_value := []\<rparr>
                 else obj)
      in (0, parser, obj\<lparr>field_name := field_name obj @ bs, p_header_tail := Some (fs_p (sp_buffer obj) + at)\<rparr>))"

definition srs_on_header_value :: "SrsHttpParser http_data_cb" where
  "srs_on_header_value parser at bs obj =
     (0, parser,
      if bs \<noteq> [] then obj\<lparr>field_value := field_value obj @ bs, p_header_tail := Some (fs_p (sp_buffer obj) + at)\<rparr>
      else obj)"

definition srs_on_body :: "SrsHttpParser http_data_cb" where
  "srs_on_body parser at bs obj =
     (0, parser, obj\<lparr>sp_state := SrsHttpParseStateBody, p_body_start := Some (fs_p (sp_buffer obj) + at)\<rparr>)"

definition srs_settings :: "SrsHttpParser http_parser_settings" where
  "srs_settings =
     http_parser_settings_init
       \<lparr>on_message_begin := Some srs_on_message_begin, on_url := Some srs_on_url,
        on_header_field := Some srs_on_header_field, on_header_value := Some srs_on_header_value,
        on_headers_complete := Some srs_on_headers_complete, on_body := Some srs_on_body,
        on_message_complete := Some srs_on_message_complete\<rparr>"

definition SrsHttpParser_new :: "(nat \<Rightarrow> char) \<Rightarrow> SrsHttpParser" where
  "SrsHttpParser_new mem =
     \<lparr>sp_parser = http_parser_zero, sp_state = SrsHttpParseStateInit, sp_buffer = SrsFastStream_new 0 mem,
      sp_jsonp = False, field_name = [], field_value = [], hp_header = http_parser_zero, sp_url = [],
      sp_header = SrsHttpHeader_new, sp_type = HTTP_REQUEST, p_body_start = None, p_header_tail = None\<rparr>"

definition SrsHttpParser_initialize :: "http_parser_type \<Rightarrow> SrsHttpParser \<Rightarrow> SrsHttpParser" where
  "SrsHttpParser_initialize type obj =
     obj\<lparr>sp_jsonp := False, sp_type := type, sp_parser := http_parser_init type\<rparr>"

definition set_jsonp :: "bool \<Rightarrow> SrsHttpParser \<Rightarrow> SrsHttpParser" where
  "set_jsonp allow_jsonp obj = obj\<lparr>sp_jsonp := allow_jsonp\<rparr>"

text \<open>The first CR LF CR LF that starts at or behind \<open>tail\<close> and ends at or before \<open>body\<close>.\<close>

definition find_head_end :: "(nat \<Rightarrow> char) \<Rightarrow> nat \<Rightarrow> nat \<Rightarrow> nat option" where
  "find_head_end mem tail body =
     find (\<lambda>p. mem p = CR \<and> mem (p + 1) = LF \<and> mem (p + 2) = CR \<and> mem (p + 3) = LF) [tail..<body - 3]"

text \<open>The number of bytes to take off the buffer; it may be negative.\<close>

definition head_consumed :: "SrsHttpParser \<Rightarrow> nat \<Rightarrow> int" where
  "head_consumed obj consumed =
     (case (p_header_tail obj, p_body_start obj) of
        (Some tail, Some body) \<Rightarrow>
          if fs_p (sp_buffer obj) < body then
            (case find_head_end (fs_mem (sp_buffer obj)) tail body of
               None \<Rightarrow> int consumed
             | Some p \<Rightarrow> int (p + 4) - int (fs_p (sp_buffer obj)))
          else int consumed
      | _ \<Rightarrow> int consumed)"

datatype round_result = RoundMore SrsHttpParser | RoundDone SrsHttpParser | RoundErr int SrsHttpParser | RoundCrash

text \<open>One round of the loop: parse what is buffered and take it off the buffer.\<close>

definition parse_round :: "SrsHttpParser \<Rightarrow> round_result" where
  "parse_round obj =
     (if stream_size (sp_buffer obj) = 0 then RoundMore obj
      else
        case http_parser_execute HTTP_MAX_HEADER_SIZE (sp_parser obj) srs_settings (stream_bytes (sp_buffer obj)) obj of
          Parsed n q obj' \<Rightarrow>
            let obj' = obj'\<lparr>sp_parser := q\<rparr> in
            if hp_http_errno q \<noteq> HPE_OK then RoundErr ERROR_HTTP_PARSE_HEADER obj'
            else
              let consumed = head_consumed obj' n in
              if consumed < 0 then RoundCrash
              else (case read_slice (nat consumed) (sp_buffer obj') of
                      None \<Rightarrow> RoundCrash
                    | Some (_, s) \<Rightarrow>
                        let obj' = obj'\<lparr>sp_buffer := s\<rparr> in
                        if header_completed (sp_state obj') then RoundDone obj' else RoundMore obj')
        | _ \<Rightarrow> RoundCrash)"

datatype 'r imp_result = ImpOk SrsHttpParser 'r | ImpErr int SrsHttpParser 'r | ImpCrash

text \<open>The last header field, which no further field has stored.\<close>

definition store_last_field :: "SrsHttpParser \<Rightarrow> SrsHttpParser" where
  "store_last_field obj =
     (if field_value obj \<noteq> []
      then obj\<lparr>sp_header := header_set (field_name obj) (field_value obj) (sp_header obj)\<rparr> else obj)"

partial_function (option) parse_message_imp :: "'r reader_fun \<Rightarrow> SrsHttpParser \<Rightarrow> 'r \<Rightarrow> 'r imp_result option" where
  "parse_message_imp read obj r =
     (case parse_round obj of
        RoundCrash \<Rightarrow> Some ImpCrash
      | RoundErr e obj' \<Rightarrow> Some (ImpErr e obj' r)
      | RoundDone obj' \<Rightarrow> Some (ImpOk (store_last_field obj') r)
      | RoundMore obj' \<Rightarrow>
          (case grow read (stream_size (sp_buffer obj') + 1) (sp_buffer obj') r of
             FsCrash \<Rightarrow> Some ImpCrash
           | FsErr e (s, r') \<Rightarrow> Some (ImpErr e (obj'\<lparr>sp_buffer := s\<rparr>) r')
           | FsOk (s, r') \<Rightarrow> parse_message_imp read (obj'\<lparr>sp_buffer := s\<rparr>) r'))"

definition reset_request :: "SrsHttpParser \<Rightarrow> SrsHttpParser" where
  "reset_request obj =
     obj\<lparr>sp_state := SrsHttpParseStateInit, hp_header := http_parser_zero, p_body_start := None,
       p_header_tail := None, field_name := [], field_value := [], sp_url := [],
       sp_header := SrsHttpHeader_new, sp_parser := http_parser_init (sp_type obj)\<rparr>"

definition to_int64 :: "int \<Rightarrow> int" where
  "to_int64 i = (i + 2 ^ 63) mod 2 ^ 64 - 2 ^ 63"

datatype 'r parse_result = PmOk SrsHttpMessage SrsHttpParser 'r | PmErr int SrsHttpParser 'r | PmCrash

text \<open>The message made from what the callbacks have collected.\<close>

definition make_message :: "string \<Rightarrow> SrsHttpParser \<Rightarrow> (int \<times> SrsHttpMessage) option" where
  "make_message public_ip obj =
     (let hp = hp_header obj;
          m = set_basic (hp_type hp) (hp_method hp) (hp_status_code hp) (to_int64 (int (hp_content_length hp)))
                SrsHttpMessage_new;
          m = set_header (sp_header obj) (http_should_keep_alive hp) m
      in case (if sp_type obj \<noteq> HTTP_RESPONSE then set_url public_ip (sp_url obj) (sp_jsonp obj) m
               else Some (ERROR_SUCCESS, m)) of
           None \<Rightarrow> None
         | Some (e, m) \<Rightarrow>
             if e \<noteq> ERROR_SUCCESS then Some (e, m)
             else Some (ERROR_SUCCESS,
                    restore_http_header (if sp_type obj = HTTP_REQUEST then get_host_port m else m)))"

definition parse_message :: "string \<Rightarrow> 'r reader_fun \<Rightarrow> SrsHttpParser \<Rightarrow> 'r \<Rightarrow> 'r parse_result option" where
  "parse_message public_ip read obj r =
     map_option (\<lambda>res. case res of
         ImpCrash \<Rightarrow> PmCrash
       | ImpErr e obj' r' \<Rightarrow> PmErr e obj' r'
       | ImpOk obj' r' \<Rightarrow>
           (case make_message public_ip obj' of
              None \<Rightarrow> PmCrash
            | Some (e, m) \<Rightarrow> if e \<noteq> ERROR_SUCCESS then PmErr e obj' r' else PmOk m obj' r'))
       (parse_message_imp read (reset_request obj) r)"

section \<open>The callbacks\<close>

text \<open>What holds of the object while a call parses the buffer \<open>s\<close>: the buffer does not change and
  the two pointers keep their value or point into the bytes being parsed.\<close>

definition in_bytes :: "SrsFastStream \<Rightarrow> nat option \<Rightarrow> nat option \<Rightarrow> bool" where
  "in_bytes s old q \<longleftrightarrow> q = old \<or> (\<exists>a. q = Some a \<and> fs_p s \<le> a \<and> a \<le> fs_p s + stream_size s)"

definition obj_ok :: "SrsFastStream \<Rightarrow> nat option \<Rightarrow> nat option \<Rightarrow> SrsHttpParser \<Rightarrow> bool" where
  "obj_ok s tail body obj \<longleftrightarrow> sp_buffer obj = s \<and> in_bytes s tail (p_header_tail obj) \<and> in_bytes s body (p_body_start obj)"

definition srs_env :: "SrsFastStream \<Rightarrow> SrsHttpParser env" where
  "srs_env s = \<lparr>e_settings = srs_settings, e_max_header_size = HTTP_MAX_HEADER_SIZE, e_data = stream_bytes s\<rparr>"

lemmas srs_callback_defs =
  srs_on_message_begin_def srs_on_headers_complete_def srs_on_message_complete_def srs_on_url_def
  srs_on_header_field_def srs_on_header_value_def srs_on_body_def

interpretation srs_cb: parser_callbacks "srs_env s" "obj_ok s tail body" for s tail body
proof
  fix f u q r q' u'
  assume "Some f \<in> {on_message_begin (e_settings (srs_env s)), on_headers_complete (e_settings (srs_env s)),
        on_message_complete (e_settings (srs_env s)), on_chunk_header (e_settings (srs_env s)),
        on_chunk_complete (e_settings (srs_env s))}"
    and u: "obj_ok s tail body u" "f q u = (r, q', u')"
  then consider "f = srs_on_message_begin" | "f = srs_on_headers_complete" | "f = srs_on_message_complete"
    by (auto simp: srs_env_def srs_settings_def http_parser_settings_init_def)
  then show "q' = q \<and> obj_ok s tail body u'"
    by cases (use u in \<open>auto simp: srs_callback_defs obj_ok_def in_bytes_def\<close>)
next
  fix g u at n q r q' u'
  assume "Some g \<in> {on_url (e_settings (srs_env s)), on_status (e_settings (srs_env s)),
        on_header_field (e_settings (srs_env s)), on_header_value (e_settings (srs_env s)), on_body (e_settings (srs_env s))}"
    and u: "obj_ok s tail body u" "g q at (take n (drop at (e_data (srs_env s)))) u = (r, q', u')"
    and n: "at + n \<le> length (e_data (srs_env s))"
  then consider "g = srs_on_url" | "g = srs_on_header_field" | "g = srs_on_header_value" | "g = srs_on_body"
    by (auto simp: srs_env_def srs_settings_def http_parser_settings_init_def)
  moreover have "at \<le> stream_size s" using n by (simp add: srs_env_def)
  ultimately show "q' = q \<and> obj_ok s tail body u'"
    by cases (use u in \<open>auto simp: srs_callback_defs obj_ok_def in_bytes_def Let_def split: if_splits\<close>)
qed

lemma parser_inv_init: "parser_inv mx (http_parser_init t)"
  by (simp add: parser_inv_def parser_ok_def http_parser_init_def chunk_states_def)

text \<open>The invariant of the object between two rounds.\<close>

definition sp_inv :: "SrsHttpParser \<Rightarrow> bool" where
  "sp_inv obj \<longleftrightarrow> stream_inv (sp_buffer obj) \<and> parser_inv HTTP_MAX_HEADER_SIZE (sp_parser obj)"

lemma execute_srs:
  assumes "sp_inv obj"
  obtains n q obj' where
    "http_parser_execute HTTP_MAX_HEADER_SIZE (sp_parser obj) srs_settings (stream_bytes (sp_buffer obj)) obj = Parsed n q obj'"
    "parser_inv HTTP_MAX_HEADER_SIZE q" "obj_ok (sp_buffer obj) (p_header_tail obj) (p_body_start obj) obj'"
    "n \<le> max 1 (stream_size (sp_buffer obj))"
    "hp_http_errno q = HPE_OK \<and> \<not> hp_upgrade q \<longrightarrow> n = stream_size (sp_buffer obj)"
proof -
  have "obj_ok (sp_buffer obj) (p_header_tail obj) (p_body_start obj) obj" by (simp add: obj_ok_def in_bytes_def)
  with srs_cb.http_parser_execute_ok [of "sp_buffer obj" "sp_parser obj" "p_header_tail obj" "p_body_start obj" obj] assms that
  show ?thesis by (auto simp: srs_env_def sp_inv_def)
qed

section \<open>One round\<close>

lemma find_head_end_Some: "find_head_end mem tail body = Some p \<Longrightarrow> tail \<le> p \<and> p + 4 \<le> body"
  by (auto simp: find_head_end_def find_Some_iff)

text \<open>With pointers set in this round only, the head ends inside the buffer.\<close>

lemma head_consumed_bounds:
  assumes "obj_ok s None None obj" "n \<le> stream_size s"
  shows "0 \<le> head_consumed obj n \<and> head_consumed obj n \<le> int (stream_size s)"
proof (cases "p_header_tail obj")
  case (Some tail)
  show ?thesis
  proof (cases "p_body_start obj")
    case (Some body)
    with assms \<open>p_header_tail obj = Some tail\<close> have
      "sp_buffer obj = s" "fs_p s \<le> tail" "body \<le> fs_p s + stream_size s" by (auto simp: obj_ok_def in_bytes_def)
    with assms(2) Some \<open>p_header_tail obj = Some tail\<close> find_head_end_Some [of "fs_mem s" tail body] show ?thesis
      by (fastforce simp: head_consumed_def split: option.split)
  qed (use assms in \<open>simp add: head_consumed_def split: option.split\<close>)
qed (use assms in \<open>simp add: head_consumed_def\<close>)

lemma parse_round_ok:
  assumes "sp_inv obj"
  shows "case parse_round obj of
      RoundMore obj' \<Rightarrow> sp_inv obj' \<and> nb_buffer (sp_buffer obj') = nb_buffer (sp_buffer obj) \<and>
        suffix (stream_bytes (sp_buffer obj')) (stream_bytes (sp_buffer obj))
    | RoundDone obj' \<Rightarrow> sp_inv obj' \<and> nb_buffer (sp_buffer obj') = nb_buffer (sp_buffer obj) \<and>
        suffix (stream_bytes (sp_buffer obj')) (stream_bytes (sp_buffer obj)) \<and> header_completed (sp_state obj')
    | RoundErr e obj' \<Rightarrow> e = ERROR_HTTP_PARSE_HEADER \<and> sp_buffer obj' = sp_buffer obj
    | RoundCrash \<Rightarrow> p_header_tail obj \<noteq> None \<or> p_body_start obj \<noteq> None"
proof (cases "stream_size (sp_buffer obj) = 0")
  case True
  with assms show ?thesis by (simp add: parse_round_def)
next
  case False
  obtain n q obj1 where ex: "http_parser_execute HTTP_MAX_HEADER_SIZE (sp_parser obj) srs_settings
      (stream_bytes (sp_buffer obj)) obj = Parsed n q obj1" "parser_inv HTTP_MAX_HEADER_SIZE q"
    "obj_ok (sp_buffer obj) (p_header_tail obj) (p_body_start obj) obj1" "n \<le> max 1 (stream_size (sp_buffer obj))"
    using execute_srs [OF assms] by metis
  let ?o = "obj1\<lparr>sp_parser := q\<rparr>" and ?c = "head_consumed (obj1\<lparr>sp_parser := q\<rparr>) n"
  have buf: "sp_buffer ?o = sp_buffer obj" using ex(3) by (simp add: obj_ok_def)
  have inv: "stream_inv (sp_buffer obj)" using assms by (simp add: sp_inv_def)
  show ?thesis
  proof (cases "hp_http_errno q = HPE_OK")
    case False
    with \<open>stream_size (sp_buffer obj) \<noteq> 0\<close> ex(1) buf show ?thesis by (simp add: parse_round_def)
  next
    case ok: True
    show ?thesis
    proof (cases "0 \<le> ?c \<and> ?c \<le> int (stream_size (sp_buffer obj))")
      case True
      then have "nat ?c \<le> stream_size (sp_buffer obj)" by linarith
      with read_slice_refines(1) [OF inv, of "nat ?c"] obtain x s where
        sl: "read_slice (nat ?c) (sp_buffer obj) = Some (x, s)" by auto
      have "nb_buffer s = nb_buffer (sp_buffer obj)" using sl by (auto simp: read_slice_def split: if_splits)
      moreover have "stream_inv s" "suffix (stream_bytes s) (stream_bytes (sp_buffer obj))"
        using read_slice_refines(2) [OF inv sl] by (simp_all add: suffix_drop)
      ultimately show ?thesis
        using False ex(1,2) ok True sl buf by (simp add: parse_round_def Let_def sp_inv_def)
    next
      case bad: False
      have "\<not> (p_header_tail obj = None \<and> p_body_start obj = None)"
      proof
        assume "p_header_tail obj = None \<and> p_body_start obj = None"
        with ex(3) have "obj_ok (sp_buffer obj) None None ?o" by (simp add: obj_ok_def)
        moreover have "n \<le> stream_size (sp_buffer obj)" using ex(4) False by simp
        ultimately show False using head_consumed_bounds bad by blast
      qed
      moreover have "parse_round obj = RoundCrash"
      proof -
        have "read_slice (nat ?c) (sp_buffer obj) = None" if "0 \<le> ?c"
          using read_slice_refines(1) [OF inv, of "nat ?c"] that bad
          by (cases "read_slice (nat ?c) (sp_buffer obj)") auto
        with False ex(1) ok buf bad show ?thesis by (auto simp: parse_round_def Let_def)
      qed
      ultimately show ?thesis by auto
    qed
  qed
qed

section \<open>The loop\<close>

text \<open>What a run of the loop may end with.\<close>

definition imp_outcome :: "('r \<Rightarrow> string) \<Rightarrow> string \<Rightarrow> 'r imp_result \<Rightarrow> bool" where
  "imp_outcome pending bytes res \<longleftrightarrow>
     (case res of
        ImpOk obj' r' \<Rightarrow> sp_inv obj' \<and> header_completed (sp_state obj') \<and>
          suffix (stream_bytes (sp_buffer obj') @ pending r') bytes
      | ImpErr e obj' r' \<Rightarrow> stream_inv (sp_buffer obj') \<and> suffix (stream_bytes (sp_buffer obj') @ pending r') bytes
      | ImpCrash \<Rightarrow> True)"

lemma imp_outcome_suffix: "imp_outcome pending bs res \<Longrightarrow> suffix bs bytes \<Longrightarrow> imp_outcome pending bytes res"
  by (auto simp: imp_outcome_def split: imp_result.splits intro: suffix_order.trans)

lemma store_last_field_frame [simp]:
  "sp_buffer (store_last_field obj) = sp_buffer obj" "sp_parser (store_last_field obj) = sp_parser obj"
  "sp_state (store_last_field obj) = sp_state obj"
  by (simp_all add: store_last_field_def)

context byte_reader
begin

lemma parse_message_imp_total:
  assumes "sp_inv obj"
  shows "\<exists>res. parse_message_imp read obj r = Some res \<and>
    imp_outcome pending (stream_bytes (sp_buffer obj) @ pending r) res"
  using assms
proof (induction "length (pending r)" arbitrary: obj r rule: less_induct)
  case less
  note rd = parse_round_ok [OF less.prems]
  show ?case
  proof (cases "parse_round obj")
    case (RoundMore obj1)
    with rd have o1: "sp_inv obj1" "suffix (stream_bytes (sp_buffer obj1)) (stream_bytes (sp_buffer obj))" by auto
    then have suf: "suffix (stream_bytes (sp_buffer obj1) @ pending r) (stream_bytes (sp_buffer obj) @ pending r)"
      by (auto simp: suffix_def)
    have inv1: "stream_inv (sp_buffer obj1)" using o1(1) by (simp add: sp_inv_def)
    let ?n = "stream_size (sp_buffer obj1) + 1"
    note g = grow_ok [OF inv1, of ?n r]
    show ?thesis
    proof (cases "grow read ?n (sp_buffer obj1) r")
      case (FsOk x)
      obtain s r1 where x: "x = (s, r1)" by (cases x)
      from g FsOk x obtain bs where s: "stream_inv s" "stream_bytes s = stream_bytes (sp_buffer obj1) @ bs"
        "pending r = bs @ pending r1" "?n \<le> stream_size s" by (auto simp: grown_def extends_def)
      from s(2,4) have "bs \<noteq> []" by (auto simp: length_stream_bytes [symmetric] simp del: length_stream_bytes)
      with s(3) have "length (pending r1) < length (pending r)" by (cases bs) auto
      moreover have "sp_inv (obj1\<lparr>sp_buffer := s\<rparr>)" using o1(1) s(1) by (simp add: sp_inv_def)
      ultimately obtain res where "parse_message_imp read (obj1\<lparr>sp_buffer := s\<rparr>) r1 = Some res"
        "imp_outcome pending (stream_bytes s @ pending r1) res" using less.hyps by fastforce
      moreover have "suffix (stream_bytes s @ pending r1) (stream_bytes (sp_buffer obj) @ pending r)"
        using suf s(2,3) by simp
      ultimately show ?thesis
        using RoundMore FsOk x imp_outcome_suffix by (subst parse_message_imp.simps) fastforce
    next
      case (FsErr e x)
      obtain s r1 where x: "x = (s, r1)" by (cases x)
      from g FsErr x have "stream_inv s" "stream_bytes s @ pending r1 = stream_bytes (sp_buffer obj1) @ pending r"
        by (auto simp: grown_def extends_def)
      with suf RoundMore FsErr x show ?thesis
        by (subst parse_message_imp.simps) (simp add: imp_outcome_def)
    next
      case FsCrash
      with g show ?thesis by (simp add: grown_def)
    qed
  next
    case (RoundDone obj1)
    with rd have "sp_inv obj1" "header_completed (sp_state obj1)"
      "suffix (stream_bytes (sp_buffer obj1) @ pending r) (stream_bytes (sp_buffer obj) @ pending r)"
      by (auto simp: suffix_def)
    with RoundDone show ?thesis by (subst parse_message_imp.simps) (simp add: imp_outcome_def sp_inv_def)
  next
    case (RoundErr e obj1)
    with rd less.prems show ?thesis by (subst parse_message_imp.simps) (simp add: imp_outcome_def sp_inv_def)
  next
    case RoundCrash
    then show ?thesis by (subst parse_message_imp.simps) (simp add: imp_outcome_def)
  qed
qed

end

section \<open>Properties\<close>

text \<open>The parser records that calls on any sequence of buffers lead to.\<close>

inductive fed :: "http_parser_type \<Rightarrow> http_parser \<Rightarrow> bool" for t where
  fed_init: "fed t (http_parser_init t)"
| fed_execute: "fed t q \<Longrightarrow>
    http_parser_execute HTTP_MAX_HEADER_SIZE q srs_settings (stream_bytes (sp_buffer obj)) obj = Parsed n q' obj' \<Longrightarrow>
    fed t q'"

lemma fed_inv: "fed t q \<Longrightarrow> parser_inv HTTP_MAX_HEADER_SIZE q"
proof (induction rule: fed.induct)
  case fed_init
  show ?case by (rule parser_inv_init)
next
  case (fed_execute q obj n q' obj')
  have "obj_ok (sp_buffer obj) (p_header_tail obj) (p_body_start obj) obj" by (simp add: obj_ok_def in_bytes_def)
  with srs_cb.http_parser_execute_ok [of "sp_buffer obj" q "p_header_tail obj" "p_body_start obj" obj] fed_execute
  show ?case by (auto simp: srs_env_def)
qed

text \<open>C10. The parser core is total and safe on every input: from the initial record and after any
  sequence of buffers, the next call with the callbacks of \<open>SrsHttpParser\<close> returns without a failed
  assertion or exhausted fuel, consumes at most the buffer (all of it unless there is an error or an
  upgrade), leaves the pointers into the buffer inside it, and keeps the parser's invariant, which
  bounds the bytes of a head by 80 KB and excludes a message that is both chunked and of given
  length.\<close>

theorem http_parser_execute_safe:
  assumes "fed t q" "bytes = stream_bytes (sp_buffer obj)"
  shows "\<exists>n q' obj'. http_parser_execute HTTP_MAX_HEADER_SIZE q srs_settings bytes obj = Parsed n q' obj' \<and>
    n \<le> max 1 (length bytes) \<and> (hp_http_errno q' = HPE_OK \<and> \<not> hp_upgrade q' \<longrightarrow> n = length bytes) \<and>
    obj_ok (sp_buffer obj) (p_header_tail obj) (p_body_start obj) obj' \<and>
    (hp_http_errno q' = HPE_OK \<longrightarrow> hp_nread q' \<le> 80 * 1024) \<and>
    (hp_http_errno q' = HPE_OK \<and> hp_state q' = s_headers_done \<longrightarrow> \<not> ({F_CHUNKED, F_CONTENTLENGTH} \<subseteq> hp_flags q'))"
proof -
  have "obj_ok (sp_buffer obj) (p_header_tail obj) (p_body_start obj) obj" by (simp add: obj_ok_def in_bytes_def)
  with srs_cb.http_parser_execute_ok [of "sp_buffer obj" q "p_header_tail obj" "p_body_start obj" obj]
    fed_inv [OF assms(1)] assms(2) obtain n q' obj' where
    "http_parser_execute HTTP_MAX_HEADER_SIZE q srs_settings bytes obj = Parsed n q' obj'"
    "parser_inv HTTP_MAX_HEADER_SIZE q'" "n \<le> max 1 (length bytes)"
    "hp_http_errno q' = HPE_OK \<and> \<not> hp_upgrade q' \<longrightarrow> n = length bytes"
    "obj_ok (sp_buffer obj) (p_header_tail obj) (p_body_start obj) obj'" by (auto simp: srs_env_def)
  then show ?thesis by (auto simp: parser_inv_def parser_ok_def HTTP_MAX_HEADER_SIZE_def)
qed

theorem http_parser_execute_safe_witness:
  "\<exists>n q' obj'. http_parser_execute HTTP_MAX_HEADER_SIZE (http_parser_init HTTP_REQUEST) srs_settings []
     (SrsHttpParser_new (\<lambda>_. CHR ''x'')) = Parsed n q' obj' \<and> n \<le> 1"
  using http_parser_execute_safe [OF fed_init [of HTTP_REQUEST], of "[]" "SrsHttpParser_new (\<lambda>_. CHR ''x'')"]
  by (auto simp: SrsHttpParser_new_def SrsFastStream_new_def stream_bytes_def)

text \<open>C11. Reading the head of a message returns for every peer that sends finitely many bytes: with
  the head complete, with an error, or by a failed assertion; what is left in the buffer and on the
  connection is a suffix of what was there, so no byte is duplicated or reordered.\<close>

theorem parse_message_imp_returns:
  assumes "st_reading st_read incoming" "sp_inv obj"
  shows "\<exists>res. parse_message_imp (SrsStSocket_read st_read) obj sk = Some res \<and>
    imp_outcome (\<lambda>s. incoming (net s)) (stream_bytes (sp_buffer obj) @ incoming (net sk)) res"
  using byte_reader.parse_message_imp_total [OF st_reading.socket_reader [OF assms(1)] assms(2)] .

theorem parse_message_imp_returns_witness:
  "sp_inv (SrsHttpParser_initialize HTTP_REQUEST (SrsHttpParser_new (\<lambda>_. CHR ''x''))) \<and>
   (\<exists>res. parse_message_imp (SrsStSocket_read script_read)
       (SrsHttpParser_initialize HTTP_REQUEST (SrsHttpParser_new (\<lambda>_. CHR ''x'')))
       (SrsStSocket_init \<lparr>segments = [''GET / HT'', ''TP/1.1''], delivered = []\<rparr>) = Some res)"
proof -
  let ?o = "SrsHttpParser_initialize HTTP_REQUEST (SrsHttpParser_new (\<lambda>_. CHR ''x''))"
  have "sp_inv ?o"
    by (simp add: sp_inv_def SrsHttpParser_initialize_def SrsHttpParser_new_def parser_inv_init stream_inv_new)
  with parse_message_imp_returns [OF script_in.st_reading_axioms this,
      of "SrsStSocket_init \<lparr>segments = [''GET / HT'', ''TP/1.1''], delivered = []\<rparr>"]
  show ?thesis by blast
qed

text \<open>The first round for a message never fails an assertion: the end of the head that it
  computes lies inside the buffer.\<close>

lemma first_round_safe:
  assumes "sp_inv obj"
  shows "parse_round (reset_request obj) \<noteq> RoundCrash"
proof -
  have "sp_inv (reset_request obj)" using assms by (simp add: sp_inv_def reset_request_def parser_inv_init)
  from parse_round_ok [OF this] show ?thesis by (auto simp: reset_request_def)
qed

end
