(* ===== verification/Parser_Runs.thy ===== *)
theory Parser_Runs
  imports Srs_Http_Parser
begin

text \<open>
  Runs of \<open>SrsHttpParser\<close> on given inputs, evaluated by rewriting.  They show what the code does
  with a connection on which messages follow each other without waiting.
\<close>

section \<open>Evaluation\<close>

lemma exec_loop_numeral:
  "exec_loop (numeral k) env p x =
     (if p = length (e_data env) then exec_end env p x
      else (case exec_byte env p x of
              Break p' x' \<Rightarrow> exec_loop (pred_numeral k) env (p' + 1) x'
            | out \<Rightarrow> out))"
  by (simp add: numeral_eq_Suc)

lemma reexecute_numeral:
  "reexecute (numeral k) env p ch x =
     (case switch env p ch x of
        Reexec p' ch' x' \<Rightarrow> reexecute (pred_numeral k) env p' ch' x'
      | out \<Rightarrow> out)"
  by (simp add: numeral_eq_Suc)

lemma header_field_loop_in:
  "p < length (e_data env) \<Longrightarrow> header_field_loop env p ch q =
     (let ch = e_data env ! p; c = TOKEN ch in
      if c = NUL then Some (p, ch, q)
      else (case header_field_char env p ch c q of
              None \<Rightarrow> None
            | Some (p', q') \<Rightarrow> header_field_loop env (p' + 1) ch q'))"
  by (simp add: header_field_loop.simps)

lemmas exec_macros =
  exec_byte_def switch_def COUNT_HEADER_SIZE_def PARSING_HEADER_def UPDATE_STATE_def SET_ERRNO_def fail_def
  STRICT_CHECK_def c_assert_def upd_parser_def add_flag_def after_callback_def CALLBACK_NOTIFY_def
  CALLBACK_DATA_def mark_len_def DATA_header_field_def DATA_header_value_def DATA_url_def DATA_body_def
  DATA_status_def NOTIFY_message_begin_def NOTIFY_message_complete_def NOTIFY_chunk_header_def
  NOTIFY_chunk_complete_def MARK_def RETURN_def reexec_fuel_def exec_end_def mark_count_def Let_def

lemmas exec_actions =
  go_start_req_def first_method_def go_req_method_def method_switch_def go_req_spaces_before_url_def
  go_req_url_def parse_url_char_def IS_URL_CHAR_def normal_url_char_def IS_ALPHA_def go_req_http_start_def
  go_req_http_end_def go_req_line_almost_done_def go_start_res_def go_expect_def digit_of_def go_http_major_def go_http_dot_def go_http_minor_def
  go_res_http_end_def go_res_first_status_code_def go_res_status_code_def go_res_status_start_def
  go_res_status_def reset_message_def IS_NUM_def
  go_header_field_start_def match_literal_def header_field_char_def go_header_field_def
  go_header_value_start_def go_header_value_discard_ws_def hv_content_length_num_def header_value_char_def
  set_header_state_def header_value_end_def go_header_value_def go_header_almost_done_def finished_header_def
  go_header_value_lws_def go_header_value_discard_lws_def headers_complete_def upgrade_value_def
  go_headers_almost_done_def has_body_def new_message_def reset_nread_def go_headers_done_def mark_body_def
  go_body_identity_def go_message_done_def incr_index_def c_str_at_def add_flag_opt_def connection_flag_def
  TOKEN_def STRICT_TOKEN_def tokens_def fail_hs_def IS_HEADER_CHAR_def NEW_MESSAGE_def http_should_keep_alive_def http_message_needs_eof_def
  start_state_def

lemmas exec_callbacks =
  srs_settings_def http_parser_settings_init_def srs_callback_defs

lemmas exec_run = http_parser_execute_def exec_init_def url_state_def exec_loop_numeral reexecute_numeral
  exec_macros exec_actions exec_callbacks header_field_loop_in header_value_loop.simps exec_finish_def

text \<open>A socket on a scripted network, and one read from it into the buffer.\<close>

abbreviation script_sock :: "string list \<Rightarrow> nat \<Rightarrow> script SrsStSocket" where
  "script_sock segs n \<equiv> \<lparr>rtm = - 1, stm = - 1, rbytes = n, sbytes = 0, net = \<lparr>segments = segs, delivered = []\<rparr>\<rparr>"

abbreviation script_socket :: "int \<Rightarrow> int \<Rightarrow> nat \<Rightarrow> string \<Rightarrow> string list \<Rightarrow> nat \<Rightarrow> script SrsStSocket" where
  "script_socket rt st k d segs n \<equiv> \<lparr>rtm = rt, stm = st, rbytes = n, sbytes = k, net = \<lparr>segments = segs, delivered = d\<rparr>\<rparr>"

lemma script_socket_grow:
  assumes "bs \<noteq> []" "stop + length bs \<le> 131072" "start \<le> stop" "need = stop - start + 1"
  shows "grow (SrsStSocket_read script_read) need \<lparr>fs_mem = mem, nb_buffer = 131072, fs_p = start, fs_end = stop\<rparr>
      (script_socket rt st k d (bs # segs) n) =
    FsOk (\<lparr>fs_mem = mem_write stop bs mem, nb_buffer = 131072, fs_p = start, fs_end = stop + length bs\<rparr>,
      script_socket rt st k d segs (n + length bs))"
proof -
  let ?s = "\<lparr>fs_mem = mem, nb_buffer = 131072, fs_p = start, fs_end = stop\<rparr>"
  let ?s' = "\<lparr>fs_mem = mem_write stop bs mem, nb_buffer = 131072, fs_p = start, fs_end = stop + length bs\<rparr>"
  have l: "0 < length bs" using assms(1) by simp
  have rd: "SrsStSocket_read script_read (131072 - stop) (script_socket rt st k d (bs # segs) n) =
      (Ok bs, script_socket rt st k d segs (n + length bs))"
    using assms(1,2) by (auto simp: SrsStSocket_read_def script_read_def)
  have d: "grow_loop (SrsStSocket_read script_read) need ?s' k = FsOk (?s', k)" for k
  proof -
    have "\<not> stop + length bs - start < need" using assms(3,4) l by linarith
    then show ?thesis by (subst grow_loop.simps) simp
  qed
  have "grow_loop (SrsStSocket_read script_read) need ?s (script_socket rt st k d (bs # segs) n) =
      grow_loop (SrsStSocket_read script_read) need ?s' (script_socket rt st k d segs (n + length bs))"
    using assms rd by (subst grow_loop.simps) auto
  moreover have "\<not> stop - start + (131072 - stop) < need" using assms(2,3,4) l by linarith
  ultimately show ?thesis using assms d by (simp add: grow_def make_room_def Let_def)
qed

lemma script_grow:
  assumes "bs \<noteq> []" "stop + length bs \<le> 131072" "start \<le> stop" "need = stop - start + 1"
  shows "grow (SrsStSocket_read script_read) need \<lparr>fs_mem = mem, nb_buffer = 131072, fs_p = start, fs_end = stop\<rparr>
      (script_sock (bs # segs) n) =
    FsOk (\<lparr>fs_mem = mem_write stop bs mem, nb_buffer = 131072, fs_p = start, fs_end = stop + length bs\<rparr>,
      script_sock segs (n + length bs))"
  by (rule script_socket_grow [OF assms])

section \<open>A response that stops the proxy\<close>

text \<open>A response of ten body bytes that end in the middle of a status line, and the start of another
  response; then the rest of that status line and the end of its head.\<close>

definition desync_head :: string where
  "desync_head = ''HTTP/1.1 200 OK'' @ CRLF @ ''Content-Length: 10'' @ CRLF @ CRLF @ ''P/1.1 200 HTT''"

definition desync_rest :: string where
  "desync_rest = ''P/1.1 200 HTTx''"

definition desync_end :: string where
  "desync_end = CRLF @ CRLF"

definition desync_hp :: http_parser where
  "desync_hp = \<lparr>hp_type = HTTP_RESPONSE, hp_flags = {F_CONTENTLENGTH}, hp_state = s_header_almost_done,
     hp_header_state = h_content_length_num, hp_index = 0, hp_lenient = False, hp_nread = 0,
     hp_content_length = 10, hp_http_major = 1, hp_http_minor = 1, hp_status_code = 200,
     hp_method = HTTP_DELETE, hp_http_errno = HPE_OK, hp_upgrade = False\<rparr>"

text \<open>The parser and the object after the first round, with the buffer \<open>s\<close>.\<close>

definition desync_parser :: http_parser where
  "desync_parser = desync_hp\<lparr>hp_flags := {}, hp_state := s_res_HTT, hp_nread := 3, hp_content_length := ULLONG_MAX\<rparr>"

definition desync_obj :: "http_parser \<Rightarrow> SrsFastStream \<Rightarrow> SrsHttpParser" where
  "desync_obj q s = \<lparr>sp_parser = q, sp_state = SrsHttpParseStateStart, sp_buffer = s, sp_jsonp = False,
     field_name = ''Content-Length'', field_value = ''10'', hp_header = desync_hp, sp_url = [],
     sp_header = SrsHttpHeader_new, sp_type = HTTP_RESPONSE, p_body_start = Some 39, p_header_tail = Some 33\<rparr>"

lemma desync_execute1:
  assumes "fs_p s = 0"
  shows "http_parser_execute HTTP_MAX_HEADER_SIZE (http_parser_init HTTP_RESPONSE) srs_settings desync_head
    \<lparr>sp_parser = q0, sp_state = SrsHttpParseStateInit, sp_buffer = s,
      sp_jsonp = False, field_name = [], field_value = [], hp_header = http_parser_zero, sp_url = [],
      sp_header = SrsHttpHeader_new, sp_type = HTTP_RESPONSE, p_body_start = None, p_header_tail = None\<rparr> =
    Parsed 52 desync_parser (desync_obj q0 s)"
  using assms
  by (simp add: exec_run http_parser_init_def desync_head_def HTTP_MAX_HEADER_SIZE_def desync_parser_def
      desync_hp_def desync_obj_def cong: outcome.case_cong_weak)

lemma desync_execute2:
  "http_parser_execute HTTP_MAX_HEADER_SIZE desync_parser srs_settings desync_rest (desync_obj q s) =
    Parsed 14 (desync_parser\<lparr>hp_state := s_res_status, hp_nread := 17\<rparr>) (desync_obj q s)"
  by (simp add: exec_run desync_rest_def HTTP_MAX_HEADER_SIZE_def desync_parser_def
      desync_hp_def cong: outcome.case_cong_weak)

lemma desync_execute3:
  "\<exists>q'. hp_http_errno q' = HPE_OK \<and>
    http_parser_execute HTTP_MAX_HEADER_SIZE (desync_parser\<lparr>hp_state := s_res_status, hp_nread := 17\<rparr>) srs_settings
      desync_end (desync_obj q s) =
    Parsed 4 q' ((desync_obj q s)\<lparr>hp_header := desync_parser\<lparr>hp_state := s_res_status, hp_nread := 17\<rparr>,
      sp_state := SrsHttpParseStateHeaderComplete, p_body_start := Some (fs_p s + stream_size s)\<rparr>)"
  by (simp add: exec_run HTTP_MAX_HEADER_SIZE_def desync_end_def desync_parser_def desync_hp_def desync_obj_def
      cong: outcome.case_cong_weak)

definition desync_mem :: "(nat \<Rightarrow> char) \<Rightarrow> nat \<Rightarrow> char" where
  "desync_mem mem = mem_write 0 desync_head mem"

lemma desync_bytes1:
  "stream_bytes \<lparr>fs_mem = desync_mem mem, nb_buffer = 131072, fs_p = 0, fs_end = 52\<rparr> = desync_head"
proof -
  have "length desync_head = 52" by (simp add: desync_head_def)
  moreover have "map (mem_write 0 bs mem) [0..<length bs] = bs" for bs
    by (rule nth_equalityI) (simp_all add: mem_write_def)
  ultimately show ?thesis by (metis desync_mem_def stream_bytes_def SrsFastStream.select_convs)
qed

lemma desync_bytes2:
  "stream_bytes \<lparr>fs_mem = mem_write 52 ''x'' (desync_mem mem), nb_buffer = 131072, fs_p = 39, fs_end = 53\<rparr> = desync_rest"
  by (simp add: stream_bytes_def desync_mem_def mem_write_def desync_head_def desync_rest_def upt_conv_Cons)

lemma desync_bytes3:
  "stream_bytes \<lparr>fs_mem = mem_write 53 desync_end mem, nb_buffer = 131072, fs_p = 53, fs_end = 57\<rparr> = desync_end"
  by (simp add: stream_bytes_def mem_write_def desync_end_def upt_conv_Cons)

lemma desync_head_end:
  assumes "\<And>i. i < 39 \<Longrightarrow> mem' i = desync_mem mem i" "39 \<le> body"
  shows "find_head_end mem' 33 body = Some 35"
proof -
  have m: "mem' 33 = CHR ''1''" "mem' 34 = CHR ''0''" "mem' 35 = CR" "mem' 36 = LF" "mem' 37 = CR" "mem' 38 = LF"
    using assms(1) by (simp_all add: desync_mem_def mem_write_def desync_head_def)
  have "[33..<body - 3] = 33 # 34 # 35 # [36..<body - 3]" using assms(2) by (simp add: upt_conv_Cons)
  with m show ?thesis by (simp add: find_head_end_def)
qed

lemma desync_round1:
  "parse_round ((reset_request (SrsHttpParser_initialize HTTP_RESPONSE (SrsHttpParser_new mem)))
      \<lparr>sp_buffer := \<lparr>fs_mem = desync_mem mem, nb_buffer = 131072, fs_p = 0, fs_end = 52\<rparr>\<rparr>) =
    RoundMore (desync_obj desync_parser \<lparr>fs_mem = desync_mem mem, nb_buffer = 131072, fs_p = 39, fs_end = 52\<rparr>)"
proof -
  let ?s = "\<lparr>fs_mem = desync_mem mem, nb_buffer = 131072, fs_p = 0, fs_end = 52\<rparr>"
  have "find_head_end (desync_mem mem) 33 39 = Some 35" by (rule desync_head_end) simp_all
  with desync_execute1 [of ?s "http_parser_init HTTP_RESPONSE"] show ?thesis
    by (simp add: parse_round_def stream_size_def desync_bytes1 reset_request_def SrsHttpParser_initialize_def
        SrsHttpParser_new_def head_consumed_def desync_obj_def read_slice_def header_completed_def desync_parser_def
        desync_hp_def)
qed

lemma desync_round2:
  "parse_round (desync_obj desync_parser
      \<lparr>fs_mem = mem_write 52 ''x'' (desync_mem mem), nb_buffer = 131072, fs_p = 39, fs_end = 53\<rparr>) =
    RoundMore (desync_obj (desync_parser\<lparr>hp_state := s_res_status, hp_nread := 17\<rparr>)
      \<lparr>fs_mem = mem_write 52 ''x'' (desync_mem mem), nb_buffer = 131072, fs_p = 53, fs_end = 53\<rparr>)"
proof -
  let ?s = "\<lparr>fs_mem = mem_write 52 ''x'' (desync_mem mem), nb_buffer = 131072, fs_p = 39, fs_end = 53\<rparr>"
  have f: "sp_buffer (desync_obj q s) = s" "sp_parser (desync_obj q s) = q"
    "(desync_obj q s)\<lparr>sp_parser := q'\<rparr> = desync_obj q' s" "(desync_obj q s)\<lparr>sp_buffer := s'\<rparr> = desync_obj q s'"
    "p_body_start (desync_obj q s) = Some 39" "p_header_tail (desync_obj q s) = Some 33"
    "sp_state (desync_obj q s) = SrsHttpParseStateStart" for q q' s s'
    by (simp_all add: desync_obj_def)
  have "hp_http_errno desync_parser = HPE_OK" by (simp add: desync_parser_def desync_hp_def)
  with desync_execute2 [of desync_parser ?s] show ?thesis
    by (simp add: parse_round_def stream_size_def desync_bytes2 head_consumed_def read_slice_def header_completed_def f)
qed

lemma desync_round3:
  "parse_round (desync_obj (desync_parser\<lparr>hp_state := s_res_status, hp_nread := 17\<rparr>)
      \<lparr>fs_mem = mem_write 53 desync_end (mem_write 52 ''x'' (desync_mem mem)), nb_buffer = 131072, fs_p = 53, fs_end = 57\<rparr>) =
    RoundCrash"
proof -
  let ?q = "desync_parser\<lparr>hp_state := s_res_status, hp_nread := 17\<rparr>"
  let ?m = "mem_write 53 desync_end (mem_write 52 ''x'' (desync_mem mem))"
  let ?s = "\<lparr>fs_mem = ?m, nb_buffer = 131072, fs_p = 53, fs_end = 57\<rparr>"
  obtain q' where q': "hp_http_errno q' = HPE_OK"
    "http_parser_execute HTTP_MAX_HEADER_SIZE ?q srs_settings desync_end (desync_obj ?q ?s) =
      Parsed 4 q' ((desync_obj ?q ?s)\<lparr>hp_header := ?q, sp_state := SrsHttpParseStateHeaderComplete,
        p_body_start := Some (fs_p ?s + stream_size ?s)\<rparr>)" using desync_execute3 by blast
  have "find_head_end ?m 33 57 = Some 35" by (rule desync_head_end) (simp_all add: mem_write_def)
  with q' show ?thesis
    by (simp add: parse_round_def stream_size_def desync_bytes3 head_consumed_def desync_obj_def)
qed

section \<open>Requests that follow each other\<close>

definition pipelined :: string where
  "pipelined = ''GET /a HTTP/1.1'' @ CRLF @ CRLF @ ''GET /b HTTP/1.1'' @ CRLF @ CRLF"

lemma pipelined_execute:
  assumes "fs_p s = 0" "stream_size s = 38"
  shows "\<exists>q obj'. http_parser_execute HTTP_MAX_HEADER_SIZE (http_parser_init HTTP_REQUEST) srs_settings pipelined
    \<lparr>sp_parser = q0, sp_state = SrsHttpParseStateInit, sp_buffer = s,
      sp_jsonp = False, field_name = [], field_value = [], hp_header = http_parser_zero, sp_url = [],
      sp_header = SrsHttpHeader_new, sp_type = HTTP_REQUEST, p_body_start = None, p_header_tail = None\<rparr> =
    Parsed 38 q obj' \<and> hp_http_errno q = HPE_OK \<and> sp_buffer obj' = s \<and> sp_url obj' = ''/a/b'' \<and>
    p_body_start obj' = Some 38 \<and> p_header_tail obj' = Some 23 \<and> sp_state obj' = SrsHttpParseStateMessageComplete \<and>
    field_value obj' = []"
  using assms
  by (simp add: exec_run http_parser_init_def pipelined_def HTTP_MAX_HEADER_SIZE_def cong: outcome.case_cong_weak)

lemma pipelined_round:
  "\<exists>obj'. parse_round ((reset_request (SrsHttpParser_initialize HTTP_REQUEST (SrsHttpParser_new mem)))
      \<lparr>sp_buffer := \<lparr>fs_mem = mem_write 0 pipelined mem, nb_buffer = 131072, fs_p = 0, fs_end = 38\<rparr>\<rparr>) = RoundDone obj' \<and>
    sp_url obj' = ''/a/b'' \<and> field_value obj' = [] \<and> stream_size (sp_buffer obj') = 0"
proof -
  let ?m = "mem_write 0 pipelined mem"
  let ?s = "\<lparr>fs_mem = ?m, nb_buffer = 131072, fs_p = 0, fs_end = 38\<rparr>"
  have bytes: "stream_bytes ?s = pipelined"
    by (rule nth_equalityI) (simp_all add: stream_size_def, simp_all add: stream_bytes_def mem_write_def pipelined_def)
  have size: "stream_size ?s = 38" "fs_p ?s = 0" by (simp_all add: stream_size_def)
  obtain q obj' where ex: "http_parser_execute HTTP_MAX_HEADER_SIZE (http_parser_init HTTP_REQUEST) srs_settings pipelined
      \<lparr>sp_parser = http_parser_init HTTP_REQUEST, sp_state = SrsHttpParseStateInit, sp_buffer = ?s,
        sp_jsonp = False, field_name = [], field_value = [], hp_header = http_parser_zero, sp_url = [],
        sp_header = SrsHttpHeader_new, sp_type = HTTP_REQUEST, p_body_start = None, p_header_tail = None\<rparr> =
      Parsed 38 q obj'" "hp_http_errno q = HPE_OK" "sp_buffer obj' = ?s" "sp_url obj' = ''/a/b''"
    "p_body_start obj' = Some 38" "p_header_tail obj' = Some 23" "sp_state obj' = SrsHttpParseStateMessageComplete"
    "field_value obj' = []"
    using pipelined_execute [OF size(2,1), of "http_parser_init HTTP_REQUEST"] by blast
  have "find_head_end ?m 23 38 = Some 34"
    by (simp add: find_head_end_def upt_conv_Cons mem_write_def pipelined_def)
  with ex have "head_consumed (obj'\<lparr>sp_parser := q\<rparr>) 38 = 38" by (simp add: head_consumed_def)
  with ex size show ?thesis
    by (simp add: parse_round_def bytes reset_request_def SrsHttpParser_initialize_def SrsHttpParser_new_def
        read_slice_def header_completed_def) (simp add: stream_size_def)
qed

section \<open>A short response\<close>

definition ok_response :: string where
  "ok_response = ''HTTP/1.1 200 OK'' @ CRLF @ ''Content-Length: 0'' @ CRLF @ CRLF"

lemma ok_response_execute:
  assumes "fs_p s = 0" "stream_size s = 38"
  shows "\<exists>q obj'. http_parser_execute HTTP_MAX_HEADER_SIZE (http_parser_init HTTP_RESPONSE) srs_settings ok_response
    \<lparr>sp_parser = q0, sp_state = SrsHttpParseStateInit, sp_buffer = s,
      sp_jsonp = False, field_name = [], field_value = [], hp_header = http_parser_zero, sp_url = [],
      sp_header = SrsHttpHeader_new, sp_type = HTTP_RESPONSE, p_body_start = None, p_header_tail = None\<rparr> =
    Parsed 38 q obj' \<and> hp_http_errno q = HPE_OK \<and> sp_buffer obj' = s \<and> sp_header obj' = SrsHttpHeader_new \<and>
    p_body_start obj' = Some 38 \<and> p_header_tail obj' = Some 33 \<and> sp_state obj' = SrsHttpParseStateMessageComplete \<and>
    field_name obj' = ''Content-Length'' \<and> field_value obj' = ''0'' \<and> sp_type obj' = HTTP_RESPONSE \<and>
    hp_type (hp_header obj') = HTTP_RESPONSE \<and> hp_status_code (hp_header obj') = 200 \<and> http_should_keep_alive (hp_header obj')"
  using assms
  by (simp add: exec_run http_parser_init_def ok_response_def HTTP_MAX_HEADER_SIZE_def cong: outcome.case_cong_weak)

lemma ok_response_round:
  "\<exists>obj'. parse_round ((reset_request (SrsHttpParser_initialize HTTP_RESPONSE (SrsHttpParser_new mem)))
      \<lparr>sp_buffer := \<lparr>fs_mem = mem_write 0 ok_response mem, nb_buffer = 131072, fs_p = 0, fs_end = 38\<rparr>\<rparr>) = RoundDone obj' \<and>
    sp_header obj' = SrsHttpHeader_new \<and> field_name obj' = ''Content-Length'' \<and> field_value obj' = ''0'' \<and>
    sp_type obj' = HTTP_RESPONSE \<and> hp_type (hp_header obj') = HTTP_RESPONSE \<and>
    hp_status_code (hp_header obj') = 200 \<and> http_should_keep_alive (hp_header obj')"
proof -
  let ?m = "mem_write 0 ok_response mem"
  let ?s = "\<lparr>fs_mem = ?m, nb_buffer = 131072, fs_p = 0, fs_end = 38\<rparr>"
  have bytes: "stream_bytes ?s = ok_response"
    by (rule nth_equalityI) (simp_all add: stream_size_def, simp_all add: stream_bytes_def mem_write_def ok_response_def)
  have size: "stream_size ?s = 38" "fs_p ?s = 0" by (simp_all add: stream_size_def)
  obtain q obj' where ex: "http_parser_execute HTTP_MAX_HEADER_SIZE (http_parser_init HTTP_RESPONSE) srs_settings ok_response
      \<lparr>sp_parser = http_parser_init HTTP_RESPONSE, sp_state = SrsHttpParseStateInit, sp_buffer = ?s,
        sp_jsonp = False, field_name = [], field_value = [], hp_header = http_parser_zero, sp_url = [],
        sp_header = SrsHttpHeader_new, sp_type = HTTP_RESPONSE, p_body_start = None, p_header_tail = None\<rparr> =
      Parsed 38 q obj'" "hp_http_errno q = HPE_OK" "sp_buffer obj' = ?s" "sp_header obj' = SrsHttpHeader_new"
    "p_body_start obj' = Some 38" "p_header_tail obj' = Some 33" "sp_state obj' = SrsHttpParseStateMessageComplete"
    "field_name obj' = ''Content-Length''" "field_value obj' = ''0''" "sp_type obj' = HTTP_RESPONSE"
    "hp_type (hp_header obj') = HTTP_RESPONSE" "hp_status_code (hp_header obj') = 200"
    "http_should_keep_alive (hp_header obj')"
    using ok_response_execute [OF size(2,1), of "http_parser_init HTTP_RESPONSE"] by blast
  have "find_head_end ?m 33 38 = Some 34"
    by (simp add: find_head_end_def upt_conv_Cons mem_write_def ok_response_def)
  with ex have "head_consumed (obj'\<lparr>sp_parser := q\<rparr>) 38 = 38" by (simp add: head_consumed_def)
  with ex size show ?thesis
    by (simp add: parse_round_def bytes reset_request_def SrsHttpParser_initialize_def SrsHttpParser_new_def
        read_slice_def header_completed_def)
qed

lemma ok_response_parsed:
  "\<exists>r obj'. parse_message pip (SrsStSocket_read script_read) (SrsHttpParser_initialize HTTP_RESPONSE (SrsHttpParser_new mem))
      (script_socket rt st k d [ok_response] 0) = Some (PmOk r obj' (script_socket rt st k d [] 38)) \<and> m_keep_alive r \<and> m_status r = 200 \<and>
    \<not> m_chunked r \<and> m_content_length r = 0 \<and> raw_header r = ok_response"
proof -
  let ?o = "reset_request (SrsHttpParser_initialize HTTP_RESPONSE (SrsHttpParser_new mem))"
  let ?s0 = "\<lparr>fs_mem = mem, nb_buffer = 131072, fs_p = 0, fs_end = 0\<rparr>"
  have buf: "sp_buffer ?o = ?s0"
    by (simp add: reset_request_def SrsHttpParser_initialize_def SrsHttpParser_new_def SrsFastStream_new_def
        SRS_DEFAULT_RECV_BUFFER_SIZE_def)
  have len: "length ok_response = 38" "ok_response \<noteq> []" by (simp_all add: ok_response_def)
  have r0: "parse_round ?o = RoundMore ?o" using buf by (simp add: parse_round_def stream_size_def)
  have g: "grow (SrsStSocket_read script_read) (Suc 0) ?s0 (script_socket rt st k d [ok_response] 0) =
      FsOk (\<lparr>fs_mem = mem_write 0 ok_response mem, nb_buffer = 131072, fs_p = 0, fs_end = 38\<rparr>, script_socket rt st k d [] 38)"
    using script_socket_grow [of ok_response 0 0 1 mem rt st 0 k "[]" d] len by simp
  obtain obj' where rd: "parse_round (?o\<lparr>sp_buffer := \<lparr>fs_mem = mem_write 0 ok_response mem, nb_buffer = 131072,
      fs_p = 0, fs_end = 38\<rparr>\<rparr>) = RoundDone obj'" "sp_header obj' = SrsHttpHeader_new"
    "field_name obj' = ''Content-Length''" "field_value obj' = ''0''" "sp_type obj' = HTTP_RESPONSE"
    "hp_type (hp_header obj') = HTTP_RESPONSE" "hp_status_code (hp_header obj') = 200" "http_should_keep_alive (hp_header obj')"
    using ok_response_round by blast
  have "parse_message_imp (SrsStSocket_read script_read) ?o (script_socket rt st k d [ok_response] 0) =
      Some (ImpOk (store_last_field obj') (script_socket rt st k d [] 38))"
    apply (subst parse_message_imp.simps, simp add: r0 buf g stream_size_def)
    apply (subst parse_message_imp.simps, simp add: rd)
    done
  then show ?thesis using rd
    by (simp add: parse_message_def make_message_def store_last_field_def Let_def set_basic_def set_header_def
        SrsHttpMessage_new_def header_set_def header_get_def SrsHttpHeader_new_def restore_http_header_def start_line_def
        header_write_def c_atoll_def c_strtol10_def is_space_def is_digit_def digit_val_def saturate64_def
        ok_response_def srs_int2str_def int_to_str_def nat_to_str.simps digit_char_def char_of_def bit_0 less_eq_char_def
        srs_generate_http_status_text_def status_map_def)
qed

section \<open>Properties\<close>

text \<open>C33. A peer can stop the proxy while its response is read: a response whose body ends with the
  middle of a status line, followed by the first letters of the next response in the same read, then
  one more byte, then an empty line, makes the computed end of the head lie before the read position,
  and the assertion of \<open>read_slice\<close> fails.\<close>

theorem response_desync_crash:
  "parse_message public_ip (SrsStSocket_read script_read)
      (SrsHttpParser_initialize HTTP_RESPONSE (SrsHttpParser_new mem))
      (SrsStSocket_init \<lparr>segments = [desync_head, ''x'', desync_end], delivered = []\<rparr>) = Some PmCrash"
proof -
  let ?o = "reset_request (SrsHttpParser_initialize HTTP_RESPONSE (SrsHttpParser_new mem))"
  let ?s0 = "\<lparr>fs_mem = mem, nb_buffer = 131072, fs_p = 0, fs_end = 0\<rparr>"
  have buf: "sp_buffer ?o = ?s0"
    by (simp add: reset_request_def SrsHttpParser_initialize_def SrsHttpParser_new_def SrsFastStream_new_def
        SRS_DEFAULT_RECV_BUFFER_SIZE_def)
  have len: "length desync_head = 52" "desync_head \<noteq> []" by (simp_all add: desync_head_def)
  have init: "SrsStSocket_init \<lparr>segments = ss, delivered = []\<rparr> = script_sock ss 0" for ss
    by (simp add: SrsStSocket_init_def)
  have f: "sp_buffer (desync_obj q s) = s" "(desync_obj q s)\<lparr>sp_buffer := s'\<rparr> = desync_obj q s'" for q s s'
    by (simp_all add: desync_obj_def)
  have r0: "parse_round ?o = RoundMore ?o" using buf by (simp add: parse_round_def stream_size_def)
  have g1: "grow (SrsStSocket_read script_read) (Suc 0) ?s0 (script_sock [desync_head, ''x'', desync_end] 0) =
      FsOk (\<lparr>fs_mem = desync_mem mem, nb_buffer = 131072, fs_p = 0, fs_end = 52\<rparr>, script_sock [''x'', desync_end] 52)"
    using script_grow [of desync_head 0 0 1 mem 0 "[''x'', desync_end]"] len by (simp add: desync_mem_def)
  have g2: "grow (SrsStSocket_read script_read) 14 \<lparr>fs_mem = m, nb_buffer = 131072, fs_p = 39, fs_end = 52\<rparr>
      (script_sock [''x'', desync_end] 52) =
      FsOk (\<lparr>fs_mem = mem_write 52 ''x'' m, nb_buffer = 131072, fs_p = 39, fs_end = 53\<rparr>, script_sock [desync_end] 53)" for m
    using script_grow [of "''x''" 52 39 14 m 52 "[desync_end]"] by simp
  have g3: "grow (SrsStSocket_read script_read) (Suc 0) \<lparr>fs_mem = m, nb_buffer = 131072, fs_p = 53, fs_end = 53\<rparr>
      (script_sock [desync_end] 53) =
      FsOk (\<lparr>fs_mem = mem_write 53 desync_end m, nb_buffer = 131072, fs_p = 53, fs_end = 57\<rparr>, script_sock [] 57)" for m
    using script_grow [of desync_end 53 53 1 m 53 "[]"] by (simp add: desync_end_def)
  have "parse_message_imp (SrsStSocket_read script_read) ?o (script_sock [desync_head, ''x'', desync_end] 0) = Some ImpCrash"
    apply (subst parse_message_imp.simps, simp add: r0 buf g1 stream_size_def)
    apply (subst parse_message_imp.simps, simp add: desync_round1 f g2 stream_size_def)
    apply (subst parse_message_imp.simps, simp add: desync_round2 f g3 stream_size_def)
    apply (subst parse_message_imp.simps, simp add: desync_round3)
    done
  then show ?thesis unfolding parse_message_def init by simp
qed


end
