(* ===== verification/Http_Mux.thy ===== *)
theory Http_Mux
  imports Http_Writer Http_Message
begin

text \<open>
  Dispatching requests: \<open>SrsHttpServeMux\<close>, \<open>SrsHttpCorsMux\<close> and the handlers
  \<open>SrsHttpRedirectHandler\<close> and \<open>SrsHttpNotFoundHandler\<close>
  (\<open>src/src/protocol/srs_protocol_http_stack.cpp\<close>).  A registered handler is a value of the
  type \<open>'h\<close>; what its \<open>serve_http\<close> does is an argument.  The entries are kept in the order of
  the \<open>std::map\<close>.  The specification of the dispatcher is the longest pattern that matches.
\<close>

section \<open>Definitions\<close>

record 'h SrsHttpMuxEntry =
  explicit_match :: bool
  entry_handler :: 'h
  entry_pattern :: string
  entry_enabled :: bool

record 'h SrsHttpServeMux =
  mux_entries :: "(string, 'h SrsHttpMuxEntry) smap"
  mux_vhosts :: "(string, 'h) smap"

definition SrsHttpServeMux_new :: "'h SrsHttpServeMux" where
  "SrsHttpServeMux_new = \<lparr>mux_entries = [], mux_vhosts = []\<rparr>"

text \<open>The host part of a pattern.\<close>

definition pattern_vhost :: "string \<Rightarrow> string" where
  "pattern_vhost pattern = (case str_find pattern ''/'' of None \<Rightarrow> pattern | Some i \<Rightarrow> take i pattern)"

definition mux_handle :: "string \<Rightarrow> 'h \<Rightarrow> 'h SrsHttpServeMux \<Rightarrow> int \<times> 'h SrsHttpServeMux" where
  "mux_handle pattern h m =
     (if pattern = [] then (ERROR_HTTP_PATTERN_EMPTY, m)
      else if (case smap_get (mux_entries m) pattern of None \<Rightarrow> False | Some e \<Rightarrow> explicit_match e)
      then (ERROR_HTTP_PATTERN_DUPLICATED, m)
      else
        let m = (if hd pattern \<noteq> CHR ''/'' then m\<lparr>mux_vhosts := smap_set (pattern_vhost pattern) h (mux_vhosts m)\<rparr> else m);
            e = \<lparr>explicit_match = True, entry_handler = h, entry_pattern = pattern, entry_enabled = True\<rparr>
        in (ERROR_SUCCESS, m\<lparr>mux_entries := smap_set pattern e (mux_entries m)\<rparr>))"

definition path_match :: "string \<Rightarrow> string \<Rightarrow> bool" where
  "path_match pattern path =
     (if pattern = [] then False
      else if last pattern \<noteq> CHR ''/'' then pattern = path
      else length path \<ge> length pattern \<and> take (length pattern) path = pattern)"

text \<open>The loop over the entries, with the handler and the length of the pattern found so far.\<close>

fun match_loop :: "string \<Rightarrow> (string, 'h SrsHttpMuxEntry) smap \<Rightarrow> nat \<Rightarrow> 'h option \<Rightarrow> 'h option" where
  "match_loop path [] nb_matched h = h"
| "match_loop path ((pattern, e) # es) nb_matched h =
     (if \<not> entry_enabled e \<or> \<not> path_match pattern path then match_loop path es nb_matched h
      else if h = None \<or> length pattern > nb_matched
      then match_loop path es (length pattern) (Some (entry_handler e))
      else match_loop path es nb_matched h)"

definition match_path :: "'h SrsHttpServeMux \<Rightarrow> SrsHttpMessage \<Rightarrow> string" where
  "match_path m r =
     (let path = uri_path (m_uri r) in
      if mux_vhosts m \<noteq> [] \<and> smap_get (mux_vhosts m) (message_host r) \<noteq> None then message_host r @ path else path)"

definition mux_match :: "'h SrsHttpServeMux \<Rightarrow> SrsHttpMessage \<Rightarrow> 'h option" where
  "mux_match m r = match_loop (match_path m r) (mux_entries m) 0 None"

text \<open>A handler that was registered, or the one for status 404.\<close>

datatype 'h mux_target = Registered 'h | NotFoundHandler

definition find_handler :: "'h SrsHttpServeMux \<Rightarrow> SrsHttpMessage \<Rightarrow> 'h mux_target srs" where
  "find_handler m r =
     (if str_find (uri_url (m_uri r)) ''..'' \<noteq> None then Err ERROR_HTTP_URL_NOT_CLEAN
      else Ok (case mux_match m r of None \<Rightarrow> NotFoundHandler | Some h \<Rightarrow> Registered h))"

type_synonym 'w served = "int \<times> SrsHttpResponseWriter \<times> 'w"

definition not_found_serve :: "'w put \<Rightarrow> 'w putv \<Rightarrow> SrsHttpResponseWriter \<Rightarrow> 'w \<Rightarrow> 'w served" where
  "not_found_serve put putv rw w = srs_go_http_error put putv 404 (srs_generate_http_status_text 404) rw w"

text \<open>The errors of the writer are ignored.\<close>

definition redirect_serve ::
    "'w put \<Rightarrow> 'w putv \<Rightarrow> string \<Rightarrow> int \<Rightarrow> SrsHttpMessage \<Rightarrow> SrsHttpResponseWriter \<Rightarrow> 'w \<Rightarrow> 'w served" where
  "redirect_serve put putv url code r rw w =
     (let location = (if uri_query (m_uri r) \<noteq> [] then url @ ''?'' @ uri_query (m_uri r) else url);
          msg = ''Redirect to '' @ location;
          h = set_content_type ''text/plain; charset=utf-8'' (hdr rw);
          h = set_content_length (int (length msg)) h;
          h = header_set ''Location'' location h;
          rw = rw_write_header code (rw\<lparr>hdr := h\<rparr>)
      in case rw_write put putv (Some msg) rw w of (_, rw, w) \<Rightarrow>
         case final_request put putv rw w of (_, rw, w) \<Rightarrow> (ERROR_SUCCESS, rw, w))"

definition mux_serve_http ::
    "('h \<Rightarrow> SrsHttpMessage \<Rightarrow> SrsHttpResponseWriter \<Rightarrow> 'w \<Rightarrow> 'w served) \<Rightarrow> 'w put \<Rightarrow> 'w putv \<Rightarrow>
      'h SrsHttpServeMux \<Rightarrow> SrsHttpMessage \<Rightarrow> SrsHttpResponseWriter \<Rightarrow> 'w \<Rightarrow> 'w served" where
  "mux_serve_http serve put putv m r rw w =
     (case find_handler m r of
        Inl e \<Rightarrow> (e, rw, w)
      | Inr NotFoundHandler \<Rightarrow> not_found_serve put putv rw w
      | Inr (Registered h) \<Rightarrow> serve h r rw w)"

record SrsHttpCorsMux =
  cors_required :: bool
  cors_enabled :: bool

definition SrsHttpCorsMux_initialize :: "bool \<Rightarrow> SrsHttpCorsMux \<Rightarrow> SrsHttpCorsMux" where
  "SrsHttpCorsMux_initialize cros_enabled c = c\<lparr>cors_enabled := cros_enabled\<rparr>"

definition cors_headers :: "SrsHttpHeader \<Rightarrow> SrsHttpHeader" where
  "cors_headers h =
     header_set ''Access-Control-Allow-Headers''
         ''origin,range,accept-encoding,referer,Cache-Control,X-Proxy-Authorization,X-Requested-With,Content-Type''
       (header_set ''Access-Control-Expose-Headers'' ''Server,range,Content-Length,Content-Range''
         (header_set ''Access-Control-Allow-Methods'' ''GET, POST, HEAD, PUT, DELETE, OPTIONS''
           (header_set ''Access-Control-Allow-Origin'' ''*'' h)))"

text \<open>\<open>next\<close> is the \<open>serve_http\<close> of the mux that was given to \<open>initialize\<close>.\<close>

definition cors_serve_http ::
    "(SrsHttpMessage \<Rightarrow> SrsHttpResponseWriter \<Rightarrow> 'w \<Rightarrow> 'w served) \<Rightarrow> 'w put \<Rightarrow> 'w putv \<Rightarrow>
      SrsHttpCorsMux \<Rightarrow> SrsHttpMessage \<Rightarrow> SrsHttpResponseWriter \<Rightarrow> 'w \<Rightarrow> SrsHttpCorsMux \<times> 'w served" where
  "cors_serve_http worker put putv c r rw w =
     (let c = (if cors_enabled c then c\<lparr>cors_required := (header_get ''Origin'' (m_header r) \<noteq> [])\<rparr> else c);
          rw = (if cors_required c then rw\<lparr>hdr := cors_headers (hdr rw)\<rparr> else rw)
      in if is_http_options r then
           let rw = rw\<lparr>hdr := set_content_length 0 (hdr rw)\<rparr>;
               rw = rw_write_header (if cors_enabled c then 200 else 405) rw
           in (c, final_request put putv rw w)
         else (c, worker r rw w))"

section \<open>The longest match\<close>

text \<open>The abstract dispatcher: the handlers of the enabled patterns that match, and the choice of
  the longest.\<close>

definition candidates :: "'h SrsHttpServeMux \<Rightarrow> string \<Rightarrow> string set" where
  "candidates m path = {p. \<exists>e. smap_get (mux_entries m) p = Some e \<and> entry_enabled e \<and> path_match p path}"

definition mux_inv :: "'h SrsHttpServeMux \<Rightarrow> bool" where
  "mux_inv m \<longleftrightarrow> smap_inv (mux_entries m) \<and> smap_inv (mux_vhosts m) \<and>
     (\<forall>(p, e) \<in> set (mux_entries m). p \<noteq> [] \<and> entry_pattern e = p \<and> explicit_match e)"

lemma mux_inv_new: "mux_inv SrsHttpServeMux_new"
  by (simp add: mux_inv_def SrsHttpServeMux_new_def smap_inv_def)

lemma path_match_prefix: "path_match p path \<Longrightarrow> prefix p path"
  by (auto simp: path_match_def take_is_prefix split: if_splits) (metis take_is_prefix)

text \<open>Two patterns of the same length that match the same path are the same pattern.\<close>

lemma path_match_unique: "path_match p path \<Longrightarrow> path_match q path \<Longrightarrow> length p = length q \<Longrightarrow> p = q"
  by (metis path_match_prefix prefix_length_prefix prefix_order.antisym order_refl)

definition matching :: "string \<Rightarrow> (string, 'h SrsHttpMuxEntry) smap \<Rightarrow> (string \<times> 'h) list" where
  "matching path es =
     map (\<lambda>(p, e). (p, entry_handler e)) (filter (\<lambda>(p, e). entry_enabled e \<and> path_match p path) es)"

lemma match_loop_Some:
  "\<exists>p h'. match_loop path es (length p0) (Some h0) = Some h' \<and> (p, h') \<in> insert (p0, h0) (set (matching path es)) \<and>
     (\<forall>x \<in> insert (p0, h0) (set (matching path es)). length (fst x) \<le> length p)"
proof (induction es arbitrary: p0 h0)
  case Nil
  show ?case by (simp add: matching_def)
next
  case (Cons x es)
  obtain q e where x: "x = (q, e)" by (cases x)
  consider "\<not> (entry_enabled e \<and> path_match q path)" | "entry_enabled e" "path_match q path" "length q > length p0"
    | "entry_enabled e" "path_match q path" "length q \<le> length p0" by linarith
  then show ?case
  proof cases
    case 1
    with Cons [of p0 h0] x show ?thesis by (auto simp: matching_def)
  next
    case 2
    then have step: "match_loop path (x # es) (length p0) (Some h0) = match_loop path es (length q) (Some (entry_handler e))"
      and m: "set (matching path (x # es)) = insert (q, entry_handler e) (set (matching path es))"
      using x by (auto simp: matching_def)
    from Cons [of q "entry_handler e"] obtain p h' where
      "match_loop path es (length q) (Some (entry_handler e)) = Some h'"
      "(p, h') \<in> insert (q, entry_handler e) (set (matching path es))"
      "\<forall>x \<in> insert (q, entry_handler e) (set (matching path es)). length (fst x) \<le> length p" by blast
    with 2 show ?thesis unfolding step m by (intro exI [of _ p] exI [of _ h']) auto
  next
    case 3
    then have step: "match_loop path (x # es) (length p0) (Some h0) = match_loop path es (length p0) (Some h0)"
      and m: "set (matching path (x # es)) = insert (q, entry_handler e) (set (matching path es))"
      using x by (auto simp: matching_def)
    from Cons [of p0 h0] obtain p h' where
      "match_loop path es (length p0) (Some h0) = Some h'" "(p, h') \<in> insert (p0, h0) (set (matching path es))"
      "\<forall>x \<in> insert (p0, h0) (set (matching path es)). length (fst x) \<le> length p" by blast
    with 3 show ?thesis unfolding step m by (intro exI [of _ p] exI [of _ h']) auto
  qed
qed

lemma match_loop_None:
  "(matching path es = [] \<and> match_loop path es n None = None) \<or>
   (\<exists>p h'. match_loop path es n None = Some h' \<and> (p, h') \<in> set (matching path es) \<and>
     (\<forall>x \<in> set (matching path es). length (fst x) \<le> length p))"
proof (induction es)
  case (Cons x es)
  obtain q e where x: "x = (q, e)" by (cases x)
  show ?case
  proof (cases "entry_enabled e \<and> path_match q path")
    case True
    then have "set (matching path (x # es)) = insert (q, entry_handler e) (set (matching path es))"
      "match_loop path (x # es) n None = match_loop path es (length q) (Some (entry_handler e))"
      using x by (auto simp: matching_def)
    with match_loop_Some [of path es q "entry_handler e"] show ?thesis by auto
  next
    case False
    with Cons x show ?thesis by (auto simp: matching_def)
  qed
qed (simp add: matching_def)

lemma matching_get:
  assumes "smap_inv (mux_entries m)"
  shows "(p, h) \<in> set (matching path (mux_entries m)) \<longleftrightarrow>
    (\<exists>e. smap_get (mux_entries m) p = Some e \<and> entry_enabled e \<and> path_match p path \<and> entry_handler e = h)"
  using assms by (auto simp: matching_def smap_inv_distinct map_of_eq_Some_iff)

text \<open>The dispatcher finds nothing exactly when there is no candidate, and else the handler of the
  one longest candidate.\<close>

lemma mux_match_longest:
  assumes "mux_inv m"
  shows "(mux_match m r = None \<longleftrightarrow> candidates m (match_path m r) = {}) \<and>
    (mux_match m r = Some h \<longleftrightarrow>
      (\<exists>p e. smap_get (mux_entries m) p = Some e \<and> entry_handler e = h \<and> p \<in> candidates m (match_path m r) \<and>
         (\<forall>q \<in> candidates m (match_path m r). q \<noteq> p \<longrightarrow> length q < length p)))"
proof -
  let ?path = "match_path m r"
  have inv: "smap_inv (mux_entries m)" using assms by (simp add: mux_inv_def)
  have cand: "q \<in> candidates m ?path \<longleftrightarrow> (\<exists>h. (q, h) \<in> set (matching ?path (mux_entries m)))" for q
    by (auto simp: candidates_def matching_get [OF inv])
  consider (none) "matching ?path (mux_entries m) = []" "mux_match m r = None"
    | (some) p h' where "mux_match m r = Some h'" "(p, h') \<in> set (matching ?path (mux_entries m))"
      "\<forall>x \<in> set (matching ?path (mux_entries m)). length (fst x) \<le> length p"
    using match_loop_None [of ?path "mux_entries m" 0] by (auto simp: mux_match_def)
  then show ?thesis
  proof cases
    case none
    then have "candidates m ?path = {}" using cand by auto
    with none show ?thesis by auto
  next
    case some
    then obtain e where e: "smap_get (mux_entries m) p = Some e" "entry_handler e = h'" "p \<in> candidates m ?path"
      using cand matching_get [OF inv] by blast
    have lt: "length q < length p" if "q \<in> candidates m ?path" "q \<noteq> p" for q
    proof -
      from that(1) cand some(3) have "length q \<le> length p" by force
      moreover have "length q \<noteq> length p"
        using that e(3) path_match_unique [of q ?path p] by (auto simp: candidates_def)
      ultimately show ?thesis by simp
    qed
    show ?thesis
    proof (intro conjI iffI)
      assume "mux_match m r = Some h"
      with some(1) e lt show "\<exists>p e. smap_get (mux_entries m) p = Some e \<and> entry_handler e = h \<and>
          p \<in> candidates m ?path \<and> (\<forall>q \<in> candidates m ?path. q \<noteq> p \<longrightarrow> length q < length p)" by auto
    next
      assume "\<exists>p e. smap_get (mux_entries m) p = Some e \<and> entry_handler e = h \<and>
          p \<in> candidates m ?path \<and> (\<forall>q \<in> candidates m ?path. q \<noteq> p \<longrightarrow> length q < length p)"
      then obtain p2 e2 where p2: "smap_get (mux_entries m) p2 = Some e2" "entry_handler e2 = h"
        "p2 \<in> candidates m ?path" "\<forall>q \<in> candidates m ?path. q \<noteq> p2 \<longrightarrow> length q < length p2" by blast
      with lt [of p2] e(3) have "p2 = p" by force
      with p2 e some(1) show "mux_match m r = Some h" by simp
    qed (use some(1) e(3) in auto)
  qed
qed

section \<open>Registering\<close>

lemma mux_handle_cases:
  assumes "mux_inv m"
  shows "(p = [] \<longrightarrow> mux_handle p h m = (ERROR_HTTP_PATTERN_EMPTY, m)) \<and>
    (smap_get (mux_entries m) p \<noteq> None \<longrightarrow> mux_handle p h m = (ERROR_HTTP_PATTERN_DUPLICATED, m)) \<and>
    (p \<noteq> [] \<and> smap_get (mux_entries m) p = None \<longrightarrow>
      (\<exists>m'. mux_handle p h m = (ERROR_SUCCESS, m') \<and> mux_inv m' \<and>
        smap_get (mux_entries m') p = Some \<lparr>explicit_match = True, entry_handler = h, entry_pattern = p, entry_enabled = True\<rparr> \<and>
        (\<forall>q. q \<noteq> p \<longrightarrow> smap_get (mux_entries m') q = smap_get (mux_entries m) q) \<and>
        (hd p = CHR ''/'' \<longrightarrow> mux_vhosts m' = mux_vhosts m)))"
proof (intro conjI impI)
  assume "smap_get (mux_entries m) p \<noteq> None"
  then obtain e where e: "smap_get (mux_entries m) p = Some e" by auto
  with assms have "p \<noteq> []" "explicit_match e" by (auto simp: mux_inv_def dest!: map_of_SomeD)
  with e show "mux_handle p h m = (ERROR_HTTP_PATTERN_DUPLICATED, m)" by (simp add: mux_handle_def)
next
  assume new: "p \<noteq> [] \<and> smap_get (mux_entries m) p = None"
  let ?e = "\<lparr>explicit_match = True, entry_handler = h, entry_pattern = p, entry_enabled = True\<rparr>"
  let ?v = "if hd p \<noteq> CHR ''/'' then smap_set (pattern_vhost p) h (mux_vhosts m) else mux_vhosts m"
  let ?m = "\<lparr>mux_entries = smap_set p ?e (mux_entries m), mux_vhosts = ?v\<rparr>"
  have inv: "smap_inv (mux_entries m)" "smap_inv (mux_vhosts m)" using assms by (auto simp: mux_inv_def)
  have "\<forall>(q, e) \<in> set (smap_set p ?e (mux_entries m)). q \<noteq> [] \<and> entry_pattern e = q \<and> explicit_match e"
  proof clarify
    fix q e assume "(q, e) \<in> set (smap_set p ?e (mux_entries m))"
    then have "map_of (smap_set p ?e (mux_entries m)) q = Some e"
      by (simp add: inv smap_inv_set smap_inv_distinct)
    then have "q = p \<and> e = ?e \<or> (q, e) \<in> set (mux_entries m)"
      by (auto simp: map_of_smap_set split: if_splits dest: map_of_SomeD)
    with assms new show "q \<noteq> [] \<and> entry_pattern e = q \<and> explicit_match e" by (auto simp: mux_inv_def)
  qed
  then have "mux_inv ?m" using inv by (simp add: mux_inv_def smap_inv_set)
  moreover have "mux_handle p h m = (ERROR_SUCCESS, ?m)" using new by (simp add: mux_handle_def Let_def)
  ultimately show "\<exists>m'. mux_handle p h m = (ERROR_SUCCESS, m') \<and> mux_inv m' \<and>
        smap_get (mux_entries m') p = Some ?e \<and>
        (\<forall>q. q \<noteq> p \<longrightarrow> smap_get (mux_entries m') q = smap_get (mux_entries m) q) \<and>
        (hd p = CHR ''/'' \<longrightarrow> mux_vhosts m' = mux_vhosts m)"
    by (auto simp: map_of_smap_set)
qed (simp add: mux_handle_def)

text \<open>The dispatchers that registrations lead to.\<close>

inductive mux_built :: "'h SrsHttpServeMux \<Rightarrow> bool" where
  built_new: "mux_built SrsHttpServeMux_new"
| built_handle: "mux_built m \<Longrightarrow> mux_handle p h m = (e, m') \<Longrightarrow> mux_built m'"

lemma mux_built_inv: "mux_built m \<Longrightarrow> mux_inv m"
proof (induction rule: mux_built.induct)
  case built_new
  show ?case by (rule mux_inv_new)
next
  case (built_handle m p h e m')
  from mux_handle_cases [OF built_handle.IH, of p h] built_handle show ?case
    by (cases "p = []"; cases "smap_get (mux_entries m) p") auto
qed

section \<open>Properties\<close>

text \<open>C37. Dispatch: a URL with two dots in a row is refused; else, for every dispatcher built by
  registrations, the handler of the longest enabled pattern that matches is chosen (there is only
  one), and the handler for status 404 when none matches.\<close>

theorem find_handler_longest:
  assumes "mux_built m"
  shows "find_handler m r =
    (if srs_string_contains (uri_url (m_uri r)) ''..'' then Err ERROR_HTTP_URL_NOT_CLEAN
     else Ok (case mux_match m r of None \<Rightarrow> NotFoundHandler | Some h \<Rightarrow> Registered h)) \<and>
   (mux_match m r = None \<longleftrightarrow> candidates m (match_path m r) = {}) \<and>
   (mux_match m r = Some h \<longleftrightarrow>
      (\<exists>p e. smap_get (mux_entries m) p = Some e \<and> entry_handler e = h \<and> p \<in> candidates m (match_path m r) \<and>
         (\<forall>q \<in> candidates m (match_path m r). q \<noteq> p \<longrightarrow> length q < length p)))"
  using mux_match_longest [OF mux_built_inv [OF assms], of r h]
  by (auto simp: find_handler_def srs_string_contains_def)

theorem find_handler_longest_witness:
  "mux_match (snd (mux_handle ''/api/'' (1 :: nat) SrsHttpServeMux_new))
     (SrsHttpMessage_new\<lparr>m_uri := SrsHttpUri_new\<lparr>uri_path := ''/x''\<rparr>\<rparr>) = None"
proof -
  let ?m = "snd (mux_handle ''/api/'' (1 :: nat) SrsHttpServeMux_new)"
  let ?r = "SrsHttpMessage_new\<lparr>m_uri := SrsHttpUri_new\<lparr>uri_path := ''/x''\<rparr>\<rparr>"
  have m: "mux_built ?m" by (rule built_handle [OF built_new]) (rule surjective_pairing)
  have "candidates ?m (match_path ?m ?r) = {}"
    by (auto simp: candidates_def mux_handle_def SrsHttpServeMux_new_def match_path_def path_match_def)
  with find_handler_longest [OF m, of ?r] show ?thesis by blast
qed



text \<open>A host for which any pattern is registered no longer reaches the patterns without a host:
  its requests never match a pattern that starts with a slash.\<close>

lemma vhost_hides_generic_patterns:
  assumes "smap_get (mux_vhosts m) (message_host r) \<noteq> None" "message_host r \<noteq> []" "hd (message_host r) \<noteq> CHR ''/''"
    "hd p = CHR ''/''" "p \<noteq> []"
  shows "p \<notin> candidates m (match_path m r)"
proof -
  have "match_path m r = message_host r @ uri_path (m_uri r)"
    using assms(1) by (cases "mux_vhosts m") (auto simp: match_path_def)
  moreover have "\<not> prefix p (message_host r @ uri_path (m_uri r))"
    using assms(2-5) by (cases p; cases "message_host r") auto
  ultimately show ?thesis by (auto simp: candidates_def dest: path_match_prefix)
qed

end
