(* ===== verification/Json.thy ===== *)
theory Json
  imports Kernel_Utility
begin

text \<open>
  The JSON values of \<open>src/src/protocol/srs_protocol_json.cpp\<close>: the tree of the embedded parser
  (\<open>json_value\<close>), the classes \<open>SrsJsonAny\<close>, \<open>SrsJsonObject\<close> and \<open>SrsJsonArray\<close>, the
  conversion between them and the writer \<open>dumps\<close>.  The parser itself is in \<open>Json_Parser\<close>.  The type
  \<open>'d\<close> stands for \<open>double\<close>; its printing with \<open>%.2f\<close> is an argument.  A null pointer is
  \<open>None\<close>, and so is a call that fails an \<open>srs_assert\<close> where the result type has no null.
\<close>

section \<open>Definitions\<close>

datatype 'd json_value =
    json_none
  | json_object "(string \<times> 'd json_value) list"
  | json_array "'d json_value list"
  | json_integer int
  | json_double 'd
  | json_string string
  | json_boolean bool
  | json_null

datatype 'd SrsJsonAny =
    SrsJsonString string
  | SrsJsonBoolean bool
  | SrsJsonInteger int
  | SrsJsonNumber 'd
  | SrsJsonNull
  | SrsJsonObject "(string \<times> 'd SrsJsonAny) list"
  | SrsJsonArray "'d SrsJsonAny list"

definition is_string :: "'d SrsJsonAny \<Rightarrow> bool" where
  "is_string a \<longleftrightarrow> (case a of SrsJsonString _ \<Rightarrow> True | _ \<Rightarrow> False)"

definition is_boolean :: "'d SrsJsonAny \<Rightarrow> bool" where
  "is_boolean a \<longleftrightarrow> (case a of SrsJsonBoolean _ \<Rightarrow> True | _ \<Rightarrow> False)"

definition is_number :: "'d SrsJsonAny \<Rightarrow> bool" where
  "is_number a \<longleftrightarrow> (case a of SrsJsonNumber _ \<Rightarrow> True | _ \<Rightarrow> False)"

definition is_integer :: "'d SrsJsonAny \<Rightarrow> bool" where
  "is_integer a \<longleftrightarrow> (case a of SrsJsonInteger _ \<Rightarrow> True | _ \<Rightarrow> False)"

definition is_object :: "'d SrsJsonAny \<Rightarrow> bool" where
  "is_object a \<longleftrightarrow> (case a of SrsJsonObject _ \<Rightarrow> True | _ \<Rightarrow> False)"

definition is_array :: "'d SrsJsonAny \<Rightarrow> bool" where
  "is_array a \<longleftrightarrow> (case a of SrsJsonArray _ \<Rightarrow> True | _ \<Rightarrow> False)"

definition is_null :: "'d SrsJsonAny \<Rightarrow> bool" where
  "is_null a \<longleftrightarrow> (case a of SrsJsonNull \<Rightarrow> True | _ \<Rightarrow> False)"

text \<open>The conversions assert that the dynamic type fits.\<close>

definition to_str :: "'d SrsJsonAny \<Rightarrow> string option" where
  "to_str a = (case a of SrsJsonString s \<Rightarrow> Some s | _ \<Rightarrow> None)"

definition to_boolean :: "'d SrsJsonAny \<Rightarrow> bool option" where
  "to_boolean a = (case a of SrsJsonBoolean b \<Rightarrow> Some b | _ \<Rightarrow> None)"

definition to_integer :: "'d SrsJsonAny \<Rightarrow> int option" where
  "to_integer a = (case a of SrsJsonInteger i \<Rightarrow> Some i | _ \<Rightarrow> None)"

definition to_number :: "'d SrsJsonAny \<Rightarrow> 'd option" where
  "to_number a = (case a of SrsJsonNumber d \<Rightarrow> Some d | _ \<Rightarrow> None)"

definition to_object :: "'d SrsJsonAny \<Rightarrow> (string \<times> 'd SrsJsonAny) list option" where
  "to_object a = (case a of SrsJsonObject ps \<Rightarrow> Some ps | _ \<Rightarrow> None)"

definition to_array :: "'d SrsJsonAny \<Rightarrow> 'd SrsJsonAny list option" where
  "to_array a = (case a of SrsJsonArray xs \<Rightarrow> Some xs | _ \<Rightarrow> None)"

subsection \<open>Objects and arrays\<close>

type_synonym 'd properties = "(string \<times> 'd SrsJsonAny) list"

definition object_count :: "'d properties \<Rightarrow> nat" where
  "object_count ps = length ps"

definition key_at :: "nat \<Rightarrow> 'd properties \<Rightarrow> string option" where
  "key_at i ps = (if i < object_count ps then Some (fst (ps ! i)) else None)"

definition value_at :: "nat \<Rightarrow> 'd properties \<Rightarrow> 'd SrsJsonAny option" where
  "value_at i ps = (if i < object_count ps then Some (snd (ps ! i)) else None)"

text \<open>The first property of the name goes, the new one is appended.\<close>

fun erase_property :: "string \<Rightarrow> 'd properties \<Rightarrow> 'd properties" where
  "erase_property key [] = []"
| "erase_property key ((name, v) # ps) = (if key = name then ps else (name, v) # erase_property key ps)"

definition object_set :: "string \<Rightarrow> 'd SrsJsonAny option \<Rightarrow> 'd properties \<Rightarrow> 'd properties" where
  "object_set key value ps = (case value of None \<Rightarrow> ps | Some v \<Rightarrow> erase_property key ps @ [(key, v)])"

fun get_property :: "string \<Rightarrow> 'd properties \<Rightarrow> 'd SrsJsonAny option" where
  "get_property name [] = None"
| "get_property name ((key, v) # ps) = (if key = name then Some v else get_property name ps)"

definition ensure_property :: "('d SrsJsonAny \<Rightarrow> bool) \<Rightarrow> string \<Rightarrow> 'd properties \<Rightarrow> 'd SrsJsonAny option" where
  "ensure_property ok name ps =
     (case get_property name ps of None \<Rightarrow> None | Some prop \<Rightarrow> if \<not> ok prop then None else Some prop)"

definition ensure_property_string :: "string \<Rightarrow> 'd properties \<Rightarrow> 'd SrsJsonAny option" where
  "ensure_property_string = ensure_property is_string"

definition ensure_property_integer :: "string \<Rightarrow> 'd properties \<Rightarrow> 'd SrsJsonAny option" where
  "ensure_property_integer = ensure_property is_integer"

definition ensure_property_number :: "string \<Rightarrow> 'd properties \<Rightarrow> 'd SrsJsonAny option" where
  "ensure_property_number = ensure_property is_number"

definition ensure_property_boolean :: "string \<Rightarrow> 'd properties \<Rightarrow> 'd SrsJsonAny option" where
  "ensure_property_boolean = ensure_property is_boolean"

definition ensure_property_object :: "string \<Rightarrow> 'd properties \<Rightarrow> 'd SrsJsonAny option" where
  "ensure_property_object = ensure_property is_object"

definition ensure_property_array :: "string \<Rightarrow> 'd properties \<Rightarrow> 'd SrsJsonAny option" where
  "ensure_property_array = ensure_property is_array"

definition array_count :: "'d SrsJsonAny list \<Rightarrow> nat" where
  "array_count xs = length xs"

definition array_at :: "nat \<Rightarrow> 'd SrsJsonAny list \<Rightarrow> 'd SrsJsonAny option" where
  "array_at i xs = (if i < array_count xs then Some (xs ! i) else None)"

definition array_add :: "'d SrsJsonAny \<Rightarrow> 'd SrsJsonAny list \<Rightarrow> 'd SrsJsonAny list" where
  "array_add v xs = xs @ [v]"

subsection \<open>Writing\<close>

definition json_escape_char :: "char \<Rightarrow> string" where
  "json_escape_char c =
     (if c = CHR 0x22 then [CHR 0x5C, CHR 0x22]
      else if c = CHR 0x5C then [CHR 0x5C, CHR 0x5C]
      else if c = CHR 0x08 then [CHR 0x5C, CHR ''b'']
      else if c = CHR 0x0C then [CHR 0x5C, CHR ''f'']
      else if c = CHR 0x0A then [CHR 0x5C, CHR ''n'']
      else if c = CHR 0x0D then [CHR 0x5C, CHR ''r'']
      else if c = CHR 0x09 then [CHR 0x5C, CHR ''t'']
      else [c])"

definition json_serialize_string :: "string \<Rightarrow> string" where
  "json_serialize_string v = CHR 0x22 # concat (map json_escape_char v) @ [CHR 0x22]"

text \<open>A name is written between quotes as it is.\<close>

definition SRS_JFIELD_NAME :: "string \<Rightarrow> string" where
  "SRS_JFIELD_NAME k = CHR 0x22 # k @ [CHR 0x22, CHR '':'']"

fun any_dumps :: "('d \<Rightarrow> string) \<Rightarrow> 'd SrsJsonAny \<Rightarrow> string"
  and object_dumps :: "('d \<Rightarrow> string) \<Rightarrow> 'd properties \<Rightarrow> string"
  and array_dumps :: "('d \<Rightarrow> string) \<Rightarrow> 'd SrsJsonAny list \<Rightarrow> string" where
  "any_dumps fmt (SrsJsonString s) = json_serialize_string s"
| "any_dumps fmt (SrsJsonBoolean b) = (if b then ''true'' else ''false'')"
| "any_dumps fmt (SrsJsonInteger i) = srs_int2str i"
| "any_dumps fmt (SrsJsonNumber d) = take 21 (fmt d)"
| "any_dumps fmt SrsJsonNull = ''null''"
| "any_dumps fmt (SrsJsonObject ps) = ''{'' @ object_dumps fmt ps @ ''}''"
| "any_dumps fmt (SrsJsonArray xs) = ''['' @ array_dumps fmt xs @ '']''"
| "object_dumps fmt [] = []"
| "object_dumps fmt ((name, v) # ps) =
     SRS_JFIELD_NAME name @ any_dumps fmt v @ (if ps = [] then [] else '','') @ object_dumps fmt ps"
| "array_dumps fmt [] = []"
| "array_dumps fmt (v # xs) = any_dumps fmt v @ (if xs = [] then [] else '','') @ array_dumps fmt xs"

subsection \<open>From the parser's tree\<close>

fun srs_json_parse_tree :: "'d json_value option \<Rightarrow> 'd SrsJsonAny option"
  and parse_tree_entries :: "(string \<times> 'd json_value) list \<Rightarrow> 'd properties \<Rightarrow> 'd properties option"
  and parse_tree_items :: "'d json_value list \<Rightarrow> 'd SrsJsonAny list \<Rightarrow> 'd SrsJsonAny list option" where
  "srs_json_parse_tree None = None"
| "srs_json_parse_tree (Some json_null) = Some SrsJsonNull"
| "srs_json_parse_tree (Some (json_string s)) = Some (SrsJsonString s)"
| "srs_json_parse_tree (Some (json_integer i)) = Some (SrsJsonInteger i)"
| "srs_json_parse_tree (Some (json_double d)) = Some (SrsJsonNumber d)"
| "srs_json_parse_tree (Some (json_boolean b)) = Some (SrsJsonBoolean b)"
| "srs_json_parse_tree (Some (json_object es)) = map_option SrsJsonObject (parse_tree_entries es [])"
| "srs_json_parse_tree (Some (json_array xs)) = map_option SrsJsonArray (parse_tree_items xs [])"
| "srs_json_parse_tree (Some json_none) = None"
| "parse_tree_entries [] obj = Some obj"
| "parse_tree_entries ((name, node) # es) obj =
     (case srs_json_parse_tree (Some node) of
        None \<Rightarrow> None
      | Some v \<Rightarrow> parse_tree_entries es (object_set name (Some v) obj))"
| "parse_tree_items [] arr = Some arr"
| "parse_tree_items (node # xs) arr =
     (case srs_json_parse_tree (Some node) of
        None \<Rightarrow> None
      | Some v \<Rightarrow> parse_tree_items xs (array_add v arr))"

section \<open>Properties of an object\<close>

lemma erase_property_id: "name \<notin> fst ` set ps \<Longrightarrow> erase_property name ps = ps"
  by (induction ps) auto

lemma keys_erase_property: "distinct (map fst ps) \<Longrightarrow> fst ` set (erase_property name ps) = fst ` set ps - {name}"
  by (induction name ps rule: erase_property.induct) auto

lemma distinct_erase_property: "distinct (map fst ps) \<Longrightarrow> distinct (map fst (erase_property name ps))"
  by (induction name ps rule: erase_property.induct) (auto simp: keys_erase_property image_iff dest!: keys_erase_property)

lemma get_property_append: "get_property n (ps @ qs) = (case get_property n ps of None \<Rightarrow> get_property n qs | Some v \<Rightarrow> Some v)"
  by (induction n ps rule: get_property.induct) auto

lemma get_property_None: "get_property n ps = None \<longleftrightarrow> n \<notin> fst ` set ps"
  by (induction n ps rule: get_property.induct) auto

lemma get_property_erase: "n \<noteq> key \<Longrightarrow> get_property n (erase_property key ps) = get_property n ps"
  by (induction key ps rule: erase_property.induct) auto

lemma get_property_set:
  assumes "distinct (map fst ps)"
  shows "get_property n (object_set key (Some v) ps) = (if n = key then Some v else get_property n ps)"
proof -
  have "get_property key (erase_property key ps) = None"
    using keys_erase_property [OF assms, of key] by (simp add: get_property_None)
  then show ?thesis
    by (auto simp: object_set_def get_property_append get_property_erase split: option.splits)
qed

lemma distinct_object_set:
  "distinct (map fst ps) \<Longrightarrow> distinct (map fst (object_set key v ps))"
  by (auto simp: object_set_def distinct_erase_property keys_erase_property split: option.splits)

text \<open>What an object built from \<open>entries\<close> holds: the last value of every name.\<close>

lemma object_set_new: "name \<notin> fst ` set ps \<Longrightarrow> object_set name (Some v) ps = ps @ [(name, v)]"
  by (simp add: object_set_def erase_property_id)

end
