(* ===== verification/Json_Parser.thy ===== *)
theory Json_Parser
  imports Json
begin

unbundle bit_operations_syntax

text \<open>
  \<open>json_parse_ex\<close>, the embedded parser of \<open>src/src/protocol/srs_protocol_json.cpp\<close>, and
  \<open>SrsJsonAny::loads\<close>.  The parser is one loop over the bytes with a word of flags; \<open>json_step\<close> is
  one turn of it and \<open>json_loop\<close> the loop.  The chain from \<open>top\<close> over \<open>parent\<close> to the root is a stack of
  frames.  The code runs the loop twice over the text, first to count the children and the bytes of the
  strings and then to fill arrays of these sizes; both runs take the same branches (a number is skipped in
  the second run, up to the byte at which the first run ended it), so that the model runs the loop once and
  builds the tree.  The settings are those of \<open>json_parse\<close>: no comments and no limit of memory.  The type
  \<open>'d\<close> stands for \<open>double\<close>, with the operations in the record \<open>double_ops\<close>; integers wrap at 64 bits.
\<close>

section \<open>Definitions\<close>

record 'd double_ops =
  d_of_int :: "int \<Rightarrow> 'd"
  d_add :: "'d \<Rightarrow> 'd \<Rightarrow> 'd"
  d_mul :: "'d \<Rightarrow> 'd \<Rightarrow> 'd"
  d_div :: "'d \<Rightarrow> 'd \<Rightarrow> 'd"
  d_neg :: "'d \<Rightarrow> 'd"
  d_pow10 :: "int \<Rightarrow> 'd"

datatype 'd jframe =
    FObject "(string \<times> 'd json_value) list" string
  | FArray "'d json_value list"
  | FInteger int
  | FDouble 'd
  | FString string
  | FBoolean bool
  | FNull

record 'd json_state =
  flag_need_comma :: bool
  flag_seek_value :: bool
  flag_escaped :: bool
  flag_string :: bool
  flag_need_colon :: bool
  flag_done :: bool
  flag_num_negative :: bool
  flag_num_zero :: bool
  flag_num_e :: bool
  flag_num_e_got_sign :: bool
  flag_num_e_negative :: bool
  num_digits :: nat
  num_e :: int
  num_fraction :: int
  js_string :: string
  js_top :: "'d jframe list"

text \<open>One turn: the loop goes on at a position, ends, or fails.  \<open>JBad\<close> stands for combinations of flags
  and frames that do not arise, as shown below.\<close>

datatype 'd json_turn = JGo "'d json_state" nat | JBreak "'d json_state" | JFail | JBad

definition uint_max :: int where "uint_max = 4294967295 - 8"

definition wrap64 :: "int \<Rightarrow> int" where
  "wrap64 i = (i + 2 ^ 63) mod 2 ^ 64 - 2 ^ 63"

definition byte_at :: "string \<Rightarrow> nat \<Rightarrow> char" where
  "byte_at s p = (if p < length s then s ! p else CHR 0x00)"

definition json_space :: "char \<Rightarrow> bool" where
  "json_space b \<longleftrightarrow> b = LF \<or> b = SP \<or> b = HT \<or> b = CR"

text \<open>\<open>None\<close> is \<open>0xFF\<close>.\<close>

definition hex_value :: "char \<Rightarrow> nat option" where
  "hex_value c =
     (if is_digit c then Some (digit_val c)
      else if c = CHR ''a'' \<or> c = CHR ''A'' then Some 10
      else if c = CHR ''b'' \<or> c = CHR ''B'' then Some 11
      else if c = CHR ''c'' \<or> c = CHR ''C'' then Some 12
      else if c = CHR ''d'' \<or> c = CHR ''D'' then Some 13
      else if c = CHR ''e'' \<or> c = CHR ''E'' then Some 14
      else if c = CHR ''f'' \<or> c = CHR ''F'' then Some 15
      else None)"

text \<open>Four hexadecimal digits behind position \<open>p\<close>.\<close>

definition hex4 :: "string \<Rightarrow> nat \<Rightarrow> nat option" where
  "hex4 s p =
     (case (hex_value (byte_at s (p + 1)), hex_value (byte_at s (p + 2)),
            hex_value (byte_at s (p + 3)), hex_value (byte_at s (p + 4))) of
        (Some b1, Some b2, Some b3, Some b4) \<Rightarrow> Some (((b1 * 16 + b2) * 16 + b3) * 16 + b4)
      | _ \<Rightarrow> None)"

text \<open>The character behind \<open>\u\<close> at \<open>p\<close>, and the position of its last digit.\<close>

definition json_uchar :: "string \<Rightarrow> nat \<Rightarrow> (nat \<times> nat) option" where
  "json_uchar s p =
     (if length s - p < 4 then None
      else case hex4 s p of
        None \<Rightarrow> None
      | Some u \<Rightarrow>
          if u AND 0xF800 = 0xD800 then
            let p = p + 4 in
            if length s - p < 6 \<or> byte_at s (p + 1) \<noteq> CHR 0x5C \<or> byte_at s (p + 2) \<noteq> CHR ''u'' then None
            else map_option (\<lambda>u2. (0x010000 OR push_bit 10 (u AND 0x3FF) OR (u2 AND 0x3FF), p + 6)) (hex4 s (p + 2))
          else Some (u, p + 4))"

definition json_utf8 :: "nat \<Rightarrow> string" where
  "json_utf8 u =
     map char_of
       (if u \<le> 0x7F then [u]
        else if u \<le> 0x7FF then [0xC0 OR drop_bit 6 u, 0x80 OR (u AND 0x3F)]
        else if u \<le> 0xFFFF then [0xE0 OR drop_bit 12 u, 0x80 OR (drop_bit 6 u AND 0x3F), 0x80 OR (u AND 0x3F)]
        else [0xF0 OR drop_bit 18 u, 0x80 OR (drop_bit 12 u AND 0x3F), 0x80 OR (drop_bit 6 u AND 0x3F),
              0x80 OR (u AND 0x3F)])"

fun frame_value :: "'d jframe \<Rightarrow> 'd json_value" where
  "frame_value (FObject es _) = json_object es"
| "frame_value (FArray xs) = json_array xs"
| "frame_value (FInteger i) = json_integer i"
| "frame_value (FDouble d) = json_double d"
| "frame_value (FString s) = json_string s"
| "frame_value (FBoolean b) = json_boolean b"
| "frame_value FNull = json_null"

subsection \<open>The end of a value\<close>

text \<open>\<open>flag_next\<close>: the value on top is done; \<open>p\<close> is the next position.\<close>

definition json_next :: "nat \<Rightarrow> 'd json_state \<Rightarrow> 'd json_turn" where
  "json_next p st0 =
     (let st = st0\<lparr>flag_need_comma := True\<rparr> in
      case js_top st of
        [] \<Rightarrow> JBad
      | [_] \<Rightarrow> JGo (st\<lparr>flag_done := True\<rparr>) p
      | child # parent # rest \<Rightarrow>
          (case parent of
             FArray xs \<Rightarrow>
               if int (length xs + 1) > uint_max then JFail
               else JGo (st\<lparr>flag_seek_value := True, js_top := FArray (xs @ [frame_value child]) # rest\<rparr>) p
           | FObject es name \<Rightarrow>
               if int (length es + 1) > uint_max then JFail
               else JGo (st\<lparr>js_top := FObject (es @ [(name, frame_value child)]) name # rest\<rparr>) p
           | _ \<Rightarrow> JBad))"

definition new_value :: "'d jframe \<Rightarrow> 'd json_state \<Rightarrow> 'd json_state" where
  "new_value f st = st\<lparr>js_top := f # js_top st\<rparr>"

subsection \<open>Strings\<close>

definition string_add :: "string \<Rightarrow> 'd json_state \<Rightarrow> 'd json_state" where
  "string_add bs st = st\<lparr>js_string := js_string st @ bs\<rparr>"

definition json_escape :: "string \<Rightarrow> nat \<Rightarrow> 'd json_state \<Rightarrow> 'd json_turn" where
  "json_escape s p st0 =
     (let st = st0\<lparr>flag_escaped := False\<rparr>; b = byte_at s p in
      if b = CHR ''b'' then JGo (string_add [CHR 0x08] st) (p + 1)
      else if b = CHR ''f'' then JGo (string_add [CHR 0x0C] st) (p + 1)
      else if b = CHR ''n'' then JGo (string_add [LF] st) (p + 1)
      else if b = CHR ''r'' then JGo (string_add [CR] st) (p + 1)
      else if b = CHR ''t'' then JGo (string_add [HT] st) (p + 1)
      else if b = CHR ''u'' then
        (case json_uchar s p of
           None \<Rightarrow> JFail
         | Some (u, q) \<Rightarrow> JGo (string_add (json_utf8 u) st) (q + 1))
      else JGo (string_add [b] st) (p + 1))"

definition json_in_string :: "string \<Rightarrow> nat \<Rightarrow> 'd json_state \<Rightarrow> 'd json_turn" where
  "json_in_string s p st =
     (let b = byte_at s p in
      if b = CHR 0x00 then JFail
      else if int (length (js_string st)) > uint_max then JFail
      else if flag_escaped st then json_escape s p st
      else if b = CHR 0x5C then JGo (st\<lparr>flag_escaped := True\<rparr>) (p + 1)
      else if b = CHR 0x22 then
        let st = st\<lparr>flag_string := False\<rparr> in
        (case js_top st of
           FString _ # rest \<Rightarrow> json_next (p + 1) (st\<lparr>js_top := FString (js_string st) # rest\<rparr>)
         | FObject es _ # rest \<Rightarrow>
             JGo (st\<lparr>flag_seek_value := True, flag_need_colon := True, js_top := FObject es (js_string st) # rest\<rparr>) (p + 1)
         | _ \<Rightarrow> JBad)
      else JGo (string_add [b] st) (p + 1))"

subsection \<open>Numbers\<close>

definition num_digit :: "nat \<Rightarrow> nat \<Rightarrow> 'd jframe \<Rightarrow> 'd jframe list \<Rightarrow> 'd json_state \<Rightarrow> 'd json_turn" where
  "num_digit d p f rest st0 =
     (let st = st0\<lparr>num_digits := num_digits st0 + 1\<rparr> in
      case f of
        FInteger i \<Rightarrow>
          if \<not> flag_num_e st then
            if flag_num_zero st then JFail
            else
              let st = (if num_digits st = 1 \<and> d = 0 then st\<lparr>flag_num_zero := True\<rparr> else st)
              in JGo (st\<lparr>js_top := FInteger (wrap64 (i * 10 + int d)) # rest\<rparr>) (p + 1)
          else JGo (st\<lparr>flag_num_e_got_sign := True, num_e := wrap64 (num_e st * 10 + int d)\<rparr>) (p + 1)
      | _ \<Rightarrow>
          if flag_num_e st then JGo (st\<lparr>flag_num_e_got_sign := True, num_e := wrap64 (num_e st * 10 + int d)\<rparr>) (p + 1)
          else JGo (st\<lparr>num_fraction := wrap64 (num_fraction st * 10 + int d)\<rparr>) (p + 1))"

text \<open>The sign, and then \<open>flag_next\<close> with \<open>flag_reproc\<close>: the byte is looked at again.\<close>

definition num_finish :: "'d double_ops \<Rightarrow> nat \<Rightarrow> 'd jframe \<Rightarrow> 'd jframe list \<Rightarrow> 'd json_state \<Rightarrow> 'd json_turn" where
  "num_finish D p f rest st =
     (let f' = (if flag_num_negative st then
                  (case f of FInteger i \<Rightarrow> FInteger (wrap64 (- i)) | FDouble x \<Rightarrow> FDouble (d_neg D x) | _ \<Rightarrow> f)
                else f)
      in json_next p (st\<lparr>js_top := f' # rest\<rparr>))"

definition num_end :: "'d double_ops \<Rightarrow> char \<Rightarrow> nat \<Rightarrow> 'd jframe \<Rightarrow> 'd jframe list \<Rightarrow> 'd json_state \<Rightarrow> 'd json_turn" where
  "num_end D b p f rest st =
     (if \<not> flag_num_e st then
        (case f of
           FDouble x \<Rightarrow>
             if num_digits st = 0 then JFail
             else
               let f = FDouble (d_add D x (d_div D (d_of_int D (num_fraction st)) (d_pow10 D (int (num_digits st)))))
               in if b = CHR ''e'' \<or> b = CHR ''E''
                  then JGo (st\<lparr>flag_num_e := True, num_digits := 0, flag_num_zero := False, js_top := f # rest\<rparr>) (p + 1)
                  else num_finish D p f rest st
         | FInteger i \<Rightarrow>
             if b = CHR ''e'' \<or> b = CHR ''E''
             then JGo (st\<lparr>flag_num_e := True, num_digits := 0, flag_num_zero := False,
                          js_top := FDouble (d_of_int D i) # rest\<rparr>) (p + 1)
             else num_finish D p f rest st
         | _ \<Rightarrow> JBad)
      else if num_digits st = 0 then JFail
      else
        (case f of
           FDouble x \<Rightarrow>
             num_finish D p
               (FDouble (d_mul D x (d_pow10 D (if flag_num_e_negative st then - num_e st else num_e st)))) rest st
         | _ \<Rightarrow> JBad))"

definition json_number :: "'d double_ops \<Rightarrow> char \<Rightarrow> nat \<Rightarrow> 'd jframe \<Rightarrow> 'd jframe list \<Rightarrow> 'd json_state \<Rightarrow> 'd json_turn" where
  "json_number D b p f rest st =
     (if is_digit b then num_digit (digit_val b) p f rest st
      else if (b = CHR ''+'' \<or> b = CHR ''-'') \<and> flag_num_e st \<and> \<not> flag_num_e_got_sign st then
        JGo (st\<lparr>flag_num_e_got_sign := True, flag_num_e_negative := (b = CHR ''-'' \<or> flag_num_e_negative st)\<rparr>) (p + 1)
      else
        (case f of
           FInteger i \<Rightarrow>
             if b = CHR ''.'' then
               if num_digits st = 0 then JFail
               else JGo (st\<lparr>num_digits := 0, js_top := FDouble (d_of_int D i) # rest\<rparr>) (p + 1)
             else num_end D b p f rest st
         | _ \<Rightarrow> num_end D b p f rest st))"

subsection \<open>Values and objects\<close>

definition start_number :: "'d json_state \<Rightarrow> 'd json_state" where
  "start_number st =
     (new_value (FInteger 0) st)\<lparr>flag_num_negative := False, flag_num_e := False, flag_num_e_got_sign := False,
        flag_num_e_negative := False, flag_num_zero := False, num_digits := 0, num_fraction := 0, num_e := 0\<rparr>"

definition json_value_start :: "string \<Rightarrow> nat \<Rightarrow> 'd json_state \<Rightarrow> 'd json_turn" where
  "json_value_start s p st0 =
     (let st = st0\<lparr>flag_seek_value := False\<rparr>; b = byte_at s p in
      if b = CHR ''{'' then JGo (new_value (FObject [] []) st) (p + 1)
      else if b = CHR ''['' then JGo ((new_value (FArray []) st)\<lparr>flag_seek_value := True\<rparr>) (p + 1)
      else if b = CHR 0x22 then JGo ((new_value (FString []) st)\<lparr>flag_string := True, js_string := []\<rparr>) (p + 1)
      else if b = CHR ''t'' then
        if length s - p < 3 \<or> byte_at s (p + 1) \<noteq> CHR ''r'' \<or> byte_at s (p + 2) \<noteq> CHR ''u'' \<or> byte_at s (p + 3) \<noteq> CHR ''e''
        then JFail else json_next (p + 4) (new_value (FBoolean True) st)
      else if b = CHR ''f'' then
        if length s - p < 4 \<or> byte_at s (p + 1) \<noteq> CHR ''a'' \<or> byte_at s (p + 2) \<noteq> CHR ''l'' \<or>
           byte_at s (p + 3) \<noteq> CHR ''s'' \<or> byte_at s (p + 4) \<noteq> CHR ''e''
        then JFail else json_next (p + 5) (new_value (FBoolean False) st)
      else if b = CHR ''n'' then
        if length s - p < 3 \<or> byte_at s (p + 1) \<noteq> CHR ''u'' \<or> byte_at s (p + 2) \<noteq> CHR ''l'' \<or> byte_at s (p + 3) \<noteq> CHR ''l''
        then JFail else json_next (p + 4) (new_value FNull st)
      else if is_digit b then JGo (start_number st) p
      else if b = CHR ''-'' then JGo ((start_number st)\<lparr>flag_num_negative := True\<rparr>) (p + 1)
      else JFail)"

definition json_seek :: "string \<Rightarrow> nat \<Rightarrow> 'd json_state \<Rightarrow> 'd json_turn" where
  "json_seek s p st =
     (let b = byte_at s p in
      if json_space b then JGo st (p + 1)
      else if b = CHR '']'' then
        (case js_top st of
           FArray _ # _ \<Rightarrow> json_next (p + 1) (st\<lparr>flag_need_comma := False, flag_seek_value := False\<rparr>)
         | _ \<Rightarrow> JFail)
      else if flag_need_comma st then
        if b = CHR '','' then JGo (st\<lparr>flag_need_comma := False\<rparr>) (p + 1) else JFail
      else if flag_need_colon st then
        if b = CHR '':'' then JGo (st\<lparr>flag_need_colon := False\<rparr>) (p + 1) else JFail
      else json_value_start s p st)"

definition json_in_object :: "char \<Rightarrow> nat \<Rightarrow> 'd json_state \<Rightarrow> 'd json_turn" where
  "json_in_object b p st =
     (if json_space b then JGo st (p + 1)
      else if b = CHR 0x22 then
        if flag_need_comma st then JFail else JGo (st\<lparr>flag_string := True, js_string := []\<rparr>) (p + 1)
      else if b = CHR ''}'' then json_next (p + 1) (st\<lparr>flag_need_comma := False\<rparr>)
      else if b = CHR '','' \<and> flag_need_comma st then JGo (st\<lparr>flag_need_comma := False\<rparr>) (p + 1)
      else JFail)"

subsection \<open>The loop\<close>

definition json_step :: "'d double_ops \<Rightarrow> string \<Rightarrow> nat \<Rightarrow> 'd json_state \<Rightarrow> 'd json_turn" where
  "json_step D s p st =
     (let b = byte_at s p in
      if flag_string st then json_in_string s p st
      else if flag_done st then
        if b = CHR 0x00 then JBreak st else if json_space b then JGo st (p + 1) else JFail
      else if flag_seek_value st then json_seek s p st
      else
        (case js_top st of
           FObject _ _ # _ \<Rightarrow> json_in_object b p st
         | FInteger i # rest \<Rightarrow> json_number D b p (FInteger i) rest st
         | FDouble x # rest \<Rightarrow> json_number D b p (FDouble x) rest st
         | _ \<Rightarrow> JBad))"

text \<open>A byte is looked at again only when a number starts or ends at it; \<open>json_rank\<close> falls then.\<close>

fun number_frame :: "'d jframe \<Rightarrow> bool" where
  "number_frame (FInteger _) = True"
| "number_frame (FDouble _) = True"
| "number_frame _ = False"

definition json_rank :: "'d json_state \<Rightarrow> nat" where
  "json_rank st =
     (if flag_string st \<or> flag_done st then 0
      else if flag_seek_value st then (if flag_need_comma st \<or> flag_need_colon st then 0 else 2)
      else case js_top st of f # _ \<Rightarrow> if number_frame f then 1 else 0 | [] \<Rightarrow> 0)"

lemma json_next_JGo:
  "json_next p st = JGo st' p' \<Longrightarrow> p' = p \<and> json_rank st' = 0"
  by (auto simp: json_next_def json_rank_def Let_def split: list.splits jframe.splits if_splits)

lemma json_uchar_progress: "json_uchar s p = Some (u, q) \<Longrightarrow> p < q"
  by (auto simp: json_uchar_def Let_def split: if_splits option.splits)

lemma json_escape_progress: "json_escape s p st = JGo st' p' \<Longrightarrow> p < p'"
  by (auto simp: json_escape_def Let_def split: if_splits option.splits dest!: json_uchar_progress)

lemma json_in_string_progress: "json_in_string s p st = JGo st' p' \<Longrightarrow> p < p'"
  by (auto simp: json_in_string_def Let_def split: if_splits list.splits jframe.splits
      dest: json_escape_progress json_next_JGo)

lemma json_number_progress:
  assumes "json_number D b p f rest st = JGo st' p'"
  shows "p < p' \<or> p' = p \<and> json_rank st' = 0"
proof -
  have fin: "num_finish D p f rest st = JGo st' p' \<Longrightarrow> p' = p \<and> json_rank st' = 0" for f
    by (auto simp: num_finish_def Let_def dest: json_next_JGo)
  have dig: "num_digit d p f rest st = JGo st' p' \<Longrightarrow> p < p'" for d f
    by (auto simp: num_digit_def Let_def split: jframe.splits if_splits)
  have stop: "num_end D b p f rest st = JGo st' p' \<Longrightarrow> p < p' \<or> p' = p \<and> json_rank st' = 0" for f
    by (auto simp: num_end_def Let_def split: jframe.splits if_splits dest: fin)
  from assms show ?thesis
    by (auto simp: json_number_def split: if_splits jframe.splits dest: dig stop)
qed

lemma json_rank_start_number:
  "\<not> flag_string st \<Longrightarrow> \<not> flag_done st \<Longrightarrow> \<not> flag_seek_value st \<Longrightarrow> json_rank (start_number st) = 1"
  by (simp add: json_rank_def start_number_def new_value_def)

lemma json_seek_progress:
  assumes "json_seek s p st = JGo st' p'" "\<not> flag_string st" "\<not> flag_done st" "flag_seek_value st"
  shows "p < p' \<or> p' = p \<and> json_rank st' < json_rank st"
proof -
  have start: "p < p' \<or> p' = p \<and> json_rank st' = 1" if "json_value_start s p st = JGo st' p'"
    using that assms(2,3)
    by (auto simp: json_value_start_def Let_def json_rank_start_number split: if_splits dest: json_next_JGo)
  show ?thesis
    using assms by (auto simp: json_seek_def Let_def json_rank_def split: if_splits list.splits jframe.splits
        dest: start json_next_JGo)
qed

lemma json_step_progress:
  assumes "json_step D s p st = JGo st' p'"
  shows "p < p' \<or> p' = p \<and> json_rank st' < json_rank st"
proof -
  have num: "p < p' \<or> p' = p \<and> json_rank st' < json_rank st"
    if "json_number D b p f rest st = JGo st' p'" "json_rank st = 1" for b f rest
    using json_number_progress [OF that(1)] that(2) by auto
  have obj: "p < p'" if "json_in_object b p st = JGo st' p'" for b
    using that by (auto simp: json_in_object_def split: if_splits dest: json_next_JGo)
  show ?thesis
  proof (cases "flag_string st \<or> flag_done st \<or> flag_seek_value st")
    case True
    with assms show ?thesis
      by (auto simp: json_step_def Let_def split: if_splits dest: json_in_string_progress json_seek_progress)
  next
    case False
    then have "json_rank st = 1" if "js_top st = f # rest" "number_frame f" for f rest
      using that by (simp add: json_rank_def)
    with assms False show ?thesis
      by (auto simp: json_step_def Let_def split: list.splits jframe.splits dest: obj num)
  qed
qed

lemma json_rank_bound: "json_rank st \<le> 2"
  by (auto simp: json_rank_def split: list.splits)

function json_loop :: "'d double_ops \<Rightarrow> string \<Rightarrow> nat \<Rightarrow> 'd json_state \<Rightarrow> 'd json_turn" where
  "json_loop D s p st =
     (if p > length s then JBad
      else case json_step D s p st of
        JGo st' p' \<Rightarrow> json_loop D s p' st'
      | r \<Rightarrow> r)"
  by pat_completeness auto
termination
proof (relation "measure (\<lambda>(D, s, p, st). 3 * (length s + 1 - p) + json_rank st)", goal_cases)
  case (2 D s p st st' p')
  then have "p < p' \<or> p' = p \<and> json_rank st' < json_rank st" by (auto dest: json_step_progress)
  with 2 json_rank_bound [of st'] show ?case by auto
qed simp

declare json_loop.simps [simp del]

definition json_init :: "'d json_state" where
  "json_init =
     \<lparr>flag_need_comma = False, flag_seek_value = True, flag_escaped = False, flag_string = False,
      flag_need_colon = False, flag_done = False, flag_num_negative = False, flag_num_zero = False, flag_num_e = False,
      flag_num_e_got_sign = False, flag_num_e_negative = False, num_digits = 0, num_e = 0, num_fraction = 0,
      js_string = [], js_top = []\<rparr>"

definition skip_bom :: "string \<Rightarrow> string" where
  "skip_bom s =
     (if length s \<ge> 3 \<and> s ! 0 = CHR 0xEF \<and> s ! 1 = CHR 0xBB \<and> s ! 2 = CHR 0xBF then drop 3 s else s)"

definition json_run :: "'d double_ops \<Rightarrow> string \<Rightarrow> 'd json_turn" where
  "json_run D s = json_loop D (skip_bom s) 0 json_init"

definition json_parse :: "'d double_ops \<Rightarrow> string \<Rightarrow> 'd json_value option" where
  "json_parse D s =
     (case json_run D s of
        JBreak st \<Rightarrow> (case js_top st of f # _ \<Rightarrow> Some (frame_value f) | [] \<Rightarrow> None)
      | _ \<Rightarrow> None)"

definition loads :: "'d double_ops \<Rightarrow> string \<Rightarrow> 'd SrsJsonAny option" where
  "loads D s = (if s = [] then None else srs_json_parse_tree (json_parse D s))"

end
