(* ===== verification/Json_Text.thy ===== *)
theory Json_Text
  imports Json_Parser
begin

text \<open>
  What the JSON parser guarantees: it never looks behind the terminator of the text and never gets into
  a combination of flags without code, and it reads back what \<open>dumps\<close> writes.
\<close>

section \<open>The states that arise\<close>

fun parent_frame :: "'d jframe \<Rightarrow> bool" where
  "parent_frame (FObject _ _) = True"
| "parent_frame (FArray _) = True"
| "parent_frame _ = False"

fun open_frame :: "bool \<Rightarrow> 'd jframe list \<Rightarrow> bool" where
  "open_frame e (FObject _ _ # _) = True"
| "open_frame e (FInteger _ # _) = (\<not> e)"
| "open_frame e (FDouble _ # _) = True"
| "open_frame e _ = False"

fun string_frame :: "'d jframe list \<Rightarrow> bool" where
  "string_frame (FObject _ _ # _) = True"
| "string_frame (FString _ # _) = True"
| "string_frame _ = False"

definition json_ok :: "'d json_state \<Rightarrow> bool" where
  "json_ok st \<longleftrightarrow> list_all parent_frame (tl (js_top st)) \<and> (flag_done st \<longrightarrow> js_top st \<noteq> [] \<and> \<not> flag_string st) \<and>
     (if flag_string st then string_frame (js_top st)
      else flag_done st \<or> (if flag_seek_value st then list_all parent_frame (js_top st)
                           else open_frame (flag_num_e st) (js_top st)))"

definition turn_ok :: "nat \<Rightarrow> 'd json_turn \<Rightarrow> bool" where
  "turn_ok n r = (case r of JGo st p \<Rightarrow> json_ok st \<and> p \<le> n | JBreak st \<Rightarrow> js_top st \<noteq> [] | JFail \<Rightarrow> True | JBad \<Rightarrow> False)"

lemma turn_ok_simps [simp]:
  "turn_ok n (JGo st p) \<longleftrightarrow> json_ok st \<and> p \<le> n" "turn_ok n (JBreak st) \<longleftrightarrow> js_top st \<noteq> []" "turn_ok n JFail" "\<not> turn_ok n JBad"
  by (simp_all add: turn_ok_def)

lemma byte_at_inside: "byte_at s p \<noteq> CHR 0x00 \<Longrightarrow> p < length s"
  by (simp add: byte_at_def split: if_splits)

lemma json_next_ok:
  assumes "js_top st \<noteq> []" "list_all parent_frame (tl (js_top st))" "\<not> flag_string st" "\<not> flag_done st" "p \<le> n"
  shows "turn_ok n (json_next p st)"
proof (cases "js_top st")
  case (Cons f fs)
  show ?thesis
  proof (cases fs)
    case Nil
    with Cons assms show ?thesis by (simp add: json_next_def json_ok_def)
  next
    case more: (Cons g gs)
    with Cons assms show ?thesis by (cases g) (simp_all add: json_next_def json_ok_def Let_def)
  qed
qed (use assms in simp)

lemma hex_value_inside: "hex_value (byte_at s p) = Some v \<Longrightarrow> p < length s"
proof -
  assume "hex_value (byte_at s p) = Some v"
  then have "byte_at s p \<noteq> CHR 0x00" by (auto simp: hex_value_def is_digit_def less_eq_char_def)
  then show "p < length s" by (rule byte_at_inside)
qed

lemma hex4_inside: "hex4 s p = Some u \<Longrightarrow> p + 4 < length s"
  by (auto simp: hex4_def split: option.splits dest: hex_value_inside)

lemma json_uchar_inside: "json_uchar s p = Some (u, q) \<Longrightarrow> q < length s"
proof -
  assume "json_uchar s p = Some (u, q)"
  then have "hex4 s p \<noteq> None \<and> q = p + 4 \<or> hex4 s (p + 6) \<noteq> None \<and> q = p + 10"
    by (auto simp: json_uchar_def Let_def add.commute split: if_splits option.splits)
  then show ?thesis by (auto dest: hex4_inside)
qed

lemma json_escape_ok:
  assumes "json_ok st" "flag_string st" "p < length s"
  shows "turn_ok (length s) (json_escape s p st)"
proof -
  have "json_ok (string_add bs (st\<lparr>flag_escaped := False\<rparr>))" for bs
    using assms by (simp add: json_ok_def string_add_def)
  then show ?thesis
    using assms(3) by (auto simp: json_escape_def Let_def split: option.splits dest: json_uchar_inside)
qed

lemma json_in_string_ok:
  assumes "json_ok st" "flag_string st"
  shows "turn_ok (length s) (json_in_string s p st)"
proof (cases "byte_at s p = CHR 0x00")
  case True
  then show ?thesis by (simp add: json_in_string_def)
next
  case False
  then have p: "p < length s" by (rule byte_at_inside)
  obtain f fs where st: "js_top st = f # fs" "list_all parent_frame fs" "string_frame (f # fs)" "\<not> flag_done st"
    using assms by (cases "js_top st") (auto simp: json_ok_def)
  have stop: "turn_ok (length s) (case f of FString _ \<Rightarrow> json_next (p + 1) (st\<lparr>flag_string := False, js_top := FString (js_string st) # fs\<rparr>)
      | FObject es _ \<Rightarrow> JGo (st\<lparr>flag_string := False, flag_seek_value := True, flag_need_colon := True,
          js_top := FObject es (js_string st) # fs\<rparr>) (p + 1) | _ \<Rightarrow> JBad)"
    using st p by (cases f) (auto simp: json_ok_def intro: json_next_ok)
  have "json_ok (string_add bs st)" "json_ok (st\<lparr>flag_escaped := True\<rparr>)" for bs
    using assms by (simp_all add: json_ok_def string_add_def)
  with False p json_escape_ok [OF assms p] stop st show ?thesis
    by (cases f) (simp_all add: json_in_string_def Let_def)
qed

lemma json_number_ok:
  assumes "json_ok st" "\<not> flag_string st" "\<not> flag_done st" "\<not> flag_seek_value st" "js_top st = f # rest" "number_frame f"
    "p \<le> length s" "b = byte_at s p"
  shows "turn_ok (length s) (json_number D b p f rest st)"
proof -
  have rest: "list_all parent_frame rest" and e: "open_frame (flag_num_e st) (f # rest)"
    using assms by (simp_all add: json_ok_def)
  have fin: "turn_ok (length s) (num_finish D p g rest st)" for g
    using assms rest by (auto simp: num_finish_def Let_def intro!: json_next_ok)
  have step: "p + 1 \<le> length s" if "b \<noteq> CHR 0x00" using that assms(8) byte_at_inside [of s p] by simp
  have dig: "turn_ok (length s) (num_digit d p f rest st)" if "b \<noteq> CHR 0x00" for d
    using assms(1-6) rest e step [OF that] by (cases f) (auto simp: num_digit_def Let_def json_ok_def)
  have stop: "turn_ok (length s) (num_end D b p f rest st)"
    using assms(1-6) rest e step fin by (cases f) (auto simp: num_end_def Let_def json_ok_def)
  have sgn: "json_ok (st\<lparr>flag_num_e_got_sign := True, flag_num_e_negative := x\<rparr>)" for x
    using assms(1-4) by (simp add: json_ok_def)
  have dot: "json_ok (st\<lparr>num_digits := 0, js_top := FDouble x # rest\<rparr>)" for x
    using assms(1-4) rest by (simp add: json_ok_def)
  have "is_digit b \<Longrightarrow> b \<noteq> CHR 0x00" by (auto simp: is_digit_def less_eq_char_def)
  then show ?thesis
    using step dig stop sgn dot assms(6) by (cases f) (auto simp: json_number_def)
qed

lemma json_value_start_ok:
  assumes "json_ok st" "\<not> flag_string st" "\<not> flag_done st" "flag_seek_value st" "p \<le> length s"
  shows "turn_ok (length s) (json_value_start s p st)"
proof -
  have top: "list_all parent_frame (js_top st)" using assms by (simp add: json_ok_def)
  have next_ok: "turn_ok (length s) (json_next q (new_value f (st\<lparr>flag_seek_value := False\<rparr>)))" if "q \<le> length s" for q f
    using that top assms by (intro json_next_ok) (simp_all add: new_value_def)
  have in1: "Suc p \<le> length s" if "byte_at s p = c" "c \<noteq> CHR 0x00" for c
    using that byte_at_inside [of s p] by auto
  have in4: "p + 4 \<le> length s" if "byte_at s (p + 3) = CHR ''e'' \<or> byte_at s (p + 3) = CHR ''l''"
    using that byte_at_inside [of s "p + 3"] by auto
  have in5: "p + 5 \<le> length s" if "byte_at s (p + 4) = CHR ''e''" using that byte_at_inside [of s "p + 4"] by auto
  have opened: "json_ok (new_value (FObject [] []) (st\<lparr>flag_seek_value := False\<rparr>))"
    "json_ok ((new_value (FArray []) (st\<lparr>flag_seek_value := False\<rparr>))\<lparr>flag_seek_value := True\<rparr>)"
    "json_ok ((new_value (FString []) (st\<lparr>flag_seek_value := False\<rparr>))\<lparr>flag_string := True, js_string := []\<rparr>)"
    using top assms by (simp_all add: json_ok_def new_value_def)
  have num: "json_ok (start_number (st\<lparr>flag_seek_value := False\<rparr>))"
    "json_ok ((start_number (st\<lparr>flag_seek_value := False\<rparr>))\<lparr>flag_num_negative := True\<rparr>)"
    using top assms by (simp_all add: json_ok_def start_number_def new_value_def)
  show ?thesis
    unfolding json_value_start_def Let_def using in1 in4 in5 opened next_ok num assms(5) by auto
qed

lemma json_space_inside: "json_space (byte_at s p) \<Longrightarrow> p < length s"
  by (rule byte_at_inside) (auto simp: json_space_def)

lemma json_seek_ok:
  assumes "json_ok st" "\<not> flag_string st" "\<not> flag_done st" "flag_seek_value st" "p \<le> length s"
  shows "turn_ok (length s) (json_seek s p st)"
proof -
  have arr: "turn_ok (length s) (json_next (p + 1) (st\<lparr>flag_need_comma := False, flag_seek_value := False\<rparr>))"
    if "byte_at s p = CHR '']''" "js_top st = f # fs" for f fs
    using that assms byte_at_inside [of s p] by (intro json_next_ok) (simp_all add: json_ok_def)
  have flags: "json_ok (st\<lparr>flag_need_comma := x\<rparr>)" "json_ok (st\<lparr>flag_need_colon := x\<rparr>)" for x
    using assms(1-4) by (simp_all add: json_ok_def)
  have inside: "byte_at s p = c \<Longrightarrow> c \<noteq> CHR 0x00 \<Longrightarrow> Suc p \<le> length s" for c
    using byte_at_inside [of s p] by auto
  note start = json_value_start_ok [OF assms]
  show ?thesis
    unfolding json_seek_def Let_def
    using assms(1) start flags json_space_inside [of s p] inside arr
    by (auto split: list.splits jframe.splits)
qed

lemma json_in_object_ok:
  assumes "json_ok st" "\<not> flag_string st" "\<not> flag_done st" "\<not> flag_seek_value st" "js_top st = FObject es n # fs" "p \<le> length s"
  shows "turn_ok (length s) (json_in_object (byte_at s p) p st)"
proof -
  have fin: "turn_ok (length s) (json_next (p + 1) (st\<lparr>flag_need_comma := False\<rparr>))" if "byte_at s p = CHR ''}''"
    using that assms byte_at_inside [of s p] by (intro json_next_ok) (simp_all add: json_ok_def)
  have flags: "json_ok (st\<lparr>flag_need_comma := x\<rparr>)" "json_ok (st\<lparr>flag_string := True, js_string := []\<rparr>)" for x
    using assms(1-5) by (simp_all add: json_ok_def)
  have inside: "byte_at s p = c \<Longrightarrow> c \<noteq> CHR 0x00 \<Longrightarrow> Suc p \<le> length s" for c
    using byte_at_inside [of s p] by auto
  show ?thesis
    unfolding json_in_object_def using assms(1) fin flags json_space_inside [of s p] inside by auto
qed

lemma json_step_ok:
  assumes "json_ok st" "p \<le> length s"
  shows "turn_ok (length s) (json_step D s p st)"
proof (cases "flag_string st \<or> flag_done st \<or> flag_seek_value st")
  case True
  then show ?thesis
    using assms json_in_string_ok [OF assms(1)] json_seek_ok [OF assms(1) _ _ _ assms(2)] json_space_inside [of s p]
    by (auto simp: json_step_def Let_def json_ok_def)
next
  case False
  with assms(1) obtain f fs where top: "js_top st = f # fs" "open_frame (flag_num_e st) (f # fs)"
    by (cases "js_top st") (auto simp: json_ok_def)
  with False assms json_number_ok [OF assms(1), of f fs p s] json_in_object_ok [OF assms(1), of _ _ fs p s] show ?thesis
    by (cases f) (auto simp: json_step_def Let_def)
qed

lemma json_loop_ok: "json_ok st \<Longrightarrow> p \<le> length s \<Longrightarrow> turn_ok (length s) (json_loop D s p st)"
proof (induction D s p st rule: json_loop.induct)
  case (1 D s p st)
  then have "turn_ok (length s) (json_step D s p st)" by (intro json_step_ok)
  with 1 show ?case by (cases "json_step D s p st") (simp_all add: json_loop.simps [of D s p st])
qed

text \<open>The states the loop goes through.\<close>

inductive json_reaches :: "'d double_ops \<Rightarrow> string \<Rightarrow> nat \<Rightarrow> 'd json_state \<Rightarrow> bool" for D s where
  reaches_start: "json_reaches D s 0 json_init"
| reaches_step: "json_reaches D s p st \<Longrightarrow> json_step D s p st = JGo st' p' \<Longrightarrow> json_reaches D s p' st'"

lemma json_init_ok: "json_ok json_init"
  by (simp add: json_ok_def json_init_def)

lemma json_reaches_ok: "json_reaches D s p st \<Longrightarrow> json_ok st \<and> p \<le> length s"
proof (induction rule: json_reaches.induct)
  case (reaches_step p st st' p')
  then show ?case using json_step_ok [of st p s D] by simp
qed (simp add: json_init_ok)

section \<open>Reading bytes\<close>

text \<open>The loop on a text of which \<open>pre\<close> has been read.\<close>

definition jrun :: "'d double_ops \<Rightarrow> string \<Rightarrow> string \<Rightarrow> 'd json_state \<Rightarrow> 'd json_turn" where
  "jrun D pre rest st = json_loop D (pre @ rest) (length pre) st"

definition first_byte :: "string \<Rightarrow> char" where
  "first_byte s = (case s of [] \<Rightarrow> CHR 0x00 | c # _ \<Rightarrow> c)"

lemma byte_at_append [simp]: "byte_at (pre @ rest) (length pre) = first_byte rest"
  by (cases rest) (simp_all add: byte_at_def first_byte_def)

lemma first_byte_Cons [simp]: "first_byte (c # s) = c" "first_byte [] = CHR 0x00"
  by (simp_all add: first_byte_def)

lemma jrun_step:
  assumes "json_step D (pre @ txt @ rest) (length pre) st = JGo st' (length pre + length txt)"
  shows "jrun D pre (txt @ rest) st = jrun D (pre @ txt) rest st'"
  using assms by (simp add: jrun_def json_loop.simps [of D _ "length pre"])

lemma jrun_byte:
  assumes "json_step D (pre @ c # rest) (length pre) st = JGo st' (length pre + 1)"
  shows "jrun D pre (c # rest) st = jrun D (pre @ [c]) rest st'"
  using jrun_step [of D pre "[c]" rest] assms by simp

lemma jrun_again:
  assumes "json_step D (pre @ rest) (length pre) st = JGo st' (length pre)"
  shows "jrun D pre rest st = jrun D pre rest st'"
  using jrun_step [of D pre "[]" rest] assms by simp

section \<open>Reading values\<close>

text \<open>A state that waits for a value below the frames \<open>fs\<close>, and the state behind the value \<open>w\<close>.\<close>

definition ready :: "'d jframe list \<Rightarrow> 'd json_state \<Rightarrow> bool" where
  "ready fs st \<longleftrightarrow> \<not> flag_string st \<and> \<not> flag_escaped st \<and> \<not> flag_done st \<and> flag_seek_value st \<and> \<not> flag_need_comma st \<and>
     \<not> flag_need_colon st \<and> js_top st = fs \<and> list_all parent_frame fs"

definition in_object :: "bool \<Rightarrow> (string \<times> 'd json_value) list \<Rightarrow> 'd jframe list \<Rightarrow> 'd json_state \<Rightarrow> bool" where
  "in_object comma es fs st \<longleftrightarrow> \<not> flag_string st \<and> \<not> flag_escaped st \<and> \<not> flag_done st \<and> \<not> flag_seek_value st \<and>
     flag_need_comma st = comma \<and> \<not> flag_need_colon st \<and> (\<exists>n. js_top st = FObject es n # fs) \<and> list_all parent_frame fs"

fun has_room :: "'d jframe list \<Rightarrow> bool" where
  "has_room (FArray xs # _) \<longleftrightarrow> int (length xs) < uint_max"
| "has_room (FObject es _ # _) \<longleftrightarrow> int (length es) < uint_max"
| "has_room _ = True"

definition closed :: "'d json_value \<Rightarrow> 'd jframe list \<Rightarrow> 'd json_state \<Rightarrow> bool" where
  "closed w fs st \<longleftrightarrow> \<not> flag_string st \<and> \<not> flag_escaped st \<and> \<not> flag_need_colon st \<and> flag_need_comma st \<and> list_all parent_frame fs \<and>
     (case fs of
        [] \<Rightarrow> flag_done st \<and> (\<exists>f. js_top st = [f] \<and> frame_value f = w)
      | FArray xs # r \<Rightarrow> \<not> flag_done st \<and> flag_seek_value st \<and> js_top st = FArray (xs @ [w]) # r
      | FObject es n # r \<Rightarrow> \<not> flag_done st \<and> \<not> flag_seek_value st \<and> js_top st = FObject (es @ [(n, w)]) n # r
      | _ \<Rightarrow> False)"

lemma json_next_closed:
  assumes "js_top st = f # fs" "list_all parent_frame fs" "has_room fs"
    "\<not> flag_string st" "\<not> flag_escaped st" "\<not> flag_done st" "\<not> flag_seek_value st" "\<not> flag_need_colon st"
  shows "\<exists>st'. json_next p st = JGo st' p \<and> closed (frame_value f) fs st'"
proof (cases fs)
  case Nil
  with assms show ?thesis by (simp add: json_next_def closed_def)
next
  case (Cons g gs)
  with assms show ?thesis by (cases g) (simp_all add: json_next_def closed_def Let_def)
qed

text \<open>A number ends at one of these bytes or at the end of the text.\<close>

definition value_ends :: "string \<Rightarrow> bool" where
  "value_ends rest \<longleftrightarrow> first_byte rest \<in> {CHR 0x00, CHR '','', CHR '']'', CHR ''}''}"

definition reads :: "'d double_ops \<Rightarrow> string \<Rightarrow> 'd json_value \<Rightarrow> bool" where
  "reads D txt w \<longleftrightarrow>
     (\<forall>pre rest fs st. ready fs st \<longrightarrow> has_room fs \<longrightarrow> value_ends rest \<longrightarrow>
        (\<exists>st'. jrun D pre (txt @ rest) st = jrun D (pre @ txt) rest st' \<and> closed w fs st'))"

lemma readsI:
  assumes "\<And>pre rest fs st. ready fs st \<Longrightarrow> has_room fs \<Longrightarrow> value_ends rest \<Longrightarrow>
    \<exists>st'. jrun D pre (txt @ rest) st = jrun D (pre @ txt) rest st' \<and> closed w fs st'"
  shows "reads D txt w"
  using assms by (simp add: reads_def)

text \<open>The three literals are read in one turn.\<close>

lemma reads_literal:
  assumes "\<And>pre rest st. json_value_start (pre @ txt @ rest) (length pre) st =
      json_next (length pre + length txt) (new_value f (st\<lparr>flag_seek_value := False\<rparr>))"
    "first_byte txt \<in> {CHR ''t'', CHR ''f'', CHR ''n''}" "frame_value f = w"
  shows "reads D txt w"
proof (rule readsI)
  fix pre rest fs and st :: "'a json_state"
  assume st: "ready fs st" "has_room fs" "value_ends rest"
  let ?st = "new_value f (st\<lparr>flag_seek_value := False\<rparr>)"
  have "json_step D (pre @ txt @ rest) (length pre) st = json_value_start (pre @ txt @ rest) (length pre) st"
    using st(1) assms(2) by (cases "txt") (auto simp: json_step_def json_seek_def ready_def json_space_def)
  moreover obtain st' where "json_next (length pre + length txt) ?st = JGo st' (length pre + length txt)"
    "closed (frame_value f) fs st'"
    using json_next_closed [of ?st f fs "length pre + length txt"] st by (auto simp: ready_def new_value_def)
  ultimately show "\<exists>st'. jrun D pre (txt @ rest) st = jrun D (pre @ txt) rest st' \<and> closed w fs st'"
    using assms(1,3) by (auto intro!: jrun_step)
qed

lemma byte_at_add: "byte_at (pre @ txt @ rest) (length pre + i) = byte_at (txt @ rest) i"
  by (simp add: byte_at_def nth_append)

lemma reads_true: "reads D ''true'' (json_boolean True)"
  by (rule reads_literal [where f = "FBoolean True"]) (simp_all add: json_value_start_def byte_at_def nth_append Let_def eval_nat_numeral)

lemma reads_false: "reads D ''false'' (json_boolean False)"
  by (rule reads_literal [where f = "FBoolean False"]) (simp_all add: json_value_start_def byte_at_def nth_append Let_def eval_nat_numeral)

lemma reads_null: "reads D ''null'' json_null"
  by (rule reads_literal [where f = FNull]) (simp_all add: json_value_start_def byte_at_def nth_append Let_def eval_nat_numeral)

subsection \<open>Strings\<close>

lemma escaped_update: "\<not> flag_escaped st \<Longrightarrow> st\<lparr>flag_escaped := False\<rparr> = st"
  by (cases st) simp

lemma read_plain_char:
  assumes "flag_string st" "\<not> flag_escaped st" "int (length (js_string st)) \<le> uint_max"
    "c \<noteq> CHR 0x00" "c \<noteq> CHR 0x22" "c \<noteq> CHR 0x5C"
  shows "jrun D pre (c # rest) st = jrun D (pre @ [c]) rest (st\<lparr>js_string := js_string st @ [c]\<rparr>)"
  using assms by (intro jrun_byte) (simp add: json_step_def json_in_string_def string_add_def Let_def)

definition unescape_letter :: "char \<Rightarrow> char" where
  "unescape_letter e =
     (if e = CHR ''b'' then CHR 0x08 else if e = CHR ''f'' then CHR 0x0C else if e = CHR ''n'' then LF
      else if e = CHR ''r'' then CR else if e = CHR ''t'' then HT else e)"

lemma read_escaped_char:
  assumes "flag_string st" "\<not> flag_escaped st" "int (length (js_string st)) \<le> uint_max" "e \<noteq> CHR 0x00" "e \<noteq> CHR ''u''"
  shows "jrun D pre (CHR 0x5C # e # rest) st =
    jrun D (pre @ [CHR 0x5C, e]) rest (st\<lparr>js_string := js_string st @ [unescape_letter e]\<rparr>)"
proof -
  have "jrun D pre (CHR 0x5C # e # rest) st = jrun D (pre @ [CHR 0x5C]) (e # rest) (st\<lparr>flag_escaped := True\<rparr>)"
    using assms by (intro jrun_byte) (simp add: json_step_def json_in_string_def Let_def)
  also have "\<dots> = jrun D ((pre @ [CHR 0x5C]) @ [e]) rest (st\<lparr>js_string := js_string st @ [unescape_letter e]\<rparr>)"
    using assms byte_at_append [of "pre @ [CHR 0x5C]" "e # rest"] escaped_update [of "st\<lparr>js_string := js_string st @ [unescape_letter e]\<rparr>"]
    by (intro jrun_byte) (simp add: json_step_def json_in_string_def json_escape_def string_add_def Let_def unescape_letter_def)
  finally show ?thesis by simp
qed

lemma read_dumped_char:
  assumes "flag_string st" "\<not> flag_escaped st" "int (length (js_string st)) \<le> uint_max" "c \<noteq> CHR 0x00"
  shows "jrun D pre (json_escape_char c @ rest) st =
    jrun D (pre @ json_escape_char c) rest (st\<lparr>js_string := js_string st @ [c]\<rparr>)"
proof (cases "c \<in> {CHR 0x22, CHR 0x5C, CHR 0x08, CHR 0x0C, LF, CR, HT}")
  case True
  then have "\<exists>e. json_escape_char c = [CHR 0x5C, e] \<and> e \<noteq> CHR 0x00 \<and> e \<noteq> CHR ''u'' \<and> unescape_letter e = c"
    by (auto simp: json_escape_char_def unescape_letter_def)
  then obtain e where "json_escape_char c = [CHR 0x5C, e]" "e \<noteq> CHR 0x00" "e \<noteq> CHR ''u''" "unescape_letter e = c" by blast
  with read_escaped_char [OF assms(1-3), of e D pre rest] show ?thesis by simp
next
  case False
  then have "json_escape_char c = [c]" by (simp add: json_escape_char_def)
  with False read_plain_char [OF assms(1-4), of D pre rest] show ?thesis by simp
qed

lemma read_dumped_chars:
  assumes "flag_string st" "\<not> flag_escaped st" "int (length (js_string st) + length v) \<le> uint_max" "CHR 0x00 \<notin> set v"
  shows "jrun D pre (concat (map json_escape_char v) @ rest) st =
    jrun D (pre @ concat (map json_escape_char v)) rest (st\<lparr>js_string := js_string st @ v\<rparr>)"
  using assms
proof (induction v arbitrary: pre st)
  case (Cons c v)
  let ?st = "st\<lparr>js_string := js_string st @ [c]\<rparr>"
  have "jrun D pre (json_escape_char c @ concat (map json_escape_char v) @ rest) st =
      jrun D (pre @ json_escape_char c) (concat (map json_escape_char v) @ rest) ?st"
    using Cons.prems by (intro read_dumped_char) auto
  with Cons.IH [of ?st "pre @ json_escape_char c"] Cons.prems show ?case by simp
qed simp

lemma read_plain_chars:
  assumes "flag_string st" "\<not> flag_escaped st" "int (length (js_string st) + length v) \<le> uint_max"
    "\<forall>c \<in> set v. c \<noteq> CHR 0x00 \<and> c \<noteq> CHR 0x22 \<and> c \<noteq> CHR 0x5C"
  shows "jrun D pre (v @ rest) st = jrun D (pre @ v) rest (st\<lparr>js_string := js_string st @ v\<rparr>)"
  using assms
proof (induction v arbitrary: pre st)
  case (Cons c v)
  let ?st = "st\<lparr>js_string := js_string st @ [c]\<rparr>"
  have "jrun D pre (c # v @ rest) st = jrun D (pre @ [c]) (v @ rest) ?st"
    using Cons.prems by (intro read_plain_char) auto
  with Cons.IH [of ?st "pre @ [c]"] Cons.prems show ?case by simp
qed simp

lemma reads_string:
  assumes "CHR 0x00 \<notin> set v" "int (length v) \<le> uint_max"
  shows "reads D (json_serialize_string v) (json_string v)"
proof (rule readsI)
  fix pre rest fs and st :: "'a json_state"
  assume st: "ready fs st" "has_room fs" "value_ends rest"
  let ?body = "concat (map json_escape_char v)"
  let ?st = "(new_value (FString []) (st\<lparr>flag_seek_value := False\<rparr>))\<lparr>flag_string := True, js_string := []\<rparr>"
  have "jrun D pre (CHR 0x22 # ?body @ CHR 0x22 # rest) st = jrun D (pre @ [CHR 0x22]) (?body @ CHR 0x22 # rest) ?st"
    using st(1) by (intro jrun_byte) (simp add: json_step_def json_seek_def json_space_def json_value_start_def ready_def Let_def)
  also have "\<dots> = jrun D ((pre @ [CHR 0x22]) @ ?body) (CHR 0x22 # rest) (?st\<lparr>js_string := js_string ?st @ v\<rparr>)"
    using st(1) assms by (intro read_dumped_chars) (simp_all add: ready_def new_value_def)
  finally have start: "jrun D pre (CHR 0x22 # ?body @ CHR 0x22 # rest) st =
      jrun D ((pre @ [CHR 0x22]) @ ?body) (CHR 0x22 # rest) (?st\<lparr>js_string := v\<rparr>)" by simp
  let ?p = "length ((pre @ [CHR 0x22]) @ ?body)"
  let ?stop = "?st\<lparr>js_string := v, flag_string := False, js_top := FString v # fs\<rparr>"
  obtain st' where st': "json_next (?p + 1) ?stop = JGo st' (?p + 1)" "closed (json_string v) fs st'"
    using json_next_closed [of ?stop "FString v" fs "?p + 1"] st by (auto simp: ready_def new_value_def)
  have "json_step D (((pre @ [CHR 0x22]) @ ?body) @ CHR 0x22 # rest) ?p (?st\<lparr>js_string := v\<rparr>) = JGo st' (?p + 1)"
    unfolding st'(1) [symmetric] json_step_def json_in_string_def byte_at_append
    using st(1) assms(2) by (simp add: new_value_def Let_def ready_def)
  with start st'(2) show "\<exists>st'. jrun D pre (json_serialize_string v @ rest) st =
      jrun D (pre @ json_serialize_string v) rest st' \<and> closed (json_string v) fs st'"
    using jrun_byte [of D "(pre @ [CHR 0x22]) @ ?body" "CHR 0x22" rest "?st\<lparr>js_string := v\<rparr>" st']
    by (auto simp: json_serialize_string_def)
qed

subsection \<open>Integers\<close>

lemma wrap64_wrap: "wrap64 (wrap64 a * 10 + d) = wrap64 (a * 10 + d)"
proof -
  have "(wrap64 a * 10 + d + 2 ^ 63) mod 2 ^ 64 = (a * 10 + d + 2 ^ 63) mod 2 ^ 64"
  proof (rule mod_add_cong [OF mod_add_cong [OF mod_mult_cong]])
    show "wrap64 a mod 2 ^ 64 = a mod 2 ^ 64" unfolding wrap64_def by (simp add: mod_diff_left_eq)
  qed simp_all
  then show ?thesis by (simp add: wrap64_def)
qed

lemma wrap64_uminus: "wrap64 (- wrap64 a) = wrap64 (- a)"
proof -
  have "wrap64 a mod 2 ^ 64 = a mod 2 ^ 64" unfolding wrap64_def by (simp add: mod_diff_left_eq)
  then have "(- wrap64 a) mod 2 ^ 64 = (- a) mod 2 ^ 64" by (metis mod_minus_eq)
  then have "(- wrap64 a + 2 ^ 63) mod 2 ^ 64 = (- a + 2 ^ 63) mod 2 ^ 64" by (intro mod_add_cong) simp_all
  then show ?thesis by (simp add: wrap64_def)
qed

lemma wrap64_small: "- (2 ^ 63) \<le> i \<Longrightarrow> i < 2 ^ 63 \<Longrightarrow> wrap64 i = i"
  by (simp add: wrap64_def)

definition in_number :: "bool \<Rightarrow> nat \<Rightarrow> 'd jframe list \<Rightarrow> 'd json_state \<Rightarrow> bool" where
  "in_number neg n fs st \<longleftrightarrow> \<not> flag_string st \<and> \<not> flag_escaped st \<and> \<not> flag_done st \<and> \<not> flag_seek_value st \<and> \<not> flag_need_colon st \<and>
     \<not> flag_num_e st \<and> flag_num_negative st = neg \<and> js_top st = FInteger (wrap64 (int n)) # fs \<and> list_all parent_frame fs"

lemma read_digit:
  assumes "in_number neg n fs st" "\<not> flag_num_zero st" "is_digit c"
  shows "\<exists>st'. jrun D pre (c # rest) st = jrun D (pre @ [c]) rest st' \<and> in_number neg (10 * n + digit_val c) fs st' \<and>
    num_digits st' = num_digits st + 1 \<and> (flag_num_zero st' \<longleftrightarrow> num_digits st = 0 \<and> digit_val c = 0)"
proof -
  let ?st = "st\<lparr>num_digits := num_digits st + 1, flag_num_zero := (num_digits st = 0 \<and> digit_val c = 0),
      js_top := FInteger (wrap64 (wrap64 (int n) * 10 + int (digit_val c))) # fs\<rparr>"
  have "json_step D (pre @ c # rest) (length pre) st = JGo ?st (length pre + 1)"
    using assms by (cases st) (simp add: json_step_def in_number_def json_number_def num_digit_def Let_def)
  moreover have "in_number neg (10 * n + digit_val c) fs ?st"
    using assms(1) by (simp add: in_number_def wrap64_wrap mult.commute)
  ultimately show ?thesis by (intro exI [of _ ?st]) (auto intro: jrun_byte)
qed

lemma read_digits:
  assumes "in_number neg n fs st" "\<not> flag_num_zero st" "0 < num_digits st" "list_all is_digit ds"
  shows "\<exists>st'. jrun D pre (ds @ rest) st = jrun D (pre @ ds) rest st' \<and> in_number neg (digits_val n ds) fs st'"
  using assms
proof (induction ds arbitrary: pre n st)
  case (Cons c ds)
  then obtain st1 where st1: "jrun D pre (c # ds @ rest) st = jrun D (pre @ [c]) (ds @ rest) st1"
    "in_number neg (10 * n + digit_val c) fs st1" "\<not> flag_num_zero st1" "0 < num_digits st1"
    using read_digit [of neg n fs st c D pre "ds @ rest"] by auto
  from Cons.IH [OF st1(2-4), of "pre @ [c]"] Cons.prems st1(1) show ?case by auto
qed auto

lemma nat_to_str_head: "0 < n \<Longrightarrow> digit_val (hd (nat_to_str n)) \<noteq> 0"
proof (induction n rule: nat_to_str.induct)
  case (1 n)
  then show ?case
    by (subst nat_to_str.simps) (auto simp: digit_val_digit_char hd_append)
qed

lemma read_nat:
  assumes "in_number neg 0 fs st" "\<not> flag_num_zero st" "num_digits st = 0"
  shows "\<exists>st'. jrun D pre (nat_to_str n @ rest) st = jrun D (pre @ nat_to_str n) rest st' \<and> in_number neg n fs st'"
proof (cases "n = 0")
  case True
  have "nat_to_str 0 = [digit_char 0]" by (simp add: nat_to_str.simps)
  with True read_digit [OF assms(1,2), of "digit_char 0" D pre rest] show ?thesis
    by (auto simp: is_digit_digit_char digit_val_digit_char)
next
  case False
  obtain c ds where n: "nat_to_str n = c # ds" by (cases "nat_to_str n") auto
  then have digits: "is_digit c" "list_all is_digit ds" using nat_to_str_digits [of n] by (auto simp: list_all_iff)
  have "digit_val c \<noteq> 0" using nat_to_str_head [of n] False n by simp
  then obtain st1 where st1: "jrun D pre (c # ds @ rest) st = jrun D (pre @ [c]) (ds @ rest) st1"
    "in_number neg (digit_val c) fs st1" "\<not> flag_num_zero st1" "0 < num_digits st1"
    using read_digit [OF assms(1,2) digits(1), of D pre "ds @ rest"] assms(3) by auto
  have "digits_val (digit_val c) ds = n" using digits_val_nat_to_str_0 [of n] digits(1) by (simp add: n)
  with read_digits [OF st1(2-4) digits(2), of D "pre @ [c]" rest] st1(1) show ?thesis by (simp add: n)
qed

lemma number_ends:
  assumes "in_number neg n fs st" "has_room fs" "value_ends rest"
  shows "\<exists>st'. jrun D pre rest st = jrun D pre rest st' \<and> closed (json_integer (wrap64 (if neg then - int n else int n))) fs st'"
proof -
  let ?f = "FInteger (wrap64 (if neg then - int n else int n))"
  obtain st' where st': "json_next (length pre) (st\<lparr>js_top := ?f # fs\<rparr>) = JGo st' (length pre)" "closed (frame_value ?f) fs st'"
    using json_next_closed [of "st\<lparr>js_top := ?f # fs\<rparr>" ?f fs "length pre"] assms by (auto simp: in_number_def)
  have b: "\<not> is_digit (first_byte rest)" "first_byte rest \<notin> {CHR ''+'', CHR ''-'', CHR ''.'', CHR ''e'', CHR ''E''}"
    using assms(3) by (auto simp: value_ends_def is_digit_def less_eq_char_def)
  have "json_step D (pre @ rest) (length pre) st = json_next (length pre) (st\<lparr>js_top := ?f # fs\<rparr>)"
    using assms(1) b by (simp add: json_step_def in_number_def json_number_def num_end_def num_finish_def Let_def wrap64_uminus)
  with st' show ?thesis by (auto intro: jrun_again)
qed

lemma reads_integer: "reads D (int_to_str i) (json_integer (wrap64 i))"
proof (rule readsI)
  fix pre rest fs and st :: "'a json_state"
  assume st: "ready fs st" "has_room fs" "value_ends rest"
  let ?st = "start_number (st\<lparr>flag_seek_value := False\<rparr>)"
  have num: "in_number False 0 fs ?st" "in_number True 0 fs (?st\<lparr>flag_num_negative := True\<rparr>)"
    "\<not> flag_num_zero ?st" "num_digits ?st = 0"
    using st(1) by (simp_all add: in_number_def ready_def start_number_def new_value_def wrap64_def)
  show "\<exists>st'. jrun D pre (int_to_str i @ rest) st = jrun D (pre @ int_to_str i) rest st' \<and>
      closed (json_integer (wrap64 i)) fs st'"
  proof (cases "i < 0")
    case True
    then have form: "int_to_str i = CHR ''-'' # nat_to_str (nat (- i))" by (simp add: int_to_str_def)
    have "jrun D pre (CHR ''-'' # nat_to_str (nat (- i)) @ rest) st =
        jrun D (pre @ ''-'') (nat_to_str (nat (- i)) @ rest) (?st\<lparr>flag_num_negative := True\<rparr>)"
      using st(1) by (intro jrun_byte)
        (simp add: json_step_def json_seek_def json_space_def json_value_start_def ready_def Let_def is_digit_def less_eq_char_def)
    moreover obtain st1 where "jrun D (pre @ ''-'') (nat_to_str (nat (- i)) @ rest) (?st\<lparr>flag_num_negative := True\<rparr>) =
        jrun D ((pre @ ''-'') @ nat_to_str (nat (- i))) rest st1" "in_number True (nat (- i)) fs st1"
      using read_nat [OF num(2)] num(3,4) by fastforce
    moreover from number_ends [OF calculation(3) st(2,3), of D "(pre @ ''-'') @ nat_to_str (nat (- i))"] True
    obtain st' where "jrun D ((pre @ ''-'') @ nat_to_str (nat (- i))) rest st1 = jrun D ((pre @ ''-'') @ nat_to_str (nat (- i))) rest st'"
      "closed (json_integer (wrap64 i)) fs st'" by auto
    ultimately show ?thesis by (auto simp: form)
  next
    case False
    then have form: "int_to_str i = nat_to_str (nat i)" by (simp add: int_to_str_def)
    obtain c ds where n: "nat_to_str (nat i) = c # ds" by (cases "nat_to_str (nat i)") auto
    then have c: "is_digit c" using nat_to_str_digits [of "nat i"] by simp
    then have no: "c \<notin> {CHR ''{'', CHR ''['', CHR 0x22, CHR ''t'', CHR ''f'', CHR ''n'', CHR '']'', SP, HT, CR, LF}"
      by (auto simp: is_digit_def less_eq_char_def)
    have "jrun D pre (nat_to_str (nat i) @ rest) st = jrun D pre (nat_to_str (nat i) @ rest) ?st"
      using st(1) c no
      by (intro jrun_again) (simp add: n json_step_def json_seek_def json_space_def json_value_start_def ready_def Let_def)
    moreover obtain st1 where "jrun D pre (nat_to_str (nat i) @ rest) ?st = jrun D (pre @ nat_to_str (nat i)) rest st1"
      "in_number False (nat i) fs st1"
      using read_nat [OF num(1,3,4)] by blast
    moreover from number_ends [OF calculation(3) st(2,3), of D "pre @ nat_to_str (nat i)"] False
    obtain st' where "jrun D (pre @ nat_to_str (nat i)) rest st1 = jrun D (pre @ nat_to_str (nat i)) rest st'"
      "closed (json_integer (wrap64 i)) fs st'" by auto
    ultimately show ?thesis by (auto simp: form)
  qed
qed

subsection \<open>Arrays\<close>

definition in_array :: "bool \<Rightarrow> 'd json_value list \<Rightarrow> 'd jframe list \<Rightarrow> 'd json_state \<Rightarrow> bool" where
  "in_array comma xs fs st \<longleftrightarrow> \<not> flag_string st \<and> \<not> flag_escaped st \<and> \<not> flag_done st \<and> flag_seek_value st \<and>
     flag_need_comma st = comma \<and> \<not> flag_need_colon st \<and> js_top st = FArray xs # fs \<and> list_all parent_frame fs"

lemma in_array_ready: "in_array False xs fs st \<longleftrightarrow> ready (FArray xs # fs) st"
  by (auto simp: in_array_def ready_def)

lemma closed_in_array: "closed w (FArray xs # fs) st \<Longrightarrow> in_array True (xs @ [w]) fs st"
  by (auto simp: in_array_def closed_def)

lemma read_comma_array:
  assumes "in_array True xs fs st"
  shows "\<exists>st'. jrun D pre (CHR '','' # rest) st = jrun D (pre @ '','') rest st' \<and> in_array False xs fs st'"
  using assms jrun_byte [of D pre "CHR '',''" rest st "st\<lparr>flag_need_comma := False\<rparr>"]
  by (auto simp: in_array_def json_step_def json_seek_def json_space_def Let_def intro!: exI [of _ "st\<lparr>flag_need_comma := False\<rparr>"])

lemma read_bracket:
  assumes "in_array comma xs fs st" "has_room fs"
  shows "\<exists>st'. jrun D pre (CHR '']'' # rest) st = jrun D (pre @ '']'') rest st' \<and> closed (json_array xs) fs st'"
proof -
  let ?st = "st\<lparr>flag_need_comma := False, flag_seek_value := False\<rparr>"
  obtain st' where "json_next (length pre + 1) ?st = JGo st' (length pre + 1)" "closed (frame_value (FArray xs)) fs st'"
    using json_next_closed [of ?st "FArray xs" fs "length pre + 1"] assms by (auto simp: in_array_def)
  then show ?thesis
    using assms jrun_byte [of D pre "CHR '']''" rest st st']
    by (auto simp: in_array_def json_step_def json_seek_def json_space_def Let_def)
qed

lemma read_items:
  assumes "xs \<noteq> []" "\<And>v. v \<in> set xs \<Longrightarrow> reads D (any_dumps fmt v) (tree v)" "in_array False ys fs st"
    "int (length ys + length xs) \<le> uint_max"
  shows "\<exists>st'. jrun D pre (array_dumps fmt xs @ CHR '']'' # rest) st =
      jrun D (pre @ array_dumps fmt xs) (CHR '']'' # rest) st' \<and> in_array True (ys @ map tree xs) fs st'"
  using assms
proof (induction xs arbitrary: ys pre st)
  case (Cons v xs)
  have room: "has_room (FArray ys # fs)" using Cons.prems(4) by simp
  let ?rest = "(if xs = [] then [] else '','') @ array_dumps fmt xs @ CHR '']'' # rest"
  have "value_ends ?rest" by (simp add: value_ends_def)
  with Cons.prems(2,3) room obtain st1 where st1:
    "jrun D pre (any_dumps fmt v @ ?rest) st = jrun D (pre @ any_dumps fmt v) ?rest st1" "closed (tree v) (FArray ys # fs) st1"
    unfolding reads_def in_array_ready by (metis list.set_intros(1))
  have arr: "in_array True (ys @ [tree v]) fs st1" by (rule closed_in_array [OF st1(2)])
  show ?case
  proof (cases "xs = []")
    case True
    with st1 arr show ?thesis by auto
  next
    case False
    obtain st2 where st2: "jrun D (pre @ any_dumps fmt v) (CHR '','' # array_dumps fmt xs @ CHR '']'' # rest) st1 =
        jrun D ((pre @ any_dumps fmt v) @ '','') (array_dumps fmt xs @ CHR '']'' # rest) st2"
      "in_array False (ys @ [tree v]) fs st2"
      using read_comma_array [OF arr] by blast
    from Cons.IH [OF False Cons.prems(2) st2(2), of "(pre @ any_dumps fmt v) @ '',''"] Cons.prems(4)
    obtain st3 where "jrun D ((pre @ any_dumps fmt v) @ '','') (array_dumps fmt xs @ CHR '']'' # rest) st2 =
        jrun D (((pre @ any_dumps fmt v) @ '','') @ array_dumps fmt xs) (CHR '']'' # rest) st3"
      "in_array True ((ys @ [tree v]) @ map tree xs) fs st3" by auto
    with st1(1) st2(1) False show ?thesis by auto
  qed
qed simp

lemma reads_array:
  fixes D :: "'d double_ops" and xs :: "'d SrsJsonAny list"
  assumes "\<And>v. v \<in> set xs \<Longrightarrow> reads D (any_dumps fmt v) (tree v)" "int (length xs) \<le> uint_max"
  shows "reads D (any_dumps fmt (SrsJsonArray xs)) (json_array (map tree xs))"
proof (rule readsI)
  fix pre rest fs and st :: "'d json_state"
  assume st: "ready fs st" "has_room fs" "value_ends rest"
  let ?st = "(new_value (FArray []) (st\<lparr>flag_seek_value := False\<rparr>))\<lparr>flag_seek_value := True\<rparr>"
  have 1: "jrun D pre (CHR ''['' # array_dumps fmt xs @ CHR '']'' # rest) st = jrun D (pre @ ''['') (array_dumps fmt xs @ CHR '']'' # rest) ?st"
    using st(1) by (intro jrun_byte) (simp add: json_step_def json_seek_def json_space_def json_value_start_def ready_def Let_def)
  have arr: "in_array False [] fs ?st" using st(1) by (simp add: in_array_def ready_def new_value_def)
  obtain comma st2 where 2: "jrun D (pre @ ''['') (array_dumps fmt xs @ CHR '']'' # rest) ?st =
      jrun D ((pre @ ''['') @ array_dumps fmt xs) (CHR '']'' # rest) st2" "in_array comma (map tree xs) fs st2"
  proof (cases "xs = []")
    case True
    with arr that [of ?st False] show ?thesis by simp
  next
    case False
    with read_items [OF False assms(1) arr, of "pre @ ''[''" rest] assms(2) that show ?thesis by auto
  qed
  obtain st3 where 3: "jrun D ((pre @ ''['') @ array_dumps fmt xs) (CHR '']'' # rest) st2 =
      jrun D (((pre @ ''['') @ array_dumps fmt xs) @ '']'') rest st3" "closed (json_array (map tree xs)) fs st3"
    using read_bracket [OF 2(2) st(2)] by blast
  from 1 2(1) 3 show "\<exists>st'. jrun D pre (any_dumps fmt (SrsJsonArray xs) @ rest) st =
      jrun D (pre @ any_dumps fmt (SrsJsonArray xs)) rest st' \<and> closed (json_array (map tree xs)) fs st'" by auto
qed

subsection \<open>Objects\<close>

lemma closed_in_object: "closed w (FObject es n # fs) st \<Longrightarrow> in_object True (es @ [(n, w)]) fs st"
  by (auto simp: in_object_def closed_def)

lemma read_comma_object:
  assumes "in_object True es fs st"
  shows "\<exists>st'. jrun D pre (CHR '','' # rest) st = jrun D (pre @ '','') rest st' \<and> in_object False es fs st'"
  using assms jrun_byte [of D pre "CHR '',''" rest st "st\<lparr>flag_need_comma := False\<rparr>"]
  by (auto simp: in_object_def json_step_def json_in_object_def json_space_def Let_def
      intro!: exI [of _ "st\<lparr>flag_need_comma := False\<rparr>"])

lemma read_brace:
  assumes "in_object comma es fs st" "has_room fs"
  shows "\<exists>st'. jrun D pre (CHR ''}'' # rest) st = jrun D (pre @ ''}'') rest st' \<and> closed (json_object es) fs st'"
proof -
  let ?st = "st\<lparr>flag_need_comma := False\<rparr>"
  obtain n where n: "js_top st = FObject es n # fs" using assms(1) by (auto simp: in_object_def)
  obtain st' where "json_next (length pre + 1) ?st = JGo st' (length pre + 1)" "closed (frame_value (FObject es n)) fs st'"
    using json_next_closed [of ?st "FObject es n" fs "length pre + 1"] assms n by (auto simp: in_object_def)
  then show ?thesis
    using assms n jrun_byte [of D pre "CHR ''}''" rest st st']
    by (auto simp: in_object_def json_step_def json_in_object_def json_space_def Let_def)
qed

definition key_ok :: "string \<Rightarrow> bool" where
  "key_ok k \<longleftrightarrow> (\<forall>c \<in> set k. c \<noteq> CHR 0x00 \<and> c \<noteq> CHR 0x22 \<and> c \<noteq> CHR 0x5C) \<and> int (length k) \<le> uint_max"

lemma read_key:
  assumes "in_object False es fs st" "key_ok k"
  shows "\<exists>st'. jrun D pre (SRS_JFIELD_NAME k @ rest) st = jrun D (pre @ SRS_JFIELD_NAME k) rest st' \<and> ready (FObject es k # fs) st'"
proof -
  obtain n where n: "js_top st = FObject es n # fs" using assms(1) by (auto simp: in_object_def)
  let ?st = "st\<lparr>flag_string := True, js_string := []\<rparr>"
  let ?st3 = "st\<lparr>flag_string := False, js_string := k, flag_seek_value := True, flag_need_colon := True, js_top := FObject es k # fs\<rparr>"
  have "jrun D pre (CHR 0x22 # k @ CHR 0x22 # CHR '':'' # rest) st = jrun D (pre @ [CHR 0x22]) (k @ CHR 0x22 # CHR '':'' # rest) ?st"
    using assms(1) n by (intro jrun_byte) (simp add: json_step_def in_object_def json_in_object_def json_space_def)
  also have "\<dots> = jrun D ((pre @ [CHR 0x22]) @ k) (CHR 0x22 # CHR '':'' # rest) (?st\<lparr>js_string := js_string ?st @ k\<rparr>)"
    using assms by (intro read_plain_chars) (simp_all add: in_object_def key_ok_def)
  also have "\<dots> = jrun D (((pre @ [CHR 0x22]) @ k) @ [CHR 0x22]) (CHR '':'' # rest) ?st3"
    by (rule jrun_byte, unfold json_step_def json_in_string_def byte_at_append)
      (use assms n in \<open>simp add: in_object_def key_ok_def Let_def\<close>)
  also have "\<dots> = jrun D ((((pre @ [CHR 0x22]) @ k) @ [CHR 0x22]) @ '':'') rest (?st3\<lparr>flag_need_colon := False\<rparr>)"
    by (rule jrun_byte, unfold json_step_def json_seek_def byte_at_append)
      (use assms n in \<open>simp add: in_object_def json_space_def Let_def\<close>)
  finally show ?thesis
    using assms n by (auto simp: SRS_JFIELD_NAME_def in_object_def ready_def intro!: exI [of _ "?st3\<lparr>flag_need_colon := False\<rparr>"])
qed

lemma read_entries:
  assumes "ps \<noteq> []" "\<And>k v. (k, v) \<in> set ps \<Longrightarrow> key_ok k \<and> reads D (any_dumps fmt v) (tree v)" "in_object False es fs st"
    "int (length es + length ps) \<le> uint_max"
  shows "\<exists>st'. jrun D pre (object_dumps fmt ps @ CHR ''}'' # rest) st =
      jrun D (pre @ object_dumps fmt ps) (CHR ''}'' # rest) st' \<and> in_object True (es @ map (\<lambda>(k, v). (k, tree v)) ps) fs st'"
  using assms
proof (induction ps arbitrary: es pre st)
  case (Cons p ps)
  obtain k v where p: "p = (k, v)" by (cases p)
  have kv: "key_ok k" "reads D (any_dumps fmt v) (tree v)" using Cons.prems(2) p by auto
  have room: "has_room (FObject es k # fs)" using Cons.prems(4) by simp
  let ?rest = "(if ps = [] then [] else '','') @ object_dumps fmt ps @ CHR ''}'' # rest"
  let ?pre = "pre @ SRS_JFIELD_NAME k"
  obtain st0 where st0: "jrun D pre (SRS_JFIELD_NAME k @ any_dumps fmt v @ ?rest) st = jrun D ?pre (any_dumps fmt v @ ?rest) st0"
    "ready (FObject es k # fs) st0" using read_key [OF Cons.prems(3) kv(1)] by blast
  have "value_ends ?rest" by (simp add: value_ends_def)
  with kv(2) st0(2) room obtain st1 where st1: "jrun D ?pre (any_dumps fmt v @ ?rest) st0 = jrun D (?pre @ any_dumps fmt v) ?rest st1"
    "closed (tree v) (FObject es k # fs) st1"
    unfolding reads_def by metis
  have obj: "in_object True (es @ [(k, tree v)]) fs st1" by (rule closed_in_object [OF st1(2)])
  show ?case
  proof (cases "ps = []")
    case True
    with st0(1) st1(1) obj p show ?thesis by auto
  next
    case False
    obtain st2 where st2: "jrun D (?pre @ any_dumps fmt v) (CHR '','' # object_dumps fmt ps @ CHR ''}'' # rest) st1 =
        jrun D ((?pre @ any_dumps fmt v) @ '','') (object_dumps fmt ps @ CHR ''}'' # rest) st2"
      "in_object False (es @ [(k, tree v)]) fs st2"
      using read_comma_object [OF obj] by blast
    from Cons.IH [OF False Cons.prems(2) st2(2), of "(?pre @ any_dumps fmt v) @ '',''"] Cons.prems(4)
    obtain st3 where "jrun D ((?pre @ any_dumps fmt v) @ '','') (object_dumps fmt ps @ CHR ''}'' # rest) st2 =
        jrun D (((?pre @ any_dumps fmt v) @ '','') @ object_dumps fmt ps) (CHR ''}'' # rest) st3"
      "in_object True ((es @ [(k, tree v)]) @ map (\<lambda>(k, v). (k, tree v)) ps) fs st3" by auto
    with st0(1) st1(1) st2(1) False p show ?thesis by auto
  qed
qed simp

lemma reads_object:
  fixes D :: "'d double_ops" and ps :: "'d properties"
  assumes "\<And>k v. (k, v) \<in> set ps \<Longrightarrow> key_ok k \<and> reads D (any_dumps fmt v) (tree v)" "int (length ps) \<le> uint_max"
  shows "reads D (any_dumps fmt (SrsJsonObject ps)) (json_object (map (\<lambda>(k, v). (k, tree v)) ps))"
proof (rule readsI)
  fix pre rest fs and st :: "'d json_state"
  assume st: "ready fs st" "has_room fs" "value_ends rest"
  let ?st = "new_value (FObject [] []) (st\<lparr>flag_seek_value := False\<rparr>)"
  have 1: "jrun D pre (CHR ''{'' # object_dumps fmt ps @ CHR ''}'' # rest) st = jrun D (pre @ ''{'') (object_dumps fmt ps @ CHR ''}'' # rest) ?st"
    using st(1) by (intro jrun_byte) (simp add: json_step_def json_seek_def json_space_def json_value_start_def ready_def Let_def)
  have obj: "in_object False [] fs ?st" using st(1) by (simp add: in_object_def ready_def new_value_def)
  obtain comma st2 where 2: "jrun D (pre @ ''{'') (object_dumps fmt ps @ CHR ''}'' # rest) ?st =
      jrun D ((pre @ ''{'') @ object_dumps fmt ps) (CHR ''}'' # rest) st2" "in_object comma (map (\<lambda>(k, v). (k, tree v)) ps) fs st2"
  proof (cases "ps = []")
    case True
    with obj that [of ?st False] show ?thesis by simp
  next
    case False
    with read_entries [OF False assms(1) obj, of "pre @ ''{''" rest] assms(2) that show ?thesis by auto
  qed
  obtain st3 where 3: "jrun D ((pre @ ''{'') @ object_dumps fmt ps) (CHR ''}'' # rest) st2 =
      jrun D (((pre @ ''{'') @ object_dumps fmt ps) @ ''}'') rest st3" "closed (json_object (map (\<lambda>(k, v). (k, tree v)) ps)) fs st3"
    using read_brace [OF 2(2) st(2)] by blast
  from 1 2(1) 3 show "\<exists>st'. jrun D pre (any_dumps fmt (SrsJsonObject ps) @ rest) st =
      jrun D (pre @ any_dumps fmt (SrsJsonObject ps)) rest st' \<and> closed (json_object (map (\<lambda>(k, v). (k, tree v)) ps)) fs st'" by auto
qed

section \<open>Reading what was written\<close>

primrec tree_of :: "'d SrsJsonAny \<Rightarrow> 'd json_value" where
  "tree_of (SrsJsonString s) = json_string s"
| "tree_of (SrsJsonBoolean b) = json_boolean b"
| "tree_of (SrsJsonInteger i) = json_integer i"
| "tree_of (SrsJsonNumber d) = json_double d"
| "tree_of SrsJsonNull = json_null"
| "tree_of (SrsJsonObject ps) = json_object (map (map_prod id tree_of) ps)"
| "tree_of (SrsJsonArray xs) = json_array (map tree_of xs)"

text \<open>The values that survive: no floating point number, integers of 64 bits, strings without zero bytes,
  names that are written correctly without escapes, different names in an object, and fewer elements and
  bytes than the parser admits.\<close>

primrec dumpable :: "'d SrsJsonAny \<Rightarrow> bool" where
  "dumpable (SrsJsonString s) \<longleftrightarrow> CHR 0x00 \<notin> set s \<and> int (length s) \<le> uint_max"
| "dumpable (SrsJsonBoolean b) \<longleftrightarrow> True"
| "dumpable (SrsJsonInteger i) \<longleftrightarrow> - (2 ^ 63) \<le> i \<and> i < 2 ^ 63"
| "dumpable (SrsJsonNumber d) \<longleftrightarrow> False"
| "dumpable SrsJsonNull \<longleftrightarrow> True"
| "dumpable (SrsJsonObject ps) \<longleftrightarrow> list_all snd (map (map_prod id dumpable) ps) \<and> list_all key_ok (map fst ps) \<and>
     distinct (map fst ps) \<and> int (length ps) \<le> uint_max"
| "dumpable (SrsJsonArray xs) \<longleftrightarrow> list_all (\<lambda>b. b) (map dumpable xs) \<and> int (length xs) \<le> uint_max"

lemma map_prod_entries: "map (map_prod id f) ps = map (\<lambda>(k, v). (k, f v)) ps"
  by auto

lemma reads_any: "dumpable v \<Longrightarrow> reads D (any_dumps fmt v) (tree_of v)"
proof (induction v)
  case (SrsJsonString s)
  then show ?case by (simp add: reads_string)
next
  case (SrsJsonBoolean b)
  then show ?case by (cases b) (simp_all add: reads_true [simplified] reads_false [simplified])
next
  case (SrsJsonInteger i)
  then show ?case using reads_integer [of D i] by (simp add: srs_int2str_def wrap64_small)
next
  case SrsJsonNull
  then show ?case by (simp add: reads_null [simplified])
next
  case (SrsJsonObject ps)
  have "key_ok k \<and> reads D (any_dumps fmt v) (tree_of v)" if "(k, v) \<in> set ps" for k v
    using that SrsJsonObject.prems SrsJsonObject.IH [OF that, of v] by (auto simp: list_all_iff snds.simps)
  then show ?case using SrsJsonObject.prems by (simp add: reads_object map_prod_entries del: any_dumps.simps)
next
  case (SrsJsonArray xs)
  then have "reads D (any_dumps fmt v) (tree_of v)" if "v \<in> set xs" for v using that by (auto simp: list_all_iff)
  then show ?case using SrsJsonArray.prems by (simp add: reads_array del: any_dumps.simps)
qed simp

lemma parse_tree_entries_append:
  assumes "\<And>k v. (k, v) \<in> set ps \<Longrightarrow> srs_json_parse_tree (Some (tree v)) = Some v"
    "distinct (map fst (obj @ ps))"
  shows "parse_tree_entries (map (\<lambda>(k, v). (k, tree v)) ps) obj = Some (obj @ ps)"
  using assms
proof (induction ps arbitrary: obj)
  case (Cons p ps)
  obtain k v where p: "p = (k, v)" by (cases p)
  with Cons.prems have "object_set k (Some v) obj = obj @ [p]" by (auto intro!: object_set_new)
  with Cons.IH [of "obj @ [p]"] Cons.prems p Cons.prems(1) [of k v] show ?case by auto
qed simp

lemma parse_tree_items_append:
  assumes "\<And>v. v \<in> set xs \<Longrightarrow> srs_json_parse_tree (Some (tree v)) = Some v"
  shows "parse_tree_items (map tree xs) arr = Some (arr @ xs)"
  using assms by (induction xs arbitrary: arr) (simp_all add: array_add_def)

lemma parse_tree_of: "dumpable v \<Longrightarrow> srs_json_parse_tree (Some (tree_of v)) = Some v"
proof (induction v)
  case (SrsJsonObject ps)
  have "srs_json_parse_tree (Some (tree_of v)) = Some v" if "(k, v) \<in> set ps" for k v
    using that SrsJsonObject.prems SrsJsonObject.IH [OF that, of v] by (auto simp: list_all_iff snds.simps)
  with SrsJsonObject.prems show ?case by (simp add: parse_tree_entries_append map_prod_entries)
next
  case (SrsJsonArray xs)
  then show ?case by (simp add: parse_tree_items_append list_all_iff)
qed simp_all

lemma any_dumps_start: "dumpable v \<Longrightarrow> \<exists>c s. any_dumps fmt v = c # s \<and> c \<noteq> CHR 0xEF"
proof (cases v)
  case (SrsJsonInteger i)
  obtain c s where n: "nat_to_str (nat i) = c # s" by (cases "nat_to_str (nat i)") auto
  then have "c \<noteq> CHR 0xEF" using nat_to_str_digits [of "nat i"] by (auto simp: is_digit_def less_eq_char_def)
  with n SrsJsonInteger show ?thesis by (auto simp: srs_int2str_def int_to_str_def)
qed (auto simp: json_serialize_string_def)

lemma jrun_done:
  assumes "closed w [] st"
  shows "\<exists>f. jrun D pre [] st = JBreak st \<and> js_top st = [f] \<and> frame_value f = w"
  using assms byte_at_append [of pre "[]"]
  by (auto simp: closed_def jrun_def json_loop.simps [of D _ "length pre"] json_step_def)

lemma json_parse_dumps:
  assumes "dumpable v"
  shows "json_parse D (any_dumps fmt v) = Some (tree_of v)"
proof -
  let ?s = "any_dumps fmt v"
  obtain c t where "?s = c # t" "c \<noteq> CHR 0xEF" using any_dumps_start [OF assms] by blast
  then have bom: "skip_bom ?s = ?s" by (simp add: skip_bom_def)
  have "ready [] json_init" "value_ends []" by (simp_all add: ready_def json_init_def value_ends_def)
  then obtain st where "jrun D [] (?s @ []) json_init = jrun D ([] @ ?s) [] st" "closed (tree_of v) [] st"
    using reads_any [OF assms, of D fmt, unfolded reads_def, rule_format, where fs = "[]" and st = json_init and rest = "[]" and pre = "[]"]
    by auto
  with jrun_done [of "tree_of v" st D ?s] bom show ?thesis
    by (auto simp: json_parse_def json_run_def jrun_def)
qed

lemma loads_dumps: "dumpable v \<Longrightarrow> loads D (any_dumps fmt v) = Some v"
  using any_dumps_start [of v fmt] by (auto simp: loads_def json_parse_dumps parse_tree_of)

section \<open>Properties\<close>

text \<open>An instance of the floating point operations for the examples: whole numbers.\<close>

definition whole_ops :: "int double_ops" where
  "whole_ops = \<lparr>d_of_int = (\<lambda>i. i), d_add = (+), d_mul = (*), d_div = (div), d_neg = uminus, d_pow10 = (\<lambda>n. 10 ^ nat n)\<rparr>"



text \<open>C26. Loading what \<open>dumps\<close> has written gives the value back, for every nesting of objects and arrays:
  strings with any bytes but zero (quotes, backslashes and control characters included), integers of
  64 bits, booleans and null.  The conditions are those of the code: a floating point number is written
  with two digits, the names of an object are written without escapes, and an object keeps one value for
  a name.\<close>

theorem json_roundtrip:
  assumes "dumpable v"
  shows "loads D (any_dumps fmt v) = Some v"
  by (rule loads_dumps [OF assms])

theorem json_roundtrip_witness:
  "loads whole_ops (any_dumps int_to_str
     (SrsJsonObject [(''a'', SrsJsonArray [SrsJsonInteger (- 12), SrsJsonString [CHR 0x22, LF, CHR 0x5C]]), (''b'', SrsJsonNull)])) =
   Some (SrsJsonObject [(''a'', SrsJsonArray [SrsJsonInteger (- 12), SrsJsonString [CHR 0x22, LF, CHR 0x5C]]), (''b'', SrsJsonNull)])"
  by (rule json_roundtrip) (simp add: key_ok_def uint_max_def)

text \<open>A pair of surrogates is combined with a bitwise or instead of an addition: the escapes of
  U+20000 are decoded as U+10000.\<close>

lemma surrogate_pair_decoded_wrong:
  "json_uchar [CHR ''u'', CHR ''d'', CHR ''8'', CHR ''4'', CHR ''0'', CHR 0x5C, CHR ''u'', CHR ''d'', CHR ''c'', CHR ''0'', CHR ''0'', CHR 0x22] 0 =
     Some (0x10000, 10)"
  by (simp add: json_uchar_def hex4_def hex_value_def byte_at_def is_digit_def less_eq_char_def digit_val_def Let_def)

end
