(* ===== verification/Kernel_File.thy ===== *)
theory Kernel_File
  imports Kernel_Error
begin

text \<open>
  \<open>SrsFileWriter\<close> and \<open>SrsFileReader\<close> (\<open>src/src/kernel/srs_kernel_file.cpp\<close>), and the loop
  with which \<open>SrsPolicy\<close> and \<open>SrsNotification\<close> read a whole file
  (\<open>src/src/app/srs_app_policy.cpp\<close>).  The system calls are the record \<open>posix\<close> of functions on the
  state \<open>'k\<close> of the operating system; what the loader relies on is the locale
  \<open>readable_file\<close>, with a disk that holds one file as an instance.
\<close>

section \<open>Definitions\<close>

abbreviation ERROR_SYSTEM_FILE_ALREADY_OPENED :: int where "ERROR_SYSTEM_FILE_ALREADY_OPENED \<equiv> 1041"
abbreviation ERROR_SYSTEM_FILE_OPENE :: int where "ERROR_SYSTEM_FILE_OPENE \<equiv> 1042"
abbreviation ERROR_SYSTEM_FILE_READ :: int where "ERROR_SYSTEM_FILE_READ \<equiv> 1044"
abbreviation ERROR_SYSTEM_FILE_WRITE :: int where "ERROR_SYSTEM_FILE_WRITE \<equiv> 1045"
abbreviation ERROR_SYSTEM_FILE_SEEK :: int where "ERROR_SYSTEM_FILE_SEEK \<equiv> 1049"

datatype open_mode = OpenTruncate | OpenAppend | OpenReadOnly
datatype whence = SEEK_SET | SEEK_CUR | SEEK_END

text \<open>The system calls; \<open>sys_read\<close> delivers \<open>None\<close> for a negative result.\<close>

record 'k posix =
  sys_open :: "string \<Rightarrow> open_mode \<Rightarrow> 'k \<Rightarrow> int \<times> 'k"
  sys_read :: "int \<Rightarrow> nat \<Rightarrow> 'k \<Rightarrow> string option \<times> 'k"
  sys_write :: "int \<Rightarrow> string \<Rightarrow> 'k \<Rightarrow> int \<times> 'k"
  sys_lseek :: "int \<Rightarrow> int \<Rightarrow> whence \<Rightarrow> 'k \<Rightarrow> int \<times> 'k"
  sys_close :: "int \<Rightarrow> 'k \<Rightarrow> int \<times> 'k"

text \<open>Both classes have a path and a descriptor.\<close>

record SrsFile =
  file_path :: string
  file_fd :: int

definition SrsFile_new :: SrsFile where
  "SrsFile_new = \<lparr>file_path = [], file_fd = - 1\<rparr>"

definition file_open :: "'k posix \<Rightarrow> open_mode \<Rightarrow> string \<Rightarrow> SrsFile \<Rightarrow> 'k \<Rightarrow> int \<times> SrsFile \<times> 'k" where
  "file_open P mode p f k =
     (if file_fd f > 0 then (ERROR_SYSTEM_FILE_ALREADY_OPENED, f, k)
      else case sys_open P p mode k of (fd, k') \<Rightarrow>
        if fd < 0 then (ERROR_SYSTEM_FILE_OPENE, f\<lparr>file_fd := fd\<rparr>, k')
        else (ERROR_SUCCESS, f\<lparr>file_fd := fd, file_path := p\<rparr>, k'))"

definition writer_open :: "'k posix \<Rightarrow> string \<Rightarrow> SrsFile \<Rightarrow> 'k \<Rightarrow> int \<times> SrsFile \<times> 'k" where
  "writer_open P = file_open P OpenTruncate"

definition writer_open_append :: "'k posix \<Rightarrow> string \<Rightarrow> SrsFile \<Rightarrow> 'k \<Rightarrow> int \<times> SrsFile \<times> 'k" where
  "writer_open_append P = file_open P OpenAppend"

definition reader_open :: "'k posix \<Rightarrow> string \<Rightarrow> SrsFile \<Rightarrow> 'k \<Rightarrow> int \<times> SrsFile \<times> 'k" where
  "reader_open P = file_open P OpenReadOnly"

definition file_close :: "'k posix \<Rightarrow> SrsFile \<Rightarrow> 'k \<Rightarrow> SrsFile \<times> 'k" where
  "file_close P f k =
     (if file_fd f < 0 then (f, k)
      else case sys_close P (file_fd f) k of (_, k') \<Rightarrow> (f\<lparr>file_fd := - 1\<rparr>, k'))"

definition file_is_open :: "SrsFile \<Rightarrow> bool" where
  "file_is_open f \<longleftrightarrow> file_fd f > 0"

definition file_tellg :: "'k posix \<Rightarrow> SrsFile \<Rightarrow> 'k \<Rightarrow> int \<times> 'k" where
  "file_tellg P f k = sys_lseek P (file_fd f) 0 SEEK_CUR k"

text \<open>\<open>seek2\<close> of the writer asserts that the call succeeds.\<close>

definition writer_seek2 :: "'k posix \<Rightarrow> int \<Rightarrow> SrsFile \<Rightarrow> 'k \<Rightarrow> 'k option" where
  "writer_seek2 P offset f k =
     (case sys_lseek P (file_fd f) offset SEEK_SET k of (r0, k') \<Rightarrow> if r0 \<noteq> - 1 then Some k' else None)"

definition file_write :: "'k posix \<Rightarrow> string \<Rightarrow> SrsFile \<Rightarrow> 'k \<Rightarrow> int srs \<times> 'k" where
  "file_write P buf f k =
     (case sys_write P (file_fd f) buf k of (nwrite, k') \<Rightarrow>
        (if nwrite < 0 then Err ERROR_SYSTEM_FILE_WRITE else Ok nwrite, k'))"

fun file_writev :: "'k posix \<Rightarrow> string list \<Rightarrow> SrsFile \<Rightarrow> int \<Rightarrow> 'k \<Rightarrow> int srs \<times> 'k" where
  "file_writev P [] f nwrite k = (Ok nwrite, k)"
| "file_writev P (v # iov) f nwrite k =
     (case file_write P v f k of
        (Err e, k') \<Rightarrow> (Err e, k')
      | (Ok n, k') \<Rightarrow> file_writev P iov f (nwrite + n) k')"

definition file_lseek :: "'k posix \<Rightarrow> int \<Rightarrow> whence \<Rightarrow> SrsFile \<Rightarrow> 'k \<Rightarrow> int srs \<times> 'k" where
  "file_lseek P offset wh f k =
     (case sys_lseek P (file_fd f) offset wh k of (sk, k') \<Rightarrow>
        (if sk < 0 then Err ERROR_SYSTEM_FILE_SEEK else Ok sk, k'))"

definition reader_skip :: "'k posix \<Rightarrow> int \<Rightarrow> SrsFile \<Rightarrow> 'k \<Rightarrow> 'k" where
  "reader_skip P n f k = snd (sys_lseek P (file_fd f) n SEEK_CUR k)"

definition reader_seek2 :: "'k posix \<Rightarrow> int \<Rightarrow> SrsFile \<Rightarrow> 'k \<Rightarrow> int \<times> 'k" where
  "reader_seek2 P offset f k = sys_lseek P (file_fd f) offset SEEK_SET k"

definition reader_filesize :: "'k posix \<Rightarrow> SrsFile \<Rightarrow> 'k \<Rightarrow> int \<times> 'k" where
  "reader_filesize P f k =
     (case file_tellg P f k of (cur, k) \<Rightarrow>
      case sys_lseek P (file_fd f) 0 SEEK_END k of (n, k) \<Rightarrow>
      case sys_lseek P (file_fd f) cur SEEK_SET k of (_, k) \<Rightarrow> (n, k))"

definition file_read :: "'k posix \<Rightarrow> nat \<Rightarrow> SrsFile \<Rightarrow> 'k \<Rightarrow> string srs \<times> 'k" where
  "file_read P count f k =
     (case sys_read P (file_fd f) count k of
        (None, k') \<Rightarrow> (Err ERROR_SYSTEM_FILE_READ, k')
      | (Some bs, k') \<Rightarrow> (if bs = [] then Err ERROR_SYSTEM_FILE_EOF else Ok bs, k'))"

text \<open>The loop that reads a file in pieces of 4096 bytes.  The error object is freed and its pointer
  cleared before it is tested, so only \<open>nread\<close> ends the loop: a failing call leaves it as it was, and
  the buffer, which is cleared after every piece, is appended again.\<close>

partial_function (option) load_loop ::
    "'k posix \<Rightarrow> SrsFile \<Rightarrow> nat \<Rightarrow> string \<Rightarrow> 'k \<Rightarrow> (string \<times> 'k) option" where
  "load_loop os f nread acc k =
     (case file_read os 4096 f k of (res, k') \<Rightarrow>
        (case res of
           Ok bs \<Rightarrow> if length bs = 0 then Some (acc, k') else load_loop os f (length bs) (acc @ bs) k'
         | Err e \<Rightarrow>
             if e = ERROR_SYSTEM_FILE_EOF \<or> nread = 0 then Some (acc, k')
             else load_loop os f nread (acc @ replicate nread (CHR 0x00)) k'))"

text \<open>Opening the file (whose error is ignored) and reading it.\<close>

definition load_file :: "'k posix \<Rightarrow> string \<Rightarrow> 'k \<Rightarrow> (string \<times> 'k) option" where
  "load_file P p k =
     (case reader_open P p SrsFile_new k of (_, f, k') \<Rightarrow>
        map_option (\<lambda>(text, k''). (text, snd (file_close P f k''))) (load_loop P f 0 [] k'))"

section \<open>Reading a file\<close>

text \<open>A descriptor of which \<open>rest\<close> is still to be read.\<close>

locale readable_file =
  fixes P :: "'k posix" and fd :: int and rest :: "'k \<Rightarrow> string"
  assumes read_some: "sys_read P fd n k = (Some bs, k') \<Longrightarrow> length bs \<le> n \<and> rest k = bs @ rest k'"
    and read_progress: "sys_read P fd n k = (Some [], k') \<Longrightarrow> 0 < n \<Longrightarrow> rest k = []"
    and read_never_fails: "fst (sys_read P fd n k) \<noteq> None"
begin

lemma load_loop_reads_rest:
  assumes "file_fd f = fd"
  shows "\<exists>k'. load_loop P f nread acc k = Some (acc @ rest k, k') \<and> rest k' = []"
  using assms
proof (induction "length (rest k)" arbitrary: nread acc k rule: less_induct)
  case less
  obtain bs k' where rd: "sys_read P fd 4096 k = (Some bs, k')"
    using read_never_fails [of 4096 k] by (cases "sys_read P fd 4096 k") auto
  from read_some [OF rd] have k: "rest k = bs @ rest k'" by simp
  show ?case
  proof (cases "bs = []")
    case True
    with rd read_progress [of 4096 k k'] k have "rest k = []" "rest k' = []" by auto
    with True rd less.prems show ?thesis by (subst load_loop.simps) (simp add: file_read_def)
  next
    case False
    then have "length (rest k') < length (rest k)" using k by simp
    from less.hyps [OF this less.prems, of "length bs" "acc @ bs"] show ?thesis
      using False rd less.prems k by (subst load_loop.simps) (simp add: file_read_def)
  qed
qed

end

text \<open>A disk with one file: the content and the position.\<close>

definition disk_posix :: "string \<Rightarrow> nat posix" where
  "disk_posix content =
     \<lparr>sys_open = (\<lambda>_ _ k. (3, 0)),
      sys_read = (\<lambda>_ n k. (Some (take n (drop k content)), min (k + n) (length content))),
      sys_write = (\<lambda>_ bs k. (- 1, k)),
      sys_lseek = (\<lambda>_ off wh k. (let k' = nat (off + (case wh of SEEK_SET \<Rightarrow> 0 | SEEK_CUR \<Rightarrow> int k | SEEK_END \<Rightarrow> int (length content)))
                   in (int k', k'))),
      sys_close = (\<lambda>_ k. (0, k))\<rparr>"

interpretation disk: readable_file "disk_posix content" fd "\<lambda>k. drop k content" for content fd
proof
  fix n k bs k'
  assume "sys_read (disk_posix content) fd n k = (Some bs, k')"
  then have "bs = take n (drop k content)" "k' = min (k + n) (length content)" by (auto simp: disk_posix_def)
  moreover have "drop (min (k + n) (length content)) content = drop n (drop k content)"
    by (cases "k + n \<le> length content") (auto simp: min_def add.commute)
  ultimately show "length bs \<le> n \<and> drop k content = bs @ drop k' content"
    by (metis append_take_drop_id length_take min.cobounded2)
next
  fix n k k'
  assume "sys_read (disk_posix content) fd n k = (Some [], k')" "0 < n"
  then show "drop k content = []" by (auto simp: disk_posix_def)
qed (simp add: disk_posix_def)

lemma load_file_reads:
  assumes "readable_file P fd rest" "sys_open P p OpenReadOnly k = (fd, k1)" "0 \<le> fd"
  shows "\<exists>k'. load_file P p k = Some (rest k1, k')"
proof -
  have opened: "reader_open P p SrsFile_new k = (ERROR_SUCCESS, \<lparr>file_path = p, file_fd = fd\<rparr>, k1)"
    using assms(2,3) by (simp add: reader_open_def file_open_def SrsFile_new_def)
  from readable_file.load_loop_reads_rest [OF assms(1), of "\<lparr>file_path = p, file_fd = fd\<rparr>" 0 "[]" k1] opened
  show ?thesis by (auto simp: load_file_def)
qed

text \<open>When every call fails from some point on and something was read before, the loop has no end.\<close>

lemma load_loop_spins:
  fixes P :: "'k posix"
  assumes "\<And>k. fst (sys_read P (file_fd f) 4096 k) = None" "0 < nread"
  shows "load_loop P f nread acc k = None"
proof -
  have rd: "\<exists>k'. file_read P 4096 f k = (Err ERROR_SYSTEM_FILE_READ, k')" for k
    using assms(1) [of k] by (cases "sys_read P (file_fd f) 4096 k") (auto simp: file_read_def)
  have False if "load_loop P f nread acc k = Some r" for acc k r
    using that
  proof (rule load_loop.raw_induct [where P = "\<lambda>os f' n acc k r. os = P \<longrightarrow> f' = f \<longrightarrow> n = nread \<longrightarrow> False",
        rotated, THEN mp, THEN mp, THEN mp, OF _ _ refl refl refl])
    fix rec :: "'k posix \<Rightarrow> SrsFile \<Rightarrow> nat \<Rightarrow> string \<Rightarrow> 'k \<Rightarrow> (string \<times> 'k) option" and os f' n acc k r
    assume IH: "\<And>os f' n acc k r. rec os f' n acc k = Some r \<Longrightarrow> os = P \<longrightarrow> f' = f \<longrightarrow> n = nread \<longrightarrow> False"
    assume run: "(case file_read os 4096 f' k of (res, k') \<Rightarrow>
        case res of
          Ok bs \<Rightarrow> if length bs = 0 then Some (acc, k') else rec os f' (length bs) (acc @ bs) k'
        | Err e \<Rightarrow> if e = ERROR_SYSTEM_FILE_EOF \<or> n = 0 then Some (acc, k')
            else rec os f' n (acc @ replicate n (CHR 0x00)) k') = Some r"
    from rd [of k] obtain k' where "file_read P 4096 f k = (Err ERROR_SYSTEM_FILE_READ, k')" by blast
    with run assms(2) IH [of P f nread "acc @ replicate nread (CHR 0x00)" k' r]
    show "os = P \<longrightarrow> f' = f \<longrightarrow> n = nread \<longrightarrow> False" by auto
  qed
  then show ?thesis using assms(2) by (cases "load_loop P f nread acc k") auto
qed

end
