(* ===== verification/Policy.thy ===== *)
theory Policy
  imports Json_Text Kernel_File
begin

text \<open>
  \<open>SrsPolicy\<close> and \<open>SrsNotification\<close> (\<open>src/src/app/srs_app_policy.cpp\<close>): the lists of blocked
  and tunnelled domains, the switch for decryption, how they are taken from the JSON document, how a
  domain is matched, and the page shown for a blocked domain.  A crash (a method called on a null
  pointer, or a failed assertion) is \<open>None\<close>.
\<close>

section \<open>Definitions\<close>

record SrsPolicy =
  black_list_vec :: "string list"
  tunnel_domain_vec :: "string list"
  https_descrypt_enable :: bool

definition SrsPolicy_new :: SrsPolicy where
  "SrsPolicy_new = \<lparr>black_list_vec = [], tunnel_domain_vec = [], https_descrypt_enable = False\<rparr>"

text \<open>The loops that push the items of an array.\<close>

fun push_domains :: "'d SrsJsonAny list \<Rightarrow> string list \<Rightarrow> string list option" where
  "push_domains [] vec = Some vec"
| "push_domains (x # xs) vec =
     (case to_str x of None \<Rightarrow> None | Some d \<Rightarrow> push_domains xs (vec @ [d]))"

text \<open>From the document on; \<open>get_property\<close> on an object that is not there, and a method of a property
  that is not there, are calls on a null pointer.\<close>

definition load_tunnel :: "'d properties \<Rightarrow> SrsPolicy \<Rightarrow> SrsPolicy option" where
  "load_tunnel obj_req p =
     (case get_property ''tunnel_domain'' obj_req of
        None \<Rightarrow> None
      | Some prop \<Rightarrow>
          (case to_array prop of
             None \<Rightarrow> Some p
           | Some xs \<Rightarrow> map_option (\<lambda>v. p\<lparr>tunnel_domain_vec := v\<rparr>) (push_domains xs (tunnel_domain_vec p))))"

definition load_descrypt :: "'d properties \<Rightarrow> SrsPolicy \<Rightarrow> SrsPolicy option" where
  "load_descrypt obj_req p =
     (case get_property ''https_descrypt'' obj_req of
        None \<Rightarrow> None
      | Some prop \<Rightarrow>
          (case to_boolean prop of
             None \<Rightarrow> Some p
           | Some b \<Rightarrow> load_tunnel obj_req (p\<lparr>https_descrypt_enable := b\<rparr>)))"

definition load_document :: "'d SrsJsonAny option \<Rightarrow> SrsPolicy \<Rightarrow> SrsPolicy option" where
  "load_document any p =
     (case any of
        None \<Rightarrow> Some p
      | Some a \<Rightarrow>
          (case to_object a of
             None \<Rightarrow> None
           | Some obj_req \<Rightarrow>
               (case get_property ''black_list'' obj_req of
                  None \<Rightarrow> None
                | Some prop \<Rightarrow>
                    (case to_array prop of
                       None \<Rightarrow> Some p
                     | Some xs \<Rightarrow>
                         (case push_domains xs (black_list_vec p) of
                            None \<Rightarrow> None
                          | Some v \<Rightarrow> load_descrypt obj_req (p\<lparr>black_list_vec := v\<rparr>))))))"

text \<open>\<open>loadPolicy\<close> reads the file and parses its text; the result \<open>None\<close> also covers a loop of
  reads that does not end.\<close>

definition loadPolicy :: "'d double_ops \<Rightarrow> 'k posix \<Rightarrow> SrsPolicy \<Rightarrow> 'k \<Rightarrow> (SrsPolicy \<times> 'k) option" where
  "loadPolicy D os p k =
     Option.bind (load_file os ''./conf/policy.json'' k)
       (\<lambda>(poliy, k'). map_option (\<lambda>p'. (p', k')) (load_document (loads D poliy) p))"

fun match_list :: "string list \<Rightarrow> string \<Rightarrow> bool" where
  "match_list [] url = False"
| "match_list (item # items) url = (if str_find url item \<noteq> None then True else match_list items url)"

definition match_black_list :: "SrsPolicy \<Rightarrow> string \<Rightarrow> bool" where
  "match_black_list p url = match_list (black_list_vec p) url"

definition match_tunnel_domain_list :: "SrsPolicy \<Rightarrow> string \<Rightarrow> bool" where
  "match_tunnel_domain_list p url = match_list (tunnel_domain_vec p) url"

definition is_https_descrypt_enable :: "SrsPolicy \<Rightarrow> bool" where
  "is_https_descrypt_enable p = https_descrypt_enable p"

text \<open>The page for a blocked domain; \<open>srs_string_replace\<close> ends here, as the patterns are not empty.\<close>

definition loadNotification :: "'k posix \<Rightarrow> string \<Rightarrow> 'k \<Rightarrow> (string \<times> 'k) option" where
  "loadNotification os page k =
     map_option (\<lambda>(t, k'). (page @ t, k')) (load_file os ''./conf/block_page/black_list.html'' k)"

definition getNotification :: "string \<Rightarrow> string \<Rightarrow> string \<Rightarrow> string option" where
  "getNotification notification_page domain client_ip =
     (case srs_string_replace notification_page ''%URL%'' domain of
        None \<Rightarrow> None
      | Some res \<Rightarrow> srs_string_replace res ''%IP%'' client_ip)"

section \<open>Matching\<close>

lemma match_list_iff: "match_list items url \<longleftrightarrow> (\<exists>item \<in> set items. sublist item url)"
  by (induction items) (auto simp: str_contains_def simp flip: str_contains_sublist)

lemma getNotification_eq:
  "\<exists>page. getNotification t domain client_ip = Some page"
  using replace_loop_spec [of "''%URL%''" domain "[]" t] replace_loop_spec [of "''%IP%''" client_ip "[]"]
  by (auto simp: getNotification_def srs_string_replace_def)

section \<open>Loading\<close>

lemma push_domains_strings: "push_domains (map SrsJsonString ds) vec = Some (vec @ ds)"
  by (induction ds arbitrary: vec) (simp_all add: to_str_def)

lemma load_document_complete:
  assumes "get_property ''black_list'' ps = Some (SrsJsonArray (map SrsJsonString bl))"
    "get_property ''https_descrypt'' ps = Some (SrsJsonBoolean b)"
    "get_property ''tunnel_domain'' ps = Some (SrsJsonArray (map SrsJsonString td))"
  shows "load_document (Some (SrsJsonObject ps)) SrsPolicy_new =
    Some \<lparr>black_list_vec = bl, tunnel_domain_vec = td, https_descrypt_enable = b\<rparr>"
  using assms
  by (simp add: load_document_def load_descrypt_def load_tunnel_def to_object_def to_array_def to_boolean_def
      push_domains_strings SrsPolicy_new_def)

section \<open>Properties\<close>

text \<open>C9. When the policy file holds the text that \<open>dumps\<close> writes for an object with the three
  properties of the right types, in any order and beside any others, loading returns, and the policy
  blocks exactly the hosts that contain an entry of \<open>black_list\<close> as a substring, byte by byte:
  case matters, and the entry may stand anywhere in the host.  The same holds of \<open>tunnel_domain\<close>.
  The file may be delivered in pieces of any size.\<close>

theorem policy_file_enforced:
  fixes D :: "'d double_ops" and ps :: "'d properties"
  assumes "readable_file os fd rest" "sys_open os ''./conf/policy.json'' OpenReadOnly k = (fd, k1)" "0 \<le> fd"
    "rest k1 = any_dumps fmt (SrsJsonObject ps)" "dumpable (SrsJsonObject ps)"
    "get_property ''black_list'' ps = Some (SrsJsonArray (map SrsJsonString bl))"
    "get_property ''https_descrypt'' ps = Some (SrsJsonBoolean b)"
    "get_property ''tunnel_domain'' ps = Some (SrsJsonArray (map SrsJsonString td))"
  shows "\<exists>p k'. loadPolicy D os SrsPolicy_new k = Some (p, k') \<and>
    (match_black_list p host \<longleftrightarrow> (\<exists>us d vs. d \<in> set bl \<and> host = us @ d @ vs)) \<and>
    (match_tunnel_domain_list p host \<longleftrightarrow> (\<exists>us d vs. d \<in> set td \<and> host = us @ d @ vs)) \<and>
    is_https_descrypt_enable p = b"
proof -
  obtain k' where "load_file os ''./conf/policy.json'' k = Some (any_dumps fmt (SrsJsonObject ps), k')"
    using load_file_reads [OF assms(1-3)] assms(4) by auto
  then have "loadPolicy D os SrsPolicy_new k =
      Some (\<lparr>black_list_vec = bl, tunnel_domain_vec = td, https_descrypt_enable = b\<rparr>, k')"
    using load_document_complete [OF assms(6-8)] by (simp add: loadPolicy_def loads_dumps [OF assms(5)] del: any_dumps.simps)
  then show ?thesis
    by (auto simp: match_black_list_def match_tunnel_domain_list_def match_list_iff sublist_def is_https_descrypt_enable_def)
qed

theorem policy_file_enforced_witness:
  "\<exists>p k'. loadPolicy whole_ops (disk_posix (any_dumps int_to_str (SrsJsonObject
      [(''black_list'', SrsJsonArray [SrsJsonString ''a.com'']), (''https_descrypt'', SrsJsonBoolean True),
       (''tunnel_domain'', SrsJsonArray [])]))) SrsPolicy_new 0 = Some (p, k') \<and>
    match_black_list p ''ba.com'' \<and> \<not> match_black_list p ''A.com'' \<and> \<not> match_tunnel_domain_list p ''A.com''"
proof -
  let ?ps = "[(''black_list'', SrsJsonArray [SrsJsonString ''a.com'']), (''https_descrypt'', SrsJsonBoolean True),
       (''tunnel_domain'', SrsJsonArray [])] :: int properties"
  define t where "t = any_dumps int_to_str (SrsJsonObject ?ps)"
  have opened: "sys_open (disk_posix t) ''./conf/policy.json'' OpenReadOnly 0 = (3, 0)" by (simp add: disk_posix_def)
  have dump: "dumpable (SrsJsonObject ?ps)" by (simp add: key_ok_def uint_max_def)
  have props: "get_property ''black_list'' ?ps = Some (SrsJsonArray (map SrsJsonString [''a.com'']))"
    "get_property ''https_descrypt'' ?ps = Some (SrsJsonBoolean True)"
    "get_property ''tunnel_domain'' ?ps = Some (SrsJsonArray (map SrsJsonString []))" by simp_all
  note spec = policy_file_enforced [where rest = "\<lambda>k. drop k t" and fmt = int_to_str and D = whole_ops,
      OF disk.readable_file_axioms [of t 3] opened _ _ dump props, folded t_def]
  from spec [of "''ba.com''"] obtain p k' where p: "loadPolicy whole_ops (disk_posix t) SrsPolicy_new 0 = Some (p, k')"
    "match_black_list p ''ba.com''"
    by (auto intro: exI [of _ "''b''"])
  moreover have "\<not> match_black_list p ''A.com'' \<and> \<not> match_tunnel_domain_list p ''A.com''"
    using spec [of "''A.com''"] p(1) by (auto simp: Cons_eq_append_conv)
  ultimately show ?thesis unfolding t_def by blast
qed

end
