(* ===== verification/Tcp_Client.thy ===== *)
theory Tcp_Client
  imports St_Socket
begin

text \<open>
  Outgoing connections: \<open>srs_tcp_connect\<close> and \<open>SrsTcpClient\<close>
  (\<open>src/src/protocol/srs_protocol_st.cpp\<close>).  The resolver, the socket system call and the calls of
  the State Threads library are the record \<open>dialer\<close> of functions on the state \<open>'e\<close> of
  the outside world; a connection is the network state \<open>'n\<close> that its socket acts on.
\<close>

section \<open>Definitions\<close>

abbreviation ERROR_SOCKET_CREATE :: int where "ERROR_SOCKET_CREATE \<equiv> 1000"
abbreviation ERROR_ST_CONNECT :: int where "ERROR_ST_CONNECT \<equiv> 1018"
abbreviation ERROR_ST_OPEN_SOCKET :: int where "ERROR_ST_OPEN_SOCKET \<equiv> 1015"

abbreviation SRS_UTIME_SECONDS :: int where "SRS_UTIME_SECONDS \<equiv> 1000000"

text \<open>\<open>do_resolve\<close> gives the address, zero when there is none; \<open>st_connect\<close> gives the connection.\<close>

record ('n, 'e) dialer =
  do_resolve :: "string \<Rightarrow> 'e \<Rightarrow> nat \<times> 'e"
  sys_socket :: "'e \<Rightarrow> bool \<times> 'e"
  st_netfd_open_socket :: "'e \<Rightarrow> bool \<times> 'e"
  st_connect :: "nat \<Rightarrow> 16 word \<Rightarrow> int \<Rightarrow> 'e \<Rightarrow> 'n option \<times> 'e"

text \<open>The port goes through \<open>htons\<close>, which keeps its low 16 bits.\<close>

definition srs_tcp_connect :: "('n, 'e) dialer \<Rightarrow> string \<Rightarrow> int \<Rightarrow> int \<Rightarrow> 'e \<Rightarrow> 'n srs \<times> 'e" where
  "srs_tcp_connect d server port tm e =
     (case do_resolve d server e of (addr, e) \<Rightarrow>
      if addr = 0 then (Err ERROR_SOCKET_CREATE, e)
      else case sys_socket d e of (ok, e) \<Rightarrow>
      if \<not> ok then (Err ERROR_SOCKET_CREATE, e)
      else case st_netfd_open_socket d e of (ok, e) \<Rightarrow>
      if \<not> ok then (Err ERROR_ST_OPEN_SOCKET, e)
      else case st_connect d addr (word_of_int port) tm e of
        (None, e) \<Rightarrow> (Err ERROR_ST_CONNECT, e)
      | (Some n, e) \<Rightarrow> (Ok n, e))"

text \<open>A client without a connection has a socket object without a descriptor, which no call may use.\<close>

record 'n SrsTcpClient =
  tcp_host :: string
  tcp_port :: int
  tcp_timeout :: int
  tcp_io :: "'n SrsStSocket option"

definition SrsTcpClient_new :: "string \<Rightarrow> int \<Rightarrow> int \<Rightarrow> 'n SrsTcpClient" where
  "SrsTcpClient_new h p tm = \<lparr>tcp_host = h, tcp_port = p, tcp_timeout = tm, tcp_io = None\<rparr>"

text \<open>The timeouts live in the socket object; those of the object without a descriptor are never used.\<close>

definition tcp_set_recv_timeout :: "int \<Rightarrow> 'n SrsTcpClient \<Rightarrow> 'n SrsTcpClient" where
  "tcp_set_recv_timeout tm c = c\<lparr>tcp_io := map_option (\<lambda>s. s\<lparr>rtm := tm\<rparr>) (tcp_io c)\<rparr>"

definition tcp_set_send_timeout :: "int \<Rightarrow> 'n SrsTcpClient \<Rightarrow> 'n SrsTcpClient" where
  "tcp_set_send_timeout tm c = c\<lparr>tcp_io := map_option (\<lambda>s. s\<lparr>stm := tm\<rparr>) (tcp_io c)\<rparr>"

text \<open>A new socket object replaces the old one.\<close>

definition tcp_connect :: "('n, 'e) dialer \<Rightarrow> 'n SrsTcpClient \<Rightarrow> 'e \<Rightarrow> int \<times> 'n SrsTcpClient \<times> 'e" where
  "tcp_connect d c e =
     (case srs_tcp_connect d (tcp_host c) (tcp_port c) (tcp_timeout c) e of
        (Err code, e) \<Rightarrow> (code, c, e)
      | (Ok n, e) \<Rightarrow> (ERROR_SUCCESS, c\<lparr>tcp_io := Some (SrsStSocket_init n)\<rparr>, e))"

definition tcp_read :: "'n st_read \<Rightarrow> nat \<Rightarrow> 'n SrsTcpClient \<Rightarrow> (string srs \<times> 'n SrsTcpClient) option" where
  "tcp_read st_read sz c =
     map_option (\<lambda>s. case SrsStSocket_read st_read sz s of (r, s) \<Rightarrow> (r, c\<lparr>tcp_io := Some s\<rparr>)) (tcp_io c)"

definition tcp_write :: "'n st_write \<Rightarrow> string \<Rightarrow> 'n SrsTcpClient \<Rightarrow> (int \<times> 'n SrsTcpClient) option" where
  "tcp_write st_write bs c =
     map_option (\<lambda>s. case SrsStSocket_write st_write bs s of (r, s) \<Rightarrow> (r, c\<lparr>tcp_io := Some s\<rparr>)) (tcp_io c)"

section \<open>Connecting\<close>

lemma tcp_connect_keeps_target:
  "tcp_connect d c e = (code, c', e') \<Longrightarrow> tcp_host c' = tcp_host c \<and> tcp_port c' = tcp_port c"
  by (auto simp: tcp_connect_def split: prod.splits sum.splits)

lemma srs_tcp_connect_code: "srs_tcp_connect d h p tm e = (Err code, e') \<Longrightarrow> code \<noteq> ERROR_SUCCESS"
  by (auto simp: srs_tcp_connect_def split: prod.splits option.splits if_splits)

text \<open>A receive timeout that was set before connecting is lost.\<close>

lemma tcp_connect_forgets_timeout:
  assumes "tcp_connect d (tcp_set_recv_timeout tm c) e = (ERROR_SUCCESS, c', e')"
  shows "\<exists>n. c' = c\<lparr>tcp_io := Some (SrsStSocket_init n)\<rparr> \<and> rtm (SrsStSocket_init n) = SRS_UTIME_NO_TIMEOUT"
  using assms
  by (auto simp: tcp_connect_def tcp_set_recv_timeout_def SrsStSocket_init_def dest: srs_tcp_connect_code
      split: prod.splits sum.splits)

end
