(* ===== verification/Steps.thy ===== *)
theory Steps
  imports Main
begin

text \<open>
  The control flow of a handler as a value.  A step gives a result and goes on (\<open>Go\<close>), returns an
  error code from the function it belongs to (\<open>Ret\<close>), or aborts the process (\<open>Crash\<close>, a failed
  assertion); \<open>None\<close> is a step that does not return.  \<open>andthen\<close> is the semicolon of such code, and it may
  stand in the body of a \<open>partial_function\<close>.
\<close>

section \<open>Steps\<close>

datatype ('a, 's) step = Go 'a 's | Ret int 's | Crash

definition andthen :: "('a, 's) step option \<Rightarrow> ('a \<Rightarrow> 's \<Rightarrow> ('b, 's) step option) \<Rightarrow> ('b, 's) step option" where
  "andthen m f = Option.bind m (\<lambda>r. case r of Go a s \<Rightarrow> f a s | Ret e s \<Rightarrow> Some (Ret e s) | Crash \<Rightarrow> Some Crash)"

lemma andthen_simps [simp]:
  "andthen None f = None" "andthen (Some (Go a s)) f = f a s"
  "andthen (Some (Ret e s)) f = Some (Ret e s)" "andthen (Some Crash) f = Some Crash"
  by (simp_all add: andthen_def)

lemma andthen_mono [partial_function_mono]:
  assumes "mono_option B" "\<And>a s. mono_option (\<lambda>f. C a s f)"
  shows "mono_option (\<lambda>f. andthen (B f) (\<lambda>a s. C a s f))"
  unfolding andthen_def
proof (intro bind_mono assms(1))
  fix r
  show "mono_option (\<lambda>f. case r of Go a s \<Rightarrow> C a s f | Ret e s \<Rightarrow> Some (Ret e s) | Crash \<Rightarrow> Some Crash)"
    using assms(2) by (cases r) (simp_all add: option.const_mono)
qed

section \<open>Reasoning about steps\<close>

lemma andthen_Go_iff:
  "andthen m f = Some (Go b t) \<longleftrightarrow> (\<exists>a s. m = Some (Go a s) \<and> f a s = Some (Go b t))"
  by (cases m) (auto simp: andthen_def split: step.splits)

text \<open>\<open>returns Q m\<close>: the step \<open>m\<close> returns, and if it goes on, \<open>Q\<close> holds of its result.\<close>

definition returns :: "('a \<Rightarrow> 's \<Rightarrow> bool) \<Rightarrow> ('a, 's) step option \<Rightarrow> bool" where
  "returns Q m \<longleftrightarrow> (\<exists>r. m = Some r \<and> (\<forall>a s. r = Go a s \<longrightarrow> Q a s))"

lemma returns_simps [simp]:
  "returns Q (Some (Go a s)) \<longleftrightarrow> Q a s" "returns Q (Some (Ret e s))" "returns Q (Some Crash)" "\<not> returns Q None"
  by (simp_all add: returns_def)

lemma returns_andthen:
  assumes "returns P m" "\<And>a s. P a s \<Longrightarrow> returns Q (f a s)"
  shows "returns Q (andthen m f)"
  using assms by (cases m rule: option.exhaust [case_names None Some])
    (auto simp: returns_def andthen_def split: step.splits)

lemma returns_mono: "returns P m \<Longrightarrow> (\<And>a s. P a s \<Longrightarrow> Q a s) \<Longrightarrow> returns Q m"
  by (auto simp: returns_def)

end
