(* ===== verification/Proxy_Conn.thy ===== *)
theory Proxy_Conn
  imports Srs_Http_Parser Http_Writer Policy Tcp_Client Steps
begin

text \<open>
  The proxy connection \<open>SrsHttpxProxyConn\<close> (\<open>src/src/app/srs_app_http_conn.cpp\<close>) for plain HTTP
  and for the tunnel of CONNECT: one transaction reads a request from the client, checks the black
  list, connects to the server, forwards head and body, reads the head of the response and relays it
  with its body.  The state is the object with its two parsers (and their stream buffers), the
  client's socket and the client object for the server, the outside world and the lines of the access
  log.  A step gives a result and goes on, returns an error code from the handler, or aborts the
  process (a failed assertion); \<open>None\<close> is a step that does not return.  The file's libraries and
  settings are the record \<open>proxy_lib\<close>.
\<close>

section \<open>Definitions\<close>

abbreviation SRS_HTTP_RECV_TIMEOUT :: int where "SRS_HTTP_RECV_TIMEOUT \<equiv> 15 * SRS_UTIME_SECONDS"

text \<open>The State Threads calls, the dialer, and what the handler asks of the configuration, the policy,
  the notification and its coroutine; \<open>public_ip\<close>, \<open>stray_port\<close> and \<open>stray_buf\<close> are the values
  that a missing return statement, an uninitialised port and an uninitialised buffer leave.\<close>

record ('n, 'e) proxy_lib =
  lib_read :: "'n st_read"
  lib_peek :: "'n st_read"
  lib_write :: "'n st_write"
  lib_dialer :: "('n, 'e) dialer"
  lib_poll :: "'n \<Rightarrow> 'n \<Rightarrow> 'e \<Rightarrow> (bool \<times> bool) option \<times> 'e"
  policy :: SrsPolicy
  notification_page :: string
  next_hip :: "(string \<times> string) option"
  public_ip :: string
  stray_port :: int
  stray_buf :: string
  pull :: int

record ('n, 'e) SrsHttpxProxyConn =
  px_parser :: SrsHttpParser
  server_parser :: SrsHttpParser
  clt_skt :: "'n SrsStSocket"
  svr_skt :: "'n SrsTcpClient option"
  req_body :: string
  client_ip :: string
  is_https :: bool
  world :: 'e
  access_log :: string

definition SrsHttpxProxyConn_new ::
    "(nat \<Rightarrow> char) \<Rightarrow> 'n SrsStSocket \<Rightarrow> string \<Rightarrow> 'e \<Rightarrow> ('n, 'e) SrsHttpxProxyConn" where
  "SrsHttpxProxyConn_new mem io cip e =
     \<lparr>px_parser = SrsHttpParser_new mem, server_parser = SrsHttpParser_new mem, clt_skt = io, svr_skt = None,
      req_body = [], client_ip = cip, is_https = False, world = e, access_log = []\<rparr>"

subsection \<open>Sockets\<close>

type_synonym ('a, 'n, 'e) proxy_step = "('a, ('n, 'e) SrsHttpxProxyConn) step option"

definition clt_write :: "('n, 'e) proxy_lib \<Rightarrow> string \<Rightarrow> ('n, 'e) SrsHttpxProxyConn \<Rightarrow> (int, 'n, 'e) proxy_step" where
  "clt_write L bs p =
     (case SrsStSocket_write (lib_write L) bs (clt_skt p) of (e, s) \<Rightarrow> Some (Go e (p\<lparr>clt_skt := s\<rparr>)))"

definition svr_write :: "('n, 'e) proxy_lib \<Rightarrow> string \<Rightarrow> ('n, 'e) SrsHttpxProxyConn \<Rightarrow> (int, 'n, 'e) proxy_step" where
  "svr_write L bs p =
     (case svr_skt p of
        None \<Rightarrow> Some Crash
      | Some c \<Rightarrow>
          (case tcp_write (lib_write L) bs c of
             None \<Rightarrow> Some Crash
           | Some (e, c) \<Rightarrow> Some (Go e (p\<lparr>svr_skt := Some c\<rparr>))))"

text \<open>A sequence of writes whose errors are ignored.\<close>

fun svr_writes :: "('n, 'e) proxy_lib \<Rightarrow> string list \<Rightarrow> ('n, 'e) SrsHttpxProxyConn \<Rightarrow> (unit, 'n, 'e) proxy_step" where
  "svr_writes L [] p = Some (Go () p)"
| "svr_writes L (bs # bss) p = andthen (svr_write L bs p) (\<lambda>_. svr_writes L bss)"

text \<open>A sequence of writes that ends the handler at the first error.\<close>

fun clt_writes :: "('n, 'e) proxy_lib \<Rightarrow> string list \<Rightarrow> ('n, 'e) SrsHttpxProxyConn \<Rightarrow> (unit, 'n, 'e) proxy_step" where
  "clt_writes L [] p = Some (Go () p)"
| "clt_writes L (bs # bss) p =
     andthen (clt_write L bs p) (\<lambda>e p. if e \<noteq> ERROR_SUCCESS then Some (Ret e p) else clt_writes L bss p)"

subsection \<open>The request\<close>

definition read_request :: "('n, 'e) proxy_lib \<Rightarrow> ('n, 'e) SrsHttpxProxyConn \<Rightarrow> (SrsHttpMessage, 'n, 'e) proxy_step" where
  "read_request L p =
     map_option (\<lambda>res. case res of
         PmOk m obj s \<Rightarrow> Go m (p\<lparr>px_parser := obj, clt_skt := s\<rparr>)
       | PmErr e obj s \<Rightarrow> Ret e (p\<lparr>px_parser := obj, clt_skt := s\<rparr>)
       | PmCrash \<Rightarrow> Crash)
       (parse_message (public_ip L) (SrsStSocket_read (lib_read L)) (px_parser p) (clt_skt p))"

text \<open>The response for a blocked domain: its head and its body.\<close>

definition prepare403block :: "('n, 'e) proxy_lib \<Rightarrow> string \<Rightarrow> string \<Rightarrow> (string \<times> string) option" where
  "prepare403block L domain cip =
     map_option (\<lambda>body.
       let m = set_basic HTTP_RESPONSE HTTP_DELETE 403 0 SrsHttpMessage_new;
           h = set_content_length (int (length body)) (header_set ''Connection'' ''close'' (set_content_type ''text/html'' (m_header m)))
       in (raw_header (restore_http_header (m\<lparr>m_header := h\<rparr>)), body))
     (getNotification (notification_page L) domain cip)"

definition send_block :: "('n, 'e) proxy_lib \<Rightarrow> SrsHttpMessage \<Rightarrow> ('n, 'e) SrsHttpxProxyConn \<Rightarrow> (unit, 'n, 'e) proxy_step" where
  "send_block L m p =
     (case prepare403block L (host_no_port m) (client_ip p) of
        None \<Rightarrow> None
      | Some (head, body) \<Rightarrow>
          andthen (clt_write L head p) (\<lambda>_ p. andthen (clt_write L body p) (\<lambda>_ p. Some (Ret ERROR_SUCCESS p))))"

text \<open>With a next hop configured every request gets a new client for it; else the client object is
  made once, for the destination of the first request.\<close>

definition choose_server :: "('n, 'e) proxy_lib \<Rightarrow> SrsHttpMessage \<Rightarrow> ('n, 'e) SrsHttpxProxyConn \<Rightarrow> 'n SrsTcpClient" where
  "choose_server L m p =
     (case next_hip L of
        Some (hip, hport) \<Rightarrow> SrsTcpClient_new hip (c_atoi hport) (5 * SRS_UTIME_SECONDS)
      | None \<Rightarrow>
          (case svr_skt p of
             Some c \<Rightarrow> c
           | None \<Rightarrow> SrsTcpClient_new (host_no_port m) (case dest_port m of Some n \<Rightarrow> n | None \<Rightarrow> stray_port L)
               (5 * SRS_UTIME_SECONDS)))"

definition connect_server ::
    "('n, 'e) proxy_lib \<Rightarrow> 'n SrsTcpClient \<Rightarrow> ('n, 'e) SrsHttpxProxyConn \<Rightarrow> (unit, 'n, 'e) proxy_step" where
  "connect_server L c p =
     (case tcp_connect (lib_dialer L) (tcp_set_recv_timeout SRS_HTTP_RECV_TIMEOUT c) (world p) of (code, c, e) \<Rightarrow>
        let p = p\<lparr>svr_skt := Some c, world := e\<rparr> in
        if code \<noteq> ERROR_SUCCESS then Some (Ret code p) else Some (Go () p))"

text \<open>The body of the request, read whole; an error of reading it is ignored, and what was read before
  it is kept.\<close>

definition read_request_body ::
    "('n, 'e) proxy_lib \<Rightarrow> SrsHttpMessage \<Rightarrow> ('n, 'e) SrsHttpxProxyConn \<Rightarrow> (unit, 'n, 'e) proxy_step" where
  "read_request_body L m p =
     (if m_chunked m \<or> m_content_length m > 0 then
        map_option (\<lambda>(content, res). case res of
            BdOk _ _ s r \<Rightarrow> Go () (p\<lparr>req_body := content, px_parser := (px_parser p)\<lparr>sp_buffer := s\<rparr>, clt_skt := r\<rparr>)
          | BdErr _ _ s r \<Rightarrow> Go () (p\<lparr>req_body := content, px_parser := (px_parser p)\<lparr>sp_buffer := s\<rparr>, clt_skt := r\<rparr>)
          | BdCrash \<Rightarrow> Crash)
          (body_read_all (SrsStSocket_read (lib_read L)) (req_body p) m (sp_buffer (px_parser p)) (clt_skt p))
      else Some (Go () p))"

text \<open>\<open>%x\<close> prints the low 32 bits of the size.\<close>

definition chunk_size_text :: "nat \<Rightarrow> string" where
  "chunk_size_text n = to_hex (n mod 2 ^ 32)"

definition LAST_CHUNK :: string where "LAST_CHUNK = ''0'' @ CRLF @ CRLF"

definition forward_request ::
    "('n, 'e) proxy_lib \<Rightarrow> SrsHttpMessage \<Rightarrow> ('n, 'e) SrsHttpxProxyConn \<Rightarrow> (unit, 'n, 'e) proxy_step" where
  "forward_request L m p =
     andthen (svr_writes L [raw_header m] p) (\<lambda>_ p.
     andthen (read_request_body L m p) (\<lambda>_ p.
       if m_chunked m then
         svr_writes L [chunk_size_text (length (req_body p)), CRLF, req_body p, CRLF, LAST_CHUNK] p
       else if m_content_length m > 0 then svr_writes L [req_body p] p
       else Some (Go () p)))"

subsection \<open>The response\<close>

definition read_response :: "('n, 'e) proxy_lib \<Rightarrow> ('n, 'e) SrsHttpxProxyConn \<Rightarrow> (SrsHttpMessage, 'n, 'e) proxy_step" where
  "read_response L p =
     (case svr_skt p of
        None \<Rightarrow> Some Crash
      | Some c \<Rightarrow>
          (case tcp_io c of
             None \<Rightarrow> Some Crash
           | Some io \<Rightarrow>
               map_option (\<lambda>res. case res of
                   PmOk m obj s \<Rightarrow> Go m (p\<lparr>server_parser := obj, svr_skt := Some (c\<lparr>tcp_io := Some s\<rparr>)\<rparr>)
                 | PmErr e obj s \<Rightarrow> Ret e (p\<lparr>server_parser := obj, svr_skt := Some (c\<lparr>tcp_io := Some s\<rparr>)\<rparr>)
                 | PmCrash \<Rightarrow> Crash)
                 (parse_message (public_ip L) (SrsStSocket_read (lib_read L))
                    (SrsHttpParser_initialize HTTP_RESPONSE (server_parser p)) io)))"

text \<open>\<open>body_read_part\<close> on the response; the message carries the state of the body reader.\<close>

definition read_part ::
    "('n, 'e) proxy_lib \<Rightarrow> SrsHttpMessage \<Rightarrow> ('n, 'e) SrsHttpxProxyConn \<Rightarrow> (bool \<times> string \<times> SrsHttpMessage, 'n, 'e) proxy_step" where
  "read_part L m p =
     (case svr_skt p of
        None \<Rightarrow> Some Crash
      | Some c \<Rightarrow>
          (case tcp_io c of
             None \<Rightarrow> Some Crash
           | Some io \<Rightarrow>
               map_option (\<lambda>(finish, res). case res of
                   BdOk bs b s r \<Rightarrow>
                     Go (finish, bs, m\<lparr>m_body := b\<rparr>)
                       (p\<lparr>server_parser := (server_parser p)\<lparr>sp_buffer := s\<rparr>, svr_skt := Some (c\<lparr>tcp_io := Some r\<rparr>)\<rparr>)
                 | BdErr e b s r \<Rightarrow>
                     Ret e (p\<lparr>server_parser := (server_parser p)\<lparr>sp_buffer := s\<rparr>, svr_skt := Some (c\<lparr>tcp_io := Some r\<rparr>)\<rparr>)
                 | BdCrash \<Rightarrow> Crash)
                 (body_read_part (SrsStSocket_read (lib_read L)) 4096 [] m (sp_buffer (server_parser p)) io)))"

text \<open>At the end of the body: the last chunk, whose error is ignored.\<close>

definition end_of_body ::
    "('n, 'e) proxy_lib \<Rightarrow> SrsHttpMessage \<Rightarrow> ('n, 'e) SrsHttpxProxyConn \<Rightarrow> (unit, 'n, 'e) proxy_step" where
  "end_of_body L m p =
     (if m_chunked m then andthen (clt_write L LAST_CHUNK p) (\<lambda>_ p. Some (Go () p)) else Some (Go () p))"

definition relay_part ::
    "('n, 'e) proxy_lib \<Rightarrow> SrsHttpMessage \<Rightarrow> string \<Rightarrow> ('n, 'e) SrsHttpxProxyConn \<Rightarrow> (unit, 'n, 'e) proxy_step" where
  "relay_part L m bs p =
     (if m_chunked m then clt_writes L [chunk_size_text (length bs), CRLF, bs, CRLF] p
      else if m_content_length m > 0 then clt_writes L [bs] p
      else Some (Go () p))"

partial_function (option) relay_loop ::
    "('n, 'e) proxy_lib \<Rightarrow> SrsHttpMessage \<Rightarrow> ('n, 'e) SrsHttpxProxyConn \<Rightarrow> (unit, 'n, 'e) proxy_step" where
  "relay_loop L m p =
     andthen (read_part L m p) (\<lambda>part p. case part of (finish, bs, m) \<Rightarrow>
       if finish \<and> bs = [] then end_of_body L m p
       else andthen (relay_part L m bs p) (\<lambda>_ p.
         if finish then end_of_body L m p else relay_loop L m p))"

definition relay_response ::
    "('n, 'e) proxy_lib \<Rightarrow> SrsHttpMessage \<Rightarrow> ('n, 'e) SrsHttpxProxyConn \<Rightarrow> (unit, 'n, 'e) proxy_step" where
  "relay_response L m p =
     andthen (clt_write L (raw_header m) p) (\<lambda>_ p.
       if m_chunked m \<or> m_content_length m > 0 then relay_loop L m p else Some (Go () p))"

subsection \<open>The tunnel\<close>

text \<open>\<open>pass\<close> in the two directions: \<open>False\<close> is the result -1.  An error of writing is ignored.\<close>

definition pass_up :: "('n, 'e) proxy_lib \<Rightarrow> ('n, 'e) SrsHttpxProxyConn \<Rightarrow> (bool, 'n, 'e) proxy_step" where
  "pass_up L p =
     (case SrsStSocket_read (lib_read L) 4096 (clt_skt p) of
        (Err _, s) \<Rightarrow> Some (Go False (p\<lparr>clt_skt := s\<rparr>))
      | (Ok bs, s) \<Rightarrow> andthen (svr_write L bs (p\<lparr>clt_skt := s\<rparr>)) (\<lambda>_ p. Some (Go True p)))"

definition pass_down :: "('n, 'e) proxy_lib \<Rightarrow> ('n, 'e) SrsHttpxProxyConn \<Rightarrow> (bool, 'n, 'e) proxy_step" where
  "pass_down L p =
     (case svr_skt p of
        None \<Rightarrow> Some Crash
      | Some c \<Rightarrow>
          (case tcp_read (lib_read L) 4096 c of
             None \<Rightarrow> Some Crash
           | Some (Err _, c) \<Rightarrow> Some (Go False (p\<lparr>svr_skt := Some c\<rparr>))
           | Some (Ok bs, c) \<Rightarrow> andthen (clt_write L bs (p\<lparr>svr_skt := Some c\<rparr>)) (\<lambda>_ p. Some (Go True p))))"

text \<open>\<open>srs_poll\<close> on the two descriptors: which of them can be read, or an error.\<close>

definition poll_both :: "('n, 'e) proxy_lib \<Rightarrow> ('n, 'e) SrsHttpxProxyConn \<Rightarrow> ((bool \<times> bool) option, 'n, 'e) proxy_step" where
  "poll_both L p =
     (case Option.bind (svr_skt p) tcp_io of
        None \<Rightarrow> Some Crash
      | Some io \<Rightarrow>
          (case lib_poll L (net (clt_skt p)) (net io) (world p) of (r, e) \<Rightarrow> Some (Go r (p\<lparr>world := e\<rparr>))))"

partial_function (option) processHttpsTunnel ::
    "('n, 'e) proxy_lib \<Rightarrow> ('n, 'e) SrsHttpxProxyConn \<Rightarrow> (unit, 'n, 'e) proxy_step" where
  "processHttpsTunnel L p =
     andthen (poll_both L p) (\<lambda>ready p. case ready of
         None \<Rightarrow> Some (Go () p)
       | Some (up, down) \<Rightarrow>
           andthen (if up then pass_up L p else Some (Go True p)) (\<lambda>ok p.
             if \<not> ok then Some (Go () p)
             else andthen (if down then pass_down L p else Some (Go True p)) (\<lambda>ok p.
               if \<not> ok then Some (Go () p) else processHttpsTunnel L p)))"

subsection \<open>The handler\<close>

definition access_line :: "string \<Rightarrow> string \<Rightarrow> nat \<Rightarrow> string" where
  "access_line cip domain code = cip @ [HT] @ domain @ [HT] @ nat_to_str code @ CRLF"

text \<open>One request after its head has been parsed.\<close>

definition serve_request ::
    "('n, 'e) proxy_lib \<Rightarrow> SrsHttpMessage \<Rightarrow> ('n, 'e) SrsHttpxProxyConn \<Rightarrow> (unit, 'n, 'e) proxy_step" where
  "serve_request L m p =
     (if match_black_list (policy L) (host_no_port m) then send_block L m p
      else
        andthen (connect_server L (choose_server L m p) p) (\<lambda>_ p.
        andthen (forward_request L m p) (\<lambda>_ p.
        andthen (read_response L p) (\<lambda>r p.
        andthen (relay_response L r p) (\<lambda>_ p.
          if \<not> m_keep_alive m \<or> \<not> m_keep_alive r then Some (Ret ERROR_SUCCESS p)
          else andthen (if m_status r = 101 then processHttpsTunnel L p else Some (Go () p)) (\<lambda>_ p.
            Some (Go () (p\<lparr>access_log := access_log p @ access_line (client_ip p) (host_no_port m) (m_status r),
              req_body := []\<rparr>))))))))"

definition http_transaction :: "('n, 'e) proxy_lib \<Rightarrow> ('n, 'e) SrsHttpxProxyConn \<Rightarrow> (unit, 'n, 'e) proxy_step" where
  "http_transaction L p = andthen (read_request L p) (\<lambda>m p. serve_request L m p)"

partial_function (option) process_http_connection ::
    "('n, 'e) proxy_lib \<Rightarrow> ('n, 'e) SrsHttpxProxyConn \<Rightarrow> (unit, 'n, 'e) proxy_step" where
  "process_http_connection L p = andthen (http_transaction L p) (\<lambda>_ p. process_http_connection L p)"

subsection \<open>CONNECT\<close>

text \<open>The first bytes decide whether the connection is a tunnel.  The buffer of eight bytes is not
  initialised, so a short peek leaves \<open>stray_buf\<close> behind what was read; its last byte becomes the
  terminator.\<close>

definition to_lower :: "char \<Rightarrow> char" where
  "to_lower c = (if CHR ''A'' \<le> c \<and> c \<le> CHR ''Z'' then char_of (of_char c + 32 :: nat) else c)"

definition strcasecmp_eq :: "string \<Rightarrow> string \<Rightarrow> bool" where
  "strcasecmp_eq a b \<longleftrightarrow>
     map to_lower (takeWhile (\<lambda>c. c \<noteq> CHR 0x00) a) = map to_lower (takeWhile (\<lambda>c. c \<noteq> CHR 0x00) b)"

definition check_http_or_https ::
    "('n, 'e) proxy_lib \<Rightarrow> ('n, 'e) SrsHttpxProxyConn \<Rightarrow> (unit, 'n, 'e) proxy_step" where
  "check_http_or_https L p =
     (case SrsStSocket_peek (lib_peek L) 8 (clt_skt p) of
        (Err e, s) \<Rightarrow> Some (Ret e (p\<lparr>clt_skt := s\<rparr>))
      | (Ok bs, s) \<Rightarrow>
          let buf = take 7 (bs @ drop (length bs) (stray_buf L));
              p = p\<lparr>clt_skt := s\<rparr>
          in Some (Go () (if strcasecmp_eq buf ''CONNECT'' then p\<lparr>is_https := True\<rparr> else p)))"

text \<open>With a next hop, CONNECT goes to it and one response is read, whatever its status; without one
  the proxy connects to the destination.\<close>

definition connect_next_hip ::
    "('n, 'e) proxy_lib \<Rightarrow> SrsHttpMessage \<Rightarrow> ('n, 'e) SrsHttpxProxyConn \<Rightarrow> (unit, 'n, 'e) proxy_step" where
  "connect_next_hip L m p =
     (case next_hip L of
        None \<Rightarrow> Some (Go () p)
      | Some (hip, hport) \<Rightarrow>
          andthen (connect_server L (SrsTcpClient_new hip (c_atoi hport) (5 * SRS_UTIME_SECONDS)) p) (\<lambda>_ p.
          andthen (svr_writes L [raw_header m] p) (\<lambda>_ p.
          andthen (read_response L p) (\<lambda>_ p. Some (Go () p)))))"

definition connect_destination ::
    "('n, 'e) proxy_lib \<Rightarrow> SrsHttpMessage \<Rightarrow> ('n, 'e) SrsHttpxProxyConn \<Rightarrow> (unit, 'n, 'e) proxy_step" where
  "connect_destination L m p =
     (case svr_skt p of
        Some _ \<Rightarrow> Some (Go () p)
      | None \<Rightarrow>
          connect_server L (SrsTcpClient_new (host_no_port m) (case dest_port m of Some n \<Rightarrow> n | None \<Rightarrow> stray_port L)
            (5 * SRS_UTIME_SECONDS)) p)"

definition ESTABLISHED :: string where
  "ESTABLISHED = ''HTTP/1.1 200 Connection Established'' @ CRLF @ CRLF"

text \<open>The part of the handler up to the choice between tunnelling and decryption; the decryption is
  the argument \<open>decrypt\<close>.\<close>

definition serve_connect ::
    "('n, 'e) proxy_lib \<Rightarrow> (SrsHttpMessage \<Rightarrow> ('n, 'e) SrsHttpxProxyConn \<Rightarrow> (unit, 'n, 'e) proxy_step) \<Rightarrow>
      SrsHttpMessage \<Rightarrow> ('n, 'e) SrsHttpxProxyConn \<Rightarrow> (unit, 'n, 'e) proxy_step" where
  "serve_connect L decrypt m p =
     andthen (connect_next_hip L m p) (\<lambda>_ p.
     andthen (connect_destination L m p) (\<lambda>_ p.
       if \<not> is_https_descrypt_enable (policy L) \<or> match_tunnel_domain_list (policy L) (host_no_port m) then
         andthen (clt_write L ESTABLISHED p) (\<lambda>_ p.
         andthen (processHttpsTunnel L p) (\<lambda>_ p. Some (Ret ERROR_SUCCESS p)))
       else decrypt m p))"

definition process_https_connection ::
    "('n, 'e) proxy_lib \<Rightarrow> (SrsHttpMessage \<Rightarrow> ('n, 'e) SrsHttpxProxyConn \<Rightarrow> (unit, 'n, 'e) proxy_step) \<Rightarrow>
      ('n, 'e) SrsHttpxProxyConn \<Rightarrow> (unit, 'n, 'e) proxy_step" where
  "process_https_connection L decrypt p = andthen (read_request L p) (\<lambda>m p. serve_connect L decrypt m p)"

subsection \<open>The coroutine\<close>

definition process_requests ::
    "('n, 'e) proxy_lib \<Rightarrow> (SrsHttpMessage \<Rightarrow> ('n, 'e) SrsHttpxProxyConn \<Rightarrow> (unit, 'n, 'e) proxy_step) \<Rightarrow>
      ('n, 'e) SrsHttpxProxyConn \<Rightarrow> (unit, 'n, 'e) proxy_step" where
  "process_requests L decrypt p =
     (if pull L \<noteq> ERROR_SUCCESS then Some (Ret (pull L) p)
      else andthen (check_http_or_https L p) (\<lambda>_ p.
        if is_https p then process_https_connection L decrypt p else process_http_connection L p))"

definition do_cycle ::
    "('n, 'e) proxy_lib \<Rightarrow> (SrsHttpMessage \<Rightarrow> ('n, 'e) SrsHttpxProxyConn \<Rightarrow> (unit, 'n, 'e) proxy_step) \<Rightarrow>
      ('n, 'e) SrsHttpxProxyConn \<Rightarrow> (unit, 'n, 'e) proxy_step" where
  "do_cycle L decrypt p =
     process_requests L decrypt (p\<lparr>clt_skt := (clt_skt p)\<lparr>rtm := SRS_HTTP_RECV_TIMEOUT\<rparr>,
       px_parser := SrsHttpParser_initialize HTTP_REQUEST (px_parser p)\<rparr>)"

text \<open>The manager is told to remove the connection, a timeout counts as success, and no error leaves
  the coroutine.\<close>

definition on_conn_done :: "int \<Rightarrow> int" where
  "on_conn_done r0 = (if r0 = ERROR_SOCKET_TIMEOUT then ERROR_SUCCESS else r0)"

end
