(* ===== verification/Proxy_Relay.thy ===== *)
theory Proxy_Relay
  imports Proxy_Conn Parser_Runs
begin

text \<open>
  What the proxy connection of \<open>Proxy_Conn\<close> does with the bytes of its two peers: the relayed
  response, the forwarded request, the blocked request, the tunnel and the choice of the server.  The
  network is the locale \<open>proxy_net\<close>: reading as in \<open>st_reliable\<close>, and a peer that takes what is
  written; two scripted peers are its instance.
\<close>

section \<open>The network\<close>

locale proxy_net =
  fixes L :: "('n, 'e) proxy_lib" and incoming outgoing :: "'n \<Rightarrow> string"
  assumes reading: "st_reliable (lib_read L) incoming"
    and reading_sends_nothing: "lib_read L n tm w = (r, w') \<Longrightarrow> outgoing w' = outgoing w"
    and writing: "\<exists>w'. lib_write L bs tm w = (StWrote (length bs), w') \<and> outgoing w' = outgoing w @ bs \<and>
      incoming w' = incoming w"

text \<open>What a tunnel has moved from state \<open>p\<close> to state \<open>p'\<close>: what was taken from the client's stream has
  been sent to the server, what was taken from the server's stream has been sent to the client.\<close>

definition moved :: "('n \<Rightarrow> string) \<Rightarrow> ('n \<Rightarrow> string) \<Rightarrow> ('n, 'e) SrsHttpxProxyConn \<Rightarrow> ('n, 'e) SrsHttpxProxyConn \<Rightarrow> bool" where
  "moved incoming outgoing p p' \<longleftrightarrow>
     (\<exists>x y c io c' io'. svr_skt p = Some c \<and> tcp_io c = Some io \<and> svr_skt p' = Some c' \<and> tcp_io c' = Some io' \<and>
        incoming (net (clt_skt p)) = x @ incoming (net (clt_skt p')) \<and> outgoing (net io') = outgoing (net io) @ x \<and>
        incoming (net io) = y @ incoming (net io') \<and> outgoing (net (clt_skt p')) = outgoing (net (clt_skt p)) @ y)"

definition backlog :: "('n \<Rightarrow> string) \<Rightarrow> ('n, 'e) SrsHttpxProxyConn \<Rightarrow> nat" where
  "backlog incoming p = length (incoming (net (clt_skt p))) +
     (case Option.bind (svr_skt p) tcp_io of None \<Rightarrow> 0 | Some io \<Rightarrow> length (incoming (net io)))"

lemma moved_trans:
  assumes "moved i out p q" "moved i out q r"
  shows "moved i out p r"
proof -
  from assms(1) obtain x y c io c' io' where 1: "svr_skt p = Some c" "tcp_io c = Some io" "svr_skt q = Some c'" "tcp_io c' = Some io'"
    "i (net (clt_skt p)) = x @ i (net (clt_skt q))" "out (net io') = out (net io) @ x"
    "i (net io) = y @ i (net io')" "out (net (clt_skt q)) = out (net (clt_skt p)) @ y" by (auto simp: moved_def)
  from assms(2) 1(3,4) obtain x2 y2 c2 io2 where 2: "svr_skt r = Some c2" "tcp_io c2 = Some io2"
    "i (net (clt_skt q)) = x2 @ i (net (clt_skt r))" "out (net io2) = out (net io') @ x2"
    "i (net io') = y2 @ i (net io2)" "out (net (clt_skt r)) = out (net (clt_skt q)) @ y2" by (auto simp: moved_def)
  show ?thesis unfolding moved_def
    by (rule exI [of _ "x @ x2"], rule exI [of _ "y @ y2"]) (simp add: 1 2)
qed

lemma moved_backlog: "moved i out p q \<Longrightarrow> backlog i q \<le> backlog i p"
  by (auto simp: moved_def backlog_def)

context proxy_net
begin

lemma socket_write_ok:
  obtains e s' where "SrsStSocket_write (lib_write L) bs s = (e, s')" "outgoing (net s') = outgoing (net s) @ bs"
    "incoming (net s') = incoming (net s)" "bs \<noteq> [] \<longrightarrow> e = ERROR_SUCCESS"
proof -
  obtain w where "lib_write L bs (stm s) (net s) = (StWrote (length bs), w)"
    "outgoing w = outgoing (net s) @ bs" "incoming w = incoming (net s)"
    using writing by blast
  then show ?thesis by (cases "bs = []") (auto simp: SrsStSocket_write_def Let_def intro: that)
qed

lemma clt_write_ok:
  obtains e s where "clt_write L bs p = Some (Go e (p\<lparr>clt_skt := s\<rparr>))"
    "outgoing (net s) = outgoing (net (clt_skt p)) @ bs" "bs \<noteq> [] \<longrightarrow> e = ERROR_SUCCESS"
    "incoming (net s) = incoming (net (clt_skt p))"
  by (rule socket_write_ok [of bs "clt_skt p"]) (auto simp: clt_write_def intro: that)

lemma svr_write_ok:
  assumes "svr_skt p = Some c" "tcp_io c = Some io"
  obtains e io' where "svr_write L bs p = Some (Go e (p\<lparr>svr_skt := Some (c\<lparr>tcp_io := Some io'\<rparr>)\<rparr>))"
    "outgoing (net io') = outgoing (net io) @ bs" "incoming (net io') = incoming (net io)"
  by (rule socket_write_ok [of bs io]) (use assms in \<open>auto simp: svr_write_def tcp_write_def intro: that\<close>)

lemma svr_writes_ok:
  assumes "svr_skt p = Some c" "tcp_io c = Some io"
  shows "\<exists>io'. svr_writes L bss p = Some (Go () (p\<lparr>svr_skt := Some (c\<lparr>tcp_io := Some io'\<rparr>)\<rparr>)) \<and>
    outgoing (net io') = outgoing (net io) @ concat bss \<and> incoming (net io') = incoming (net io)"
  using assms
proof (induction bss arbitrary: p c io)
  case Nil
  then show ?case by (intro exI [of _ io]) simp
next
  case (Cons bs bss)
  from svr_write_ok [OF Cons.prems, of bs] obtain e io1 where
    w: "svr_write L bs p = Some (Go e (p\<lparr>svr_skt := Some (c\<lparr>tcp_io := Some io1\<rparr>)\<rparr>))"
      "outgoing (net io1) = outgoing (net io) @ bs" "incoming (net io1) = incoming (net io)" by blast
  from Cons.IH [of "p\<lparr>svr_skt := Some (c\<lparr>tcp_io := Some io1\<rparr>)\<rparr>" "c\<lparr>tcp_io := Some io1\<rparr>" io1] w
  show ?case by auto
qed

lemma clt_writes_ok:
  assumes "[] \<notin> set bss"
  shows "\<exists>s. clt_writes L bss p = Some (Go () (p\<lparr>clt_skt := s\<rparr>)) \<and>
    outgoing (net s) = outgoing (net (clt_skt p)) @ concat bss \<and> incoming (net s) = incoming (net (clt_skt p))"
  using assms
proof (induction bss arbitrary: p)
  case Nil
  then show ?case by (intro exI [of _ "clt_skt p"]) simp
next
  case (Cons bs bss)
  from clt_write_ok [of bs p] Cons.prems obtain s where
    "clt_write L bs p = Some (Go ERROR_SUCCESS (p\<lparr>clt_skt := s\<rparr>))"
    "outgoing (net s) = outgoing (net (clt_skt p)) @ bs" "incoming (net s) = incoming (net (clt_skt p))" by auto
  with Cons.IH [of "p\<lparr>clt_skt := s\<rparr>"] Cons.prems show ?case by auto
qed

subsection \<open>The response\<close>

lemma read_part_ok:
  assumes "svr_skt p = Some c" "tcp_io c = Some io"
    "body_left (message_owner m) data rest (m_body m) (sp_buffer (server_parser p)) (incoming (net io))"
  obtains fin x data' b s io' where
    "read_part L m p = Some (Go (fin, x, m\<lparr>m_body := b\<rparr>)
       (p\<lparr>server_parser := (server_parser p)\<lparr>sp_buffer := s\<rparr>, svr_skt := Some (c\<lparr>tcp_io := Some io'\<rparr>)\<rparr>))"
    "data = x @ data'" "body_left (message_owner m) data' rest b s (incoming (net io'))"
    "fin \<longrightarrow> data' = [] \<and> is_eof b" "\<not> fin \<longrightarrow> 4096 < length x" "length x \<le> 8192"
proof -
  from reliable_reader.read_part_left [OF st_reliable.socket_reliable [OF reading] assms(3), of 4096 "[]"]
  obtain fin x data' b s io' where
    "srs_ioutil_read_part (SrsStSocket_read (lib_read L)) (message_owner m) 4096 [] (m_body m)
       (sp_buffer (server_parser p)) io = Some (fin, BdOk x b s io')" "data = x @ data'"
    "body_left (message_owner m) data' rest b s (incoming (net io'))" "fin \<longrightarrow> data' = [] \<and> is_eof b"
    "\<not> fin \<longrightarrow> 4096 < length x" "length x \<le> 8192"
    by (auto simp: SRS_HTTP_READ_CACHE_BYTES_def)
  then show ?thesis using assms(1,2)
    by (intro that [where fin = fin and x = x and b = b and s = s and io' = io' and data' = data'])
      (simp_all add: read_part_def body_read_part_def)
qed

lemma end_of_body_ok:
  obtains s where "end_of_body L m p = Some (Go () (p\<lparr>clt_skt := s\<rparr>))"
    "outgoing (net s) = outgoing (net (clt_skt p)) @ (if m_chunked m then LAST_CHUNK else [])"
    "incoming (net s) = incoming (net (clt_skt p))"
proof (cases "m_chunked m")
  case True
  obtain e s where "clt_write L LAST_CHUNK p = Some (Go e (p\<lparr>clt_skt := s\<rparr>))"
    "outgoing (net s) = outgoing (net (clt_skt p)) @ LAST_CHUNK" "incoming (net s) = incoming (net (clt_skt p))"
    using clt_write_ok by metis
  with True show ?thesis by (intro that [of s]) (simp_all add: end_of_body_def)
next
  case False
  then show ?thesis using that [of "clt_skt p"] by (simp add: end_of_body_def)
qed

lemma relay_part_ok:
  assumes "m_chunked m \<or> m_content_length m > 0" "x \<noteq> []" "length x \<le> 8192"
  obtains s where "relay_part L m x p = Some (Go () (p\<lparr>clt_skt := s\<rparr>))"
    "outgoing (net s) = outgoing (net (clt_skt p)) @
       (if m_chunked m then to_hex (length x) @ CRLF @ x @ CRLF else x)"
    "incoming (net s) = incoming (net (clt_skt p))"
proof -
  have hex: "chunk_size_text (length x) = to_hex (length x)" using assms(3) by (simp add: chunk_size_text_def)
  show ?thesis
  proof (cases "m_chunked m")
    case True
    with clt_writes_ok [of "[to_hex (length x), CRLF, x, CRLF]" p] assms(2) hex show ?thesis
      by (auto simp: relay_part_def to_hex_nonempty [symmetric] simp del: clt_writes.simps intro: that)
  next
    case False
    with clt_writes_ok [of "[x]" p] assms(1,2) show ?thesis
      by (auto simp: relay_part_def simp del: clt_writes.simps intro: that)
  qed
qed

lemma relay_loop_ok:
  assumes "svr_skt p = Some c" "tcp_io c = Some io" "m_chunked m \<or> m_content_length m > 0"
    "body_left (message_owner m) data rest (m_body m) (sp_buffer (server_parser p)) (incoming (net io))"
  shows "\<exists>pieces sk b io'. relay_loop L m p = Some (Go () (p\<lparr>clt_skt := sk,
       server_parser := (server_parser p)\<lparr>sp_buffer := b\<rparr>, svr_skt := Some (c\<lparr>tcp_io := Some io'\<rparr>)\<rparr>)) \<and>
    concat pieces = data \<and> list_all (\<lambda>x. x \<noteq> [] \<and> length x \<le> 8192) pieces \<and>
    outgoing (net sk) = outgoing (net (clt_skt p)) @ (if m_chunked m then chunk_encode pieces else data) \<and>
    incoming (net sk) = incoming (net (clt_skt p)) \<and> stream_inv b \<and> stream_bytes b @ incoming (net io') = rest"
  using assms
proof (induction "length data" arbitrary: data p c io m rule: less_induct)
  case less
  obtain fin x data' b s io' where
    rp: "read_part L m p = Some (Go (fin, x, m\<lparr>m_body := b\<rparr>)
       (p\<lparr>server_parser := (server_parser p)\<lparr>sp_buffer := s\<rparr>, svr_skt := Some (c\<lparr>tcp_io := Some io'\<rparr>)\<rparr>))"
    and data: "data = x @ data'" and left: "body_left (message_owner m) data' rest b s (incoming (net io'))"
    and fin: "fin \<longrightarrow> data' = [] \<and> is_eof b" and more: "\<not> fin \<longrightarrow> 4096 < length x" and small: "length x \<le> 8192"
    using read_part_ok [OF less.prems(1,2,4)] by metis
  let ?p = "p\<lparr>server_parser := (server_parser p)\<lparr>sp_buffer := s\<rparr>, svr_skt := Some (c\<lparr>tcp_io := Some io'\<rparr>)\<rparr>"
  let ?m = "m\<lparr>m_body := b\<rparr>"
  have fl: "stream_inv s \<and> stream_bytes s @ incoming (net io') = rest" if fin
    using left fin that by (simp add: body_left_def)
  show ?case
  proof (cases "x = []")
    case True
    with more have f: fin by auto
    obtain sk where "end_of_body L ?m ?p = Some (Go () (?p\<lparr>clt_skt := sk\<rparr>))"
      and out: "outgoing (net sk) = outgoing (net (clt_skt ?p)) @ (if m_chunked ?m then LAST_CHUNK else [])"
      "incoming (net sk) = incoming (net (clt_skt ?p))" using end_of_body_ok by metis
    with True f rp have eq: "relay_loop L m p = Some (Go () (p\<lparr>clt_skt := sk,
        server_parser := (server_parser p)\<lparr>sp_buffer := s\<rparr>, svr_skt := Some (c\<lparr>tcp_io := Some io'\<rparr>)\<rparr>))"
      by (subst relay_loop.simps) simp
    show ?thesis using True f fin fl data out
      by (rule_tac exI [of _ "[]"]) (intro exI conjI, rule eq, simp_all add: chunk_encode_def LAST_CHUNK_def)
  next
    case False
    from relay_part_ok [of ?m x ?p] less.prems(3) False small obtain sk where
      part: "relay_part L ?m x ?p = Some (Go () (?p\<lparr>clt_skt := sk\<rparr>))"
      "outgoing (net sk) = outgoing (net (clt_skt p)) @ (if m_chunked m then to_hex (length x) @ CRLF @ x @ CRLF else x)"
      "incoming (net sk) = incoming (net (clt_skt p))" by auto
    show ?thesis
    proof (cases fin)
      case True
      obtain sk2 where "end_of_body L ?m (?p\<lparr>clt_skt := sk\<rparr>) = Some (Go () (?p\<lparr>clt_skt := sk2\<rparr>))"
        and out: "outgoing (net sk2) = outgoing (net sk) @ (if m_chunked ?m then LAST_CHUNK else [])"
        "incoming (net sk2) = incoming (net sk)" using end_of_body_ok [of ?m "?p\<lparr>clt_skt := sk\<rparr>"] by auto
      with part(1) True rp False have eq: "relay_loop L m p = Some (Go () (p\<lparr>clt_skt := sk2,
          server_parser := (server_parser p)\<lparr>sp_buffer := s\<rparr>, svr_skt := Some (c\<lparr>tcp_io := Some io'\<rparr>)\<rparr>))"
        by (subst relay_loop.simps) simp
      show ?thesis using True fin fl data out part(2,3) False small
        by (rule_tac exI [of _ "[x]"]) (intro exI conjI, rule eq, simp_all add: chunk_encode_def LAST_CHUNK_def)
    next
      case nf: False
      have lt: "length data' < length data" using data False by simp
      have prems: "svr_skt (?p\<lparr>clt_skt := sk\<rparr>) = Some (c\<lparr>tcp_io := Some io'\<rparr>)" "tcp_io (c\<lparr>tcp_io := Some io'\<rparr>) = Some io'"
        "m_chunked ?m \<or> m_content_length ?m > 0"
        "body_left (message_owner ?m) data' rest (m_body ?m) (sp_buffer (server_parser (?p\<lparr>clt_skt := sk\<rparr>))) (incoming (net io'))"
        using less.prems(3) left by (simp_all add: message_owner_def)
      from less.hyps [OF lt prems] obtain pieces sk2 b2 io2 where ih:
        "relay_loop L ?m (?p\<lparr>clt_skt := sk\<rparr>) = Some (Go () (?p\<lparr>clt_skt := sk2,
           server_parser := (server_parser p)\<lparr>sp_buffer := b2\<rparr>, svr_skt := Some (c\<lparr>tcp_io := Some io2\<rparr>)\<rparr>))"
        "concat pieces = data'" "list_all (\<lambda>x. x \<noteq> [] \<and> length x \<le> 8192) pieces"
        "outgoing (net sk2) = outgoing (net sk) @ (if m_chunked m then chunk_encode pieces else data')"
        "incoming (net sk2) = incoming (net sk)" "stream_inv b2" "stream_bytes b2 @ incoming (net io2) = rest" by auto
      from ih(1) part(1) nf rp False have eq: "relay_loop L m p = Some (Go () (p\<lparr>clt_skt := sk2,
          server_parser := (server_parser p)\<lparr>sp_buffer := b2\<rparr>, svr_skt := Some (c\<lparr>tcp_io := Some io2\<rparr>)\<rparr>))"
        by (subst relay_loop.simps) simp
      show ?thesis using data ih(2-) part(2,3) False small
        by (rule_tac exI [of _ "x # pieces"]) (intro exI conjI, rule eq, simp_all add: chunk_encode_def)
    qed
  qed
qed

lemma relay_response_ok:
  assumes "svr_skt p = Some c" "tcp_io c = Some io" "m_chunked m \<or> m_content_length m > 0"
    "body_left (message_owner m) data rest (m_body m) (sp_buffer (server_parser p)) (incoming (net io))"
  shows "\<exists>pieces p' c' io'. relay_response L m p = Some (Go () p') \<and> concat pieces = data \<and>
    list_all (\<lambda>x. x \<noteq> [] \<and> length x \<le> 8192) pieces \<and>
    outgoing (net (clt_skt p')) =
      outgoing (net (clt_skt p)) @ raw_header m @ (if m_chunked m then chunk_encode pieces else data) \<and>
    svr_skt p' = Some c' \<and> tcp_io c' = Some io' \<and>
    stream_bytes (sp_buffer (server_parser p')) @ incoming (net io') = rest"
proof -
  from clt_write_ok [of "raw_header m" p] obtain e s where
    w: "clt_write L (raw_header m) p = Some (Go e (p\<lparr>clt_skt := s\<rparr>))"
    "outgoing (net s) = outgoing (net (clt_skt p)) @ raw_header m" by blast
  from relay_loop_ok [of "p\<lparr>clt_skt := s\<rparr>" c io m data rest] assms obtain pieces sk b io' where
    "relay_loop L m (p\<lparr>clt_skt := s\<rparr>) = Some (Go () (p\<lparr>clt_skt := sk,
       server_parser := (server_parser p)\<lparr>sp_buffer := b\<rparr>, svr_skt := Some (c\<lparr>tcp_io := Some io'\<rparr>)\<rparr>))"
    "concat pieces = data" "list_all (\<lambda>x. x \<noteq> [] \<and> length x \<le> 8192) pieces"
    "outgoing (net sk) = outgoing (net s) @ (if m_chunked m then chunk_encode pieces else data)"
    "stream_bytes b @ incoming (net io') = rest" by auto
  with w assms(3) show ?thesis
    unfolding relay_response_def by (intro exI [of _ pieces]) auto
qed

subsection \<open>The request\<close>

lemma read_request_body_ok:
  assumes "m_chunked m \<or> m_content_length m > 0" "req_body p = []"
    "body_left (message_owner m) data rest (m_body m) (sp_buffer (px_parser p)) (incoming (net (clt_skt p)))"
  shows "\<exists>s sk.
    read_request_body L m p = Some (Go () (p\<lparr>req_body := data, px_parser := (px_parser p)\<lparr>sp_buffer := s\<rparr>, clt_skt := sk\<rparr>)) \<and>
    stream_bytes s @ incoming (net sk) = rest"
proof -
  from reliable_reader.read_all_left [OF st_reliable.socket_reliable [OF reading] assms(3), of "[]"] obtain b s sk where
    "srs_ioutil_read_all (SrsStSocket_read (lib_read L)) (message_owner m) [] (m_body m) (sp_buffer (px_parser p)) (clt_skt p) =
      Some (data, BdOk [] b s sk)" "is_eof b" "body_left (message_owner m) [] rest b s (incoming (net sk))" by auto
  with assms(1,2) show ?thesis
    by (intro exI [of _ s] exI [of _ sk]) (simp add: read_request_body_def body_read_all_def body_left_def)
qed

lemma forward_request_ok:
  assumes "svr_skt p = Some c" "tcp_io c = Some io" "m_chunked m \<or> m_content_length m > 0" "req_body p = []"
    "body_left (message_owner m) data rest (m_body m) (sp_buffer (px_parser p)) (incoming (net (clt_skt p)))"
  shows "\<exists>p' c' io'. forward_request L m p = Some (Go () p') \<and> svr_skt p' = Some c' \<and> tcp_io c' = Some io' \<and>
    outgoing (net io') = outgoing (net io) @ raw_header m @
      (if m_chunked m then chunk_size_text (length data) @ CRLF @ data @ CRLF @ LAST_CHUNK else data) \<and>
    stream_bytes (sp_buffer (px_parser p')) @ incoming (net (clt_skt p')) = rest"
proof -
  from svr_writes_ok [OF assms(1,2), of "[raw_header m]"] obtain io1 where
    w: "svr_writes L [raw_header m] p = Some (Go () (p\<lparr>svr_skt := Some (c\<lparr>tcp_io := Some io1\<rparr>)\<rparr>))"
    "outgoing (net io1) = outgoing (net io) @ raw_header m" by auto
  let ?p1 = "p\<lparr>svr_skt := Some (c\<lparr>tcp_io := Some io1\<rparr>)\<rparr>"
  from read_request_body_ok [of m ?p1 data rest] assms(3-) obtain s sk where
    b: "read_request_body L m ?p1 = Some (Go () (?p1\<lparr>req_body := data, px_parser := (px_parser p)\<lparr>sp_buffer := s\<rparr>, clt_skt := sk\<rparr>))"
    "stream_bytes s @ incoming (net sk) = rest" by auto
  let ?p2 = "?p1\<lparr>req_body := data, px_parser := (px_parser p)\<lparr>sp_buffer := s\<rparr>, clt_skt := sk\<rparr>"
  let ?bss = "if m_chunked m then [chunk_size_text (length data), CRLF, data, CRLF, LAST_CHUNK] else [data]"
  from svr_writes_ok [of ?p2 "c\<lparr>tcp_io := Some io1\<rparr>" io1 ?bss] obtain io2 where
    "svr_writes L ?bss ?p2 = Some (Go () (?p2\<lparr>svr_skt := Some (c\<lparr>tcp_io := Some io2\<rparr>)\<rparr>))"
    "outgoing (net io2) = outgoing (net io1) @ concat ?bss" by auto
  with w b assms(3) show ?thesis
    by (intro exI [of _ "?p2\<lparr>svr_skt := Some (c\<lparr>tcp_io := Some io2\<rparr>)\<rparr>"])
      (auto simp: forward_request_def simp del: svr_writes.simps)
qed

subsection \<open>The tunnel\<close>

lemma socket_read_ok:
  assumes "SrsStSocket_read (lib_read L) n s = (r, s')" "0 < n"
  shows "outgoing (net s') = outgoing (net s)" "r = Ok bs \<Longrightarrow> bs \<noteq> [] \<and> incoming (net s) = bs @ incoming (net s')"
    "r = Err e \<Longrightarrow> incoming (net s') = incoming (net s)"
proof -
  show "outgoing (net s') = outgoing (net s)"
    using assms(1) by (auto simp: SrsStSocket_read_def Let_def split: prod.splits st_in.splits if_splits dest: reading_sends_nothing)
  note rd = st_reliable.socket_reliable [OF reading, THEN reliable_reader.axioms(1)]
  show "bs \<noteq> [] \<and> incoming (net s) = bs @ incoming (net s')" if "r = Ok bs"
    using byte_reader.read_Ok [OF rd] assms that by blast
  show "incoming (net s') = incoming (net s)" if "r = Err e"
    using byte_reader.read_Err [OF rd] assms that by blast
qed

lemma pass_up_ok:
  assumes "svr_skt p = Some c" "tcp_io c = Some io"
  shows "\<exists>ok p'. pass_up L p = Some (Go ok p') \<and> moved incoming outgoing p p' \<and> (ok \<longrightarrow> backlog incoming p' < backlog incoming p)"
proof (cases "SrsStSocket_read (lib_read L) 4096 (clt_skt p)")
  case (Pair r s)
  note rd = socket_read_ok [OF Pair, simplified]
  show ?thesis
  proof (cases r)
    case (Inl e)
    with Pair rd assms show ?thesis by (auto simp: pass_up_def moved_def backlog_def)
  next
    case (Inr bs)
    from svr_write_ok [of "p\<lparr>clt_skt := s\<rparr>" c io bs] assms obtain e io' where
      w: "svr_write L bs (p\<lparr>clt_skt := s\<rparr>) = Some (Go e (p\<lparr>clt_skt := s, svr_skt := Some (c\<lparr>tcp_io := Some io'\<rparr>)\<rparr>))"
      "outgoing (net io') = outgoing (net io) @ bs" "incoming (net io') = incoming (net io)" by auto
    have "pass_up L p = Some (Go True (p\<lparr>clt_skt := s, svr_skt := Some (c\<lparr>tcp_io := Some io'\<rparr>)\<rparr>))"
      using Pair Inr w(1) by (simp add: pass_up_def)
    moreover have "moved incoming outgoing p (p\<lparr>clt_skt := s, svr_skt := Some (c\<lparr>tcp_io := Some io'\<rparr>)\<rparr>)"
      using assms rd(1,2) Inr w(2,3) by (auto simp: moved_def)
    ultimately show ?thesis using assms rd(2) Inr w(3) by (auto simp: backlog_def)
  qed
qed

lemma pass_down_ok:
  assumes "svr_skt p = Some c" "tcp_io c = Some io"
  shows "\<exists>ok p'. pass_down L p = Some (Go ok p') \<and> moved incoming outgoing p p' \<and> (ok \<longrightarrow> backlog incoming p' < backlog incoming p)"
proof (cases "SrsStSocket_read (lib_read L) 4096 io")
  case (Pair r io')
  note rd = socket_read_ok [OF Pair, simplified]
  show ?thesis
  proof (cases r)
    case (Inl e)
    with Pair rd assms show ?thesis by (auto simp: pass_down_def tcp_read_def moved_def backlog_def)
  next
    case (Inr bs)
    let ?p = "p\<lparr>svr_skt := Some (c\<lparr>tcp_io := Some io'\<rparr>)\<rparr>"
    obtain e s where w: "clt_write L bs ?p = Some (Go e (?p\<lparr>clt_skt := s\<rparr>))"
      "outgoing (net s) = outgoing (net (clt_skt ?p)) @ bs" "incoming (net s) = incoming (net (clt_skt ?p))"
      using clt_write_ok by metis
    have "pass_down L p = Some (Go True (?p\<lparr>clt_skt := s\<rparr>))"
      using Pair Inr w(1) assms by (simp add: pass_down_def tcp_read_def)
    moreover have "moved incoming outgoing p (?p\<lparr>clt_skt := s\<rparr>)"
      using assms rd(1,2) Inr w(2,3) by (auto simp: moved_def)
    ultimately show ?thesis using assms rd(2) Inr w(3) by (auto simp: backlog_def)
  qed
qed

lemma tunnel_ok:
  assumes "\<And>a b e. fst (lib_poll L a b e) \<noteq> Some (False, False)" "svr_skt p = Some c" "tcp_io c = Some io"
  shows "\<exists>p'. processHttpsTunnel L p = Some (Go () p') \<and> moved incoming outgoing p p'"
  using assms(2,3)
proof (induction "backlog incoming p" arbitrary: p c io rule: less_induct)
  case less
  obtain ready e where poll: "lib_poll L (net (clt_skt p)) (net io) (world p) = (ready, e)" by (cases "lib_poll L (net (clt_skt p)) (net io) (world p)")
  let ?p = "p\<lparr>world := e\<rparr>"
  have polled: "poll_both L p = Some (Go ready ?p)" using poll less.prems by (simp add: poll_both_def)
  have m0: "moved incoming outgoing p ?p" "backlog incoming ?p = backlog incoming p"
    using less.prems by (auto simp: moved_def backlog_def)
  show ?case
  proof (cases ready)
    case None
    with polled m0 show ?thesis by (subst processHttpsTunnel.simps) simp
  next
    case (Some ud)
    obtain up down where ud: "ud = (up, down)" by (cases ud)
    with Some poll assms(1) [of "net (clt_skt p)" "net io" "world p"] have some: "up \<or> down" by auto
    obtain ok1 p1 where s1: "(if up then pass_up L ?p else Some (Go True ?p)) = Some (Go ok1 p1)"
      "moved incoming outgoing ?p p1" "backlog incoming p1 \<le> backlog incoming ?p"
      "up \<and> ok1 \<longrightarrow> backlog incoming p1 < backlog incoming ?p"
    proof (cases up)
      case True
      from pass_up_ok [of ?p c io] less.prems obtain ok p' where "pass_up L ?p = Some (Go ok p')"
        "moved incoming outgoing ?p p'" "ok \<longrightarrow> backlog incoming p' < backlog incoming ?p" by auto
      with True moved_backlog [OF this(2)] show ?thesis by (intro that [of ok p']) auto
    next
      case False
      then show ?thesis using m0 less.prems by (intro that [of True ?p]) (auto simp: moved_def)
    qed
    from moved_trans [OF m0(1) s1(2)] have m1: "moved incoming outgoing p p1" .
    show ?thesis
    proof (cases ok1)
      case False
      with s1(1) polled Some ud m1 show ?thesis by (subst processHttpsTunnel.simps) simp
    next
      case True
      from m1 obtain c1 io1 where c1: "svr_skt p1 = Some c1" "tcp_io c1 = Some io1" by (auto simp: moved_def)
      obtain ok2 p2 where s2: "(if down then pass_down L p1 else Some (Go True p1)) = Some (Go ok2 p2)"
        "moved incoming outgoing p1 p2" "backlog incoming p2 \<le> backlog incoming p1"
        "down \<and> ok2 \<longrightarrow> backlog incoming p2 < backlog incoming p1"
      proof (cases down)
        case True
        from pass_down_ok [OF c1] obtain ok p' where "pass_down L p1 = Some (Go ok p')"
          "moved incoming outgoing p1 p'" "ok \<longrightarrow> backlog incoming p' < backlog incoming p1" by auto
        with True moved_backlog [OF this(2)] show ?thesis by (intro that [of ok p']) auto
      next
        case False
        then show ?thesis using c1 by (intro that [of True p1]) (auto simp: moved_def)
      qed
      from moved_trans [OF m1 s2(2)] have m2: "moved incoming outgoing p p2" .
      show ?thesis
      proof (cases ok2)
        case False
        with True s1(1) s2(1) polled Some ud m2 show ?thesis by (subst processHttpsTunnel.simps) simp
      next
        case ok2: True
        from m2 obtain c2 io2 where c2: "svr_skt p2 = Some c2" "tcp_io c2 = Some io2" by (auto simp: moved_def)
        have "backlog incoming p2 < backlog incoming p" using some True ok2 s1(3,4) s2(3,4) m0(2) by auto
        from less.hyps [OF this c2] obtain p3 where p3: "processHttpsTunnel L p2 = Some (Go () p3)"
          "moved incoming outgoing p2 p3" by blast
        with moved_trans [OF m2 p3(2)] True ok2 s1(1) s2(1) polled Some ud show ?thesis
          by (subst processHttpsTunnel.simps) simp
      qed
    qed
  qed
qed

end

section \<open>Scripted peers\<close>

text \<open>The world hands out the given connections one by one; a readable side is one with bytes left.\<close>

definition script_peek :: "script st_read" where
  "script_peek n tm w = (StBytes (take n (concat (segments w))), w)"

definition script_dialer :: "(script, script list) dialer" where
  "script_dialer =
     \<lparr>do_resolve = (\<lambda>h e. (length h, e)), sys_socket = (\<lambda>e. (True, e)), st_netfd_open_socket = (\<lambda>e. (True, e)),
      st_connect = (\<lambda>_ _ _ e. case e of [] \<Rightarrow> (None, []) | w # ws \<Rightarrow> (Some w, ws))\<rparr>"

definition script_lib :: "SrsPolicy \<Rightarrow> (script, script list) proxy_lib" where
  "script_lib pol =
     \<lparr>lib_read = script_read, lib_peek = script_peek, lib_write = script_write, lib_dialer = script_dialer,
      lib_poll = (\<lambda>a b e. (if concat (segments a) = [] \<and> concat (segments b) = [] then None
         else Some (concat (segments a) \<noteq> [], concat (segments b) \<noteq> []), e)),
      policy = pol, notification_page = ''blocked %URL%'', next_hip = None, public_ip = ''127.0.0.1'',
      stray_port = 0, stray_buf = replicate 8 (CHR 0x00), pull = ERROR_SUCCESS\<rparr>"

interpretation script_net: proxy_net "script_lib pol" "\<lambda>w. concat (segments w)" delivered for pol
proof (rule proxy_net.intro)
  show "st_reliable (lib_read (script_lib pol)) (\<lambda>w. concat (segments w))"
    using script_in.st_reliable_axioms by (simp add: script_lib_def)
qed (auto simp: script_lib_def script_read_def script_write_def split: list.splits if_splits)

definition server_client :: "string list \<Rightarrow> script SrsTcpClient" where
  "server_client from_server = (SrsTcpClient_new ''a.com'' 80 5000000)
     \<lparr>tcp_io := Some (SrsStSocket_init \<lparr>segments = from_server, delivered = []\<rparr>)\<rparr>"

definition peers :: "string list \<Rightarrow> string list \<Rightarrow> (script, script list) SrsHttpxProxyConn" where
  "peers from_client from_server =
     (SrsHttpxProxyConn_new (\<lambda>_. CHR ''x'') (SrsStSocket_init \<lparr>segments = from_client, delivered = []\<rparr>) ''10.0.0.1'' [])
       \<lparr>svr_skt := Some (server_client from_server)\<rparr>"

lemma peers_simps:
  "stream_bytes (sp_buffer (server_parser (peers a b))) = []" "stream_inv (sp_buffer (server_parser (peers a b)))"
  "nb_buffer (sp_buffer (server_parser (peers a b))) = 131072"
  "stream_bytes (sp_buffer (px_parser (peers a b))) = []" "stream_inv (sp_buffer (px_parser (peers a b)))"
  "nb_buffer (sp_buffer (px_parser (peers a b))) = 131072"
  "net (clt_skt (peers a b)) = \<lparr>segments = a, delivered = []\<rparr>" "req_body (peers a b) = []"
  "svr_skt (peers a b) = Some (server_client b)"
  "tcp_io (server_client b) = Some (SrsStSocket_init \<lparr>segments = b, delivered = []\<rparr>)"
  "net (SrsStSocket_init \<lparr>segments = b, delivered = []\<rparr>) = \<lparr>segments = b, delivered = []\<rparr>"
  by (simp_all add: peers_def server_client_def SrsHttpxProxyConn_new_def SrsHttpParser_new_def SrsFastStream_new_def stream_bytes_def
      stream_inv_def SRS_DEFAULT_RECV_BUFFER_SIZE_def SrsStSocket_init_def)

section \<open>The head of a blocked response\<close>

lemma block_head_text:
  "raw_header (restore_http_header ((set_basic HTTP_RESPONSE HTTP_DELETE 403 0 SrsHttpMessage_new)
      \<lparr>m_header := set_content_length n (header_set ''Connection'' ''close'' (set_content_type ''text/html''
         (m_header (set_basic HTTP_RESPONSE HTTP_DELETE 403 0 SrsHttpMessage_new))))\<rparr>)) =
    ''HTTP/1.1 403 Forbidden'' @ CRLF @ ''Connection: close'' @ CRLF @
    ''Content-Length: '' @ srs_int2str n @ CRLF @ ''Content-Type: text/html'' @ CRLF @ CRLF"
  by (simp add: restore_http_header_def start_line_def set_basic_def SrsHttpMessage_new_def Let_def header_write_def
      set_content_length_def set_content_type_def header_set_def SrsHttpHeader_new_def
      srs_int2str_def int_to_str_def nat_to_str.simps digit_char_def char_of_def bit_0 srs_generate_http_status_text_def status_map_def
      list_less_def less_char_def)

section \<open>The server stays the same\<close>

definition target :: "('n, 'e) SrsHttpxProxyConn \<Rightarrow> (string \<times> int) option" where
  "target p = map_option (\<lambda>c. (tcp_host c, tcp_port c)) (svr_skt p)"

text \<open>A step that, however it ends, leaves a state with the target \<open>t\<close>.\<close>

definition keeps :: "(string \<times> int) option \<Rightarrow> ('a, 'n, 'e) proxy_step \<Rightarrow> bool" where
  "keeps t m \<longleftrightarrow> (case m of Some (Go _ s) \<Rightarrow> target s = t | Some (Ret _ s) \<Rightarrow> target s = t | _ \<Rightarrow> True)"

named_theorems keeps_intros \<open>steps that keep the target\<close>

lemma keeps_simps [simp]:
  "keeps t (Some (Go a s)) \<longleftrightarrow> target s = t" "keeps t (Some (Ret e s)) \<longleftrightarrow> target s = t"
  "keeps t (Some Crash)" "keeps t None"
  by (simp_all add: keeps_def)

lemma target_frame [simp]:
  "target (p\<lparr>clt_skt := s\<rparr>) = target p" "target (p\<lparr>world := e\<rparr>) = target p" "target (p\<lparr>req_body := b\<rparr>) = target p"
  "target (p\<lparr>px_parser := o1\<rparr>) = target p" "target (p\<lparr>server_parser := o1\<rparr>) = target p"
  "target (p\<lparr>access_log := l\<rparr>) = target p"
  "target (p\<lparr>svr_skt := Some c\<rparr>) = Some (tcp_host c, tcp_port c)"
  by (simp_all add: target_def)

lemma keeps_andthen [keeps_intros]:
  assumes "keeps t m" "\<And>a s. target s = t \<Longrightarrow> keeps t (f a s)"
  shows "keeps t (andthen m f)"
proof (cases m)
  case (Some r)
  with assms show ?thesis by (cases r) auto
qed simp

lemma keeps_map [simp]: "keeps t (map_option f m) \<longleftrightarrow> (\<forall>r. m = Some r \<longrightarrow> keeps t (Some (f r)))"
  by (cases m) auto

lemma keeps_clt_write [keeps_intros]: "target p = t \<Longrightarrow> keeps t (clt_write L bs p)"
  by (auto simp: clt_write_def split: prod.splits)

lemma keeps_svr_write [keeps_intros]: "target p = t \<Longrightarrow> keeps t (svr_write L bs p)"
  by (auto simp: svr_write_def tcp_write_def target_def split: prod.splits option.splits)

lemma keeps_svr_writes [keeps_intros]: "target p = t \<Longrightarrow> keeps t (svr_writes L bss p)"
  by (induction bss arbitrary: p) (auto intro: keeps_intros)

lemma keeps_clt_writes [keeps_intros]: "target p = t \<Longrightarrow> keeps t (clt_writes L bss p)"
  by (induction bss arbitrary: p) (auto intro!: keeps_intros)

lemma keeps_read_request_body [keeps_intros]: "target p = t \<Longrightarrow> keeps t (read_request_body L m p)"
  by (auto simp: read_request_body_def split: body_result.splits)

lemma keeps_forward_request [keeps_intros]: "target p = t \<Longrightarrow> keeps t (forward_request L m p)"
  by (auto simp: forward_request_def simp del: svr_writes.simps intro!: keeps_intros)

lemma keeps_read_response [keeps_intros]: "target p = t \<Longrightarrow> keeps t (read_response L p)"
  by (auto simp: read_response_def split: option.splits parse_result.splits) (auto simp: target_def)

lemma keeps_read_part [keeps_intros]: "target p = t \<Longrightarrow> keeps t (read_part L m p)"
  by (auto simp: read_part_def split: option.splits body_result.splits) (auto simp: target_def)

lemma keeps_end_of_body [keeps_intros]: "target p = t \<Longrightarrow> keeps t (end_of_body L m p)"
  by (auto simp: end_of_body_def intro!: keeps_intros)

lemma keeps_relay_part [keeps_intros]: "target p = t \<Longrightarrow> keeps t (relay_part L m bs p)"
  by (auto simp: relay_part_def simp del: clt_writes.simps intro!: keeps_intros)

lemma keeps_option: "(\<And>r. m = Some r \<Longrightarrow> keeps t (Some r)) \<Longrightarrow> keeps t m"
  by (cases m) auto

lemma keeps_relay_loop [keeps_intros]:
  fixes p :: "('n, 'e) SrsHttpxProxyConn"
  shows "target p = t \<Longrightarrow> keeps t (relay_loop L m p)"
proof -
  have "keeps (target p) (Some r)" if "relay_loop L m p = Some r" for L :: "('n, 'e) proxy_lib" and m p r
  proof (rule relay_loop.raw_induct [where P = "\<lambda>L m p r. keeps (target p) (Some r)", OF _ that])
    fix rec :: "('n, 'e) proxy_lib \<Rightarrow> SrsHttpMessage \<Rightarrow> ('n, 'e) SrsHttpxProxyConn \<Rightarrow> (unit, 'n, 'e) proxy_step" and L m p r
    assume IH: "\<And>L m p r. rec L m p = Some r \<Longrightarrow> keeps (target p) (Some r)"
    assume run: "andthen (read_part L m p) (\<lambda>part p. case part of (finish, bs, m) \<Rightarrow>
       if finish \<and> bs = [] then end_of_body L m p
       else andthen (relay_part L m bs p) (\<lambda>_ p. if finish then end_of_body L m p else rec L m p)) = Some r"
    have rec: "target q = t \<Longrightarrow> keeps t (rec L m q)" for t L m q using IH by (auto intro: keeps_option)
    show "keeps (target p) (Some r)"
      unfolding run [symmetric] by (auto split: prod.splits intro!: keeps_intros rec)
  qed
  then show "target p = t \<Longrightarrow> keeps t (relay_loop L m p)" by (auto intro: keeps_option)
qed

lemma keeps_relay_response [keeps_intros]: "target p = t \<Longrightarrow> keeps t (relay_response L m p)"
  by (auto simp: relay_response_def intro!: keeps_intros)

lemma keeps_pass_up [keeps_intros]: "target p = t \<Longrightarrow> keeps t (pass_up L p)"
  by (auto simp: pass_up_def split: prod.splits sum.splits intro!: keeps_intros)

lemma keeps_pass_down [keeps_intros]: "target p = t \<Longrightarrow> keeps t (pass_down L p)"
  by (auto simp: pass_down_def tcp_read_def target_def split: prod.splits sum.splits option.splits intro!: keeps_intros)

lemma keeps_poll_both [keeps_intros]: "target p = t \<Longrightarrow> keeps t (poll_both L p)"
  by (auto simp: poll_both_def split: prod.splits option.splits)

lemma keeps_tunnel [keeps_intros]:
  fixes p :: "('n, 'e) SrsHttpxProxyConn"
  shows "target p = t \<Longrightarrow> keeps t (processHttpsTunnel L p)"
proof -
  have "keeps (target p) (Some r)" if "processHttpsTunnel L p = Some r" for L :: "('n, 'e) proxy_lib" and p r
  proof (rule processHttpsTunnel.raw_induct [where P = "\<lambda>L p r. keeps (target p) (Some r)", OF _ that])
    fix rec :: "('n, 'e) proxy_lib \<Rightarrow> ('n, 'e) SrsHttpxProxyConn \<Rightarrow> (unit, 'n, 'e) proxy_step" and L p r
    assume IH: "\<And>L p r. rec L p = Some r \<Longrightarrow> keeps (target p) (Some r)"
    assume run: "andthen (poll_both L p) (\<lambda>ready p. case ready of
         None \<Rightarrow> Some (Go () p)
       | Some (up, down) \<Rightarrow>
           andthen (if up then pass_up L p else Some (Go True p)) (\<lambda>ok p.
             if \<not> ok then Some (Go () p)
             else andthen (if down then pass_down L p else Some (Go True p)) (\<lambda>ok p.
               if \<not> ok then Some (Go () p) else rec L p))) = Some r"
    have rec: "target q = t \<Longrightarrow> keeps t (rec L q)" for t L q using IH by (auto intro: keeps_option)
    show "keeps (target p) (Some r)"
      unfolding run [symmetric] by (auto split: prod.splits option.splits intro!: keeps_intros rec)
  qed
  then show "target p = t \<Longrightarrow> keeps t (processHttpsTunnel L p)" by (auto intro: keeps_option)
qed

lemma keeps_connect_server:
  "keeps (Some (tcp_host c, tcp_port c)) (connect_server L c p)"
  by (auto simp: connect_server_def Let_def tcp_set_recv_timeout_def dest: tcp_connect_keeps_target split: prod.splits)

lemma serve_request_keeps_server:
  assumes "next_hip L = None" "svr_skt p = Some c"
  shows "keeps (target p) (serve_request L m p)"
proof (cases "match_black_list (policy L) (host_no_port m)")
  case True
  then show ?thesis
    by (auto simp: serve_request_def send_block_def split: option.splits prod.splits intro!: keeps_intros)
next
  case False
  have "choose_server L m p = c" "target p = Some (tcp_host c, tcp_port c)"
    using assms by (simp_all add: choose_server_def target_def)
  with False show ?thesis
    by (auto simp: serve_request_def intro!: keeps_intros keeps_connect_server)
qed

section \<open>Properties\<close>

text \<open>C1. The response is relayed whole: after the head of a response has been parsed, with its body
  partly in the buffer and partly still to come in pieces of any size, the handler returns, the client
  has been sent the head and then the body, chunked again in non-empty chunks of at most 8192 bytes when it
  came chunked and byte for byte when it came with a length, and what follows the body on the server's
  connection is left there.\<close>

theorem response_relayed:
  assumes "proxy_net L incoming outgoing" "svr_skt p = Some c" "tcp_io c = Some io"
    "stream_inv (sp_buffer (server_parser p))" "10 \<le> nb_buffer (sp_buffer (server_parser p))"
    "m_body m = SrsHttpResponseReader_new" "wire = stream_bytes (sp_buffer (server_parser p)) @ incoming (net io)"
    "if m_chunked m then wire = chunk_encode cs @ rest \<and> list_all chunk_ok cs \<and> data = concat cs
     else wire = data @ rest \<and> m_content_length m = int (length data) \<and> data \<noteq> [] \<and> length data < 2 ^ 31"
  shows "\<exists>pieces p' c' io'. relay_response L m p = Some (Go () p') \<and> concat pieces = data \<and>
    list_all (\<lambda>x. x \<noteq> [] \<and> length x \<le> 8192) pieces \<and>
    outgoing (net (clt_skt p')) =
      outgoing (net (clt_skt p)) @ raw_header m @ (if m_chunked m then chunk_encode pieces else data) \<and>
    svr_skt p' = Some c' \<and> tcp_io c' = Some io' \<and>
    stream_bytes (sp_buffer (server_parser p')) @ incoming (net io') = rest"
proof -
  have "body_left (message_owner m) data rest (m_body m) (sp_buffer (server_parser p)) (incoming (net io))"
  proof (cases "m_chunked m")
    case True
    with assms(4-) show ?thesis
      by (auto simp: message_owner_def SrsHttpResponseReader_new_def intro!: body_left_chunked)
  next
    case False
    with assms(4-) show ?thesis
      by (auto simp: message_owner_def SrsHttpResponseReader_new_def intro!: body_left_length)
  qed
  moreover have "m_chunked m \<or> m_content_length m > 0" using assms(8) by (auto split: if_splits)
  ultimately show ?thesis using proxy_net.relay_response_ok [OF assms(1-3)] by blast
qed

theorem response_relayed_witness:
  "\<exists>pieces p'. relay_response (script_lib SrsPolicy_new) (SrsHttpMessage_new\<lparr>m_chunked := True, raw_header := ''HEAD''\<rparr>)
      (peers [] [''5'', CRLF @ ''hel'', ''lo'' @ CRLF @ ''0'' @ CRLF @ CRLF @ ''X'']) = Some (Go () p') \<and>
    concat pieces = ''hello'' \<and> delivered (net (clt_skt p')) = ''HEAD'' @ chunk_encode pieces"
proof -
  let ?m = "SrsHttpMessage_new\<lparr>m_chunked := True, raw_header := ''HEAD''\<rparr>"
  let ?wire = "[''5'', CRLF @ ''hel'', ''lo'' @ CRLF @ ''0'' @ CRLF @ CRLF @ ''X'']"
  have hex: "to_hex (Suc (Suc (Suc (Suc (Suc 0))))) = ''5''" by (simp add: to_hex.simps lower_hex_def char_of_def bit_0)
  have "concat ?wire = chunk_encode [''hello''] @ ''X''" by (simp add: chunk_encode_def hex)
  then have prem: "if m_chunked ?m then concat ?wire = chunk_encode [''hello''] @ ''X'' \<and> list_all chunk_ok [''hello''] \<and>
      ''hello'' = concat [''hello'']
    else concat ?wire = ''hello'' @ ''X'' \<and> m_content_length ?m = int (length ''hello'') \<and> ''hello'' \<noteq> [] \<and> length ''hello'' < 2 ^ 31"
    by (simp add: SrsHttpMessage_new_def chunk_ok_def)
  show ?thesis
    using response_relayed [OF script_net.proxy_net_axioms [of SrsPolicy_new] peers_simps(9) [of "[]" ?wire] peers_simps(10)
        peers_simps(2) _ _ _ prem]
    by (simp add: peers_simps SrsHttpMessage_new_def) blast
qed

text \<open>C2. The request is forwarded whole: the server is sent the head and the body, as one chunk when
  it came chunked; what follows the body on the client's connection is left there.  An empty
  chunked body goes out as two last chunks, so that the server sees bytes behind the end of the request.\<close>

theorem request_forwarded:
  assumes "proxy_net L incoming outgoing" "svr_skt p = Some c" "tcp_io c = Some io" "req_body p = []"
    "stream_inv (sp_buffer (px_parser p))" "10 \<le> nb_buffer (sp_buffer (px_parser p))"
    "m_body m = SrsHttpResponseReader_new" "wire = stream_bytes (sp_buffer (px_parser p)) @ incoming (net (clt_skt p))"
    "if m_chunked m then wire = chunk_encode cs @ rest \<and> list_all chunk_ok cs \<and> data = concat cs \<and> length data < 2 ^ 32
     else wire = data @ rest \<and> m_content_length m = int (length data) \<and> data \<noteq> [] \<and> length data < 2 ^ 31"
  shows "\<exists>p' c' io'. forward_request L m p = Some (Go () p') \<and> svr_skt p' = Some c' \<and> tcp_io c' = Some io' \<and>
    outgoing (net io') = outgoing (net io) @ raw_header m @
      (if \<not> m_chunked m then data else if data = [] then chunk_encode [] @ chunk_encode [] else chunk_encode [data]) \<and>
    stream_bytes (sp_buffer (px_parser p')) @ incoming (net (clt_skt p')) = rest"
proof -
  have left: "body_left (message_owner m) data rest (m_body m) (sp_buffer (px_parser p)) (incoming (net (clt_skt p)))"
  proof (cases "m_chunked m")
    case True
    with assms(5-) show ?thesis
      by (auto simp: message_owner_def SrsHttpResponseReader_new_def intro!: body_left_chunked)
  next
    case False
    with assms(5-) show ?thesis
      by (auto simp: message_owner_def SrsHttpResponseReader_new_def intro!: body_left_length)
  qed
  have body: "m_chunked m \<or> m_content_length m > 0" using assms(9) by (auto split: if_splits)
  have "chunk_size_text (length data) @ CRLF @ data @ CRLF @ LAST_CHUNK =
      (if data = [] then chunk_encode [] @ chunk_encode [] else chunk_encode [data])" if "m_chunked m"
  proof -
    have "to_hex 0 = ''0''" by (simp add: to_hex.simps lower_hex_def char_of_def bit_0)
    moreover have "length data < 2 ^ 32" using that assms(9) by metis
    ultimately show ?thesis by (simp add: chunk_size_text_def chunk_encode_def LAST_CHUNK_def)
  qed
  with proxy_net.forward_request_ok [OF assms(1-3) body assms(4) left] show ?thesis by auto
qed

theorem request_forwarded_witness:
  "\<exists>p' c' io'. forward_request (script_lib SrsPolicy_new) (SrsHttpMessage_new\<lparr>m_chunked := True, raw_header := ''HEAD''\<rparr>)
      (peers [''0'', CRLF @ CRLF @ ''X''] []) = Some (Go () p') \<and> svr_skt p' = Some c' \<and> tcp_io c' = Some io' \<and>
    delivered (net io') = ''HEAD'' @ ''0'' @ CRLF @ CRLF @ ''0'' @ CRLF @ CRLF"
proof -
  let ?m = "SrsHttpMessage_new\<lparr>m_chunked := True, raw_header := ''HEAD''\<rparr>"
  let ?wire = "[''0'', CRLF @ CRLF @ ''X'']"
  have prem: "if m_chunked ?m then concat ?wire = chunk_encode [] @ ''X'' \<and> list_all chunk_ok [] \<and> [] = concat [] \<and> length ([] :: string) < 2 ^ 32
    else concat ?wire = [] @ ''X'' \<and> m_content_length ?m = int (length ([] :: string)) \<and> [] \<noteq> ([] :: string) \<and> length ([] :: string) < 2 ^ 31"
    by (simp add: SrsHttpMessage_new_def chunk_encode_def)
  show ?thesis
    using request_forwarded [OF script_net.proxy_net_axioms [of SrsPolicy_new] peers_simps(9) [of ?wire "[]"] peers_simps(10)
        peers_simps(8,5) _ _ _ prem]
    by (simp add: peers_simps SrsHttpMessage_new_def chunk_encode_def) blast
qed

text \<open>C3. The tunnel ends and loses nothing: when polling reports a readable side whenever it returns
  without an error, the loop returns, and what was taken from either peer has been sent to the
  other, in order and unchanged.\<close>

theorem tunnel_relays:
  assumes "proxy_net L incoming outgoing" "\<And>a b e. fst (lib_poll L a b e) \<noteq> Some (False, False)"
    "svr_skt p = Some c" "tcp_io c = Some io"
  shows "\<exists>p' x y c' io'. processHttpsTunnel L p = Some (Go () p') \<and> svr_skt p' = Some c' \<and> tcp_io c' = Some io' \<and>
    incoming (net (clt_skt p)) = x @ incoming (net (clt_skt p')) \<and> outgoing (net io') = outgoing (net io) @ x \<and>
    incoming (net io) = y @ incoming (net io') \<and> outgoing (net (clt_skt p')) = outgoing (net (clt_skt p)) @ y"
  using proxy_net.tunnel_ok [OF assms] assms(3,4) by (auto simp: moved_def)

theorem tunnel_relays_witness:
  "\<exists>p' x y c' io'. processHttpsTunnel (script_lib SrsPolicy_new) (peers [''hello''] [''world'']) = Some (Go () p') \<and>
    svr_skt p' = Some c' \<and> tcp_io c' = Some io' \<and>
    ''hello'' = x @ concat (segments (net (clt_skt p'))) \<and> delivered (net io') = x \<and>
    ''world'' = y @ concat (segments (net io')) \<and> delivered (net (clt_skt p')) = y"
proof -
  have "fst (lib_poll (script_lib SrsPolicy_new) a b e) \<noteq> Some (False, False)" for a b e
    by (auto simp: script_lib_def)
  from tunnel_relays [OF script_net.proxy_net_axioms this peers_simps(9) [of "[''hello'']" "[''world'']"] peers_simps(10)]
  show ?thesis by (simp add: peers_simps)
qed

text \<open>C4. A request for a blocked host never leaves the proxy: nothing is dialled and no server is
  written to; the client is sent one complete 403 response, whose content length is that of the page made for
  the host and the client's address, and the handler ends the connection.\<close>

theorem blocked_request_not_forwarded:
  assumes "proxy_net L incoming outgoing" "match_black_list (policy L) (host_no_port m)"
  shows "\<exists>p' page. getNotification (notification_page L) (host_no_port m) (client_ip p) = Some page \<and>
    serve_request L m p = Some (Ret ERROR_SUCCESS p') \<and> world p' = world p \<and> svr_skt p' = svr_skt p \<and>
    outgoing (net (clt_skt p')) = outgoing (net (clt_skt p)) @
      ''HTTP/1.1 403 Forbidden'' @ CRLF @ ''Connection: close'' @ CRLF @
      ''Content-Length: '' @ srs_int2str (int (length page)) @ CRLF @ ''Content-Type: text/html'' @ CRLF @ CRLF @ page"
proof -
  obtain page where page: "getNotification (notification_page L) (host_no_port m) (client_ip p) = Some page"
    using getNotification_eq by blast
  let ?head = "''HTTP/1.1 403 Forbidden'' @ CRLF @ ''Connection: close'' @ CRLF @
    ''Content-Length: '' @ srs_int2str (int (length page)) @ CRLF @ ''Content-Type: text/html'' @ CRLF @ CRLF"
  have block: "prepare403block L (host_no_port m) (client_ip p) = Some (?head, page)"
    by (simp add: prepare403block_def page block_head_text)
  obtain e s where w1: "clt_write L ?head p = Some (Go e (p\<lparr>clt_skt := s\<rparr>))"
    "outgoing (net s) = outgoing (net (clt_skt p)) @ ?head"
    using proxy_net.clt_write_ok [OF assms(1)] by metis
  obtain e' s' where w2: "clt_write L page (p\<lparr>clt_skt := s\<rparr>) = Some (Go e' (p\<lparr>clt_skt := s'\<rparr>))"
    "outgoing (net s') = outgoing (net s) @ page"
    using proxy_net.clt_write_ok [OF assms(1), of page "p\<lparr>clt_skt := s\<rparr>", simplified] by metis
  have "serve_request L m p = Some (Ret ERROR_SUCCESS (p\<lparr>clt_skt := s'\<rparr>))"
    using assms(2) w1(1) w2(1) by (simp add: serve_request_def send_block_def block)
  with page w1(2) w2(2) show ?thesis by (intro exI [of _ "p\<lparr>clt_skt := s'\<rparr>"] exI [of _ page]) simp
qed

theorem blocked_request_not_forwarded_witness:
  "\<exists>p' page. serve_request (script_lib \<lparr>black_list_vec = [''a.com''], tunnel_domain_vec = [], https_descrypt_enable = False\<rparr>)
      (SrsHttpMessage_new\<lparr>host_no_port := ''www.a.com''\<rparr>) (peers [] []) = Some (Ret ERROR_SUCCESS p') \<and> world p' = [] \<and>
    delivered (net (clt_skt p')) = ''HTTP/1.1 403 Forbidden'' @ CRLF @ ''Connection: close'' @ CRLF @
      ''Content-Length: '' @ srs_int2str (int (length page)) @ CRLF @ ''Content-Type: text/html'' @ CRLF @ CRLF @ page"
proof -
  let ?pol = "\<lparr>black_list_vec = [''a.com''], tunnel_domain_vec = [], https_descrypt_enable = False\<rparr>"
  let ?m = "SrsHttpMessage_new\<lparr>host_no_port := ''www.a.com''\<rparr>"
  have black: "match_black_list (policy (script_lib ?pol)) (host_no_port ?m)"
    by (simp add: match_black_list_def script_lib_def)
  have "world (peers [] []) = []" by (simp add: peers_def SrsHttpxProxyConn_new_def)
  with blocked_request_not_forwarded [OF script_net.proxy_net_axioms black, of "peers [] []"] show ?thesis
    by (auto simp: peers_simps)
qed

text \<open>C5. CONNECT is not subject to the black list: while decryption is off, a CONNECT to a host of
  the black list connects to it, tells the client that the connection is established and relays
  between the two.\<close>

theorem connect_ignores_black_list:
  assumes "proxy_net L incoming outgoing" "\<And>a b e. fst (lib_poll L a b e) \<noteq> Some (False, False)"
    "match_black_list (policy L) (host_no_port m)" "\<not> is_https_descrypt_enable (policy L)" "next_hip L = None"
    "svr_skt p = None" "dest_port m = Some port"
    "srs_tcp_connect (lib_dialer L) (host_no_port m) port (5 * SRS_UTIME_SECONDS) (world p) = (Ok w, e)"
  shows "\<exists>p' x y c' io'. serve_connect L decrypt m p = Some (Ret ERROR_SUCCESS p') \<and> svr_skt p' = Some c' \<and>
    tcp_io c' = Some io' \<and> outgoing (net io') = outgoing w @ x \<and>
    incoming (net (clt_skt p)) = x @ incoming (net (clt_skt p')) \<and>
    outgoing (net (clt_skt p')) = outgoing (net (clt_skt p)) @ ESTABLISHED @ y \<and> incoming w = y @ incoming (net io')"
proof -
  let ?c = "(SrsTcpClient_new (host_no_port m) port (5 * SRS_UTIME_SECONDS))\<lparr>tcp_io := Some (SrsStSocket_init w)\<rparr>"
  let ?p1 = "p\<lparr>svr_skt := Some ?c, world := e\<rparr>"
  have "connect_destination L m p = Some (Go () ?p1)"
    using assms(6-8) by (simp add: connect_destination_def connect_server_def tcp_connect_def tcp_set_recv_timeout_def
        SrsTcpClient_new_def Let_def)
  moreover obtain er s where est: "clt_write L ESTABLISHED ?p1 = Some (Go er (?p1\<lparr>clt_skt := s\<rparr>))"
    "outgoing (net s) = outgoing (net (clt_skt ?p1)) @ ESTABLISHED" "incoming (net s) = incoming (net (clt_skt ?p1))"
    using proxy_net.clt_write_ok [OF assms(1)] by metis
  moreover have "svr_skt (?p1\<lparr>clt_skt := s\<rparr>) = Some ?c" "tcp_io ?c = Some (SrsStSocket_init w)" by simp_all
  from proxy_net.tunnel_ok [OF assms(1,2) this] obtain p' where tun: "processHttpsTunnel L (?p1\<lparr>clt_skt := s\<rparr>) = Some (Go () p')"
    "moved incoming outgoing (?p1\<lparr>clt_skt := s\<rparr>) p'" by blast
  ultimately have run: "serve_connect L decrypt m p = Some (Ret ERROR_SUCCESS p')"
    using assms(4,5) by (simp add: serve_connect_def connect_next_hip_def)
  from tun(2) obtain x y c' io' where "svr_skt p' = Some c'" "tcp_io c' = Some io'"
    "incoming (net s) = x @ incoming (net (clt_skt p'))" "outgoing (net io') = outgoing w @ x"
    "incoming w = y @ incoming (net io')" "outgoing (net (clt_skt p')) = outgoing (net s) @ y"
    by (auto simp: moved_def SrsStSocket_init_def)
  with run est(2,3) show ?thesis by auto
qed

theorem connect_ignores_black_list_witness:
  "\<exists>p' y. serve_connect (script_lib \<lparr>black_list_vec = [''a.com''], tunnel_domain_vec = [], https_descrypt_enable = False\<rparr>)
      (\<lambda>_ _. None) (SrsHttpMessage_new\<lparr>host_no_port := ''a.com'', dest_port := Some 443\<rparr>)
      ((peers [] [])\<lparr>svr_skt := None, world := [\<lparr>segments = [''secret''], delivered = []\<rparr>]\<rparr>) = Some (Ret ERROR_SUCCESS p') \<and>
    delivered (net (clt_skt p')) = ESTABLISHED @ y"
proof -
  let ?pol = "\<lparr>black_list_vec = [''a.com''], tunnel_domain_vec = [], https_descrypt_enable = False\<rparr>"
  let ?m = "SrsHttpMessage_new\<lparr>host_no_port := ''a.com'', dest_port := Some 443\<rparr>"
  let ?w = "\<lparr>segments = [''secret''], delivered = []\<rparr>"
  let ?p = "(peers [] [])\<lparr>svr_skt := None, world := [?w]\<rparr>"
  have poll: "fst (lib_poll (script_lib ?pol) a b e) \<noteq> Some (False, False)" for a b e
    by (auto simp: script_lib_def)
  have "match_black_list (policy (script_lib ?pol)) (host_no_port ?m)" "\<not> is_https_descrypt_enable (policy (script_lib ?pol))"
    "next_hip (script_lib ?pol) = None" "svr_skt ?p = None" "dest_port ?m = Some 443"
    "srs_tcp_connect (lib_dialer (script_lib ?pol)) (host_no_port ?m) 443 (5 * SRS_UTIME_SECONDS) (world ?p) = (Ok ?w, [])"
    by (simp_all add: match_black_list_def script_lib_def is_https_descrypt_enable_def srs_tcp_connect_def script_dialer_def)
  from connect_ignores_black_list [OF script_net.proxy_net_axioms poll this, of "\<lambda>_ _. None"] show ?thesis
    by (auto simp: peers_simps)
qed

text \<open>C8. On a connection that is kept alive, every request after the first goes to the server of the
  first one, whatever host it names: that server is dialled again and stays the target.\<close>

theorem later_requests_go_to_first_server:
  assumes "next_hip L = None" "svr_skt p = Some c" "serve_request L m p = Some (Go () p')"
  shows "choose_server L m p = c \<and>
    (\<exists>c'. svr_skt p' = Some c' \<and> tcp_host c' = tcp_host c \<and> tcp_port c' = tcp_port c)"
  using serve_request_keeps_server [OF assms(1,2), of m] assms
  by (auto simp: choose_server_def target_def)

theorem later_requests_go_to_first_server_witness:
  "\<exists>p' c' io. serve_request (script_lib SrsPolicy_new)
      (SrsHttpMessage_new\<lparr>host_no_port := ''b.com'', dest_port := Some 80, raw_header := ''REQ''\<rparr>)
      ((peers [] [])\<lparr>world := [\<lparr>segments = [ok_response], delivered = []\<rparr>]\<rparr>) = Some (Go () p') \<and>
    svr_skt p' = Some c' \<and> tcp_host c' = ''a.com'' \<and> tcp_io c' = Some io \<and> delivered (net io) = ''REQ'' \<and>
    delivered (net (clt_skt p')) = ok_response"
proof -
  let ?L = "script_lib SrsPolicy_new"
  let ?m = "SrsHttpMessage_new\<lparr>host_no_port := ''b.com'', dest_port := Some 80, raw_header := ''REQ''\<rparr>"
  let ?p = "(peers [] [])\<lparr>world := [\<lparr>segments = [ok_response], delivered = []\<rparr>]\<rparr>"
  let ?c = "\<lambda>io. (SrsTcpClient_new ''a.com'' 80 5000000)\<lparr>tcp_io := Some io\<rparr>"
  let ?io1 = "script_socket (- 1) (- 1) 0 [] [ok_response] 0"
  let ?io2 = "script_socket (- 1) (- 1) 3 ''REQ'' [ok_response] 0"
  let ?io3 = "script_socket (- 1) (- 1) 3 ''REQ'' [] 38"
  let ?p1 = "(peers [] [])\<lparr>svr_skt := Some (?c ?io1), world := []\<rparr>"
  let ?p2 = "(peers [] [])\<lparr>svr_skt := Some (?c ?io2), world := []\<rparr>"
  have "choose_server ?L ?m ?p = ?c (SrsStSocket_init \<lparr>segments = [], delivered = []\<rparr>)"
    by (simp add: choose_server_def script_lib_def peers_def server_client_def)
  then have conn: "connect_server ?L (choose_server ?L ?m ?p) ?p = Some (Go () ?p1)"
    by (simp add: connect_server_def tcp_connect_def srs_tcp_connect_def script_lib_def script_dialer_def
        tcp_set_recv_timeout_def SrsTcpClient_new_def SrsStSocket_init_def Let_def)
  have fwd: "forward_request ?L ?m ?p1 = Some (Go () ?p2)"
    by (simp add: forward_request_def svr_write_def tcp_write_def SrsStSocket_write_def script_lib_def script_write_def
        SrsHttpMessage_new_def read_request_body_def Let_def numeral_3_eq_3)
  obtain r obj' where r: "parse_message (public_ip ?L) (SrsStSocket_read (lib_read ?L))
      (SrsHttpParser_initialize HTTP_RESPONSE (server_parser ?p2)) ?io2 = Some (PmOk r obj' ?io3)"
    "m_keep_alive r" "m_status r = 200" "\<not> m_chunked r" "m_content_length r = 0" "raw_header r = ok_response"
    using ok_response_parsed [of "public_ip ?L" "\<lambda>_. CHR ''x''" "- 1" "- 1" 3 "''REQ''"]
    by (auto simp: script_lib_def peers_def SrsHttpxProxyConn_new_def)
  let ?p3 = "?p2\<lparr>server_parser := obj', svr_skt := Some (?c ?io3)\<rparr>"
  have resp: "read_response ?L ?p2 = Some (Go r ?p3)" using r(1) by (simp add: read_response_def)
  obtain e s where w: "clt_write ?L ok_response ?p3 = Some (Go e (?p3\<lparr>clt_skt := s\<rparr>))"
    "delivered (net s) = delivered (net (clt_skt ?p3)) @ ok_response"
    using script_net.clt_write_ok by metis
  have relay: "relay_response ?L r ?p3 = Some (Go () (?p3\<lparr>clt_skt := s\<rparr>))"
    using w(1) r(4-6) by (simp add: relay_response_def)
  have "\<not> match_black_list (policy ?L) (host_no_port ?m)" "m_keep_alive ?m"
    by (simp_all add: script_lib_def match_black_list_def SrsPolicy_new_def SrsHttpMessage_new_def)
  then obtain p' where p': "serve_request ?L ?m ?p = Some (Go () p')" "svr_skt p' = Some (?c ?io3)" "clt_skt p' = s"
    using conn fwd resp relay r(2,3) by (simp add: serve_request_def)
  have "next_hip ?L = None" "svr_skt ?p = Some (server_client [])" by (simp_all add: script_lib_def peers_def)
  from later_requests_go_to_first_server [OF this p'(1)] p' w(2) show ?thesis
    by (auto simp: server_client_def SrsTcpClient_new_def peers_simps)
qed

text \<open>A CONNECT whose first segment is short is not recognised: when fewer than seven bytes have
  arrived as the connection is classified, and the uninitialised rest of the buffer starts with a
  zero byte, the connection is handled as plain HTTP.\<close>

lemma short_connect_taken_for_http:
  assumes "lib_peek L 8 (rtm (clt_skt p)) (net (clt_skt p)) = (StBytes bs, w)" "bs \<noteq> []" "length bs < 7"
    "drop (length bs) (stray_buf L) = CHR 0x00 # junk" "\<not> is_https p"
  shows "\<exists>p'. check_http_or_https L p = Some (Go () p') \<and> \<not> is_https p' \<and>
    (pull L = ERROR_SUCCESS \<longrightarrow> process_requests L decrypt p = process_http_connection L p')"
proof -
  let ?buf = "take 7 (bs @ CHR 0x00 # junk)"
  have "length (takeWhile (\<lambda>c. c \<noteq> CHR 0x00) ?buf) \<le> length bs"
  proof -
    have "7 - length bs = Suc (6 - length bs)" using assms(3) by linarith
    then have "?buf = bs @ CHR 0x00 # take (6 - length bs) junk" using assms(3) by simp
    then show ?thesis by (simp add: takeWhile_append length_takeWhile_le)
  qed
  then have "length (map to_lower (takeWhile (\<lambda>c. c \<noteq> CHR 0x00) ?buf)) \<noteq> length (map to_lower ''CONNECT'')"
    using assms(3) by simp
  then have "\<not> strcasecmp_eq ?buf ''CONNECT''" unfolding strcasecmp_eq_def by (auto dest: arg_cong [of _ _ length])
  then have "check_http_or_https L p = Some (Go () (p\<lparr>clt_skt := (clt_skt p)\<lparr>net := w\<rparr>\<rparr>))"
    using assms by (simp add: check_http_or_https_def SrsStSocket_peek_def Let_def)
  then show ?thesis using assms(5) by (auto simp: process_requests_def)
qed

end
