(* ===== verification/Conf_Directive.thy ===== *)
theory Conf_Directive
  imports Kernel_Utility Kernel_File
begin

text \<open>
  The configuration tree (\<open>SrsConfDirective\<close> of \<open>src/src/app/srs_app_config.cpp\<close>): the tokenizer
  \<open>read_token\<close>, the recursive \<open>parse_conf\<close> with its \<open>include\<close> directive, the accessors and the
  rewriting of old styles of configuration (\<open>srs_config_transform_vhost\<close>).  A pointer to a child
  of a directive is the index of the child.  \<open>parse_conf\<close> is a partial function, because files may
  include one another in a circle; the result \<open>None\<close> is a run that does not end.  Besides the codes of
  \<open>srs_error_t\<close> there are codes for an exception of the C++ library and for a failed assertion.
\<close>

section \<open>Definitions\<close>

abbreviation ERROR_SYSTEM_CONFIG_INVALID :: int where "ERROR_SYSTEM_CONFIG_INVALID \<equiv> 1023"
abbreviation CXX_BAD_ALLOC :: int where "CXX_BAD_ALLOC \<equiv> - 2"
abbreviation SRS_ASSERT_FAILED :: int where "SRS_ASSERT_FAILED \<equiv> - 3"

datatype SrsConfDirective =
  Directive (conf_line: int) (dir_name: string) (dir_args: "string list") (directives: "SrsConfDirective list")

datatype SrsDirectiveContext = SrsDirectiveContextFile | SrsDirectiveContextBlock

datatype SrsDirectiveState =
    SrsDirectiveStateInit
  | SrsDirectiveStateEntire
  | SrsDirectiveStateBlockStart
  | SrsDirectiveStateBlockEnd
  | SrsDirectiveStateEOF

text \<open>The buffer: the bytes between \<open>start\<close> and \<open>end\<close>, the position and the line.\<close>

record SrsConfigBuffer =
  buf_bytes :: string
  buf_pos :: nat
  buf_line :: int

definition SrsConfigBuffer_new :: SrsConfigBuffer where
  "SrsConfigBuffer_new = \<lparr>buf_bytes = [], buf_pos = 0, buf_line = 1\<rparr>"

text \<open>The file is read with one call into a fresh array, whose bytes before the call are
  \<open>heap n\<close>; the reader closes the file when it goes out of scope.\<close>

definition fullfill ::
    "'k posix \<Rightarrow> (nat \<Rightarrow> string) \<Rightarrow> string \<Rightarrow> SrsConfigBuffer \<Rightarrow> 'k \<Rightarrow> SrsConfigBuffer srs \<times> 'k" where
  "fullfill os heap filename b k =
     (case reader_open os filename SrsFile_new k of (e, f, k) \<Rightarrow>
      if e \<noteq> ERROR_SUCCESS then (Err e, snd (file_close os f k))
      else case reader_filesize os f k of (n, k) \<Rightarrow>
        let filesize = to_int32 n in
        if filesize < 0 then (Err CXX_BAD_ALLOC, k)
        else case file_read os (nat filesize) f k of (r, k) \<Rightarrow>
          ((case r of
              Err e \<Rightarrow> Err e
            | Ok bs \<Rightarrow> Ok (b\<lparr>buf_bytes := bs @ drop (length bs) (heap (nat filesize)), buf_pos := 0\<rparr>)),
           snd (file_close os f k)))"

definition buffer_empty :: "SrsConfigBuffer \<Rightarrow> bool" where
  "buffer_empty b \<longleftrightarrow> buf_pos b \<ge> length (buf_bytes b)"

definition build_buffer ::
    "'k posix \<Rightarrow> (nat \<Rightarrow> string) \<Rightarrow> string \<Rightarrow> 'k \<Rightarrow> SrsConfigBuffer srs \<times> 'k" where
  "build_buffer os heap src k = fullfill os heap src SrsConfigBuffer_new k"

subsection \<open>Reading a token\<close>

definition is_common_space :: "char \<Rightarrow> bool" where
  "is_common_space ch \<longleftrightarrow> ch = SP \<or> ch = HT \<or> ch = CR \<or> ch = LF"

text \<open>The local variables of \<open>read_token\<close>.\<close>

record token_state =
  tk_pstart :: nat
  sharp_comment :: bool
  d_quoted :: bool
  s_quoted :: bool
  need_space :: bool
  last_space :: bool
  tk_args :: "string list"
  line_start :: int

datatype token_step =
    Continue token_state
  | Return SrsDirectiveState token_state
  | Invalid

text \<open>The first character after white space.\<close>

definition token_first :: "char \<Rightarrow> SrsConfigBuffer \<Rightarrow> token_state \<Rightarrow> token_step" where
  "token_first ch b t0 =
     (let t = t0\<lparr>tk_pstart := buf_pos b - 1\<rparr> in
      if ch = CHR '';'' then
        if tk_args t = [] then Invalid else Return SrsDirectiveStateEntire t
      else if ch = CHR ''{'' then
        if tk_args t = [] then Invalid else Return SrsDirectiveStateBlockStart t
      else if ch = CHR ''}'' then
        if tk_args t \<noteq> [] then Invalid else Return SrsDirectiveStateBlockEnd t
      else if ch = CHR ''#'' then Continue (t\<lparr>sharp_comment := True\<rparr>)
      else if ch = CHR 0x22 then
        Continue (t\<lparr>tk_pstart := tk_pstart t + 1, d_quoted := True, last_space := False\<rparr>)
      else if ch = CHR 0x27 then
        Continue (t\<lparr>tk_pstart := tk_pstart t + 1, s_quoted := True, last_space := False\<rparr>)
      else Continue (t\<lparr>last_space := False\<rparr>))"

text \<open>The word from \<open>pstart\<close> to the byte before the last one, as a C string.\<close>

definition token_word :: "SrsConfigBuffer \<Rightarrow> token_state \<Rightarrow> string" where
  "token_word b t =
     takeWhile (\<lambda>c. c \<noteq> CHR 0x00) (take (buf_pos b - tk_pstart t - 1) (drop (tk_pstart t) (buf_bytes b)))"

definition token_found :: "char \<Rightarrow> SrsConfigBuffer \<Rightarrow> token_state \<Rightarrow> token_step" where
  "token_found ch b t =
     (let word_str = token_word b t;
          t' = (if word_str \<noteq> [] then t\<lparr>tk_args := tk_args t @ [word_str]\<rparr> else t)
      in if ch = CHR '';'' then Return SrsDirectiveStateEntire t'
         else if ch = CHR ''{'' then Return SrsDirectiveStateBlockStart t'
         else Continue t')"

text \<open>A character inside a word.\<close>

definition token_inside :: "char \<Rightarrow> SrsConfigBuffer \<Rightarrow> token_state \<Rightarrow> token_step" where
  "token_inside ch b t0 =
     (let t = (if line_start t0 = 0 then t0\<lparr>line_start := buf_line b\<rparr> else t0) in
      if d_quoted t then
        if ch = CHR 0x22 then token_found ch b (t\<lparr>d_quoted := False, need_space := True\<rparr>) else Continue t
      else if s_quoted t then
        if ch = CHR 0x27 then token_found ch b (t\<lparr>s_quoted := False, need_space := True\<rparr>) else Continue t
      else if is_common_space ch \<or> ch = CHR '';'' \<or> ch = CHR ''{'' then
        token_found ch b (t\<lparr>last_space := True\<rparr>)
      else Continue t)"

text \<open>One turn of the loop, with the character already taken.\<close>

definition token_char :: "char \<Rightarrow> SrsConfigBuffer \<Rightarrow> token_state \<Rightarrow> token_step" where
  "token_char ch b t0 =
     (let t = (if ch = LF then t0\<lparr>sharp_comment := False\<rparr> else t0) in
      if sharp_comment t then Continue t
      else if need_space t then
        if is_common_space ch then Continue (t\<lparr>last_space := True, need_space := False\<rparr>)
        else if ch = CHR '';'' then Return SrsDirectiveStateEntire t
        else if ch = CHR ''{'' then Return SrsDirectiveStateBlockStart t
        else Invalid
      else if last_space t then
        if is_common_space ch then Continue t else token_first ch b t
      else token_inside ch b t)"

definition take_char :: "SrsConfigBuffer \<Rightarrow> char \<times> SrsConfigBuffer" where
  "take_char b =
     (let ch = buf_bytes b ! buf_pos b in
      (ch, b\<lparr>buf_pos := buf_pos b + 1, buf_line := (if ch = LF then buf_line b + 1 else buf_line b)\<rparr>))"

function read_token_loop ::
    "SrsConfigBuffer \<Rightarrow> token_state \<Rightarrow> (SrsDirectiveState \<times> token_state) srs \<times> SrsConfigBuffer" where
  "read_token_loop b t =
     (if buffer_empty b then
        if tk_args t \<noteq> [] \<or> \<not> last_space t then (Err ERROR_SYSTEM_CONFIG_INVALID, b)
        else (Ok (SrsDirectiveStateEOF, t), b)
      else
        let (ch, b') = take_char b in
        case token_char ch b' t of
          Continue t' \<Rightarrow> read_token_loop b' t'
        | Return s t' \<Rightarrow> (Ok (s, t'), b')
        | Invalid \<Rightarrow> (Err ERROR_SYSTEM_CONFIG_INVALID, b'))"
  by pat_completeness auto
termination
  by (relation "measure (\<lambda>(b, t). length (buf_bytes b) - buf_pos b)")
    (auto simp: buffer_empty_def take_char_def Let_def)

declare read_token_loop.simps [simp del]

definition token_init :: "SrsConfigBuffer \<Rightarrow> token_state" where
  "token_init b =
     \<lparr>tk_pstart = buf_pos b, sharp_comment = False, d_quoted = False, s_quoted = False, need_space = False,
      last_space = True, tk_args = [], line_start = 0\<rparr>"

definition read_token :: "SrsConfigBuffer \<Rightarrow> (SrsDirectiveState \<times> string list \<times> int) srs \<times> SrsConfigBuffer" where
  "read_token b =
     (case read_token_loop b (token_init b) of
        (Err e, b') \<Rightarrow> (Err e, b')
      | (Ok (s, t), b') \<Rightarrow> (Ok (s, tk_args t, line_start t), b'))"

subsection \<open>Parsing\<close>

text \<open>The loop of \<open>parse_conf\<close> on the children \<open>ds\<close> of the directive.  \<open>files\<close> are the files of the
  current \<open>include\<close> that are still to be parsed; \<open>has_conf\<close> tells whether \<open>conf\<close> is not null.\<close>

partial_function (option) parse_conf ::
    "'k posix \<Rightarrow> (nat \<Rightarrow> string) \<Rightarrow> bool \<Rightarrow> SrsDirectiveContext \<Rightarrow> string list \<Rightarrow> SrsConfDirective list \<Rightarrow>
     SrsConfigBuffer \<Rightarrow> 'k \<Rightarrow> (int \<times> SrsConfDirective list \<times> SrsConfigBuffer \<times> 'k) option" where
  "parse_conf os heap has_conf ctx files ds b k =
     (case files of
        file # rest \<Rightarrow>
          if file = [] then Some (SRS_ASSERT_FAILED, ds, b, k)
          else (case build_buffer os heap file k of
                  (Err e, k) \<Rightarrow> Some (e, ds, b, k)
                | (Ok include_file_buffer, k) \<Rightarrow>
                    Option.bind
                      (parse_conf os heap has_conf SrsDirectiveContextFile [] ds include_file_buffer k)
                      (\<lambda>(e, ds, _, k).
                         if e \<noteq> ERROR_SUCCESS then Some (e, ds, b, k)
                         else parse_conf os heap has_conf ctx rest ds b k))
      | [] \<Rightarrow>
          (case read_token b of
             (Err e, b) \<Rightarrow> Some (e, ds, b, k)
           | (Ok (s, args, ls), b) \<Rightarrow>
               if s = SrsDirectiveStateBlockEnd then
                 Some (if ctx = SrsDirectiveContextBlock then ERROR_SUCCESS else ERROR_SYSTEM_CONFIG_INVALID, ds, b, k)
               else if s = SrsDirectiveStateEOF then
                 Some (if ctx \<noteq> SrsDirectiveContextBlock then ERROR_SUCCESS else ERROR_SYSTEM_CONFIG_INVALID, ds, b, k)
               else
                 (case args of
                    [] \<Rightarrow> Some (CXX_OUT_OF_RANGE, ds, b, k)
                  | name # args \<Rightarrow>
                      if name \<noteq> ''include'' then
                        if s = SrsDirectiveStateBlockStart then
                          Option.bind
                            (parse_conf os heap has_conf SrsDirectiveContextBlock [] [] b k)
                            (\<lambda>(e, sub, b, k).
                               if e \<noteq> ERROR_SUCCESS then Some (e, ds @ [Directive ls name args sub], b, k)
                               else parse_conf os heap has_conf ctx [] (ds @ [Directive ls name args sub]) b k)
                        else parse_conf os heap has_conf ctx [] (ds @ [Directive ls name args []]) b k
                      else if args = [] then Some (ERROR_SYSTEM_CONFIG_INVALID, ds, b, k)
                      else if \<not> has_conf then Some (ERROR_SYSTEM_CONFIG_INVALID, ds, b, k)
                      else parse_conf os heap has_conf ctx args ds b k)))"

definition SrsConfDirective_new :: SrsConfDirective where
  "SrsConfDirective_new = Directive 0 [] [] []"

definition set_directives :: "SrsConfDirective list \<Rightarrow> SrsConfDirective \<Rightarrow> SrsConfDirective" where
  "set_directives ds d = Directive (conf_line d) (dir_name d) (dir_args d) ds"

definition conf_parse ::
    "'k posix \<Rightarrow> (nat \<Rightarrow> string) \<Rightarrow> bool \<Rightarrow> SrsConfDirective \<Rightarrow> SrsConfigBuffer \<Rightarrow> 'k \<Rightarrow>
     (int \<times> SrsConfDirective \<times> 'k) option" where
  "conf_parse os heap has_conf d b k =
     map_option (\<lambda>(e, ds, _, k). (e, set_directives ds d, k))
       (parse_conf os heap has_conf SrsDirectiveContextFile [] (directives d) b k)"

subsection \<open>Access\<close>

definition conf_arg :: "nat \<Rightarrow> SrsConfDirective \<Rightarrow> string" where
  "conf_arg i d = (if length (dir_args d) > i then dir_args d ! i else [])"

definition arg0 :: "SrsConfDirective \<Rightarrow> string" where "arg0 = conf_arg 0"
definition arg1 :: "SrsConfDirective \<Rightarrow> string" where "arg1 = conf_arg 1"
definition arg2 :: "SrsConfDirective \<Rightarrow> string" where "arg2 = conf_arg 2"
definition arg3 :: "SrsConfDirective \<Rightarrow> string" where "arg3 = conf_arg 3"

text \<open>\<open>at\<close> asserts that the index is in range.\<close>

definition conf_at :: "nat \<Rightarrow> SrsConfDirective \<Rightarrow> SrsConfDirective option" where
  "conf_at i d = (if i < length (directives d) then Some (directives d ! i) else None)"

fun child_index :: "(SrsConfDirective \<Rightarrow> bool) \<Rightarrow> SrsConfDirective list \<Rightarrow> nat option" where
  "child_index ok [] = None"
| "child_index ok (d # ds) = (if ok d then Some 0 else map_option Suc (child_index ok ds))"

definition get_index :: "string \<Rightarrow> SrsConfDirective \<Rightarrow> nat option" where
  "get_index n d = child_index (\<lambda>x. dir_name x = n) (directives d)"

definition conf_get :: "string \<Rightarrow> SrsConfDirective \<Rightarrow> SrsConfDirective option" where
  "conf_get n d = map_option ((!) (directives d)) (get_index n d)"

text \<open>\<open>get(name, arg0)\<close> has no return statement after its loop: \<open>None\<close> is a result that is not
  defined, never a null pointer.\<close>

definition conf_get2 :: "string \<Rightarrow> string \<Rightarrow> SrsConfDirective \<Rightarrow> nat option" where
  "conf_get2 n a0 d = child_index (\<lambda>x. dir_name x = n \<and> arg0 x = a0) (directives d)"

definition push_directive :: "SrsConfDirective \<Rightarrow> SrsConfDirective \<Rightarrow> SrsConfDirective" where
  "push_directive c d = set_directives (directives d @ [c]) d"

text \<open>The index of the child, and the directive with it.\<close>

definition get_or_create :: "string \<Rightarrow> SrsConfDirective \<Rightarrow> nat \<times> SrsConfDirective" where
  "get_or_create n d =
     (case get_index n d of
        Some i \<Rightarrow> (i, d)
      | None \<Rightarrow> (length (directives d), push_directive (Directive 0 n [] []) d))"

text \<open>With one or two arguments the child must be there already, because \<open>get(name, arg0)\<close> returns
  only then.\<close>

definition get_or_create2 :: "string \<Rightarrow> string \<Rightarrow> SrsConfDirective \<Rightarrow> (nat \<times> SrsConfDirective) option" where
  "get_or_create2 n a0 d = map_option (\<lambda>i. (i, d)) (conf_get2 n a0 d)"

definition get_or_create3 ::
    "string \<Rightarrow> string \<Rightarrow> string \<Rightarrow> SrsConfDirective \<Rightarrow> (nat \<times> SrsConfDirective) option" where
  "get_or_create3 n a0 a1 d = map_option (\<lambda>i. (i, d)) (conf_get2 n a0 d)"

definition set_args :: "string list \<Rightarrow> SrsConfDirective \<Rightarrow> SrsConfDirective" where
  "set_args as d = Directive (conf_line d) (dir_name d) as (directives d)"

definition set_name :: "string \<Rightarrow> SrsConfDirective \<Rightarrow> SrsConfDirective" where
  "set_name n d = Directive (conf_line d) n (dir_args d) (directives d)"

definition set_arg0 :: "string \<Rightarrow> SrsConfDirective \<Rightarrow> SrsConfDirective" where
  "set_arg0 a0 d = (if arg0 d = a0 then d else set_args (a0 # drop 1 (dir_args d)) d)"

definition erase_at :: "nat \<Rightarrow> SrsConfDirective \<Rightarrow> SrsConfDirective" where
  "erase_at i d = set_directives (take i (directives d) @ drop (Suc i) (directives d)) d"

text \<open>\<open>remove\<close> of a pointer, which is null when \<open>get\<close> found nothing.\<close>

definition conf_remove :: "nat option \<Rightarrow> SrsConfDirective \<Rightarrow> SrsConfDirective" where
  "conf_remove v d = (case v of None \<Rightarrow> d | Some i \<Rightarrow> if i < length (directives d) then erase_at i d else d)"

definition is_vhost :: "SrsConfDirective \<Rightarrow> bool" where
  "is_vhost d \<longleftrightarrow> dir_name d = ''vhost''"

definition is_stream_caster :: "SrsConfDirective \<Rightarrow> bool" where
  "is_stream_caster d \<longleftrightarrow> dir_name d = ''stream_caster''"

text \<open>An assignment through the pointer to a child.\<close>

definition update_child :: "nat \<Rightarrow> (SrsConfDirective \<Rightarrow> SrsConfDirective) \<Rightarrow> SrsConfDirective \<Rightarrow> SrsConfDirective" where
  "update_child i f d = set_directives ((directives d)[i := f (directives d ! i)]) d"

definition with_child :: "string \<Rightarrow> (SrsConfDirective \<Rightarrow> SrsConfDirective) \<Rightarrow> SrsConfDirective \<Rightarrow> SrsConfDirective" where
  "with_child n f d = (case get_or_create n d of (i, d') \<Rightarrow> update_child i f d')"

definition set_config_directive :: "string \<Rightarrow> string \<Rightarrow> SrsConfDirective \<Rightarrow> SrsConfDirective" where
  "set_config_directive dir v parent = with_child dir (\<lambda>d. set_args [v] (set_name dir d)) parent"

definition srs_config_bool2switch :: "string \<Rightarrow> string" where
  "srs_config_bool2switch sbool = (if sbool = ''true'' then ''on'' else ''off'')"

subsection \<open>Comparing\<close>

fun args_equal :: "string list \<Rightarrow> string list \<Rightarrow> bool" where
  "args_equal (x # xs) (y # ys) = (if x \<noteq> y then False else args_equal xs ys)"
| "args_equal _ _ = True"

definition srs_directive_equals_self :: "SrsConfDirective option \<Rightarrow> SrsConfDirective option \<Rightarrow> bool" where
  "srs_directive_equals_self a b =
     (case (a, b) of
        (None, None) \<Rightarrow> True
      | (Some a, Some b) \<Rightarrow>
          if dir_name a \<noteq> dir_name b then False
          else if length (dir_args a) \<noteq> length (dir_args b) then False
          else if \<not> args_equal (dir_args a) (dir_args b) then False
          else length (directives a) = length (directives b)
      | _ \<Rightarrow> False)"

text \<open>The two comparisons; \<open>except\<close> is the name of the children that are not compared.\<close>

fun directive_equals :: "SrsConfDirective \<Rightarrow> SrsConfDirective \<Rightarrow> bool"
  and children_equal :: "SrsConfDirective list \<Rightarrow> SrsConfDirective list \<Rightarrow> bool" where
  "directive_equals (Directive ln n as ds) b =
     (if \<not> srs_directive_equals_self (Some (Directive ln n as ds)) (Some b) then False
      else children_equal ds (directives b))"
| "children_equal (a # as) (b # bs) = (if \<not> directive_equals a b then False else children_equal as bs)"
| "children_equal _ _ = True"

definition srs_directive_equals :: "SrsConfDirective option \<Rightarrow> SrsConfDirective option \<Rightarrow> bool" where
  "srs_directive_equals a b =
     (case (a, b) of (Some a, Some b) \<Rightarrow> directive_equals a b | _ \<Rightarrow> srs_directive_equals_self a b)"

fun directive_equals_but :: "string \<Rightarrow> SrsConfDirective \<Rightarrow> SrsConfDirective \<Rightarrow> bool"
  and children_equal_but :: "string \<Rightarrow> SrsConfDirective list \<Rightarrow> SrsConfDirective list \<Rightarrow> bool" where
  "directive_equals_but ex (Directive ln n as ds) b =
     (if \<not> srs_directive_equals_self (Some (Directive ln n as ds)) (Some b) then False
      else children_equal_but ex ds (directives b))"
| "children_equal_but ex (a # as) (b # bs) =
     (if dir_name a = ex then children_equal_but ex as bs
      else if \<not> directive_equals_but ex a b then False else children_equal_but ex as bs)"
| "children_equal_but ex _ _ = True"

definition srs_directive_equals_but ::
    "string \<Rightarrow> SrsConfDirective option \<Rightarrow> SrsConfDirective option \<Rightarrow> bool" where
  "srs_directive_equals_but ex a b =
     (case (a, b) of (Some a, Some b) \<Rightarrow> directive_equals_but ex a b | _ \<Rightarrow> srs_directive_equals_self a b)"

end
