(* ===== verification/Conf_Parse.thy ===== *)
theory Conf_Parse
  imports Conf_Directive
begin

text \<open>
  The behaviour of the configuration parser: reading a token consumes input, parsing returns unless
  files mention one another in a circle, a file that includes itself is parsed for ever, and the text
  of a tree of directives is parsed into this tree.
\<close>

section \<open>Reading a token consumes input\<close>

definition within :: "SrsConfigBuffer \<Rightarrow> SrsConfigBuffer \<Rightarrow> bool" where
  "within b b' \<longleftrightarrow> buf_bytes b' = buf_bytes b \<and> buf_pos b \<le> buf_pos b'"

lemma within_refl [simp]: "within b b" by (simp add: within_def)

lemma within_trans [trans]: "within a b \<Longrightarrow> within b c \<Longrightarrow> within a c" by (simp add: within_def)

lemma take_char_within: "take_char b = (ch, b') \<Longrightarrow> within b b' \<and> buf_pos b' = Suc (buf_pos b)"
  by (auto simp: take_char_def within_def Let_def)

text \<open>The words of a token are not empty and occur in the text.\<close>

definition words_of :: "SrsConfigBuffer \<Rightarrow> string list \<Rightarrow> bool" where
  "words_of b ws \<longleftrightarrow> (\<forall>w \<in> set ws. w \<noteq> [] \<and> sublist w (buf_bytes b))"

lemma words_of_Nil [simp]: "words_of b []" by (simp add: words_of_def)

lemma token_word_sublist: "sublist (token_word b t) (buf_bytes b)"
proof -
  have "sublist (take n (drop p xs)) xs" for n p and xs :: string
    by (meson sublist_drop sublist_order.dual_order.trans sublist_take)
  moreover have "sublist (takeWhile ok xs) xs" for ok and xs :: string
    by (metis prefix_imp_sublist takeWhile_is_prefix)
  ultimately show ?thesis unfolding token_word_def by (meson sublist_order.dual_order.trans)
qed

definition step_words :: "SrsConfigBuffer \<Rightarrow> token_step \<Rightarrow> bool" where
  "step_words b s = (case s of Continue t \<Rightarrow> words_of b (tk_args t) | Return _ t \<Rightarrow> words_of b (tk_args t) | Invalid \<Rightarrow> True)"

lemma step_words_simps [simp]:
  "step_words b (Continue t) = words_of b (tk_args t)" "step_words b (Return s t) = words_of b (tk_args t)"
  "step_words b Invalid"
  by (simp_all add: step_words_def)

lemma token_found_words: "words_of b (tk_args t) \<Longrightarrow> step_words b (token_found ch b t)"
  using token_word_sublist [of b t] by (auto simp: token_found_def words_of_def Let_def)

lemma token_char_words:
  assumes "words_of b (tk_args t)"
  shows "step_words b (token_char ch b t)"
proof -
  have "step_words b (token_first ch b t)" if "words_of b (tk_args t)" for t ch
    using that by (simp add: token_first_def Let_def)
  moreover have "step_words b (token_inside ch b t)" if "words_of b (tk_args t)" for t ch
    using that by (simp add: token_inside_def Let_def token_found_words)
  ultimately show ?thesis using assms by (simp add: token_char_def Let_def)
qed

lemma read_token_loop_within:
  assumes "read_token_loop b t = (r, b')" "words_of b (tk_args t)"
  shows "within b b' \<and> (\<forall>s t'. r = Ok (s, t') \<longrightarrow> words_of b (tk_args t') \<and> (s = SrsDirectiveStateEOF \<or> buf_pos b < buf_pos b'))"
  using assms
proof (induction b t arbitrary: r b' rule: read_token_loop.induct)
  case (1 b t)
  show ?case
  proof (cases "buffer_empty b")
    case True
    with "1.prems" show ?thesis by (auto simp: read_token_loop.simps [of b t] split: if_splits)
  next
    case False
    obtain ch b1 where ch: "take_char b = (ch, b1)" by (cases "take_char b")
    then have b1: "within b b1" "buf_pos b1 = Suc (buf_pos b)" by (auto dest: take_char_within)
    then have same: "words_of b1 = words_of b" by (auto simp: words_of_def within_def)
    then have words: "step_words b (token_char ch b1 t)"
      using token_char_words [of b1 t ch] "1.prems"(2) by (simp add: step_words_def split: token_step.splits)
    show ?thesis
    proof (cases "token_char ch b1 t")
      case (Continue t1)
      with "1.prems" False ch have "read_token_loop b1 t1 = (r, b')" by (simp add: read_token_loop.simps [of b t])
      with "1.IH" [OF False ch [symmetric] refl Continue] words Continue same b1 show ?thesis
        by (auto simp: step_words_def within_def)
    qed (use "1.prems" False ch b1 words in \<open>auto simp: read_token_loop.simps [of b t] step_words_def\<close>)
  qed
qed

lemma read_token_within: "read_token b = (r, b') \<Longrightarrow> within b b'"
  and read_token_words: "read_token b = (Ok (s, ws, ls), b') \<Longrightarrow> words_of b ws"
  and read_token_consumes: "read_token b = (Ok (s, ws, ls), b') \<Longrightarrow> s \<noteq> SrsDirectiveStateEOF \<Longrightarrow> buf_pos b < buf_pos b'"
  using read_token_loop_within [of b "token_init b"]
  by (auto simp: read_token_def token_init_def words_of_def split: prod.splits sum.splits)

lemma read_token_bound:
  assumes "read_token b = (Ok (s, ws, ls), b')" "s \<noteq> SrsDirectiveStateEOF"
  shows "buf_pos b < length (buf_bytes b)"
proof (rule ccontr)
  assume "\<not> buf_pos b < length (buf_bytes b)"
  then have "read_token b = (Ok (SrsDirectiveStateEOF, [], 0), b)"
    by (simp add: read_token_def read_token_loop.simps [of b] buffer_empty_def token_init_def)
  with assms show False by simp
qed

section \<open>Parsing returns\<close>

text \<open>Parsing the file \<open>g\<close> where it is included, from any state of the system, returns.\<close>

definition include_returns :: "'k posix \<Rightarrow> (nat \<Rightarrow> string) \<Rightarrow> bool \<Rightarrow> string \<Rightarrow> bool" where
  "include_returns os heap hc g \<longleftrightarrow>
     (\<forall>k inc k' ds. build_buffer os heap g k = (Ok inc, k') \<longrightarrow>
        parse_conf os heap hc SrsDirectiveContextFile [] ds inc k' \<noteq> None)"

lemma parse_conf_includes:
  assumes tail: "\<And>ds k. \<exists>e ds' b' k'. parse_conf os heap hc ctx [] ds b k = Some (e, ds', b', k') \<and> within b b'"
    and "\<forall>g \<in> set files. include_returns os heap hc g"
  shows "\<exists>e ds' b' k'. parse_conf os heap hc ctx files ds b k = Some (e, ds', b', k') \<and> within b b'"
  using assms(2)
proof (induction files arbitrary: ds k)
  case Nil
  then show ?case using tail by simp
next
  case (Cons f fs)
  obtain r k1 where open_f: "build_buffer os heap f k = (r, k1)" by (cases "build_buffer os heap f k")
  show ?case
  proof (cases r)
    case (Inl e)
    then show ?thesis using open_f by (subst parse_conf.simps) simp
  next
    case (Inr inc)
    with Cons.prems open_f obtain e ds1 b1 k2 where
      "parse_conf os heap hc SrsDirectiveContextFile [] ds inc k1 = Some (e, ds1, b1, k2)"
      by (fastforce simp: include_returns_def)
    then show ?thesis
      using open_f Inr Cons.IH [of ds1 k2] Cons.prems by (subst parse_conf.simps) auto
  qed
qed

lemma parse_conf_mentions:
  assumes "\<And>g. g \<noteq> [] \<Longrightarrow> sublist g (buf_bytes b) \<Longrightarrow> include_returns os heap hc g"
  shows "\<exists>e ds' b' k'. parse_conf os heap hc ctx [] ds b k = Some (e, ds', b', k') \<and> within b b'"
  using assms
proof (induction "length (buf_bytes b) - buf_pos b" arbitrary: ctx ds b k rule: less_induct)
  case less
  obtain r b1 where tok: "read_token b = (r, b1)" by (cases "read_token b")
  then have b1: "within b b1" by (rule read_token_within)
  show ?case
  proof (cases r)
    case (Inl e)
    then show ?thesis using tok b1 by (subst parse_conf.simps) auto
  next
    case (Inr q)
    obtain s ws ls where q: "q = (s, ws, ls)" by (cases q) auto
    note tok' = tok [unfolded Inr q]
    show ?thesis
    proof (cases "s = SrsDirectiveStateBlockEnd \<or> s = SrsDirectiveStateEOF \<or> ws = []")
      case True
      then show ?thesis using tok' b1 by (subst parse_conf.simps) (auto split: list.splits)
    next
      case False
      then obtain n as where ws: "ws = n # as" by (cases ws) auto
      have smaller: "length (buf_bytes b2) - buf_pos b2 < length (buf_bytes b) - buf_pos b" if "within b1 b2" for b2
        using that False tok' read_token_consumes read_token_bound b1 by (fastforce simp: within_def)
      have again: "\<exists>e ds' b' k'. parse_conf os heap hc ctx [] ds b2 k = Some (e, ds', b', k') \<and> within b2 b'"
        if "within b1 b2" for ctx ds b2 k
        using less.hyps [OF smaller [OF that]] less.prems that b1 by (simp add: within_def)
      have names: "\<forall>g \<in> set as. include_returns os heap hc g"
        using read_token_words [OF tok'] less.prems by (auto simp: words_of_def ws)
      note incl = parse_conf_includes [where b = b1 and files = as, OF again [OF within_refl] names]
      obtain e2 sub b2 k2 where sub: "parse_conf os heap hc SrsDirectiveContextBlock [] [] b1 k = Some (e2, sub, b2, k2)"
        "within b1 b2" using again [OF within_refl] by metis
      have b2: "within b b2" using b1 sub(2) by (rule within_trans)
      obtain e3 ds3 b3 k3 where block: "parse_conf os heap hc ctx [] (ds @ [Directive ls n as sub]) b2 k2 = Some (e3, ds3, b3, k3)"
        "within b2 b3" using again [OF sub(2)] by metis
      obtain e4 ds4 b4 k4 where entire: "parse_conf os heap hc ctx [] (ds @ [Directive ls n as []]) b1 k = Some (e4, ds4, b4, k4)"
        "within b1 b4" using again [OF within_refl] by metis
      obtain e5 ds5 b5 k5 where incl: "parse_conf os heap hc ctx as ds b1 k = Some (e5, ds5, b5, k5)" "within b1 b5"
        using incl by metis
      note bs = b2 within_trans [OF b2 block(2)] within_trans [OF b1 entire(2)] within_trans [OF b1 incl(2)]
      have cases: "parse_conf os heap hc ctx [] ds b k =
          (if n = ''include'' then
             if as = [] \<or> \<not> hc then Some (ERROR_SYSTEM_CONFIG_INVALID, ds, b1, k) else Some (e5, ds5, b5, k5)
           else if s = SrsDirectiveStateBlockStart then
             if e2 \<noteq> ERROR_SUCCESS then Some (e2, ds @ [Directive ls n as sub], b2, k2) else Some (e3, ds3, b3, k3)
           else Some (e4, ds4, b4, k4))"
        using tok' False ws sub(1) block(1) entire(1) incl(1)
        by (subst parse_conf.simps) (simp cong: if_cong split del: if_split, simp)
      show ?thesis unfolding cases using b1 bs by auto
    qed
  qed
qed

text \<open>The file \<open>f\<close> can be read and its text contains the name of a file \<open>g\<close> that can be read.\<close>

definition readable :: "'k posix \<Rightarrow> (nat \<Rightarrow> string) \<Rightarrow> string \<Rightarrow> SrsConfigBuffer \<Rightarrow> bool" where
  "readable os heap f inc \<longleftrightarrow> (\<exists>k k'. build_buffer os heap f k = (Ok inc, k'))"

definition mentions :: "'k posix \<Rightarrow> (nat \<Rightarrow> string) \<Rightarrow> string \<Rightarrow> string \<Rightarrow> bool" where
  "mentions os heap f g \<longleftrightarrow>
     g \<noteq> [] \<and> (\<exists>inc. readable os heap f inc \<and> sublist g (buf_bytes inc)) \<and> (\<exists>inc. readable os heap g inc)"

lemma include_returns_ranked:
  fixes rank :: "string \<Rightarrow> nat"
  assumes "\<And>f g. mentions os heap f g \<Longrightarrow> rank g < rank f"
  shows "include_returns os heap hc f"
proof (induction "rank f" arbitrary: f rule: less_induct)
  case less
  show ?case unfolding include_returns_def
  proof (intro allI impI)
    fix k inc k' ds
    assume f: "build_buffer os heap f k = (Ok inc, k')"
    have "include_returns os heap hc g" if "g \<noteq> []" "sublist g (buf_bytes inc)" for g
    proof (cases "\<exists>inc. readable os heap g inc")
      case True
      with f that have "mentions os heap f g" by (auto simp: mentions_def readable_def)
      then show ?thesis by (intro less.hyps assms)
    qed (auto simp: include_returns_def readable_def)
    from parse_conf_mentions [where b = inc, OF this] show
      "parse_conf os heap hc SrsDirectiveContextFile [] ds inc k' \<noteq> None"
      by (metis option.distinct(1))
  qed
qed

lemma parse_conf_ranked:
  fixes rank :: "string \<Rightarrow> nat"
  assumes "\<And>f g. mentions os heap f g \<Longrightarrow> rank g < rank f"
  shows "\<exists>e ds' b' k'. parse_conf os heap hc ctx [] ds b k = Some (e, ds', b', k') \<and> within b b'"
  by (intro parse_conf_mentions include_returns_ranked [where rank = rank] assms)

text \<open>A file system given by a table; the state is the content and the position of the open file.\<close>

definition files_posix :: "(string \<times> string) list \<Rightarrow> (string \<times> nat) posix" where
  "files_posix fs =
     \<lparr>sys_open = (\<lambda>f _ k. case map_of fs f of None \<Rightarrow> (- 1, k) | Some c \<Rightarrow> (3, (c, 0))),
      sys_read = (\<lambda>_ n (c, p). (Some (take n (drop p c)), (c, min (p + n) (length c)))),
      sys_write = (\<lambda>_ bs k. (- 1, k)),
      sys_lseek = (\<lambda>_ off wh (c, p).
        (let q = nat (off + (case wh of SEEK_SET \<Rightarrow> 0 | SEEK_CUR \<Rightarrow> int p | SEEK_END \<Rightarrow> int (length c))) in (int q, (c, q)))),
      sys_close = (\<lambda>_ k. (0, k))\<rparr>"

definition conf_buffer :: "string \<Rightarrow> SrsConfigBuffer" where
  "conf_buffer bytes = \<lparr>buf_bytes = bytes, buf_pos = 0, buf_line = 1\<rparr>"

lemma files_posix_build:
  assumes "map_of fs f = Some c" "c \<noteq> []" "length c < 2 ^ 31" "\<And>n. length (heap n) = n"
  shows "\<exists>k'. build_buffer (files_posix fs) heap f k = (Ok (conf_buffer c), k')"
proof -
  have "to_int32 (int (length c)) = int (length c)" using assms(3) by (intro to_int32_small) auto
  then show ?thesis
    using assms by (simp add: build_buffer_def fullfill_def files_posix_def reader_open_def file_open_def SrsFile_new_def
        reader_filesize_def file_tellg_def file_read_def file_close_def SrsConfigBuffer_new_def conf_buffer_def Let_def)
qed

lemma files_posix_missing:
  "map_of fs f = None \<Longrightarrow> fst (build_buffer (files_posix fs) heap f k) = Err ERROR_SYSTEM_FILE_OPENE"
  by (simp add: build_buffer_def fullfill_def files_posix_def reader_open_def file_open_def SrsFile_new_def file_close_def)

lemma files_posix_readable:
  assumes "readable (files_posix fs) heap f inc" "\<And>n. length (heap n) = n"
    "\<forall>(f, c) \<in> set fs. c \<noteq> [] \<and> length c < 2 ^ 31"
  shows "map_of fs f = Some (buf_bytes inc)"
proof (cases "map_of fs f")
  case None
  with assms(1) files_posix_missing [OF None, of heap] show ?thesis by (metis fst_conv readable_def sum.distinct(1))
next
  case (Some c)
  with assms(3) have "c \<noteq> []" "length c < 2 ^ 31" by (auto dest: map_of_SomeD)
  with files_posix_build [OF Some _ _ assms(2)]
  have "\<exists>k'. build_buffer (files_posix fs) heap f k = (Ok (conf_buffer c), k')" for k by blast
  with assms(1) have "inc = conf_buffer c" unfolding readable_def by (metis prod.inject sum.inject(2))
  with Some show ?thesis by (simp add: conf_buffer_def)
qed

section \<open>Files that include themselves\<close>

lemma read_token_include: "read_token (conf_buffer ''include a.conf;'') =
    (Ok (SrsDirectiveStateEntire, [''include'', ''a.conf''], 1), \<lparr>buf_bytes = ''include a.conf;'', buf_pos = 15, buf_line = 1\<rparr>)"
  by (simp add: read_token_def read_token_loop.simps conf_buffer_def token_init_def buffer_empty_def take_char_def
      token_char_def token_first_def token_inside_def token_found_def token_word_def is_common_space_def Let_def)

lemma self_include_diverges:
  fixes os :: "'k posix"
  assumes self: "\<And>k. \<exists>k'. build_buffer os heap ''a.conf'' k = (Ok (conf_buffer ''include a.conf;''), k')"
  shows "parse_conf os heap True ctx [''a.conf''] ds b k = None"
proof -
  have False if "parse_conf os heap True ctx files ds b k = Some r" "files = [''a.conf''] \<or> files = [] \<and> b = conf_buffer ''include a.conf;''"
    for ctx files ds b k r
    using that(1)
  proof (rule parse_conf.raw_induct [where P = "\<lambda>os' heap' hc ctx files ds b k r. os' = os \<longrightarrow> heap' = heap \<longrightarrow> hc \<longrightarrow>
        (files = [''a.conf''] \<or> files = [] \<and> b = conf_buffer ''include a.conf;'') \<longrightarrow> False",
        rotated, THEN mp, THEN mp, THEN mp, THEN mp, OF _ _ refl refl TrueI], goal_cases)
    case (1 rec os' heap' hc ctx files ds b k r)
    have none: "rec os heap True ctx files ds b k = None"
      if "files = [''a.conf''] \<or> files = [] \<and> b = conf_buffer ''include a.conf;''" for ctx files ds b k
      using 1(1) that by (metis not_None_eq)
    obtain k1 where "build_buffer os heap ''a.conf'' k = (Ok (conf_buffer ''include a.conf;''), k1)" using self by blast
    with 1(2) show ?case by (auto simp: none read_token_include)
  qed (rule that(2))
  then show ?thesis by (metis not_None_eq)
qed

section \<open>The text of a tree\<close>

text \<open>A word is written as it is when this can be read back, and between quotes otherwise.\<close>

definition plain_word :: "string \<Rightarrow> bool" where
  "plain_word w \<longleftrightarrow> w \<noteq> [] \<and> hd w \<notin> {CHR ''}'', CHR ''#'', CHR 0x22, CHR 0x27} \<and>
     (\<forall>c \<in> set w. \<not> is_common_space c \<and> c \<noteq> CHR '';'' \<and> c \<noteq> CHR ''{'' \<and> c \<noteq> CHR 0x00)"

definition word_ok :: "string \<Rightarrow> bool" where
  "word_ok w \<longleftrightarrow> w \<noteq> [] \<and> CHR 0x00 \<notin> set w \<and> (plain_word w \<or> CHR 0x22 \<notin> set w)"

definition conf_word :: "string \<Rightarrow> string" where
  "conf_word w = (if plain_word w then w else CHR 0x22 # w @ [CHR 0x22])"

fun conf_words :: "string list \<Rightarrow> string" where
  "conf_words [] = []"
| "conf_words [w] = conf_word w"
| "conf_words (w # ws) = conf_word w @ SP # conf_words ws"

fun conf_text :: "nat \<Rightarrow> SrsConfDirective \<Rightarrow> string" where
  "conf_text n (Directive _ name as ds) =
     replicate n SP @ conf_words (name # as) @
     (if ds = [] then '';'' else '' {'' @ LF # concat (map (conf_text (n + 4)) ds) @ replicate n SP @ ''}'') @ [LF]"

fun directive_ok :: "SrsConfDirective \<Rightarrow> bool" where
  "directive_ok (Directive _ name as ds) \<longleftrightarrow>
     name \<noteq> ''include'' \<and> list_all word_ok (name # as) \<and> list_all directive_ok ds"

text \<open>The tree without the numbers of the lines.\<close>

fun no_lines :: "SrsConfDirective \<Rightarrow> SrsConfDirective" where
  "no_lines (Directive _ name as ds) = Directive 0 name as (map no_lines ds)"

subsection \<open>Reading characters\<close>

definition buf_at :: "string \<Rightarrow> string \<Rightarrow> int \<Rightarrow> SrsConfigBuffer" where
  "buf_at pre rest l = \<lparr>buf_bytes = pre @ rest, buf_pos = length pre, buf_line = l\<rparr>"

lemma buf_at_simps [simp]:
  "buf_bytes (buf_at pre rest l) = pre @ rest" "buf_pos (buf_at pre rest l) = length pre" "buf_line (buf_at pre rest l) = l"
  by (simp_all add: buf_at_def)

definition next_line :: "char \<Rightarrow> int \<Rightarrow> int" where
  "next_line c l = (if c = LF then l + 1 else l)"

lemma take_char_at: "take_char (buf_at pre (c # rest) l) = (c, buf_at (pre @ [c]) rest (next_line c l))"
  by (simp add: buf_at_def take_char_def next_line_def)

lemma buffer_empty_at [simp]: "\<not> buffer_empty (buf_at pre (c # rest) l)" "buffer_empty (buf_at pre [] l)"
  by (simp_all add: buf_at_def buffer_empty_def)

lemma read_char:
  "read_token_loop (buf_at pre (c # rest) l) t =
     (case token_char c (buf_at (pre @ [c]) rest (next_line c l)) t of
        Continue t' \<Rightarrow> read_token_loop (buf_at (pre @ [c]) rest (next_line c l)) t'
      | Return s t' \<Rightarrow> (Ok (s, t'), buf_at (pre @ [c]) rest (next_line c l))
      | Invalid \<Rightarrow> (Err ERROR_SYSTEM_CONFIG_INVALID, buf_at (pre @ [c]) rest (next_line c l)))"
  by (subst read_token_loop.simps) (simp add: take_char_at)

text \<open>Between words.\<close>

definition between :: "nat \<Rightarrow> string list \<Rightarrow> int \<Rightarrow> token_state" where
  "between p as ls = \<lparr>tk_pstart = p, sharp_comment = False, d_quoted = False, s_quoted = False, need_space = False,
     last_space = True, tk_args = as, line_start = ls\<rparr>"

lemma is_common_space_simps [simp]:
  "is_common_space SP" "is_common_space LF" "is_common_space HT" "is_common_space CR"
  by (simp_all add: is_common_space_def)

lemma read_space:
  "is_common_space c \<Longrightarrow> read_token_loop (buf_at pre (c # rest) l) (between p as ls) =
     read_token_loop (buf_at (pre @ [c]) rest (next_line c l)) (between p as ls)"
  by (auto simp: read_char token_char_def between_def Let_def)

text \<open>The start of the next word does not matter before the word.\<close>

lemma read_token_loop_pstart:
  assumes "last_space t" "\<not> need_space t"
  shows "rel_prod (rel_sum (=) (rel_prod (=) (\<lambda>t t'. tk_args t = tk_args t' \<and> line_start t = line_start t'))) (=)
    (read_token_loop b t) (read_token_loop b (t\<lparr>tk_pstart := p\<rparr>))"
  using assms
proof (induction b t rule: read_token_loop.induct)
  case (1 b t)
  obtain ch b1 where ch: "take_char b = (ch, b1)" by (cases "take_char b")
  show ?case
  proof (cases "buffer_empty b")
    case True
    then show ?thesis by (simp add: read_token_loop.simps [of b])
  next
    case False
    let ?R = "rel_prod (rel_sum (=) (rel_prod (=) (\<lambda>t t'. tk_args t = tk_args t' \<and> line_start t = line_start t'))) (=)"
    let ?t = "if ch = LF then t\<lparr>sharp_comment := False\<rparr> else t"
    consider (same) "token_char ch b1 (t\<lparr>tk_pstart := p\<rparr>) = token_char ch b1 t"
      | (skip) t' where "token_char ch b1 t = Continue t'" "token_char ch b1 (t\<lparr>tk_pstart := p\<rparr>) = Continue (t'\<lparr>tk_pstart := p\<rparr>)"
        "last_space t'" "\<not> need_space t'"
    proof (cases "is_common_space ch \<or> sharp_comment t")
      case True
      with "1.prems" show ?thesis by (intro skip [of ?t]) (auto simp: token_char_def Let_def)
    next
      case False
      with "1.prems" show ?thesis by (intro same) (auto simp: token_char_def token_first_def Let_def)
    qed
    then show ?thesis
    proof cases
      case same
      have "?R x x" for x by (cases x; cases "fst x") (auto simp: rel_prod_sel rel_sum_sel)
      with same False ch show ?thesis by (simp add: read_token_loop.simps [of b])
    next
      case skip
      with "1.IH" [OF False ch [symmetric] refl skip(1)] False ch show ?thesis by (simp add: read_token_loop.simps [of b])
    qed
  qed
qed

lemma token_init_at: "token_init (buf_at pre rest l) = between (length pre) [] 0"
  by (simp add: token_init_def buf_at_def between_def)

lemma read_token_space:
  assumes "is_common_space c"
  shows "read_token (buf_at pre (c # rest) l) = read_token (buf_at (pre @ [c]) rest (next_line c l))"
proof -
  let ?b = "buf_at (pre @ [c]) rest (next_line c l)"
  have "between (length (pre @ [c])) [] 0 = (between (length pre) [] 0)\<lparr>tk_pstart := length (pre @ [c])\<rparr>"
    by (simp add: between_def)
  then show ?thesis
    using read_token_loop_pstart [of "between (length pre) [] 0" ?b "length (pre @ [c])"]
    unfolding read_token_def token_init_at read_space [OF assms]
    by (auto simp: between_def rel_prod_sel rel_sum_sel split: prod.splits sum.splits)
qed

lemma read_token_spaces:
  "list_all is_common_space ws \<Longrightarrow> \<exists>l'. read_token (buf_at pre (ws @ rest) l) = read_token (buf_at (pre @ ws) rest l')"
proof (induction ws arbitrary: pre l)
  case (Cons c ws)
  from Cons.IH [of "pre @ [c]" "next_line c l"] Cons.prems show ?case by (simp add: read_token_space)
qed auto

subsection \<open>Reading words\<close>

definition inside :: "bool \<Rightarrow> nat \<Rightarrow> string list \<Rightarrow> int \<Rightarrow> token_state" where
  "inside q p as ls = (between p as ls)\<lparr>last_space := False, d_quoted := q\<rparr>"

definition word_char :: "bool \<Rightarrow> char \<Rightarrow> bool" where
  "word_char q c \<longleftrightarrow> (if q then c \<noteq> CHR 0x22 else \<not> is_common_space c \<and> c \<noteq> CHR '';'' \<and> c \<noteq> CHR ''{'')"

lemma read_word_chars:
  "list_all (word_char q) w \<Longrightarrow>
     \<exists>l' ls'. read_token_loop (buf_at pre (w @ rest) l) (inside q p as ls) =
       read_token_loop (buf_at (pre @ w) rest l') (inside q p as ls')"
proof (induction w arbitrary: pre l ls)
  case (Cons c w)
  let ?ls = "if ls = 0 then next_line c l else ls"
  have "token_char c (buf_at (pre @ [c]) (w @ rest) (next_line c l)) (inside q p as ls) = Continue (inside q p as ?ls)"
    using Cons.prems
    by (auto simp: token_char_def token_inside_def inside_def between_def Let_def word_char_def buf_at_def)
  with Cons.IH [of "pre @ [c]" "next_line c l" ?ls] Cons.prems show ?case by (simp add: read_char)
qed auto

lemma token_word_at:
  assumes "CHR 0x00 \<notin> set w" "tk_pstart t = length pre"
  shows "token_word (buf_at (pre @ w @ [x]) rest l) t = w"
proof -
  have "takeWhile (\<lambda>c. c \<noteq> CHR 0x00) w = w" using assms(1) by (auto simp: takeWhile_eq_all_conv)
  then show ?thesis using assms(2) by (simp add: token_word_def buf_at_def)
qed

text \<open>What follows a word: a space goes on, \<open>;\<close> and \<open>{\<close> end the token.\<close>

definition word_read :: "char \<Rightarrow> string list \<Rightarrow> string \<Rightarrow> string \<Rightarrow> (SrsDirectiveState \<times> token_state) srs \<times> SrsConfigBuffer \<Rightarrow> bool" where
  "word_read y as pre rest r \<longleftrightarrow>
     (if y = SP then \<exists>l p ls. r = read_token_loop (buf_at pre rest l) (between p as ls)
      else \<exists>l t. r = (Ok (if y = CHR '';'' then SrsDirectiveStateEntire else SrsDirectiveStateBlockStart, t), buf_at pre rest l) \<and>
             tk_args t = as)"

lemma word_read_step:
  assumes "token_char y (buf_at (pre @ [y]) rest (next_line y l)) t =
    (if y = SP then Continue (between p as ls)
     else Return (if y = CHR '';'' then SrsDirectiveStateEntire else SrsDirectiveStateBlockStart) t')" "tk_args t' = as"
  shows "word_read y as (pre @ [y]) rest (read_token_loop (buf_at pre (y # rest) l) t)"
  using assms by (auto simp: word_read_def read_char)

lemma token_char_end:
  assumes "y \<in> {SP, CHR '';'', CHR ''{''}" "\<And>t. tk_pstart t = p \<Longrightarrow> token_word b t = w" "w \<noteq> []"
  shows "token_char y b (inside False p as ls) =
    (let t = between p (as @ [w]) (if ls = 0 then buf_line b else ls) in
     if y = SP then Continue t
     else Return (if y = CHR '';'' then SrsDirectiveStateEntire else SrsDirectiveStateBlockStart) t)"
proof -
  have "token_found y b (between p as ls) =
    (if y = SP then Continue (between p (as @ [w]) ls)
     else Return (if y = CHR '';'' then SrsDirectiveStateEntire else SrsDirectiveStateBlockStart) (between p (as @ [w]) ls))" for ls
    using assms by (auto simp: token_found_def Let_def between_def)
  moreover have "token_char y b (inside False p as ls) = token_found y b (between p as (if ls = 0 then buf_line b else ls))"
    using assms(1) by (auto simp: token_char_def token_inside_def inside_def between_def Let_def)
  ultimately show ?thesis by (simp add: Let_def)
qed

lemma read_plain_word:
  assumes "plain_word w" "y \<in> {SP, CHR '';'', CHR ''{''}"
  shows "word_read y (as @ [w]) (pre @ w @ [y]) rest (read_token_loop (buf_at pre (w @ y # rest) l) (between p as ls))"
proof -
  obtain c v where w: "w = c # v" using assms(1) by (cases w) (auto simp: plain_word_def)
  have all: "x \<in> set w \<Longrightarrow> \<not> is_common_space x \<and> x \<noteq> CHR '';'' \<and> x \<noteq> CHR ''{'' \<and> x \<noteq> CHR 0x00" for x
    using assms(1) by (simp add: plain_word_def)
  have chars: "list_all (word_char False) v" using all by (simp add: w word_char_def list_all_iff)
  have nul: "CHR 0x00 \<notin> set w" using all by blast
  have c: "\<not> is_common_space c" "c \<notin> {CHR '';'', CHR ''{'', CHR ''}'', CHR ''#'', CHR 0x22, CHR 0x27}"
    using all [of c] assms(1) by (simp_all add: w plain_word_def)
  have "c \<noteq> LF" using c(1) by (metis is_common_space_simps(2))
  have "token_char c (buf_at (pre @ [c]) (v @ y # rest) l) (between p as ls) = Continue (inside False (length pre) as ls)"
    using c \<open>c \<noteq> LF\<close> by (simp add: token_char_def token_first_def between_def inside_def Let_def buf_at_def)
  then obtain l' ls' where "read_token_loop (buf_at pre (w @ y # rest) l) (between p as ls) =
      read_token_loop (buf_at (pre @ w) (y # rest) l') (inside False (length pre) as ls')"
    using read_word_chars [OF chars, of "pre @ [c]" "y # rest" l "length pre" as ls] \<open>c \<noteq> LF\<close>
    by (auto simp: w read_char next_line_def)
  moreover have "token_word (buf_at ((pre @ w) @ [y]) rest l) t = w" if "tk_pstart t = length pre" for l t
    using token_word_at [OF nul that] by simp
  ultimately show ?thesis
    using word_read_step [where pre = "pre @ w" and y = y and l = l' and as = "as @ [w]", OF token_char_end [OF assms(2), unfolded Let_def]] w
    by (simp add: between_def)
qed

lemma read_quoted_word:
  assumes "w \<noteq> []" "CHR 0x22 \<notin> set w" "CHR 0x00 \<notin> set w" "y \<in> {SP, CHR '';'', CHR ''{''}"
  shows "word_read y (as @ [w]) (pre @ CHR 0x22 # w @ [CHR 0x22, y]) rest
    (read_token_loop (buf_at pre (CHR 0x22 # w @ CHR 0x22 # y # rest) l) (between p as ls))"
proof -
  let ?pre = "pre @ [CHR 0x22]"
  have chars: "list_all (word_char True) w" using assms(2) by (auto simp: list_all_iff word_char_def)
  have "token_char (CHR 0x22) (buf_at ?pre (w @ CHR 0x22 # y # rest) l) (between p as ls) =
      Continue (inside True (length ?pre) as ls)"
    by (simp add: token_char_def token_first_def between_def inside_def Let_def buf_at_def is_common_space_def)
  then obtain l' ls' where start: "read_token_loop (buf_at pre (CHR 0x22 # w @ CHR 0x22 # y # rest) l) (between p as ls) =
      read_token_loop (buf_at (?pre @ w) (CHR 0x22 # y # rest) l') (inside True (length ?pre) as ls')"
    using read_word_chars [OF chars, of ?pre "CHR 0x22 # y # rest" l "length ?pre" as ls]
    by (auto simp: read_char [of pre] next_line_def)
  let ?ls = "if ls' = 0 then l' else ls'"
  let ?t = "(between (length ?pre) (as @ [w]) ?ls)\<lparr>last_space := False, need_space := True\<rparr>"
  have "token_word (buf_at (?pre @ w @ [CHR 0x22]) (y # rest) l') t = w" if "tk_pstart t = length ?pre" for t
    using token_word_at [OF assms(3) that] .
  then have "token_char (CHR 0x22) (buf_at ((?pre @ w) @ [CHR 0x22]) (y # rest) l') (inside True (length ?pre) as ls') = Continue ?t"
    using assms(1) by (simp add: token_char_def token_inside_def inside_def between_def token_found_def Let_def buf_at_def)
  then have stop: "read_token_loop (buf_at (?pre @ w) (CHR 0x22 # y # rest) l') (inside True (length ?pre) as ls') =
      read_token_loop (buf_at ((?pre @ w) @ [CHR 0x22]) (y # rest) l') ?t"
    by (subst read_char) (simp add: next_line_def)
  have "word_read y (as @ [w]) (((?pre @ w) @ [CHR 0x22]) @ [y]) rest
      (read_token_loop (buf_at ((?pre @ w) @ [CHR 0x22]) (y # rest) l') ?t)"
    using assms(4)
    by (intro word_read_step [where p = "length ?pre" and ls = ?ls and t' = ?t])
      (auto simp: token_char_def between_def Let_def is_common_space_def)
  then show ?thesis unfolding start stop by simp
qed

lemma read_word:
  assumes "word_ok w" "y \<in> {SP, CHR '';'', CHR ''{''}"
  shows "word_read y (as @ [w]) (pre @ conf_word w @ [y]) rest
    (read_token_loop (buf_at pre (conf_word w @ y # rest) l) (between p as ls))"
proof (cases "plain_word w")
  case True
  then show ?thesis using read_plain_word [OF True assms(2)] by (simp add: conf_word_def)
next
  case False
  with assms(1) have "w \<noteq> []" "CHR 0x22 \<notin> set w" "CHR 0x00 \<notin> set w" by (auto simp: word_ok_def)
  from read_quoted_word [OF this assms(2)] False show ?thesis by (simp add: conf_word_def)
qed

text \<open>The words of a directive, ended by \<open>;\<close> or by \<open>{\<close> after a space.\<close>

lemma read_words:
  assumes "list_all word_ok ws" "ws \<noteq> []" "y = SP \<or> y = CHR '';''"
  shows "word_read y (as @ ws) (pre @ conf_words ws @ [y]) rest
    (read_token_loop (buf_at pre (conf_words ws @ y # rest) l) (between p as ls))"
  using assms(1,2)
proof (induction ws arbitrary: as pre l p ls rule: conf_words.induct)
  case (2 w)
  with assms(3) read_word [of w y as pre rest l p ls] show ?case by auto
next
  case (3 w v ws)
  let ?text = "conf_words (v # ws)"
  have "word_read SP (as @ [w]) (pre @ conf_word w @ [SP]) (?text @ y # rest)
      (read_token_loop (buf_at pre (conf_word w @ SP # ?text @ y # rest) l) (between p as ls))"
    using 3 by (intro read_word) auto
  then obtain l' p' ls' where "read_token_loop (buf_at pre (conf_word w @ SP # ?text @ y # rest) l) (between p as ls) =
      read_token_loop (buf_at (pre @ conf_word w @ [SP]) (?text @ y # rest) l') (between p' (as @ [w]) ls')"
    by (auto simp: word_read_def)
  with 3 show ?case by (simp del: conf_words.simps) (simp add: "3.IH" [of "as @ [w]" "pre @ conf_word w @ [SP]", simplified])
qed simp

lemma read_token_entire:
  assumes "list_all word_ok ws" "ws \<noteq> []"
  shows "\<exists>ls l'. read_token (buf_at pre (conf_words ws @ '';'' @ rest) l) =
    (Ok (SrsDirectiveStateEntire, ws, ls), buf_at (pre @ conf_words ws @ '';'') rest l')"
  using read_words [OF assms, of "CHR '';''" "[]" pre rest l "length pre" 0]
  by (auto simp: word_read_def read_token_def token_init_at)

lemma read_token_block:
  assumes "list_all word_ok ws" "ws \<noteq> []"
  shows "\<exists>ls l'. read_token (buf_at pre (conf_words ws @ '' {'' @ rest) l) =
    (Ok (SrsDirectiveStateBlockStart, ws, ls), buf_at (pre @ conf_words ws @ '' {'') rest l')"
proof -
  obtain l' p' ls' where "read_token_loop (buf_at pre (conf_words ws @ SP # CHR ''{'' # rest) l) (between (length pre) [] 0) =
      read_token_loop (buf_at (pre @ conf_words ws @ [SP]) (CHR ''{'' # rest) l') (between p' ws ls')"
    using read_words [OF assms, of SP "[]" pre "CHR ''{'' # rest" l "length pre" 0] by (auto simp: word_read_def)
  then show ?thesis
    using assms(2)
    by (auto simp: read_token_def token_init_at read_char [of "pre @ conf_words ws @ [SP]"] token_char_def token_first_def
        between_def Let_def is_common_space_def)
qed

lemma read_token_block_end:
  "read_token (buf_at pre (CHR ''}'' # rest) l) = (Ok (SrsDirectiveStateBlockEnd, [], 0), buf_at (pre @ ''}'') rest l)"
  by (simp add: read_token_def token_init_at read_char token_char_def token_first_def between_def Let_def
      is_common_space_def next_line_def)

lemma read_token_eof: "read_token (buf_at pre [] l) = (Ok (SrsDirectiveStateEOF, [], 0), buf_at pre [] l)"
  by (simp add: read_token_def token_init_at read_token_loop.simps [of "buf_at pre [] l"] between_def)

subsection \<open>Reading trees\<close>

lemma parse_spaces:
  assumes "list_all is_common_space ws"
  shows "\<exists>l'. parse_conf os heap hc ctx [] ds (buf_at pre (ws @ rest) l) k =
    parse_conf os heap hc ctx [] ds (buf_at (pre @ ws) rest l') k"
proof -
  obtain l' where "read_token (buf_at pre (ws @ rest) l) = read_token (buf_at (pre @ ws) rest l')"
    using read_token_spaces [OF assms] by blast
  then have "parse_conf os heap hc ctx [] ds (buf_at pre (ws @ rest) l) k =
      parse_conf os heap hc ctx [] ds (buf_at (pre @ ws) rest l') k"
    by (subst (1 2) parse_conf.simps) simp
  then show ?thesis ..
qed

text \<open>Reading the text of some directives appends them to the children.\<close>

definition parses_to :: "'k posix \<Rightarrow> (nat \<Rightarrow> string) \<Rightarrow> bool \<Rightarrow> string \<Rightarrow> SrsConfDirective list \<Rightarrow> bool" where
  "parses_to os heap hc txt ds \<longleftrightarrow>
     (\<forall>ctx acc pre rest l k. \<exists>ds' l'. map no_lines ds' = map no_lines ds \<and>
        parse_conf os heap hc ctx [] acc (buf_at pre (txt @ rest) l) k =
        parse_conf os heap hc ctx [] (acc @ ds') (buf_at (pre @ txt) rest l') k)"

lemma parses_to_append:
  assumes "parses_to os heap hc s ds" "parses_to os heap hc t es"
  shows "parses_to os heap hc (s @ t) (ds @ es)"
  unfolding parses_to_def
proof (intro allI)
  fix ctx acc pre rest l k
  obtain ds' l1 where 1: "map no_lines ds' = map no_lines ds"
    "parse_conf os heap hc ctx [] acc (buf_at pre (s @ t @ rest) l) k =
     parse_conf os heap hc ctx [] (acc @ ds') (buf_at (pre @ s) (t @ rest) l1) k"
    using assms(1) unfolding parses_to_def by metis
  obtain es' l2 where 2: "map no_lines es' = map no_lines es"
    "parse_conf os heap hc ctx [] (acc @ ds') (buf_at (pre @ s) (t @ rest) l1) k =
     parse_conf os heap hc ctx [] ((acc @ ds') @ es') (buf_at ((pre @ s) @ t) rest l2) k"
    using assms(2) unfolding parses_to_def by metis
  from 1 2 show "\<exists>ds' l'. map no_lines ds' = map no_lines (ds @ es) \<and>
      parse_conf os heap hc ctx [] acc (buf_at pre ((s @ t) @ rest) l) k =
      parse_conf os heap hc ctx [] (acc @ ds') (buf_at (pre @ s @ t) rest l') k"
    by (intro exI [of _ "ds' @ es'"] exI [of _ l2]) simp
qed

lemma parses_to_spaces: "list_all is_common_space ws \<Longrightarrow> parses_to os heap hc ws []"
  unfolding parses_to_def using parse_spaces by (intro allI exI [of _ "[]"]) simp

lemma parses_to_concat:
  "(\<And>d. d \<in> set ds \<Longrightarrow> parses_to os heap hc (txt d) [d]) \<Longrightarrow> parses_to os heap hc (concat (map txt ds)) ds"
proof (induction ds)
  case Nil
  then show ?case using parses_to_spaces [of "[]"] by simp
next
  case (Cons d ds)
  then show ?case using parses_to_append [of os heap hc "txt d" "[d]" "concat (map txt ds)" ds] by simp
qed

lemma parses_to_entire:
  assumes "list_all word_ok (name # as)" "name \<noteq> ''include''"
  shows "parses_to os heap hc (conf_words (name # as) @ '';'') [Directive ln name as []]"
  unfolding parses_to_def
proof (intro allI)
  fix ctx acc pre rest l k
  obtain ls l' where "read_token (buf_at pre (conf_words (name # as) @ '';'' @ rest) l) =
      (Ok (SrsDirectiveStateEntire, name # as, ls), buf_at (pre @ conf_words (name # as) @ '';'') rest l')"
    using read_token_entire [OF assms(1)] by blast
  then show "\<exists>ds' l'. map no_lines ds' = map no_lines [Directive ln name as []] \<and>
      parse_conf os heap hc ctx [] acc (buf_at pre ((conf_words (name # as) @ '';'') @ rest) l) k =
      parse_conf os heap hc ctx [] (acc @ ds') (buf_at (pre @ conf_words (name # as) @ '';'') rest l') k"
    using assms(2) by (intro exI [of _ "[Directive ls name as []]"] exI [of _ l']) (subst parse_conf.simps, simp)
qed

lemma parses_to_block:
  assumes "list_all word_ok (name # as)" "name \<noteq> ''include''" "parses_to os heap hc txt ds"
  shows "parses_to os heap hc (conf_words (name # as) @ '' {'' @ txt @ ''}'') [Directive ln name as ds]"
  unfolding parses_to_def
proof (intro allI)
  fix ctx acc pre rest l k
  let ?head = "pre @ conf_words (name # as) @ '' {''"
  obtain ls l1 where 1: "read_token (buf_at pre (conf_words (name # as) @ '' {'' @ txt @ CHR ''}'' # rest) l) =
      (Ok (SrsDirectiveStateBlockStart, name # as, ls), buf_at ?head (txt @ CHR ''}'' # rest) l1)"
    using read_token_block [OF assms(1)] by blast
  obtain ds' l2 where 2: "map no_lines ds' = map no_lines ds"
    "parse_conf os heap hc SrsDirectiveContextBlock [] [] (buf_at ?head (txt @ CHR ''}'' # rest) l1) k =
     parse_conf os heap hc SrsDirectiveContextBlock [] ([] @ ds') (buf_at (?head @ txt) (CHR ''}'' # rest) l2) k"
    using assms(3) unfolding parses_to_def by metis
  have "parse_conf os heap hc SrsDirectiveContextBlock [] ds' (buf_at (?head @ txt) (CHR ''}'' # rest) l2) k =
      Some (ERROR_SUCCESS, ds', buf_at ((?head @ txt) @ ''}'') rest l2, k)"
    by (subst parse_conf.simps) (simp add: read_token_block_end)
  with 1 2 assms(2) show "\<exists>ds'' l'. map no_lines ds'' = map no_lines [Directive ln name as ds] \<and>
      parse_conf os heap hc ctx [] acc (buf_at pre ((conf_words (name # as) @ '' {'' @ txt @ ''}'') @ rest) l) k =
      parse_conf os heap hc ctx [] (acc @ ds'') (buf_at (pre @ conf_words (name # as) @ '' {'' @ txt @ ''}'') rest l') k"
    by (intro exI [of _ "[Directive ls name as ds']"] exI [of _ l2]) (subst parse_conf.simps, simp)
qed

lemma parses_to_text: "directive_ok d \<Longrightarrow> parses_to os heap hc (conf_text n d) [d]"
proof (induction d arbitrary: n)
  case (Directive ln name as ds)
  then have ok: "list_all word_ok (name # as)" "name \<noteq> ''include''" by simp_all
  have "parses_to os heap hc (LF # concat (map (conf_text (n + 4)) ds) @ replicate n SP) ds"
    using parses_to_append [OF parses_to_spaces [of "[LF]"]
        parses_to_append [OF parses_to_concat [of ds os heap hc "conf_text (n + 4)"] parses_to_spaces [of "replicate n SP"]]]
      Directive by (auto simp: list_all_iff)
  note body = parses_to_block [OF ok this, of ln] parses_to_entire [OF ok, of os heap hc ln]
  then have "parses_to os heap hc (conf_words (name # as) @
      (if ds = [] then '';'' else '' {'' @ LF # concat (map (conf_text (n + 4)) ds) @ replicate n SP @ ''}'')) [Directive ln name as ds]"
    by auto
  from parses_to_append [OF parses_to_append [OF parses_to_spaces [of "replicate n SP"] this] parses_to_spaces [of "[LF]"]]
  show ?case by (simp add: list_all_iff)
qed

text \<open>The text of a tree, read from a buffer, gives the tree.\<close>

lemma parse_text:
  assumes "list_all directive_ok ds"
  shows "\<exists>ds' b'. map no_lines ds' = map no_lines ds \<and>
    parse_conf os heap hc SrsDirectiveContextFile [] [] (conf_buffer (concat (map (conf_text 0) ds))) k =
      Some (ERROR_SUCCESS, ds', b', k)"
proof -
  let ?txt = "concat (map (conf_text 0) ds)"
  have "parses_to os heap hc ?txt ds"
    using assms by (intro parses_to_concat parses_to_text) (auto simp: list_all_iff)
  then obtain ds' l' where ds': "map no_lines ds' = map no_lines ds"
    "parse_conf os heap hc SrsDirectiveContextFile [] [] (buf_at [] (?txt @ []) 1) k =
     parse_conf os heap hc SrsDirectiveContextFile [] ([] @ ds') (buf_at ([] @ ?txt) [] l') k"
    unfolding parses_to_def by metis
  moreover have "parse_conf os heap hc SrsDirectiveContextFile [] ds' (buf_at ?txt [] l') k =
      Some (ERROR_SUCCESS, ds', buf_at ?txt [] l', k)"
    by (subst parse_conf.simps) (simp add: read_token_eof)
  ultimately show ?thesis by (auto simp: buf_at_def conf_buffer_def)
qed

end
