(* ===== verification/Conf_Transform.thy ===== *)
theory Conf_Transform
  imports Conf_Directive
begin

text \<open>
  \<open>srs_config_transform_vhost\<close> of \<open>src/src/app/srs_app_config.cpp\<close>: directives of earlier versions
  inside a \<open>vhost\<close> are moved to the places where the present version looks for them.  The loop over
  the children of a \<open>vhost\<close> erases and appends while it runs; its position is an index.  The result
  \<open>None\<close> is the call of \<open>get_or_create("enabled", "on")\<close> that runs off the end of
  \<open>get(name, arg0)\<close>.
\<close>

section \<open>Definitions\<close>

text \<open>The children that are taken out of a \<open>vhost\<close>.\<close>

definition refer_style :: "SrsConfDirective \<Rightarrow> bool" where
  "refer_style conf \<longleftrightarrow>
     dir_name conf = ''refer'' \<and> directives conf = [] \<or>
     dir_name conf = ''refer_play'' \<or> dir_name conf = ''refer_publish''"

definition play_shadow :: "string \<Rightarrow> bool" where
  "play_shadow n \<longleftrightarrow> n \<in> set [''time_jitter'', ''mix_correct'', ''atc'', ''atc_auto'', ''mw_latency'',
     ''gop_cache'', ''queue_length'', ''send_min_interval'', ''reduce_sequence_header'']"

definition cluster_shadow :: "string \<Rightarrow> bool" where
  "cluster_shadow n \<longleftrightarrow> n \<in> set [''mode'', ''origin'', ''token_traverse'', ''vhost'', ''debug_srs_upnode'']"

text \<open>What happens at index \<open>i\<close>; \<open>dir\<close> is the \<open>vhost\<close>.  \<open>copy_args\<close> is
  \<open>parent->get_or_create(n)->args = source->args\<close> for a child that may be missing.\<close>

definition copy_args :: "string \<Rightarrow> SrsConfDirective option \<Rightarrow> SrsConfDirective \<Rightarrow> SrsConfDirective" where
  "copy_args n source parent =
     (case source of None \<Rightarrow> parent | Some s \<Rightarrow> with_child n (set_args (dir_args s)) parent)"

definition transform_http_remux :: "SrsConfDirective \<Rightarrow> SrsConfDirective" where
  "transform_http_remux conf = conf_remove (get_index ''hstrs'' conf) conf"

definition refer_target :: "string \<Rightarrow> string" where
  "refer_target n = (if n = ''refer'' then ''all'' else if n = ''refer_play'' then ''play'' else ''publish'')"

definition transform_refer :: "nat \<Rightarrow> SrsConfDirective \<Rightarrow> SrsConfDirective option" where
  "transform_refer i dir =
     (let conf = directives dir ! i in
      case get_or_create ''refer'' (erase_at i dir) of (j, dir') \<Rightarrow>
      case get_or_create2 ''enabled'' ''on'' (directives dir' ! j) of
        None \<Rightarrow> None
      | Some (_, refer) \<Rightarrow>
          Some (update_child j (\<lambda>_. copy_args (refer_target (dir_name conf)) (Some conf) refer) dir'))"

definition transform_mr :: "nat \<Rightarrow> SrsConfDirective \<Rightarrow> SrsConfDirective" where
  "transform_mr i dir =
     (let conf = directives dir ! i in
      with_child ''publish''
        (\<lambda>publish. copy_args ''mr_latency'' (conf_get ''latency'' conf)
                     (copy_args ''mr'' (conf_get ''enabled'' conf) publish))
        (erase_at i dir))"

text \<open>A child moved with its arguments: \<open>publish_1stpkt_timeout\<close>, \<open>publish_normal_timeout\<close> and the two
  groups of shadows.\<close>

definition move_to :: "string \<Rightarrow> string \<Rightarrow> nat \<Rightarrow> SrsConfDirective \<Rightarrow> SrsConfDirective" where
  "move_to parent n i dir = with_child parent (copy_args n (Some (directives dir ! i))) (erase_at i dir)"

definition transform_forward :: "SrsConfDirective \<Rightarrow> SrsConfDirective" where
  "transform_forward conf =
     set_args [] (with_child ''destination'' (set_args (dir_args conf)) (with_child ''enabled'' (set_arg0 ''on'') conf))"

definition transform_nack_twcc :: "nat \<Rightarrow> SrsConfDirective \<Rightarrow> SrsConfDirective" where
  "transform_nack_twcc i dir =
     (let conf = directives dir ! i in
      with_child ''rtc''
        (\<lambda>rtc. if dir_name conf = ''nack'' then
                 copy_args ''nack_no_copy'' (conf_get ''no_copy'' conf) (copy_args ''nack'' (conf_get ''enabled'' conf) rtc)
               else copy_args ''twcc'' (conf_get ''enabled'' conf) rtc)
        (erase_at i dir))"

text \<open>The flag \<open>n\<close> of an \<open>rtc\<close> directive becomes the switch \<open>m\<close>.\<close>

definition transform_flag :: "string \<Rightarrow> string \<Rightarrow> string \<Rightarrow> SrsConfDirective \<Rightarrow> SrsConfDirective" where
  "transform_flag n v m conf =
     (case get_index n conf of
        None \<Rightarrow> conf
      | Some i \<Rightarrow>
          conf_remove (Some i)
            (with_child m (set_arg0 (if arg0 (directives conf ! i) = v then ''on'' else ''off'')) conf))"

definition transform_rtc :: "SrsConfDirective \<Rightarrow> SrsConfDirective" where
  "transform_rtc conf =
     transform_flag ''bframe'' ''keep'' ''keep_bframe'' (transform_flag ''aac'' ''transcode'' ''rtmp_to_rtc'' conf)"

definition transform_child :: "nat \<Rightarrow> SrsConfDirective \<Rightarrow> (nat \<times> SrsConfDirective) option" where
  "transform_child i dir =
     (let conf = directives dir ! i; n = dir_name conf in
      if n = ''http'' then Some (Suc i, update_child i (set_name ''http_static'') dir)
      else if n = ''http_remux'' then Some (Suc i, update_child i transform_http_remux dir)
      else if refer_style conf then map_option (Pair i) (transform_refer i dir)
      else if n = ''mr'' then Some (i, transform_mr i dir)
      else if n = ''publish_1stpkt_timeout'' then Some (i, move_to ''publish'' ''firstpkt_timeout'' i dir)
      else if n = ''publish_normal_timeout'' then Some (i, move_to ''publish'' ''normal_timeout'' i dir)
      else if play_shadow n then Some (i, move_to ''play'' n i dir)
      else if n = ''forward'' \<and> directives conf = [] \<and> dir_args conf \<noteq> [] then
        Some (Suc i, update_child i transform_forward dir)
      else if cluster_shadow n then Some (i, move_to ''cluster'' n i dir)
      else if n = ''nack'' \<or> n = ''twcc'' then Some (i, transform_nack_twcc i dir)
      else if n = ''rtc'' then Some (Suc i, update_child i transform_rtc dir)
      else Some (Suc i, dir))"

definition taken_out :: "SrsConfDirective \<Rightarrow> bool" where
  "taken_out conf \<longleftrightarrow> refer_style conf \<or> play_shadow (dir_name conf) \<or> cluster_shadow (dir_name conf) \<or>
     dir_name conf \<in> set [''mr'', ''publish_1stpkt_timeout'', ''publish_normal_timeout'', ''nack'', ''twcc'']"

section \<open>Every turn makes progress\<close>

lemma name_set_simps [simp]:
  "directives (set_directives ds d) = ds" "dir_name (set_directives ds d) = dir_name d"
  "dir_name (set_args as d) = dir_name d" "directives (set_args as d) = directives d"
  "dir_name (set_name n d) = n" "directives (set_name n d) = directives d"
  "dir_args (set_args as d) = as"
  by (simp_all add: set_directives_def set_args_def set_name_def)

lemma dir_name_set_arg0 [simp]: "dir_name (set_arg0 a d) = dir_name d" "directives (set_arg0 a d) = directives d"
  by (simp_all add: set_arg0_def)

lemma child_index_Some: "child_index ok ds = Some i \<Longrightarrow> i < length ds \<and> ok (ds ! i) \<and> (\<forall>j < i. \<not> ok (ds ! j))"
  by (induction ds arbitrary: i) (auto split: if_splits simp: less_Suc_eq_0_disj)

lemma child_index_None: "child_index ok ds = None \<longleftrightarrow> (\<forall>d \<in> set ds. \<not> ok d)"
  by (induction ds) auto

text \<open>\<open>with_child\<close> changes one child of the name or appends one.\<close>

lemma with_child_cases:
  obtains (found) i where "i < length (directives d)" "dir_name (directives d ! i) = n"
      "directives (with_child n f d) = (directives d)[i := f (directives d ! i)]"
  | (created) "\<forall>c \<in> set (directives d). dir_name c \<noteq> n"
      "directives (with_child n f d) = directives d @ [f (Directive 0 n [] [])]"
proof (cases "get_index n d")
  case None
  then have "\<forall>c \<in> set (directives d). dir_name c \<noteq> n" by (simp add: get_index_def child_index_None)
  with None show ?thesis
    by (intro created) (simp_all add: with_child_def get_or_create_def push_directive_def update_child_def nth_append)
next
  case (Some i)
  then show ?thesis
    using child_index_Some [of "\<lambda>x. dir_name x = n" "directives d" i]
    by (intro found) (auto simp: get_index_def with_child_def get_or_create_def update_child_def)
qed

lemma dir_name_with_child [simp]: "dir_name (with_child n f d) = dir_name d"
  by (simp add: with_child_def get_or_create_def update_child_def push_directive_def split: option.splits)

lemma directives_with_child_nonempty [simp]: "directives (with_child n f d) \<noteq> []"
  by (cases rule: with_child_cases [of d n f]) auto

lemma dir_name_copy_args [simp]: "dir_name (copy_args n s d) = dir_name d"
  by (simp add: copy_args_def split: option.splits)

lemma dir_name_conf_remove [simp]: "dir_name (conf_remove v d) = dir_name d"
  by (simp add: conf_remove_def erase_at_def split: option.splits)

lemma copy_args_nonempty: "directives (copy_args n (Some s) d) \<noteq> []"
  by (simp add: copy_args_def)

lemma dir_name_transform [simp]:
  "dir_name (transform_http_remux d) = dir_name d" "dir_name (transform_forward d) = dir_name d"
  "dir_name (transform_rtc d) = dir_name d"
  by (simp_all add: transform_http_remux_def transform_forward_def transform_rtc_def transform_flag_def split: option.splits)

text \<open>A child that needs no rewriting, and the effect of \<open>with_child\<close> on a list of children.\<close>

definition new_style :: "SrsConfDirective \<Rightarrow> bool" where
  "new_style c \<longleftrightarrow> \<not> taken_out c \<and> dir_name c \<noteq> ''http''"

definition grown :: "SrsConfDirective list \<Rightarrow> SrsConfDirective list \<Rightarrow> bool" where
  "grown ds ds' \<longleftrightarrow> (\<exists>c. new_style c \<and> (ds' = ds @ [c] \<or> (\<exists>i < length ds. ds' = ds[i := c])))"

lemma with_child_grown:
  assumes "\<And>c. dir_name c = n \<Longrightarrow> new_style (f c)"
  shows "grown (directives d) (directives (with_child n f d))"
proof (cases rule: with_child_cases [of d n f])
  case (found i)
  with assms show ?thesis unfolding grown_def by (intro exI [of _ "f (directives d ! i)"]) auto
next
  case created
  with assms show ?thesis unfolding grown_def by (intro exI [of _ "f (Directive 0 n [] [])"]) auto
qed

lemma count_grown: "grown ds ds' \<Longrightarrow> length (filter taken_out ds') \<le> length (filter taken_out ds) \<and> length ds' \<le> Suc (length ds)"
proof -
  have "length (filter p (ds[i := c])) \<le> length (filter p ds)" if "\<not> p c" "i < length ds" for p i and c :: SrsConfDirective
    using that by (induction ds arbitrary: i) (auto split: nat.splits simp: le_SucI)
  then show "grown ds ds' \<Longrightarrow> ?thesis" by (auto simp: grown_def new_style_def)
qed

lemma count_erase:
  assumes "i < length ds" "p (ds ! i)"
  shows "Suc (length (filter p (take i ds @ drop (Suc i) ds))) = length (filter p ds)"
proof -
  have "ds = take i ds @ ds ! i # drop (Suc i) ds" using assms(1) by (simp add: id_take_nth_drop)
  then have "filter p ds = filter p (take i ds) @ filter p (ds ! i # drop (Suc i) ds)" by (metis filter_append)
  then show ?thesis using assms(2) by simp
qed

lemma grown_keeps:
  assumes "grown ds ds'" "\<forall>j < i. new_style (ds ! j)" "i \<le> length ds"
  shows "i \<le> length ds' \<and> (\<forall>j < i. new_style (ds' ! j))"
  using assms by (auto simp: grown_def nth_append nth_list_update)

lemma transform_refer_grown:
  assumes "transform_refer i dir = Some dir'"
  shows "grown (directives (erase_at i dir)) (directives dir')"
proof -
  let ?f = "\<lambda>c. copy_args (refer_target (dir_name (directives dir ! i))) (Some (directives dir ! i)) c"
  have "dir' = with_child ''refer'' ?f (erase_at i dir)"
    using assms by (auto simp: transform_refer_def with_child_def get_or_create2_def Let_def update_child_def
        split: prod.splits option.splits)
  moreover have "grown (directives (erase_at i dir)) (directives (with_child ''refer'' ?f (erase_at i dir)))"
    by (intro with_child_grown)
      (simp add: new_style_def taken_out_def refer_style_def play_shadow_def cluster_shadow_def copy_args_nonempty)
  ultimately show ?thesis by simp
qed

lemma new_style_names:
  "dir_name c = ''http_static'' \<or> dir_name c = ''http_remux'' \<or> dir_name c = ''forward'' \<or> dir_name c = ''rtc'' \<or>
   dir_name c = ''publish'' \<or> dir_name c = ''play'' \<or> dir_name c = ''cluster'' \<Longrightarrow> new_style c"
  by (auto simp: new_style_def taken_out_def refer_style_def play_shadow_def cluster_shadow_def)

lemma taken_out_not_new: "taken_out c \<Longrightarrow> \<not> new_style c" "taken_out c \<Longrightarrow> dir_name c \<noteq> ''http''"
  by (auto simp: new_style_def taken_out_def refer_style_def play_shadow_def cluster_shadow_def)

text \<open>A turn either leaves a new style child behind and goes on, or takes one child out.\<close>

lemma transform_child_keeps:
  assumes "transform_child i dir = Some (i', dir')" "\<not> taken_out (directives dir ! i)"
  shows "i' = Suc i \<and> (\<exists>c. directives dir' = (directives dir)[i := c] \<and> new_style c)"
proof -
  let ?c = "directives dir ! i"
  from assms(2) have old: "\<not> refer_style ?c" "\<not> play_shadow (dir_name ?c)" "\<not> cluster_shadow (dir_name ?c)"
    "dir_name ?c \<notin> set [''mr'', ''publish_1stpkt_timeout'', ''publish_normal_timeout'', ''nack'', ''twcc'']"
    by (simp_all add: taken_out_def)
  have kept: "new_style ?c" if "dir_name ?c \<noteq> ''http''" using assms(2) that by (simp add: new_style_def)
  have "i' = Suc i \<and> (dir' = dir \<and> new_style ?c \<or> 
      (\<exists>f \<in> {set_name ''http_static'', transform_http_remux, transform_forward, transform_rtc}.
        dir' = update_child i f dir \<and> new_style (f ?c)))"
    using assms(1) old kept unfolding transform_child_def Let_def
    by (auto simp: new_style_names split: if_splits)
  then show ?thesis by (auto simp: update_child_def intro: exI [of _ ?c])
qed

lemma transform_child_takes:
  assumes "transform_child i dir = Some (i', dir')" "taken_out (directives dir ! i)"
  shows "i' = i \<and> grown (directives (erase_at i dir)) (directives dir')"
proof -
  have shadow: "grown (directives (erase_at i dir)) (directives (with_child n f (erase_at i dir)))"
    if "n = ''publish'' \<or> n = ''play'' \<or> n = ''cluster'' \<or> n = ''rtc''" "\<And>c. dir_name (f c) = dir_name c" for n f
    using that by (intro with_child_grown new_style_names) auto
  from assms(2) have no: "dir_name (directives dir ! i) \<notin> {''http'', ''http_remux'', ''forward'', ''rtc''}"
    using taken_out_not_new [OF assms(2)] new_style_names [of "directives dir ! i"] by auto
  show ?thesis
  proof (cases "refer_style (directives dir ! i)")
    case True
    with assms no transform_refer_grown [of i dir dir'] show ?thesis
      by (auto simp: transform_child_def Let_def)
  next
    case False
    with assms(2) have "play_shadow (dir_name (directives dir ! i)) \<or> cluster_shadow (dir_name (directives dir ! i)) \<or>
      dir_name (directives dir ! i) \<in> set [''mr'', ''publish_1stpkt_timeout'', ''publish_normal_timeout'', ''nack'', ''twcc'']"
      by (simp add: taken_out_def)
    moreover from calculation assms(1) no False have "i' = i"
      unfolding transform_child_def Let_def by (auto split: if_splits)
    ultimately show ?thesis
      using assms(1) no False
      unfolding transform_child_def Let_def transform_mr_def move_to_def transform_nack_twcc_def
      by (auto simp: shadow split: if_splits)
  qed
qed

section \<open>The loops\<close>

function transform_children :: "nat \<Rightarrow> SrsConfDirective \<Rightarrow> SrsConfDirective option" where
  "transform_children i dir =
     (if i < length (directives dir) then
        (case transform_child i dir of
           None \<Rightarrow> None
         | Some (i', dir') \<Rightarrow> transform_children i' dir')
      else Some dir)"
  by pat_completeness auto
termination
proof (relation "measure (\<lambda>(i, dir). (length (directives dir) - i) + length (filter taken_out (directives dir)))",
    goal_cases)
  case (2 i dir r i' dir')
  let ?ds = "directives dir"
  show ?case
  proof (cases "taken_out (?ds ! i)")
    case True
    with 2 have "i' = i" "grown (directives (erase_at i dir)) (directives dir')"
      using transform_child_takes [of i dir i' dir'] by auto
    with count_grown count_erase [of i ?ds taken_out] True 2 show ?thesis
      by (fastforce simp: erase_at_def)
  next
    case False
    with 2 obtain c where c: "i' = Suc i" "directives dir' = ?ds[i := c]" "new_style c"
      using transform_child_keeps [of i dir i' dir'] by auto
    then have "grown ?ds (directives dir')" using 2 by (auto simp: grown_def)
    with count_grown have "length (filter taken_out (directives dir')) \<le> length (filter taken_out ?ds)" by blast
    with c 2 show ?thesis by (auto simp: less_Suc_eq_le)
  qed
qed simp

declare transform_children.simps [simp del]

definition obsolete_rtc_server :: "SrsConfDirective \<Rightarrow> bool" where
  "obsolete_rtc_server conf \<longleftrightarrow> dir_name conf = ''perf_stat'' \<or> dir_name conf = ''queue_length''"

definition transform_directive :: "SrsConfDirective \<Rightarrow> SrsConfDirective option" where
  "transform_directive dir =
     (if dir_name dir = ''http_stream'' then Some (set_name ''http_server'' dir)
      else
        let dir = (if dir_name dir = ''rtc_server''
                   then set_directives (filter (\<lambda>conf. \<not> obsolete_rtc_server conf) (directives dir)) dir else dir)
        in if \<not> is_vhost dir then Some dir else transform_children 0 dir)"

fun transform_directives :: "SrsConfDirective list \<Rightarrow> SrsConfDirective list option" where
  "transform_directives [] = Some []"
| "transform_directives (d # ds) =
     (case transform_directive d of
        None \<Rightarrow> None
      | Some d' \<Rightarrow> map_option ((#) d') (transform_directives ds))"

definition srs_config_transform_vhost :: "SrsConfDirective \<Rightarrow> SrsConfDirective option" where
  "srs_config_transform_vhost root = map_option (\<lambda>ds. set_directives ds root) (transform_directives (directives root))"

section \<open>Nothing old is left\<close>

lemma grown_set: "grown ds ds' \<Longrightarrow> c \<in> set ds' \<Longrightarrow> c \<in> set ds \<or> new_style c"
  by (auto simp: grown_def dest: set_update_subset_insert [THEN subsetD])

lemma erase_at_set: "c \<in> set (directives (erase_at i dir)) \<Longrightarrow> c \<in> set (directives dir)"
  by (auto simp: erase_at_def dest: in_set_takeD in_set_dropD)

lemma transform_child_set:
  assumes "transform_child i dir = Some (i', dir')" "c \<in> set (directives dir')"
  shows "c \<in> set (directives dir) \<or> new_style c"
proof (cases "taken_out (directives dir ! i)")
  case True
  from transform_child_takes [OF assms(1) this] assms(2) show ?thesis
    using grown_set erase_at_set by blast
next
  case False
  with transform_child_keeps [OF assms(1)] assms(2) show ?thesis
    by (auto dest: set_update_subset_insert [THEN subsetD])
qed

lemma new_style_not_refer: "new_style c \<Longrightarrow> \<not> refer_style c"
  by (simp add: new_style_def taken_out_def)

lemma transform_children_returns:
  "\<forall>c \<in> set (directives dir). \<not> refer_style c \<Longrightarrow> \<exists>dir'. transform_children i dir = Some dir'"
proof (induction i dir rule: transform_children.induct)
  case (1 i dir)
  show ?case
  proof (cases "i < length (directives dir)")
    case True
    with "1.prems" have "\<not> refer_style (directives dir ! i)" by simp
    then have "transform_child i dir \<noteq> None" by (simp add: transform_child_def Let_def)
    then obtain i' dir' where step: "transform_child i dir = Some (i', dir')" by auto
    with "1.prems" have "\<forall>c \<in> set (directives dir'). \<not> refer_style c"
      using transform_child_set new_style_not_refer by blast
    from "1.IH" [OF True step refl this] step True show ?thesis
      by (simp add: transform_children.simps [of i dir])
  qed (simp add: transform_children.simps [of i dir])
qed

lemma transform_children_new:
  assumes "transform_children i dir = Some dir'" "\<forall>j < i. new_style (directives dir ! j)" "i \<le> length (directives dir)"
  shows "\<forall>c \<in> set (directives dir'). new_style c"
  using assms
proof (induction i dir rule: transform_children.induct)
  case (1 i dir)
  show ?case
  proof (cases "i < length (directives dir)")
    case True
    with "1.prems"(1) obtain i1 d1 where step: "transform_child i dir = Some (i1, d1)"
      and rest: "transform_children i1 d1 = Some dir'"
      by (auto simp: transform_children.simps [of i dir] split: option.splits)
    have "i1 \<le> length (directives d1) \<and> (\<forall>j < i1. new_style (directives d1 ! j))"
    proof (cases "taken_out (directives dir ! i)")
      case out: True
      have "\<forall>j < i. new_style (directives (erase_at i dir) ! j)" "i \<le> length (directives (erase_at i dir))"
        using "1.prems" True by (simp_all add: erase_at_def nth_append)
      with transform_child_takes [OF step out] show ?thesis using grown_keeps by blast
    next
      case False
      with transform_child_keeps [OF step] "1.prems" True show ?thesis by (auto simp: less_Suc_eq)
    qed
    with "1.IH" [OF True step refl rest] show ?thesis by simp
  next
    case False
    with "1.prems" show ?thesis
      by (auto simp: transform_children.simps [of i dir] in_set_conv_nth)
  qed
qed

lemma dir_name_erase_at [simp]: "dir_name (erase_at i d) = dir_name d"
  by (simp add: erase_at_def)

lemma dir_name_transform_child: "transform_child i dir = Some (i', dir') \<Longrightarrow> dir_name dir' = dir_name dir"
  unfolding transform_child_def transform_refer_def Let_def get_or_create_def get_or_create2_def
  by (auto simp: update_child_def transform_mr_def move_to_def transform_nack_twcc_def push_directive_def Let_def
      split: if_splits option.splits prod.splits)

lemma dir_name_transform_children: "transform_children i dir = Some dir' \<Longrightarrow> dir_name dir' = dir_name dir"
proof (induction i dir rule: transform_children.induct)
  case (1 i dir)
  then show ?case
    by (auto simp: transform_children.simps [of i dir] dir_name_transform_child split: if_splits option.splits)
qed

lemma transform_directive_spec:
  assumes "is_vhost d \<Longrightarrow> \<forall>c \<in> set (directives d). \<not> refer_style c"
  shows "\<exists>d'. transform_directive d = Some d' \<and> dir_name d' \<noteq> ''http_stream'' \<and>
    (is_vhost d' \<longrightarrow> (\<forall>c \<in> set (directives d'). new_style c))"
proof (cases "is_vhost d")
  case True
  then have "transform_directive d = transform_children 0 d" by (simp add: transform_directive_def is_vhost_def)
  moreover obtain d' where "transform_children 0 d = Some d'"
    using transform_children_returns [OF assms [OF True]] by blast
  ultimately show ?thesis
    using transform_children_new [of 0 d d'] dir_name_transform_children [of 0 d d'] True by (simp add: is_vhost_def)
next
  case False
  then show ?thesis by (auto simp: transform_directive_def is_vhost_def Let_def)
qed

lemma transform_directives_spec:
  assumes "\<forall>d \<in> set ds. is_vhost d \<longrightarrow> (\<forall>c \<in> set (directives d). \<not> refer_style c)"
  shows "\<exists>ds'. transform_directives ds = Some ds' \<and> length ds' = length ds \<and> (\<forall>d \<in> set ds'. dir_name d \<noteq> ''http_stream'' \<and>
    (is_vhost d \<longrightarrow> (\<forall>c \<in> set (directives d). new_style c)))"
  using assms
proof (induction ds)
  case (Cons d ds)
  then have "is_vhost d \<Longrightarrow> \<forall>c \<in> set (directives d). \<not> refer_style c" by simp
  from transform_directive_spec [OF this] Cons show ?case by auto
qed simp

section \<open>Properties\<close>

text \<open>Rewriting old configuration styles returns for every configuration whose \<open>vhost\<close>s do
  not use the old \<open>refer\<close> directives, although the loop erases and appends while it runs; the number
  of directives stays, and afterwards no directive is called \<open>http_stream\<close> and no \<open>vhost\<close> has a child
  in an old style.\<close>

lemma transform_vhost_modern:
  assumes "\<forall>d \<in> set (directives root). is_vhost d \<longrightarrow> (\<forall>c \<in> set (directives d). \<not> refer_style c)"
  shows "\<exists>root'. srs_config_transform_vhost root = Some root' \<and>
    length (directives root') = length (directives root) \<and>
    (\<forall>d \<in> set (directives root'). dir_name d \<noteq> ''http_stream'' \<and>
       (is_vhost d \<longrightarrow> (\<forall>c \<in> set (directives d). \<not> taken_out c \<and> dir_name c \<noteq> ''http'')))"
  using transform_directives_spec [OF assms] by (auto simp: srs_config_transform_vhost_def new_style_def)

end
