(* ===== verification/Config.thy ===== *)
theory Config
  imports Conf_Parse Conf_Transform
begin

text \<open>
  \<open>SrsConfig\<close> of \<open>src/src/app/srs_app_config.cpp\<close>: the command line, loading and reloading the file,
  the handlers of a reload and the settings.  The environment variables, the test for a file and the
  callbacks of the handlers are arguments; a handler is a value of type \<open>'h\<close>, and its callback
  works on a state \<open>'s\<close>.  A program that leaves through \<open>exit(0)\<close> has the result \<open>Exit\<close>.
\<close>

section \<open>Definitions\<close>

record 'h SrsConfig =
  show_help :: bool
  show_version :: bool
  show_signature :: bool
  cfg_argv :: string
  config_file :: string
  cfg_root :: SrsConfDirective
  subscribes :: "'h list"

definition SrsConfig_new :: "'h SrsConfig" where
  "SrsConfig_new = \<lparr>show_help = False, show_version = False, show_signature = False, cfg_argv = [], config_file = [],
     cfg_root = set_name ''root'' SrsConfDirective_new, subscribes = []\<rparr>"

definition subscribe :: "'h \<Rightarrow> 'h SrsConfig \<Rightarrow> 'h SrsConfig" where
  "subscribe h c = (if h \<in> set (subscribes c) then c else c\<lparr>subscribes := subscribes c @ [h]\<rparr>)"

definition unsubscribe :: "'h \<Rightarrow> 'h SrsConfig \<Rightarrow> 'h SrsConfig" where
  "unsubscribe h c = (if h \<notin> set (subscribes c) then c else c\<lparr>subscribes := remove1 h (subscribes c)\<rparr>)"

subsection \<open>The file\<close>

definition parse_buffer ::
    "'k posix \<Rightarrow> (nat \<Rightarrow> string) \<Rightarrow> SrsConfigBuffer \<Rightarrow> 'h SrsConfig \<Rightarrow> 'k \<Rightarrow> (int \<times> 'h SrsConfig \<times> 'k) option" where
  "parse_buffer os heap b c k =
     map_option (\<lambda>(e, root, k). (e, c\<lparr>cfg_root := root\<rparr>, k)) (conf_parse os heap True SrsConfDirective_new b k)"

definition parse_file ::
    "'k posix \<Rightarrow> (nat \<Rightarrow> string) \<Rightarrow> string \<Rightarrow> 'h SrsConfig \<Rightarrow> 'k \<Rightarrow> (int \<times> 'h SrsConfig \<times> 'k) option" where
  "parse_file os heap filename c0 k =
     (let c = c0\<lparr>config_file := filename\<rparr> in
      if config_file c = [] then Some (ERROR_SYSTEM_CONFIG_INVALID, c, k)
      else case build_buffer os heap (config_file c) k of
             (Err e, k) \<Rightarrow> Some (e, c, k)
           | (Ok b, k) \<Rightarrow> parse_buffer os heap b c k)"

text \<open>Every handler is called until one fails.\<close>

fun notify_listen :: "('h \<Rightarrow> 's \<Rightarrow> int \<times> 's) \<Rightarrow> 'h list \<Rightarrow> 's \<Rightarrow> int \<times> 's" where
  "notify_listen on_reload_listen [] s = (ERROR_SUCCESS, s)"
| "notify_listen on_reload_listen (h # hs) s =
     (case on_reload_listen h s of (e, s) \<Rightarrow>
        if e \<noteq> ERROR_SUCCESS then (e, s) else notify_listen on_reload_listen hs s)"

definition do_reload_listen :: "('h \<Rightarrow> 's \<Rightarrow> int \<times> 's) \<Rightarrow> 'h SrsConfig \<Rightarrow> 's \<Rightarrow> int \<times> 's" where
  "do_reload_listen on_reload_listen c s = notify_listen on_reload_listen (subscribes c) s"

text \<open>\<open>reload_conf\<close> takes the root of the configuration just read.\<close>

definition reload_conf ::
    "('h \<Rightarrow> 's \<Rightarrow> int \<times> 's) \<Rightarrow> SrsConfDirective \<Rightarrow> 'h SrsConfig \<Rightarrow> 's \<Rightarrow> int \<times> 'h SrsConfig \<times> 's" where
  "reload_conf on_reload_listen new_root c s =
     (let old_root = cfg_root c; c = c\<lparr>cfg_root := new_root\<rparr> in
      if \<not> srs_directive_equals (conf_get ''listen'' new_root) (conf_get ''listen'' old_root)
      then case do_reload_listen on_reload_listen c s of (e, s) \<Rightarrow> (e, c, s)
      else (ERROR_SUCCESS, c, s))"

definition reload ::
    "'k posix \<Rightarrow> (nat \<Rightarrow> string) \<Rightarrow> ('h \<Rightarrow> 's \<Rightarrow> int \<times> 's) \<Rightarrow> 'h SrsConfig \<Rightarrow> 's \<Rightarrow> 'k \<Rightarrow>
     (int \<times> 'h SrsConfig \<times> 's \<times> 'k) option" where
  "reload os heap on_reload_listen c s k =
     map_option
       (\<lambda>(e, conf, k).
          if e \<noteq> ERROR_SUCCESS then (e, c, s, k)
          else case reload_conf on_reload_listen (cfg_root conf) c s of (e, c, s) \<Rightarrow> (e, c, s, k))
       (parse_file os heap (config_file c) (SrsConfig_new :: 'h SrsConfig) k)"

subsection \<open>Settings\<close>

text \<open>The value of a setting: some of them take the default for an empty value, others do not.\<close>

definition setting :: "SrsConfDirective option \<Rightarrow> string option" where
  "setting conf = (case conf of None \<Rightarrow> None | Some d \<Rightarrow> if arg0 d = [] then None else Some (arg0 d))"

definition setting_any :: "SrsConfDirective option \<Rightarrow> string option" where
  "setting_any conf = map_option arg0 conf"

definition conf_sub :: "string \<Rightarrow> SrsConfDirective option \<Rightarrow> SrsConfDirective option" where
  "conf_sub n conf = Option.bind conf (conf_get n)"

definition or_default :: "'a \<Rightarrow> 'a option \<Rightarrow> 'a" where
  "or_default d v = (case v of None \<Rightarrow> d | Some x \<Rightarrow> x)"

definition SRS_CONF_PERFER_FALSE :: "string \<Rightarrow> bool" where "SRS_CONF_PERFER_FALSE v \<longleftrightarrow> v = ''on''"
definition SRS_CONF_PERFER_TRUE :: "string \<Rightarrow> bool" where "SRS_CONF_PERFER_TRUE v \<longleftrightarrow> v \<noteq> ''off''"

definition prefer_false :: "bool \<Rightarrow> string option \<Rightarrow> bool" where
  "prefer_false d v = or_default d (map_option SRS_CONF_PERFER_FALSE v)"

definition prefer_true :: "bool \<Rightarrow> string option \<Rightarrow> bool" where
  "prefer_true d v = or_default d (map_option SRS_CONF_PERFER_TRUE v)"

definition get_log_tank_file :: "SrsConfDirective \<Rightarrow> bool" where
  "get_log_tank_file root = or_default True (map_option (\<lambda>v. v \<noteq> ''console'') (setting (conf_get ''srs_log_tank'' root)))"

definition get_log_level :: "SrsConfDirective \<Rightarrow> string" where
  "get_log_level root = or_default ''trace'' (setting (conf_get ''srs_log_level'' root))"

definition get_log_file :: "SrsConfDirective \<Rightarrow> string" where
  "get_log_file root = or_default ''./objs/srs.log'' (setting (conf_get ''srs_log_file'' root))"

definition get_utc_time :: "SrsConfDirective \<Rightarrow> bool" where
  "get_utc_time root = prefer_false False (setting (conf_get ''utc_time'' root))"

definition get_pid_file :: "SrsConfDirective \<Rightarrow> string" where
  "get_pid_file root = or_default ''./objs/srs.pid'' (setting (conf_get ''pid'' root))"

definition SRS_UTIME_SECONDS :: int where "SRS_UTIME_SECONDS = 1000000"

definition get_threads_interval :: "SrsConfDirective \<Rightarrow> int" where
  "get_threads_interval root =
     (case setting (conf_sub ''interval'' (conf_get ''threads'' root)) of
        None \<Rightarrow> 5 * SRS_UTIME_SECONDS
      | Some a \<Rightarrow> let v = c_atoi a in if v \<le> 0 then 5 * SRS_UTIME_SECONDS else v * SRS_UTIME_SECONDS)"

definition get_asprocess :: "SrsConfDirective \<Rightarrow> bool" where
  "get_asprocess root = prefer_false False (setting (conf_get ''asprocess'' root))"

definition empty_ip_ok :: "SrsConfDirective \<Rightarrow> bool" where
  "empty_ip_ok root = prefer_true True (setting (conf_get ''empty_ip_ok'' root))"

definition get_daemon :: "SrsConfDirective \<Rightarrow> bool" where
  "get_daemon root = prefer_true True (setting (conf_get ''daemon'' root))"

text \<open>Settings that an environment variable overrides.\<close>

definition env_or :: "string option \<Rightarrow> string \<Rightarrow> string" where
  "env_or v d = or_default d v"

definition env_bool_or :: "string option \<Rightarrow> bool \<Rightarrow> bool" where
  "env_bool_or v d = prefer_false d v"

definition get_http_api_enabled :: "(string \<Rightarrow> string option) \<Rightarrow> SrsConfDirective \<Rightarrow> bool" where
  "get_http_api_enabled getenv root =
     env_bool_or (getenv ''SRS_HTTP_API_ENABLED'')
       (prefer_false False (setting (conf_sub ''enabled'' (conf_get ''http_api'' root))))"

definition get_http_stream_enabled :: "(string \<Rightarrow> string option) \<Rightarrow> SrsConfDirective \<Rightarrow> bool" where
  "get_http_stream_enabled getenv root =
     env_bool_or (getenv ''SRS_HTTP_SERVER_ENABLED'')
       (prefer_false False (setting (conf_sub ''enabled'' (conf_get ''http_server'' root))))"

definition get_http_stream_listen :: "(string \<Rightarrow> string option) \<Rightarrow> SrsConfDirective \<Rightarrow> string" where
  "get_http_stream_listen getenv root =
     env_or (getenv ''SRS_HTTP_SERVER_LISTEN'')
       (or_default ''8080'' (setting (conf_sub ''listen'' (conf_get ''http_server'' root))))"

definition get_https_stream :: "SrsConfDirective \<Rightarrow> SrsConfDirective option" where
  "get_https_stream root = conf_sub ''https'' (conf_get ''http_server'' root)"

definition get_https_stream_listen :: "(string \<Rightarrow> string option) \<Rightarrow> SrsConfDirective \<Rightarrow> string" where
  "get_https_stream_listen getenv root =
     env_or (getenv ''SRS_HTTP_SERVER_HTTTPS_LISTEN'')
       (or_default ''8088'' (setting_any (conf_sub ''listen'' (get_https_stream root))))"

definition get_http_api_listen :: "(string \<Rightarrow> string option) \<Rightarrow> SrsConfDirective \<Rightarrow> string" where
  "get_http_api_listen getenv root =
     env_or (getenv ''SRS_HTTP_API_LISTEN'')
       (or_default ''1985'' (setting (conf_sub ''listen'' (conf_get ''http_api'' root))))"

definition get_https_api :: "SrsConfDirective \<Rightarrow> SrsConfDirective option" where
  "get_https_api root = conf_sub ''https'' (conf_get ''http_api'' root)"

text \<open>The default of \<open>get_https_api_listen\<close> is a static variable, which the first call that gets past
  the environment variable fills; it is the last argument and part of the result.\<close>

definition get_https_api_listen ::
    "(string \<Rightarrow> string option) \<Rightarrow> SrsConfDirective \<Rightarrow> string \<Rightarrow> string \<times> string" where
  "get_https_api_listen getenv root static_default =
     (case getenv ''SRS_HTTP_API_HTTPS_LISTEN'' of
        Some v \<Rightarrow> (v, static_default)
      | None \<Rightarrow>
          let d = (if static_default = [] then
                     if get_http_api_listen getenv root = get_http_stream_listen getenv root
                     then get_https_stream_listen getenv root else ''1990''
                   else static_default)
          in (or_default d (setting_any (conf_sub ''listen'' (get_https_api root))), d))"

definition get_http_stream_crossdomain :: "SrsConfDirective \<Rightarrow> bool" where
  "get_http_stream_crossdomain root = prefer_true True (setting (conf_sub ''crossdomain'' (conf_get ''http_server'' root)))"

definition get_https_stream_ssl_key :: "SrsConfDirective \<Rightarrow> string" where
  "get_https_stream_ssl_key root = or_default ''./conf/server.key'' (setting_any (conf_sub ''key'' (get_https_stream root)))"

definition get_https_stream_ssl_cert :: "SrsConfDirective \<Rightarrow> string" where
  "get_https_stream_ssl_cert root = or_default ''./conf/server.crt'' (setting_any (conf_sub ''cert'' (get_https_stream root)))"

definition get_https_api_enabled :: "(string \<Rightarrow> string option) \<Rightarrow> SrsConfDirective \<Rightarrow> bool" where
  "get_https_api_enabled getenv root =
     env_bool_or (getenv ''SRS_HTTP_API_HTTPS_ENABLED'')
       (prefer_false False (setting_any (conf_sub ''enabled'' (get_https_api root))))"

definition get_http_proxy_enabled :: "(string \<Rightarrow> string option) \<Rightarrow> SrsConfDirective \<Rightarrow> bool" where
  "get_http_proxy_enabled getenv root =
     env_bool_or (getenv ''SRS_HTTP_PROXY_ENABLED'')
       (prefer_false True (setting_any (conf_sub ''enabled'' (conf_get ''http_proxy'' root))))"

definition get_http_proxy_listen :: "(string \<Rightarrow> string option) \<Rightarrow> SrsConfDirective \<Rightarrow> string" where
  "get_http_proxy_listen getenv root =
     env_or (getenv ''SRS_HTTP_PROXY_LISTEN'')
       (or_default ''80'' (setting_any (conf_sub ''listen'' (conf_get ''http_proxy'' root))))"

definition next_hip :: "string \<Rightarrow> SrsConfDirective \<Rightarrow> string option" where
  "next_hip n root = setting_any (conf_sub n (conf_sub ''next_hip'' (conf_get ''http_proxy'' root)))"

definition get_next_hip_proxy_enabled :: "SrsConfDirective \<Rightarrow> bool" where
  "get_next_hip_proxy_enabled root = prefer_false False (next_hip ''enabled'' root)"

definition get_next_hip_proxy_ip :: "SrsConfDirective \<Rightarrow> string" where
  "get_next_hip_proxy_ip root = or_default [] (next_hip ''ip'' root)"

definition get_next_hip_proxy_port :: "SrsConfDirective \<Rightarrow> string" where
  "get_next_hip_proxy_port root = or_default [] (next_hip ''port'' root)"

text \<open>The circuit breaker.\<close>

definition breaker :: "string \<Rightarrow> SrsConfDirective \<Rightarrow> string option" where
  "breaker n root = setting_any (conf_sub n (conf_get ''circuit_breaker'' root))"

definition get_circuit_breaker :: "SrsConfDirective \<Rightarrow> bool" where
  "get_circuit_breaker root = prefer_true True (breaker ''enabled'' root)"

definition get_high_threshold :: "SrsConfDirective \<Rightarrow> int" where
  "get_high_threshold root = or_default 90 (map_option c_atoi (breaker ''high_threshold'' root))"

definition get_high_pulse :: "SrsConfDirective \<Rightarrow> int" where
  "get_high_pulse root = or_default 2 (map_option c_atoi (breaker ''high_pulse'' root))"

definition get_critical_threshold :: "SrsConfDirective \<Rightarrow> int" where
  "get_critical_threshold root = or_default 95 (map_option c_atoi (breaker ''critical_threshold'' root))"

definition get_critical_pulse :: "SrsConfDirective \<Rightarrow> int" where
  "get_critical_pulse root = or_default 1 (map_option c_atoi (breaker ''critical_pulse'' root))"

definition get_dying_threshold :: "SrsConfDirective \<Rightarrow> int" where
  "get_dying_threshold root = or_default 99 (map_option c_atoi (breaker ''dying_threshold'' root))"

definition get_dying_pulse :: "SrsConfDirective \<Rightarrow> int" where
  "get_dying_pulse root = or_default 5 (map_option c_atoi (breaker ''dying_pulse'' root))"

subsection \<open>The command line\<close>

text \<open>The loop over the letters of one option; \<open>p\<close> is the rest of \<open>argv[i]\<close>.  The branch of \<open>h\<close>
  falls through to the branch of \<open>c\<close>, and neither branch of \<open>c\<close> leaves the loop.\<close>

fun argv_letters :: "string list \<Rightarrow> string \<Rightarrow> nat \<Rightarrow> 'h SrsConfig \<Rightarrow> int \<times> nat \<times> 'h SrsConfig" where
  "argv_letters argv [] i c = (ERROR_SUCCESS, i, c)"
| "argv_letters argv (ch # p) i c =
     (if ch = CHR ''?'' \<or> ch = CHR ''h'' \<or> ch = CHR ''c'' then
        let c = c\<lparr>show_help := False\<rparr> in
        if p \<noteq> [] then argv_letters argv p i (c\<lparr>config_file := p\<rparr>)
        else if Suc i < length argv then (ERROR_SUCCESS, Suc i, c\<lparr>config_file := argv ! Suc i\<rparr>)
        else (ERROR_SYSTEM_CONFIG_INVALID, Suc i, c)
      else (ERROR_SYSTEM_CONFIG_INVALID, i, c))"

definition parse_argv :: "string list \<Rightarrow> nat \<Rightarrow> 'h SrsConfig \<Rightarrow> int \<times> nat \<times> 'h SrsConfig" where
  "parse_argv argv i c =
     (case argv ! i of
        ch # p \<Rightarrow> if ch = CHR ''-'' then argv_letters argv p i c else (ERROR_SUCCESS, i, c\<lparr>show_help := True\<rparr>)
      | [] \<Rightarrow> (ERROR_SUCCESS, i, c\<lparr>show_help := True\<rparr>))"

lemma argv_letters_index: "argv_letters argv p i c = (e, i', c') \<Longrightarrow> i \<le> i'"
  by (induction argv p i c rule: argv_letters.induct) (auto simp: Let_def split: if_splits)

lemma parse_argv_index: "parse_argv argv i c = (e, i', c') \<Longrightarrow> i \<le> i'"
  by (auto simp: parse_argv_def argv_letters_index split: list.splits if_splits)

function argv_loop :: "string list \<Rightarrow> nat \<Rightarrow> 'h SrsConfig \<Rightarrow> int \<times> 'h SrsConfig" where
  "argv_loop argv i c =
     (if i < length argv then
        case parse_argv argv i c of (e, i', c') \<Rightarrow>
          if e \<noteq> ERROR_SUCCESS then (e, c') else argv_loop argv (Suc i') c'
      else (ERROR_SUCCESS, c))"
  by pat_completeness auto
termination
proof (relation "measure (\<lambda>(argv, i, c). length argv - i)", goal_cases)
  case (2 argv i c)
  then show ?case by (auto dest!: parse_argv_index [OF sym])
qed simp

declare argv_loop.simps [simp del]

abbreviation SRS_CONF_DEFAULT_COFNIG_FILE :: string where "SRS_CONF_DEFAULT_COFNIG_FILE \<equiv> ''conf/srs.conf''"

definition try_config_files :: "string \<Rightarrow> string list option" where
  "try_config_files conf_file =
     map_option
       (\<lambda>docker. (if conf_file \<noteq> [] then [conf_file] else []) @ docker @
          [SRS_CONF_DEFAULT_COFNIG_FILE, ''/etc/srs/srs.conf''])
       (if srs_string_ends_with conf_file ''docker.conf''
        then map_option (\<lambda>f. [f]) (srs_string_replace conf_file ''docker.conf'' ''srs.conf'') else Some [])"

definition exists_config_file :: "(string \<Rightarrow> bool) \<Rightarrow> string list \<Rightarrow> string" where
  "exists_config_file srs_path_exists fs = or_default [] (List.find srs_path_exists fs)"

datatype options_result = Exit | Done int

definition check_log :: "SrsConfDirective \<Rightarrow> int" where
  "check_log root =
     (if get_log_tank_file root \<and> get_log_file root = [] then ERROR_SYSTEM_CONFIG_INVALID else ERROR_SUCCESS)"

text \<open>From the choice of the file on.  The result \<open>None\<close> is a run that does not end or a rewriting
  that is not defined.\<close>

definition load_options ::
    "'k posix \<Rightarrow> (nat \<Rightarrow> string) \<Rightarrow> (string \<Rightarrow> bool) \<Rightarrow> 'h SrsConfig \<Rightarrow> 'k \<Rightarrow> (options_result \<times> 'h SrsConfig \<times> 'k) option" where
  "load_options os heap srs_path_exists c k =
     Option.bind (try_config_files (config_file c)) (\<lambda>fs.
     let c = c\<lparr>config_file := exists_config_file srs_path_exists fs\<rparr> in
     Option.bind (parse_file os heap (config_file c) c k) (\<lambda>(e, c, k).
     if e \<noteq> ERROR_SUCCESS then Some (Done e, c, k)
     else map_option (\<lambda>root. (Done (check_log root), c\<lparr>cfg_root := root\<rparr>, k)) (srs_config_transform_vhost (cfg_root c))))"

definition parse_options ::
    "'k posix \<Rightarrow> (nat \<Rightarrow> string) \<Rightarrow> (string \<Rightarrow> bool) \<Rightarrow> string list \<Rightarrow> 'h SrsConfig \<Rightarrow> 'k \<Rightarrow>
     (options_result \<times> 'h SrsConfig \<times> 'k) option" where
  "parse_options os heap srs_path_exists argv c0 k =
     (let c = c0\<lparr>cfg_argv := cfg_argv c0 @ str_join '' '' argv, show_help := (length argv > 1)\<rparr> in
      case argv_loop argv 1 c of (e, c) \<Rightarrow>
      if e \<noteq> ERROR_SUCCESS then Some (Done e, c, k)
      else if show_help c \<or> show_version c \<or> show_signature c then Some (Exit, c, k)
      else load_options os heap srs_path_exists c k)"

section \<open>Comparing trees\<close>

lemma args_equal_iff: "length xs = length ys \<Longrightarrow> args_equal xs ys \<longleftrightarrow> xs = ys"
  by (induction xs ys rule: args_equal.induct) auto

lemma directive_equals_iff: "directive_equals a b \<longleftrightarrow> no_lines a = no_lines b"
  and children_equal_iff: "length as = length bs \<Longrightarrow> children_equal as bs \<longleftrightarrow> map no_lines as = map no_lines bs"
proof (induction a b and as bs rule: directive_equals_children_equal.induct)
  case (1 ln n as ds b)
  show ?case
  proof (cases b)
    case (Directive ln' n' as' ds')
    then show ?thesis
      using 1 args_equal_iff [of as as'] map_eq_imp_length_eq [of no_lines ds no_lines ds']
      by (auto simp: srs_directive_equals_self_def split: if_splits)
  qed
qed auto

section \<open>Loading and reloading\<close>

text \<open>Settings do not depend on the numbers of the lines.\<close>

lemma dir_name_no_lines [simp]: "dir_name (no_lines d) = dir_name d" and directives_no_lines [simp]:
  "directives (no_lines d) = map no_lines (directives d)" and arg0_no_lines [simp]: "arg0 (no_lines d) = arg0 d"
  by (cases d, simp add: arg0_def conf_arg_def)+

lemma child_index_map: "(\<And>d. ok (f d) = ok d) \<Longrightarrow> child_index ok (map f ds) = child_index ok ds"
  by (induction ds) auto

lemma conf_get_no_lines: "conf_get n (no_lines d) = map_option no_lines (conf_get n d)"
proof -
  have "get_index n (no_lines d) = get_index n d"
    by (simp add: get_index_def child_index_map [of "\<lambda>x. dir_name x = n"])
  then show ?thesis
    using child_index_Some [of "\<lambda>x. dir_name x = n" "directives d"]
    by (cases "get_index n d") (auto simp: conf_get_def get_index_def)
qed

lemma conf_sub_no_lines: "conf_sub n (map_option no_lines c) = map_option no_lines (conf_sub n c)"
  by (cases c) (simp_all add: conf_sub_def conf_get_no_lines)

lemma setting_any_no_lines: "setting_any (map_option no_lines c) = setting_any c"
  by (cases c) (simp_all add: setting_any_def)

lemma next_hip_no_lines: "next_hip n (no_lines root) = next_hip n root"
  by (simp add: next_hip_def conf_get_no_lines conf_sub_no_lines setting_any_no_lines)

lemma next_hip_directives: "map no_lines (directives a) = map no_lines (directives b) \<Longrightarrow> next_hip n a = next_hip n b"
proof -
  assume "map no_lines (directives a) = map no_lines (directives b)"
  then have "conf_get m (no_lines a) = conf_get m (no_lines b)" for m
    by (simp add: conf_get_def get_index_def)
  then show ?thesis by (metis next_hip_def next_hip_no_lines)
qed

definition conf_file_text :: "SrsConfDirective list \<Rightarrow> string" where
  "conf_file_text ds = concat (map (conf_text 0) ds)"

lemma parse_file_text:
  assumes "f \<noteq> []" "list_all directive_ok ds" "build_buffer os heap f k = (Ok (conf_buffer (conf_file_text ds)), k1)"
  shows "\<exists>root. parse_file os heap f c k = Some (ERROR_SUCCESS, c\<lparr>config_file := f, cfg_root := root\<rparr>, k1) \<and>
    map no_lines (directives root) = map no_lines ds"
proof -
  obtain ds' b' where "map no_lines ds' = map no_lines ds"
    "parse_conf os heap True SrsDirectiveContextFile [] [] (conf_buffer (conf_file_text ds)) k1 = Some (ERROR_SUCCESS, ds', b', k1)"
    using parse_text [OF assms(2)] unfolding conf_file_text_def by metis
  then show ?thesis
    using assms(1,3)
    by (intro exI [of _ "Directive 0 [] [] ds'"])
      (simp add: parse_file_def parse_buffer_def conf_parse_def SrsConfDirective_new_def set_directives_def)
qed

section \<open>Properties\<close>

text \<open>C16. Loading a file that holds the text of a tree of directives (blocks nested to any depth, words
  quoted where they need it) succeeds and gives this tree, up to the numbers of the lines; so the
  next proxy that the connections are sent to is the one written in the file.\<close>

theorem config_file_roundtrip:
  assumes "f \<noteq> []" "list_all directive_ok ds" "build_buffer os heap f k = (Ok (conf_buffer (conf_file_text ds)), k1)"
  shows "\<exists>c'. parse_file os heap f c k = Some (ERROR_SUCCESS, c', k1) \<and>
    map no_lines (directives (cfg_root c')) = map no_lines ds \<and>
    get_next_hip_proxy_enabled (cfg_root c') = get_next_hip_proxy_enabled (Directive 0 ''root'' [] ds) \<and>
    get_next_hip_proxy_ip (cfg_root c') = get_next_hip_proxy_ip (Directive 0 ''root'' [] ds) \<and>
    get_next_hip_proxy_port (cfg_root c') = get_next_hip_proxy_port (Directive 0 ''root'' [] ds)"
proof -
  obtain root where root: "parse_file os heap f c k = Some (ERROR_SUCCESS, c\<lparr>config_file := f, cfg_root := root\<rparr>, k1)"
    "map no_lines (directives root) = map no_lines ds"
    using parse_file_text [OF assms] by blast
  with next_hip_directives [of root "Directive 0 ''root'' [] ds"] show ?thesis
    by (simp add: get_next_hip_proxy_enabled_def get_next_hip_proxy_ip_def get_next_hip_proxy_port_def)
qed

theorem config_file_roundtrip_witness:
  "\<exists>c'. parse_file (files_posix [(''p.conf'', conf_file_text [Directive 1 ''http_proxy'' []
      [Directive 2 ''next_hip'' [] [Directive 3 ''ip'' [''10.0.0.1''] []]]])]) (\<lambda>n. replicate n (CHR 0x00)) ''p.conf''
      (SrsConfig_new :: nat SrsConfig) ([], 0) = Some (ERROR_SUCCESS, c') \<and>
    get_next_hip_proxy_ip (cfg_root (fst c')) = ''10.0.0.1''"
proof -
  let ?ds = "[Directive 1 ''http_proxy'' [] [Directive 2 ''next_hip'' [] [Directive 3 ''ip'' [''10.0.0.1''] []]]]"
  let ?heap = "\<lambda>n. replicate n (CHR 0x00)"
  have ok: "list_all directive_ok ?ds" by (simp add: word_ok_def)
  have "length (conf_file_text ?ds) < 2 ^ 31" "conf_file_text ?ds \<noteq> []"
    by (simp_all add: conf_file_text_def conf_word_def plain_word_def is_common_space_def)
  then obtain k1 where "build_buffer (files_posix [(''p.conf'', conf_file_text ?ds)]) ?heap ''p.conf'' ([], 0) =
      (Ok (conf_buffer (conf_file_text ?ds)), k1)"
    using files_posix_build [of "[(''p.conf'', conf_file_text ?ds)]" "''p.conf''" "conf_file_text ?ds" ?heap "([], 0)"]
    by auto
  from config_file_roundtrip [OF _ ok this, of "SrsConfig_new :: nat SrsConfig"] show ?thesis
    by (fastforce simp: get_next_hip_proxy_ip_def next_hip_def conf_sub_def conf_get_def get_index_def setting_any_def
        or_default_def arg0_def conf_arg_def)
qed



text \<open>A configuration file that includes itself is never finished: loading a file \<open>a.conf\<close> with the
  text \<open>include a.conf;\<close> does not return, in any file system that keeps delivering this text.\<close>

lemma self_include_never_returns:
  assumes "\<And>k. \<exists>k'. build_buffer os heap ''a.conf'' k = (Ok (conf_buffer ''include a.conf;''), k')"
  shows "parse_file os heap ''a.conf'' c k = None"
proof -
  obtain k1 where k1: "build_buffer os heap ''a.conf'' k = (Ok (conf_buffer ''include a.conf;''), k1)" using assms by blast
  have "parse_conf os heap True SrsDirectiveContextFile [] [] (conf_buffer ''include a.conf;'') k1 = None"
    using self_include_diverges [OF assms, of SrsDirectiveContextFile]
    by (subst parse_conf.simps) (simp add: read_token_include)
  with k1 show ?thesis by (simp add: parse_file_def parse_buffer_def conf_parse_def SrsConfDirective_new_def)
qed

text \<open>A directive whose only word is an empty pair of quotes aborts the program: \<open>args\<close> is empty,
  the check for this is commented out, and \<open>args.at(0)\<close> throws \<open>std::out_of_range\<close>, which nobody
  catches.  This holds wherever the directive stands in the top level of a configuration.\<close>

lemma empty_quotes_throw:
  assumes "list_all directive_ok ds"
  shows "\<exists>root. conf_parse os heap has_conf SrsConfDirective_new
      (conf_buffer (conf_file_text ds @ [CHR 0x22, CHR 0x22, CHR '';''])) k = Some (CXX_OUT_OF_RANGE, root, k)"
proof -
  let ?q = "[CHR 0x22, CHR 0x22, CHR '';'']"
  have "parses_to os heap has_conf (conf_file_text ds) ds"
    using assms unfolding conf_file_text_def by (intro parses_to_concat parses_to_text) (auto simp: list_all_iff)
  then obtain ds' l' where
    "parse_conf os heap has_conf SrsDirectiveContextFile [] [] (buf_at [] (conf_file_text ds @ ?q) 1) k =
     parse_conf os heap has_conf SrsDirectiveContextFile [] ([] @ ds') (buf_at ([] @ conf_file_text ds) ?q l') k"
    unfolding parses_to_def by metis
  moreover have "\<exists>ls. read_token (buf_at (conf_file_text ds) ?q l') =
      (Ok (SrsDirectiveStateEntire, [], ls), buf_at (conf_file_text ds @ ?q) [] l')"
    by (simp add: read_token_def token_init_at read_char token_char_def token_first_def token_inside_def token_found_def
        token_word_def between_def Let_def is_common_space_def next_line_def)
  ultimately show ?thesis
    by (subst (asm) parse_conf.simps [of _ _ _ _ _ "[] @ ds'"])
      (auto simp: conf_parse_def SrsConfDirective_new_def buf_at_def conf_buffer_def)
qed

text \<open>The comparison with which a reload decides what has changed is equality of the trees up to the
  numbers of the lines, at every depth, null pointers included.\<close>

lemma directive_equals_iff_same_tree:
  "srs_directive_equals a b \<longleftrightarrow> map_option no_lines a = map_option no_lines b"
  by (cases a; cases b) (simp_all add: srs_directive_equals_def srs_directive_equals_self_def directive_equals_iff)

text \<open>A reload does not rewrite old styles of configuration, although the first load does: after a
  file that uses the old name \<open>http_stream\<close> is reloaded, the listener of the http server falls back to
  its default, while the rewriting of the same tree yields the port written in the file.\<close>

lemma reload_skips_transform:
  assumes "config_file c \<noteq> []" "getenv ''SRS_HTTP_SERVER_LISTEN'' = None"
    "build_buffer os heap (config_file c) k =
      (Ok (conf_buffer (conf_file_text [Directive 1 ''http_stream'' [] [Directive 2 ''listen'' [''9090''] []]])), k1)"
  shows "\<exists>e c' s'. reload os heap on_reload_listen c s k = Some (e, c', s', k1) \<and>
    get_http_stream_listen getenv (cfg_root c') = ''8080'' \<and>
    (\<exists>root'. srs_config_transform_vhost (cfg_root c') = Some root' \<and> get_http_stream_listen getenv root' = ''9090'')"
proof -
  let ?ds = "[Directive 1 ''http_stream'' [] [Directive 2 ''listen'' [''9090''] []]]"
  have ok: "list_all directive_ok ?ds" by (simp add: word_ok_def)
  obtain root where root: "parse_file os heap (config_file c) (SrsConfig_new :: 'a SrsConfig) k =
      Some (ERROR_SUCCESS, SrsConfig_new\<lparr>config_file := config_file c, cfg_root := root\<rparr>, k1)"
    "map no_lines (directives root) = map no_lines ?ds"
    using parse_file_text [OF assms(1) ok assms(3)] by blast
  then obtain d where d: "directives root = [d]" "no_lines d = no_lines (hd ?ds)" by auto
  then obtain ln ch where d': "d = Directive ln ''http_stream'' [] [ch]" "no_lines ch = no_lines (Directive 2 ''listen'' [''9090''] [])"
    by (cases d) auto
  then obtain ln' where "ch = Directive ln' ''listen'' [''9090''] []" by (cases ch) auto
  with d d' have "get_http_stream_listen getenv root = ''8080''"
    "\<exists>root'. srs_config_transform_vhost root = Some root' \<and> get_http_stream_listen getenv root' = ''9090''"
    using assms(2)
    by (simp_all add: get_http_stream_listen_def env_or_def or_default_def conf_get_def get_index_def conf_sub_def setting_def
        srs_config_transform_vhost_def transform_directive_def set_name_def set_directives_def arg0_def conf_arg_def)
  with root(1) show ?thesis
    by (auto simp: reload_def reload_conf_def Let_def split: prod.splits)
qed

text \<open>The form \<open>-cfile\<close> of the option, which a comment in the code shows, is always rejected: the
  loop over the letters goes on with the name of the file and takes its first letter for an option.
  The same loop makes \<open>-h\<close> ask for the parameter of \<open>-c\<close>.\<close>

lemma attached_config_file_rejected:
  assumes "f \<noteq> []" "hd f \<notin> {CHR ''?'', CHR ''h'', CHR ''c''}"
  shows "(\<exists>c'. parse_options os heap srs_path_exists [prog, ''-c'' @ f] c k = Some (Done ERROR_SYSTEM_CONFIG_INVALID, c', k)) \<and>
    (\<exists>c'. parse_options os heap srs_path_exists [prog, ''-h''] c k = Some (Done ERROR_SYSTEM_CONFIG_INVALID, c', k))"
  using assms by (cases f) (simp_all add: parse_options_def argv_loop.simps parse_argv_def Let_def)

end
