(* ===== verification/Resource_Manager.thy ===== *)
theory Resource_Manager
  imports Prelude
begin

text \<open>
  \<open>SrsResourceManager\<close> of \<open>src/src/app/srs_app_conn.cpp\<close>, which owns the connections of the server
  and frees them in a coroutine of its own.  A resource is a pointer of type \<open>'r\<close>, a handler one of type
  \<open>'h\<close>.  Beside the fields of the class the state has the list of the resources that are allocated, the
  number of signals sent to the coroutine and the calls of the handlers.  The operations are functions on
  the state.  Callbacks and destructors may switch to another coroutine, so the interleavings are a step
  relation: other coroutines add and remove resources between any two turns of the loops of
  \<open>do_clear\<close>.
\<close>

section \<open>Definitions\<close>

datatype ('r, 'h) dispose_event = on_before_dispose 'h 'r | on_disposing 'h 'r

record ('r, 'h) SrsResourceManager =
  conns :: "'r list"
  conns_id :: "(string, 'r) smap"
  conns_name :: "(string, 'r) smap"
  handlers :: "'h list"
  unsubs :: "'h list"
  removing :: bool
  zombies :: "'r list"
  p_disposing :: "'r list option"
  signals :: nat
  events :: "('r, 'h) dispose_event list"
  alive :: "'r list"

definition SrsResourceManager_new :: "('r, 'h) SrsResourceManager" where
  "SrsResourceManager_new =
     \<lparr>conns = [], conns_id = [], conns_name = [], handlers = [], unsubs = [], removing = False, zombies = [],
      p_disposing = None, signals = 0, events = [], alive = []\<rparr>"

text \<open>The first part of the result is the flag \<open>exists\<close>.\<close>

definition manager_add :: "'r \<Rightarrow> ('r, 'h) SrsResourceManager \<Rightarrow> bool \<times> ('r, 'h) SrsResourceManager" where
  "manager_add conn m = (if conn \<notin> set (conns m) then (False, m\<lparr>conns := conns m @ [conn]\<rparr>) else (True, m))"

definition check_remove :: "'r \<Rightarrow> ('r, 'h) SrsResourceManager \<Rightarrow> bool \<times> bool" where
  "check_remove c m =
     (c \<in> set (zombies m), case p_disposing m of None \<Rightarrow> False | Some copy \<Rightarrow> c \<in> set copy)"

text \<open>The handlers that are called: those that are not unsubscribing.\<close>

definition notify :: "('h \<Rightarrow> ('r, 'h) dispose_event) \<Rightarrow> ('r, 'h) SrsResourceManager \<Rightarrow> ('r, 'h) SrsResourceManager" where
  "notify ev m = m\<lparr>events := events m @ map ev (filter (\<lambda>h. h \<notin> set (unsubs m)) (handlers m))\<rparr>"

definition do_remove :: "'r \<Rightarrow> ('r, 'h) SrsResourceManager \<Rightarrow> ('r, 'h) SrsResourceManager" where
  "do_remove c m =
     (case check_remove c m of (in_zombie, in_disposing) \<Rightarrow>
        if in_zombie \<or> in_disposing then m
        else
          let m = notify (\<lambda>h. on_before_dispose h c) (m\<lparr>zombies := zombies m @ [c]\<rparr>)
          in m\<lparr>signals := signals m + 1\<rparr>)"

definition manager_remove :: "'r \<Rightarrow> ('r, 'h) SrsResourceManager \<Rightarrow> ('r, 'h) SrsResourceManager" where
  "manager_remove c m = (do_remove c (m\<lparr>removing := True\<rparr>))\<lparr>removing := False\<rparr>"

definition dispose :: "'r \<Rightarrow> ('r, 'h) SrsResourceManager \<Rightarrow> ('r, 'h) SrsResourceManager" where
  "dispose c m =
     notify (\<lambda>h. on_disposing h c)
       (m\<lparr>conns_name := filter (\<lambda>(_, r). c \<noteq> r) (conns_name m),
          conns_id := filter (\<lambda>(_, r). c \<noteq> r) (conns_id m),
          conns := remove1 c (conns m)\<rparr>)"

text \<open>\<open>srs_freep\<close>.\<close>

definition free_resource :: "'r \<Rightarrow> ('r, 'h) SrsResourceManager \<Rightarrow> ('r, 'h) SrsResourceManager" where
  "free_resource c m = m\<lparr>alive := removeAll c (alive m)\<rparr>"

definition begin_clear :: "('r, 'h) SrsResourceManager \<Rightarrow> ('r, 'h) SrsResourceManager" where
  "begin_clear m = m\<lparr>zombies := [], p_disposing := Some (zombies m)\<rparr>"

definition end_dispose :: "('r, 'h) SrsResourceManager \<Rightarrow> ('r, 'h) SrsResourceManager" where
  "end_dispose m = m\<lparr>p_disposing := None\<rparr>"

definition do_clear :: "('r, 'h) SrsResourceManager \<Rightarrow> ('r, 'h) SrsResourceManager" where
  "do_clear m = fold free_resource (zombies m) (end_dispose (fold dispose (zombies m) (begin_clear m)))"

definition clear_unsubs :: "('r, 'h) SrsResourceManager \<Rightarrow> ('r, 'h) SrsResourceManager" where
  "clear_unsubs m = (if \<not> removing m \<and> unsubs m \<noteq> [] then m\<lparr>unsubs := []\<rparr> else m)"

definition manager_clear :: "('r, 'h) SrsResourceManager \<Rightarrow> ('r, 'h) SrsResourceManager" where
  "manager_clear m = (if zombies m = [] then m else do_clear (clear_unsubs m))"

text \<open>One turn of \<open>cycle\<close> up to the wait, when no other coroutine interferes: \<open>clear\<close> leaves no zombie,
  so its loop runs at most once.\<close>

definition cycle_turn :: "('r, 'h) SrsResourceManager \<Rightarrow> ('r, 'h) SrsResourceManager" where
  "cycle_turn m = manager_clear m"

section \<open>Interleavings\<close>

text \<open>Where the coroutine of the manager stands in \<open>do_clear\<close>: \<open>copy\<close> and what is left of the two
  loops over it.\<close>

datatype 'r clear_point = Idle | Disposing "'r list" "'r list" | Freeing "'r list"

fun being_freed :: "'r clear_point \<Rightarrow> 'r list" where
  "being_freed (Freeing left) = left"
| "being_freed _ = []"

text \<open>Another coroutine creates a connection and adds it, or a connection ends and removes itself; a
  connection does not remove itself once its destruction has begun.\<close>

inductive mstep :: "('r, 'h) SrsResourceManager \<times> 'r clear_point \<Rightarrow> ('r, 'h) SrsResourceManager \<times> 'r clear_point \<Rightarrow> bool" where
  new_conn: "c \<notin> set (alive m) \<Longrightarrow> mstep (m, pc) (snd (manager_add c (m\<lparr>alive := c # alive m\<rparr>)), pc)"
| conn_done: "c \<in> set (alive m) \<Longrightarrow> c \<notin> set (being_freed pc) \<Longrightarrow> mstep (m, pc) (manager_remove c m, pc)"
| clear_start: "zombies m \<noteq> [] \<Longrightarrow>
    mstep (m, Idle) (begin_clear (clear_unsubs m), Disposing (zombies m) (zombies m))"
| clear_dispose: "mstep (m, Disposing copy (c # left)) (dispose c m, Disposing copy left)"
| clear_disposed: "mstep (m, Disposing copy []) (end_dispose m, Freeing copy)"
| clear_free: "mstep (m, Freeing (c # left)) (free_resource c m, Freeing left)"
| clear_end: "mstep (m, Freeing []) (m, Idle)"

inductive_cases mstepE: "mstep (m, pc) (m', pc')"

section \<open>The invariant\<close>

text \<open>The resources the coroutine has taken, and those of them that are still in \<open>conns\<close>.\<close>

fun taken :: "'r clear_point \<Rightarrow> 'r list" where
  "taken Idle = []"
| "taken (Disposing copy left) = copy"
| "taken (Freeing left) = left"

fun disposed :: "'r clear_point \<Rightarrow> 'r set" where
  "disposed Idle = {}"
| "disposed (Disposing copy left) = set copy - set left"
| "disposed (Freeing left) = set left"

definition manager_inv :: "('r, 'h) SrsResourceManager \<Rightarrow> 'r clear_point \<Rightarrow> bool" where
  "manager_inv m pc \<longleftrightarrow>
     distinct (conns m) \<and> distinct (zombies m @ taken pc) \<and> set (zombies m @ taken pc) \<subseteq> set (alive m) \<and>
     set (conns m) \<subseteq> set (alive m) \<and> set (conns m) \<inter> disposed pc = {} \<and>
     p_disposing m = (case pc of Disposing copy left \<Rightarrow> Some copy | _ \<Rightarrow> None) \<and>
     (case pc of Disposing copy left \<Rightarrow> (\<exists>before. copy = before @ left) | _ \<Rightarrow> True)"

lemma notify_simps [simp]:
  "conns (notify ev m) = conns m" "zombies (notify ev m) = zombies m" "alive (notify ev m) = alive m"
  "p_disposing (notify ev m) = p_disposing m" "signals (notify ev m) = signals m"
  by (simp_all add: notify_def)

lemma inv_new_conn:
  assumes "manager_inv m pc" "c \<notin> set (alive m)"
  shows "manager_inv (snd (manager_add c (m\<lparr>alive := c # alive m\<rparr>))) pc"
proof -
  have "disposed pc \<subseteq> set (taken pc)" by (cases pc) auto
  then show ?thesis using assms by (auto simp: manager_inv_def manager_add_def)
qed

lemma inv_conn_done:
  assumes "manager_inv m pc" "c \<in> set (alive m)" "c \<notin> set (being_freed pc)"
  shows "manager_inv (manager_remove c m) pc"
proof -
  have "c \<in> set (taken pc) \<Longrightarrow> snd (check_remove c (m\<lparr>removing := True\<rparr>))"
    using assms by (cases pc) (auto simp: check_remove_def manager_inv_def)
  then show ?thesis
    using assms by (auto simp: manager_inv_def manager_remove_def do_remove_def check_remove_def Let_def)
qed

lemma mstep_inv: "mstep s s' \<Longrightarrow> manager_inv (fst s) (snd s) \<Longrightarrow> manager_inv (fst s') (snd s')"
proof (induction rule: mstep.induct)
  case (new_conn c m pc)
  then show ?case using inv_new_conn [of m pc c] by simp
next
  case (conn_done c m pc)
  then show ?case using inv_conn_done [of m pc c] by simp
next
  case (clear_start m)
  then show ?case by (auto simp: manager_inv_def begin_clear_def clear_unsubs_def)
next
  case (clear_dispose m copy c left)
  then obtain before where copy: "copy = before @ c # left" by (auto simp: manager_inv_def)
  with clear_dispose show ?case
    by (auto simp: manager_inv_def dispose_def intro!: exI [of _ "before @ [c]"] dest: in_set_remove1 [THEN iffD1])
next
  case (clear_disposed m copy)
  then show ?case by (auto simp: manager_inv_def end_dispose_def)
next
  case (clear_free m c left)
  then show ?case by (auto simp: manager_inv_def free_resource_def)
next
  case (clear_end m)
  then show ?case by (auto simp: manager_inv_def)
qed

lemma msteps_inv:
  assumes "rtranclp mstep (SrsResourceManager_new, Idle) s"
  shows "manager_inv (fst s) (snd s)"
  using assms
proof (induction rule: rtranclp_induct)
  case base
  then show ?case by (simp add: manager_inv_def SrsResourceManager_new_def)
next
  case (step s s')
  then show ?case using mstep_inv by blast
qed

section \<open>Clearing without interference\<close>

lemma fold_dispose_steps: "rtranclp mstep (m, Disposing copy left) (fold dispose left m, Disposing copy [])"
proof (induction left arbitrary: m)
  case (Cons c left)
  have "mstep (m, Disposing copy (c # left)) (dispose c m, Disposing copy left)" by (rule clear_dispose)
  with Cons.IH [of "dispose c m"] show ?case by (simp add: converse_rtranclp_into_rtranclp)
qed simp

lemma fold_free_steps: "rtranclp mstep (m, Freeing left) (fold free_resource left m, Idle)"
proof (induction left arbitrary: m)
  case Nil
  then show ?case using clear_end [of m] by (auto intro: r_into_rtranclp)
next
  case (Cons c left)
  have "mstep (m, Freeing (c # left)) (free_resource c m, Freeing left)" by (rule clear_free)
  with Cons.IH [of "free_resource c m"] show ?case by (simp add: converse_rtranclp_into_rtranclp)
qed

lemma zombies_clear_unsubs [simp]: "zombies (clear_unsubs m) = zombies m"
  by (simp add: clear_unsubs_def)

lemma manager_clear_steps: "rtranclp mstep (m, Idle) (manager_clear m, Idle)"
proof (cases "zombies m = []")
  case True
  then show ?thesis by (simp add: manager_clear_def)
next
  case False
  let ?m = "begin_clear (clear_unsubs m)"
  have "mstep (m, Idle) (?m, Disposing (zombies m) (zombies m))" using False by (rule clear_start)
  also have "rtranclp mstep (?m, Disposing (zombies m) (zombies m)) (fold dispose (zombies m) ?m, Disposing (zombies m) [])"
    by (rule fold_dispose_steps)
  also have "mstep (fold dispose (zombies m) ?m, Disposing (zombies m) []) (end_dispose (fold dispose (zombies m) ?m), Freeing (zombies m))"
    by (rule clear_disposed)
  also have "rtranclp mstep (end_dispose (fold dispose (zombies m) ?m), Freeing (zombies m)) (manager_clear m, Idle)"
    using fold_free_steps [of "end_dispose (fold dispose (zombies m) ?m)" "zombies m"] False
    by (simp add: manager_clear_def do_clear_def)
  finally show ?thesis by simp
qed

lemma fold_dispose_simps:
  "zombies (fold dispose cs m) = zombies m" "alive (fold dispose cs m) = alive m"
  "conns (fold dispose cs m) = fold remove1 cs (conns m)" "p_disposing (fold dispose cs m) = p_disposing m"
  by (induction cs arbitrary: m) (simp_all add: dispose_def)

lemma filter_both: "filter (\<lambda>x. a \<noteq> x \<and> x \<notin> A) xs = filter (\<lambda>x. x \<noteq> a \<and> x \<notin> A) xs"
  by (rule filter_cong) auto

lemma fold_free_simps:
  "zombies (fold free_resource cs m) = zombies m" "conns (fold free_resource cs m) = conns m"
  "alive (fold free_resource cs m) = filter (\<lambda>c. c \<notin> set cs) (alive m)"
proof (induction cs arbitrary: m)
  case (Cons c cs)
  case 3
  then show ?case using Cons(3) [of "free_resource c m"]
    by (simp add: free_resource_def removeAll_filter_not_eq filter_both conj_commute)
qed (simp_all add: free_resource_def)

lemma fold_remove1_distinct: "distinct xs \<Longrightarrow> fold remove1 cs xs = filter (\<lambda>c. c \<notin> set cs) xs"
  by (induction cs arbitrary: xs) (simp_all add: distinct_remove1_removeAll removeAll_filter_not_eq filter_both conj_commute)

section \<open>Properties\<close>

text \<open>C18. However the coroutines interleave, the manager never keeps a pointer to a freed connection and
  never frees one twice: every connection in \<open>conns\<close> and \<open>zombies\<close> is allocated, and one that is about to be
  freed is allocated, does not occur again among those still to be freed, and is in neither list.  The
  condition on the interleavings is that a connection does not remove itself after its destruction has
  begun.\<close>

theorem manager_frees_once:
  assumes "rtranclp mstep (SrsResourceManager_new, Idle) (m, pc)"
  shows "set (conns m) \<subseteq> set (alive m) \<and> set (zombies m) \<subseteq> set (alive m) \<and>
    (\<forall>c left. pc \<noteq> Freeing (c # left) \<or>
       c \<in> set (alive m) \<and> c \<notin> set left \<and> c \<notin> set (zombies m) \<and> c \<notin> set (conns m))"
  using msteps_inv [OF assms] by (auto simp: manager_inv_def)

theorem manager_frees_once_witness:
  "\<exists>m. rtranclp mstep (SrsResourceManager_new :: (nat, nat) SrsResourceManager, Idle) (m, Freeing [7]) \<and>
     7 \<in> set (alive m) \<and> 7 \<notin> set (zombies m) \<and> 7 \<notin> set (conns m)"
proof -
  let ?m0 = "SrsResourceManager_new :: (nat, nat) SrsResourceManager"
  let ?m1 = "snd (manager_add 7 (?m0\<lparr>alive := 7 # alive ?m0\<rparr>))"
  let ?m2 = "manager_remove 7 ?m1"
  let ?m3 = "begin_clear (clear_unsubs ?m2)"
  have z: "zombies ?m2 = [7]"
    by (simp add: manager_remove_def do_remove_def check_remove_def manager_add_def SrsResourceManager_new_def Let_def)
  have "mstep (?m0, Idle) (?m1, Idle)" by (rule new_conn) (simp add: SrsResourceManager_new_def)
  moreover have "mstep (?m1, Idle) (?m2, Idle)" by (rule conn_done) (simp_all add: manager_add_def SrsResourceManager_new_def)
  moreover have "mstep (?m2, Idle) (?m3, Disposing [7] [7])" using clear_start [of ?m2] z by simp
  moreover have "mstep (?m3, Disposing [7] [7]) (dispose 7 ?m3, Disposing [7] [])" by (rule clear_dispose)
  moreover have "mstep (dispose 7 ?m3, Disposing [7] []) (end_dispose (dispose 7 ?m3), Freeing [7])" by (rule clear_disposed)
  ultimately have "rtranclp mstep (?m0, Idle) (end_dispose (dispose 7 ?m3), Freeing [7])"
    by (meson rtranclp.rtrancl_into_rtrancl rtranclp.rtrancl_refl)
  with manager_frees_once [OF this] show ?thesis by blast
qed

text \<open>A turn of the manager's coroutine that nobody interrupts is a run of the steps, and afterwards
  there are no zombies: exactly the connections that had removed themselves are gone from \<open>conns\<close> and
  freed.\<close>

lemma manager_turn_frees_zombies:
  assumes "distinct (conns m)"
  shows "rtranclp mstep (m, Idle) (cycle_turn m, Idle) \<and> zombies (cycle_turn m) = [] \<and>
    conns (cycle_turn m) = filter (\<lambda>c. c \<notin> set (zombies m)) (conns m) \<and>
    alive (cycle_turn m) = filter (\<lambda>c. c \<notin> set (zombies m)) (alive m)"
  using manager_clear_steps [of m] assms
  by (simp add: cycle_turn_def manager_clear_def do_clear_def fold_free_simps fold_dispose_simps end_dispose_def begin_clear_def
      clear_unsubs_def fold_remove1_distinct)

end
