(* ===== verification/App_Conn.thy ===== *)
theory App_Conn
  imports St_Socket Kernel_Utility Steps
begin

text \<open>
  The connections of \<open>src/src/app/srs_app_conn.cpp\<close>: \<open>SrsTcpConnection\<close>, which hands everything to
  its \<open>SrsStSocket\<close>, and the TLS connections \<open>SrsSslConnection\<close> (server role) and \<open>SrsSslClient\<close> (client
  role), which run OpenSSL over two memory buffers and move their contents from and to a transport.
  OpenSSL is a third-party package: its calls are the record \<open>openssl\<close>, which acts on a state \<open>'c\<close> that
  holds the context, the connection and both buffers.  What the code relies on is stated as two
  contracts, \<open>ssl_reading\<close> and \<open>ssl_writing\<close>; under them a TLS connection keeps the contract of
  \<open>ISrsReader\<close> for the plaintext and sends what it is given to write.  A miniature record protocol is an instance
  of both.
\<close>

section \<open>Definitions\<close>

abbreviation ERROR_SOCKET_NO_NODELAY :: int where "ERROR_SOCKET_NO_NODELAY \<equiv> 1076"
abbreviation ERROR_HTTPS_HANDSHAKE :: int where "ERROR_HTTPS_HANDSHAKE \<equiv> 4042"
abbreviation ERROR_HTTPS_READ :: int where "ERROR_HTTPS_READ \<equiv> 4043"
abbreviation ERROR_HTTPS_WRITE :: int where "ERROR_HTTPS_WRITE \<equiv> 4044"
abbreviation ERROR_HTTPS_KEY_CRT :: int where "ERROR_HTTPS_KEY_CRT \<equiv> 4045"

subsection \<open>\<open>SrsTcpConnection\<close>\<close>

record 'n SrsTcpConnection =
  stfd :: int
  skt :: "'n SrsStSocket"

definition SrsTcpConnection_new :: "int \<Rightarrow> 'n \<Rightarrow> 'n SrsTcpConnection" where
  "SrsTcpConnection_new fd n = \<lparr>stfd = fd, skt = SrsStSocket_init n\<rparr>"

text \<open>\<open>SRS_PERF_TCP_NODELAY\<close> is defined nowhere, so that the option is read and never set.\<close>

definition set_tcp_nodelay :: "(int \<Rightarrow> int) \<Rightarrow> bool \<Rightarrow> 'n SrsTcpConnection \<Rightarrow> int \<times> 'n SrsTcpConnection" where
  "set_tcp_nodelay getsockopt v c =
     (if getsockopt (stfd c) \<noteq> 0 then (ERROR_SOCKET_NO_NODELAY, c) else (ERROR_SUCCESS, c))"

definition conn_set_recv_timeout :: "int \<Rightarrow> 'n SrsTcpConnection \<Rightarrow> 'n SrsTcpConnection" where
  "conn_set_recv_timeout tm c = c\<lparr>skt := (skt c)\<lparr>rtm := tm\<rparr>\<rparr>"

definition conn_set_send_timeout :: "int \<Rightarrow> 'n SrsTcpConnection \<Rightarrow> 'n SrsTcpConnection" where
  "conn_set_send_timeout tm c = c\<lparr>skt := (skt c)\<lparr>stm := tm\<rparr>\<rparr>"

definition SrsTcpConnection_read_fully ::
    "'n st_read \<Rightarrow> nat \<Rightarrow> 'n SrsTcpConnection \<Rightarrow> string srs \<times> 'n SrsTcpConnection" where
  "SrsTcpConnection_read_fully st_read_fully n c =
     (case SrsStSocket_read_fully st_read_fully n (skt c) of (r, s) \<Rightarrow> (r, c\<lparr>skt := s\<rparr>))"

definition SrsTcpConnection_read :: "'n st_read \<Rightarrow> nat \<Rightarrow> 'n SrsTcpConnection \<Rightarrow> string srs \<times> 'n SrsTcpConnection" where
  "SrsTcpConnection_read st_read n c =
     (case SrsStSocket_read st_read n (skt c) of (r, s) \<Rightarrow> (r, c\<lparr>skt := s\<rparr>))"

definition SrsTcpConnection_peek :: "'n st_read \<Rightarrow> nat \<Rightarrow> 'n SrsTcpConnection \<Rightarrow> string srs \<times> 'n SrsTcpConnection" where
  "SrsTcpConnection_peek st_peek n c =
     (case SrsStSocket_peek st_peek n (skt c) of (r, s) \<Rightarrow> (r, c\<lparr>skt := s\<rparr>))"

definition SrsTcpConnection_write :: "'n st_write \<Rightarrow> string \<Rightarrow> 'n SrsTcpConnection \<Rightarrow> int \<times> 'n SrsTcpConnection" where
  "SrsTcpConnection_write st_write bs c =
     (case SrsStSocket_write st_write bs (skt c) of (e, s) \<Rightarrow> (e, c\<lparr>skt := s\<rparr>))"

definition SrsTcpConnection_writev ::
    "'n st_write \<Rightarrow> string list \<Rightarrow> 'n SrsTcpConnection \<Rightarrow> int \<times> 'n SrsTcpConnection" where
  "SrsTcpConnection_writev st_writev iov c =
     (case SrsStSocket_writev st_writev iov (skt c) of (e, s) \<Rightarrow> (e, c\<lparr>skt := s\<rparr>))"

subsection \<open>The calls of OpenSSL and the transport\<close>

abbreviation SSL_ERROR_NONE :: int where "SSL_ERROR_NONE \<equiv> 0"
abbreviation SSL_ERROR_WANT_READ :: int where "SSL_ERROR_WANT_READ \<equiv> 2"
abbreviation SSL_VERIFY_NONE :: int where "SSL_VERIFY_NONE \<equiv> 0"
abbreviation SSL_VERIFY_PEER :: int where "SSL_VERIFY_PEER \<equiv> 1"

text \<open>A pointer that is only compared with null is a truth value.  \<open>SSL_read\<close> gives its result and the
  bytes it stored; \<open>BIO_get_mem_data\<close> is the content of the outgoing buffer, whose address is null or whose
  size is not positive exactly when it is empty.\<close>

record ('c, 'x, 'k) openssl =
  SSL_CTX_new :: "'c \<Rightarrow> 'c"
  SSL_CTX_set_verify :: "int \<Rightarrow> (int \<Rightarrow> int) option \<Rightarrow> 'c \<Rightarrow> 'c"
  SSL_CTX_set_cipher_list :: "string \<Rightarrow> 'c \<Rightarrow> int \<times> 'c"
  SSL_CTX_use_certificate :: "'x \<Rightarrow> 'c \<Rightarrow> int \<times> 'c"
  SSL_CTX_use_PrivateKey :: "'k \<Rightarrow> 'c \<Rightarrow> int \<times> 'c"
  SSL_CTX_check_private_key :: "'c \<Rightarrow> int \<times> 'c"
  SSL_new :: "'c \<Rightarrow> bool \<times> 'c"
  SSL_set_tlsext_host_name :: "string \<Rightarrow> 'c \<Rightarrow> 'c"
  BIO_new_in :: "'c \<Rightarrow> bool \<times> 'c"
  BIO_new_out :: "'c \<Rightarrow> bool \<times> 'c"
  BIO_free_in :: "'c \<Rightarrow> 'c"
  SSL_set_bio :: "'c \<Rightarrow> 'c"
  SSL_set_accept_state :: "'c \<Rightarrow> 'c"
  SSL_set_connect_state :: "'c \<Rightarrow> 'c"
  SSL_set_mode :: "'c \<Rightarrow> 'c"
  SSL_use_certificate_file :: "string \<Rightarrow> 'c \<Rightarrow> int \<times> 'c"
  SSL_use_RSAPrivateKey_file :: "string \<Rightarrow> 'c \<Rightarrow> int \<times> 'c"
  SSL_check_private_key :: "'c \<Rightarrow> int \<times> 'c"
  SSL_do_handshake :: "'c \<Rightarrow> int \<times> 'c"
  SSL_get_error :: "int \<Rightarrow> 'c \<Rightarrow> int"
  SSL_read :: "int \<Rightarrow> 'c \<Rightarrow> int \<times> string \<times> 'c"
  SSL_write :: "string \<Rightarrow> int \<Rightarrow> 'c \<Rightarrow> int \<times> 'c"
  BIO_write :: "string \<Rightarrow> 'c \<Rightarrow> int \<times> 'c"
  BIO_get_mem_data :: "'c \<Rightarrow> string"
  BIO_reset_in :: "'c \<Rightarrow> int \<times> 'c"
  BIO_reset_out :: "'c \<Rightarrow> int \<times> 'c"

text \<open>The part of \<open>ISrsProtocolReadWriter\<close> (for the client, of \<open>SrsTcpClient\<close>) that the TLS connections call.\<close>

record 't transport_io =
  tr_read :: "nat \<Rightarrow> 't \<Rightarrow> string srs \<times> 't"
  tr_write :: "string \<Rightarrow> 't \<Rightarrow> int \<times> 't"

text \<open>\<open>read\<close> and \<open>write\<close> of the client are the same code as those of the server; the client's record
  extends the server's, so that they are one definition.\<close>

record ('c, 't) SrsSslConnection =
  transport :: 't
  ssl :: 'c

record ('c, 't) SrsSslClient = "('c, 't) SrsSslConnection" +
  sni :: string

definition SrsSslClient_new :: "'t \<Rightarrow> 'c \<Rightarrow> ('c, 't) SrsSslClient" where
  "SrsSslClient_new tcp c = \<lparr>transport = tcp, ssl = c, sni = []\<rparr>"

definition set_SNI :: "string \<Rightarrow> ('c, 't) SrsSslClient \<Rightarrow> ('c, 't) SrsSslClient" where
  "set_SNI name s = s\<lparr>sni := name\<rparr>"

type_synonym ('a, 'c, 't, 'z) ssl_step = "('a, ('c, 't, 'z) SrsSslConnection_scheme) step option"

text \<open>A call whose result is used, a call without a result, and a call whose result is checked.\<close>

definition ssl_call :: "('c \<Rightarrow> 'a \<times> 'c) \<Rightarrow> ('c, 't, 'z) SrsSslConnection_scheme \<Rightarrow> ('a, 'c, 't, 'z) ssl_step" where
  "ssl_call f s = (case f (ssl s) of (a, c) \<Rightarrow> Some (Go a (s\<lparr>ssl := c\<rparr>)))"

definition ssl_set :: "('c \<Rightarrow> 'c) \<Rightarrow> ('c, 't, 'z) SrsSslConnection_scheme \<Rightarrow> (unit, 'c, 't, 'z) ssl_step" where
  "ssl_set f s = Some (Go () (s\<lparr>ssl := f (ssl s)\<rparr>))"

definition ssl_check ::
    "('c \<Rightarrow> 'a \<times> 'c) \<Rightarrow> ('a \<Rightarrow> bool) \<Rightarrow> int \<Rightarrow> ('c, 't, 'z) SrsSslConnection_scheme \<Rightarrow> (unit, 'c, 't, 'z) ssl_step" where
  "ssl_check f good e s = andthen (ssl_call f s) (\<lambda>r s. if good r then Some (Go () s) else Some (Ret e s))"

subsection \<open>Setting up a connection\<close>

definition srs_verify_callback :: "int \<Rightarrow> int" where
  "srs_verify_callback preverify_ok = 1"

definition ssl_context ::
    "('c, 'x, 'k) openssl \<Rightarrow> int \<Rightarrow> (int \<Rightarrow> int) option \<Rightarrow> ('c, 't, 'z) SrsSslConnection_scheme \<Rightarrow> (unit, 'c, 't, 'z) ssl_step" where
  "ssl_context L mode callback s =
     andthen (ssl_set (SSL_CTX_new L) s) (\<lambda>_ s.
     andthen (ssl_set (SSL_CTX_set_verify L mode callback) s) (\<lambda>_ s.
     andthen (ssl_call (SSL_CTX_set_cipher_list L ''ALL'') s) (\<lambda>r s.
       if r = 1 then Some (Go () s) else Some Crash)))"

definition ssl_object :: "('c, 'x, 'k) openssl \<Rightarrow> ('c, 't, 'z) SrsSslConnection_scheme \<Rightarrow> (unit, 'c, 't, 'z) ssl_step" where
  "ssl_object L s = ssl_check (SSL_new L) (\<lambda>r. r) ERROR_HTTPS_HANDSHAKE s"

definition ssl_buffers :: "('c, 'x, 'k) openssl \<Rightarrow> ('c, 't, 'z) SrsSslConnection_scheme \<Rightarrow> (unit, 'c, 't, 'z) ssl_step" where
  "ssl_buffers L s =
     andthen (ssl_check (BIO_new_in L) (\<lambda>r. r) ERROR_HTTPS_HANDSHAKE s) (\<lambda>_ s.
     andthen (ssl_call (BIO_new_out L) s) (\<lambda>r s.
       if \<not> r then andthen (ssl_set (BIO_free_in L) s) (\<lambda>_ s. Some (Ret ERROR_HTTPS_HANDSHAKE s))
       else ssl_set (SSL_set_bio L) s))"

definition ssl_role ::
    "('c, 'x, 'k) openssl \<Rightarrow> ('c \<Rightarrow> 'c) \<Rightarrow> ('c, 't, 'z) SrsSslConnection_scheme \<Rightarrow> (unit, 'c, 't, 'z) ssl_step" where
  "ssl_role L set_state s = andthen (ssl_set set_state s) (\<lambda>_ s. ssl_set (SSL_set_mode L) s)"

subsection \<open>The handshake\<close>

text \<open>Reads from the transport until the library has something to send; the result is that data.  The code
  stands three times in the source: twice for the server and once for the client.\<close>

partial_function (option) receive_hello ::
    "('c, 'x, 'k) openssl \<Rightarrow> 't transport_io \<Rightarrow> nat \<Rightarrow> ('c, 't, 'z) SrsSslConnection_scheme \<Rightarrow> (string, 'c, 't, 'z) ssl_step" where
  "receive_hello L T n s =
     (case tr_read T n (transport s) of
        (Inl e, t) \<Rightarrow> Some (Ret e (s\<lparr>transport := t\<rparr>))
      | (Inr buf, t) \<Rightarrow>
          andthen (ssl_check (BIO_write L buf) (\<lambda>r. 0 < r) ERROR_HTTPS_HANDSHAKE (s\<lparr>transport := t\<rparr>)) (\<lambda>_ s.
          andthen (ssl_call (SSL_do_handshake L) s) (\<lambda>r0 s.
            if r0 \<noteq> - 1 \<or> SSL_get_error L r0 (ssl s) \<noteq> SSL_ERROR_WANT_READ then Some (Ret ERROR_HTTPS_HANDSHAKE s)
            else let data = BIO_get_mem_data L (ssl s) in
              if data \<noteq> [] then
                andthen (ssl_check (BIO_reset_in L) (\<lambda>r. r = 1) ERROR_HTTPS_HANDSHAKE s) (\<lambda>_ s. Some (Go data s))
              else receive_hello L T n s)))"

text \<open>The second loop of the server also ends when the handshake is complete.\<close>

partial_function (option) receive_finished ::
    "('c, 'x, 'k) openssl \<Rightarrow> 't transport_io \<Rightarrow> nat \<Rightarrow> ('c, 't, 'z) SrsSslConnection_scheme \<Rightarrow> (unit, 'c, 't, 'z) ssl_step" where
  "receive_finished L T n s =
     (case tr_read T n (transport s) of
        (Inl e, t) \<Rightarrow> Some (Ret e (s\<lparr>transport := t\<rparr>))
      | (Inr buf, t) \<Rightarrow>
          andthen (ssl_check (BIO_write L buf) (\<lambda>r. 0 < r) ERROR_HTTPS_HANDSHAKE (s\<lparr>transport := t\<rparr>)) (\<lambda>_ s.
          andthen (ssl_call (SSL_do_handshake L) s) (\<lambda>r0 s.
            let r1 = SSL_get_error L r0 (ssl s) in
            if r0 = 1 \<and> r1 = SSL_ERROR_NONE then Some (Go () s)
            else if r0 \<noteq> - 1 \<or> r1 \<noteq> SSL_ERROR_WANT_READ then Some (Ret ERROR_HTTPS_HANDSHAKE s)
            else if BIO_get_mem_data L (ssl s) \<noteq> [] then
              ssl_check (BIO_reset_in L) (\<lambda>r. r = 1) ERROR_HTTPS_HANDSHAKE s
            else receive_finished L T n s)))"

text \<open>The second loop of the client ends only when the handshake is complete.\<close>

partial_function (option) receive_done ::
    "('c, 'x, 'k) openssl \<Rightarrow> 't transport_io \<Rightarrow> nat \<Rightarrow> ('c, 't, 'z) SrsSslConnection_scheme \<Rightarrow> (unit, 'c, 't, 'z) ssl_step" where
  "receive_done L T n s =
     (case tr_read T n (transport s) of
        (Inl e, t) \<Rightarrow> Some (Ret e (s\<lparr>transport := t\<rparr>))
      | (Inr buf, t) \<Rightarrow>
          andthen (ssl_check (BIO_write L buf) (\<lambda>r. 0 < r) ERROR_HTTPS_HANDSHAKE (s\<lparr>transport := t\<rparr>)) (\<lambda>_ s.
          andthen (ssl_call (SSL_do_handshake L) s) (\<lambda>r0 s.
            let r1 = SSL_get_error L r0 (ssl s) in
            if r0 = 1 \<and> r1 = SSL_ERROR_NONE then Some (Go () s)
            else if r0 \<noteq> - 1 \<or> r1 \<noteq> SSL_ERROR_WANT_READ then Some (Ret ERROR_HTTPS_HANDSHAKE s)
            else receive_done L T n s)))"

definition send_data ::
    "('c, 'x, 'k) openssl \<Rightarrow> 't transport_io \<Rightarrow> string \<Rightarrow> ('c, 't, 'z) SrsSslConnection_scheme \<Rightarrow> (unit, 'c, 't, 'z) ssl_step" where
  "send_data L T data s =
     (case tr_write T data (transport s) of (e, t) \<Rightarrow>
        let s = s\<lparr>transport := t\<rparr> in
        if e \<noteq> ERROR_SUCCESS then Some (Ret e s)
        else ssl_check (BIO_reset_out L) (\<lambda>r. r = 1) ERROR_HTTPS_HANDSHAKE s)"

definition send_flight ::
    "('c, 'x, 'k) openssl \<Rightarrow> 't transport_io \<Rightarrow> ('c, 't, 'z) SrsSslConnection_scheme \<Rightarrow> (unit, 'c, 't, 'z) ssl_step" where
  "send_flight L T s =
     (let data = BIO_get_mem_data L (ssl s) in
      if data = [] then Some (Ret ERROR_HTTPS_HANDSHAKE s) else send_data L T data s)"

text \<open>The exchange of messages in the server role.\<close>

definition ssl_accept ::
    "('c, 'x, 'k) openssl \<Rightarrow> 't transport_io \<Rightarrow> ('c, 't, 'z) SrsSslConnection_scheme \<Rightarrow> (unit, 'c, 't, 'z) ssl_step" where
  "ssl_accept L T s =
     andthen (receive_hello L T 1024 s) (\<lambda>_ s.
     andthen (send_flight L T s) (\<lambda>_ s.
     andthen (receive_finished L T 1024 s) (\<lambda>_ s. send_flight L T s)))"

definition handshake_file ::
    "('c, 'x, 'k) openssl \<Rightarrow> 't transport_io \<Rightarrow> string \<Rightarrow> string \<Rightarrow> ('c, 't, 'z) SrsSslConnection_scheme \<Rightarrow> (unit, 'c, 't, 'z) ssl_step" where
  "handshake_file L T key_file crt_file s =
     andthen (ssl_context L SSL_VERIFY_NONE None s) (\<lambda>_ s.
     andthen (ssl_object L s) (\<lambda>_ s.
     andthen (ssl_buffers L s) (\<lambda>_ s.
     andthen (ssl_role L (SSL_set_accept_state L) s) (\<lambda>_ s.
     andthen (ssl_check (SSL_use_certificate_file L crt_file) (\<lambda>r. r = 1) ERROR_HTTPS_KEY_CRT s) (\<lambda>_ s.
     andthen (ssl_check (SSL_use_RSAPrivateKey_file L key_file) (\<lambda>r. r = 1) ERROR_HTTPS_KEY_CRT s) (\<lambda>_ s.
     andthen (ssl_check (SSL_check_private_key L) (\<lambda>r. r = 1) ERROR_HTTPS_KEY_CRT s) (\<lambda>_ s.
       ssl_accept L T s)))))))"

definition handshake_cert ::
    "('c, 'x, 'k) openssl \<Rightarrow> 't transport_io \<Rightarrow> 'x \<Rightarrow> 'k \<Rightarrow> ('c, 't, 'z) SrsSslConnection_scheme \<Rightarrow> (unit, 'c, 't, 'z) ssl_step" where
  "handshake_cert L T cert key s =
     andthen (ssl_context L SSL_VERIFY_NONE None s) (\<lambda>_ s.
     andthen (ssl_check (SSL_CTX_use_certificate L cert) (\<lambda>r. r = 1) ERROR_HTTPS_KEY_CRT s) (\<lambda>_ s.
     andthen (ssl_check (SSL_CTX_use_PrivateKey L key) (\<lambda>r. r = 1) ERROR_HTTPS_KEY_CRT s) (\<lambda>_ s.
     andthen (ssl_check (SSL_CTX_check_private_key L) (\<lambda>r. r = 1) ERROR_HTTPS_KEY_CRT s) (\<lambda>_ s.
     andthen (ssl_object L s) (\<lambda>_ s.
     andthen (ssl_buffers L s) (\<lambda>_ s.
     andthen (ssl_role L (SSL_set_accept_state L) s) (\<lambda>_ s.
       ssl_accept L T s)))))))"

text \<open>The client sends first; a handshake that is complete before the server has answered is an error.\<close>

definition ssl_connect ::
    "('c, 'x, 'k) openssl \<Rightarrow> 't transport_io \<Rightarrow> ('c, 't, 'z) SrsSslConnection_scheme \<Rightarrow> (unit, 'c, 't, 'z) ssl_step" where
  "ssl_connect L T s =
     andthen (ssl_call (SSL_do_handshake L) s) (\<lambda>r0 s.
       if r0 \<noteq> - 1 \<or> SSL_get_error L r0 (ssl s) \<noteq> SSL_ERROR_WANT_READ then Some (Ret ERROR_HTTPS_HANDSHAKE s)
       else
         andthen (send_flight L T s) (\<lambda>_ s.
         andthen (receive_hello L T 512 s) (\<lambda>data s.
         andthen (send_data L T data s) (\<lambda>_ s. receive_done L T 128 s))))"

definition SrsSslClient_handshake ::
    "('c, 'x, 'k) openssl \<Rightarrow> 't transport_io \<Rightarrow> ('c, 't) SrsSslClient \<Rightarrow> (unit, ('c, 't) SrsSslClient) step option" where
  "SrsSslClient_handshake L T s =
     andthen (ssl_context L SSL_VERIFY_PEER (Some srs_verify_callback) s) (\<lambda>_ s.
     andthen (ssl_object L s) (\<lambda>_ s.
     andthen (ssl_set (SSL_set_tlsext_host_name L (sni s)) s) (\<lambda>_ s.
     andthen (ssl_buffers L s) (\<lambda>_ s.
     andthen (ssl_role L (SSL_set_connect_state L) s) (\<lambda>_ s.
       ssl_connect L T s)))))"

subsection \<open>Reading and writing\<close>

text \<open>The length is converted to \<open>int\<close>; an array of negative size makes \<open>new\<close> throw, which nobody
  catches.\<close>

partial_function (option) SrsSslConnection_read ::
    "('c, 'x, 'k) openssl \<Rightarrow> 't transport_io \<Rightarrow> nat \<Rightarrow> ('c, 't, 'z) SrsSslConnection_scheme \<Rightarrow> (string, 'c, 't, 'z) ssl_step" where
  "SrsSslConnection_read L T n s =
     (case SSL_read L (to_int32 (int n)) (ssl s) of (r0, plaintext, c) \<Rightarrow>
        let s = s\<lparr>ssl := c\<rparr> in
        if 0 < r0 then (if r0 \<le> to_int32 (int n) then Some (Go plaintext s) else Some Crash)
        else if r0 = - 1 \<and> SSL_get_error L r0 c = SSL_ERROR_WANT_READ then
          if to_int32 (int n) < 0 then Some Crash
          else case tr_read T (nat (to_int32 (int n))) (transport s) of
              (Inl e, t) \<Rightarrow> Some (Ret e (s\<lparr>transport := t\<rparr>))
            | (Inr cipher, t) \<Rightarrow>
                andthen (ssl_check (BIO_write L cipher) (\<lambda>r. 0 < r) ERROR_HTTPS_READ (s\<lparr>transport := t\<rparr>))
                  (\<lambda>_ s. SrsSslConnection_read L T n s)
        else Some (Ret ERROR_HTTPS_READ s))"

text \<open>\<open>read_fully\<close> is \<open>read_fully\<close> of the transport.\<close>

definition SrsSslConnection_read_fully ::
    "(nat \<Rightarrow> 't \<Rightarrow> string srs \<times> 't) \<Rightarrow> nat \<Rightarrow> ('c, 't, 'z) SrsSslConnection_scheme \<Rightarrow>
     string srs \<times> ('c, 't, 'z) SrsSslConnection_scheme" where
  "SrsSslConnection_read_fully transport_read_fully n s =
     (case transport_read_fully n (transport s) of (r, t) \<Rightarrow> (r, s\<lparr>transport := t\<rparr>))"

text \<open>The loop of \<open>write\<close>: \<open>p\<close> is what is left of the \<open>nn\<close> bytes; the result is the error code, the
  count that was added up in \<open>nwrite\<close>, and the connection.\<close>

function ssl_write_loop ::
    "('c, 'x, 'k) openssl \<Rightarrow> 't transport_io \<Rightarrow> nat \<Rightarrow> string \<Rightarrow> nat \<Rightarrow> ('c, 't, 'z) SrsSslConnection_scheme \<Rightarrow>
     int \<times> nat \<times> ('c, 't, 'z) SrsSslConnection_scheme" where
  "ssl_write_loop L T nn p nwrite s =
     (if p = [] then (ERROR_SUCCESS, nwrite, s)
      else
        let left = to_int32 (to_int32 (int nn) - (int nn - int (length p))) in
        case SSL_write L p left (ssl s) of (r0, c) \<Rightarrow>
        let s = s\<lparr>ssl := c\<rparr> in
        if r0 \<le> 0 then (ERROR_HTTPS_WRITE, nwrite, s)
        else
          let nwrite = nwrite + nat r0 in
          case tr_write T (BIO_get_mem_data L c) (transport s) of (e, t) \<Rightarrow>
          let s = s\<lparr>transport := t\<rparr> in
          if e \<noteq> ERROR_SUCCESS then (e, nwrite, s)
          else case BIO_reset_out L c of (r, c) \<Rightarrow>
            let s = s\<lparr>ssl := c\<rparr> in
            if r \<noteq> 1 then (ERROR_HTTPS_WRITE, nwrite, s)
            else ssl_write_loop L T nn (drop (nat r0) p) nwrite s)"
  by pat_completeness auto
termination by (relation "measure (\<lambda>(L, T, nn, p, nwrite, s). length p)") auto

declare ssl_write_loop.simps [simp del]

definition SrsSslConnection_write ::
    "('c, 'x, 'k) openssl \<Rightarrow> 't transport_io \<Rightarrow> string \<Rightarrow> nat \<Rightarrow> ('c, 't, 'z) SrsSslConnection_scheme \<Rightarrow>
     int \<times> nat \<times> ('c, 't, 'z) SrsSslConnection_scheme" where
  "SrsSslConnection_write L T plaintext nwrite s = ssl_write_loop L T (length plaintext) plaintext nwrite s"

fun SrsSslConnection_writev ::
    "('c, 'x, 'k) openssl \<Rightarrow> 't transport_io \<Rightarrow> string list \<Rightarrow> nat \<Rightarrow> ('c, 't, 'z) SrsSslConnection_scheme \<Rightarrow>
     int \<times> nat \<times> ('c, 't, 'z) SrsSslConnection_scheme" where
  "SrsSslConnection_writev L T [] nwrite s = (ERROR_SUCCESS, nwrite, s)"
| "SrsSslConnection_writev L T (p # iov) nwrite s =
     (case SrsSslConnection_write L T p nwrite s of (e, nwrite, s) \<Rightarrow>
        if e \<noteq> ERROR_SUCCESS then (e, nwrite, s) else SrsSslConnection_writev L T iov nwrite s)"

text \<open>The client repeats the code of the server for \<open>read\<close> and \<open>write\<close>.\<close>

definition SrsSslClient_read ::
    "('c, 'x, 'k) openssl \<Rightarrow> 't transport_io \<Rightarrow> nat \<Rightarrow> ('c, 't) SrsSslClient \<Rightarrow> (string, ('c, 't) SrsSslClient) step option" where
  "SrsSslClient_read = SrsSslConnection_read"

definition SrsSslClient_write ::
    "('c, 'x, 'k) openssl \<Rightarrow> 't transport_io \<Rightarrow> string \<Rightarrow> nat \<Rightarrow> ('c, 't) SrsSslClient \<Rightarrow> int \<times> nat \<times> ('c, 't) SrsSslClient" where
  "SrsSslClient_write = SrsSslConnection_write"

section \<open>\<open>SrsTcpConnection\<close> as a reader and a writer\<close>

sublocale st_reading < tcp_conn: byte_reader "SrsTcpConnection_read st_read" "\<lambda>c. incoming (net (skt c))"
  by unfold_locales
    (auto simp: SrsTcpConnection_read_def split: prod.splits dest: socket.read_Ok socket.read_Err)

sublocale st_writing < tcp_conn: byte_writer "SrsTcpConnection_write st_write" "\<lambda>c. outgoing (net (skt c))"
  by unfold_locales (auto simp: SrsTcpConnection_write_def split: prod.splits dest: socket.put_Ok)

sublocale st_reliable < tcp_conn: reliable_reader "SrsTcpConnection_read st_read" "\<lambda>c. incoming (net (skt c))"
  by unfold_locales (auto simp: SrsTcpConnection_read_def split: prod.splits dest: socket.read_end)

section \<open>What the code relies on\<close>

text \<open>\<open>opened c w\<close> is the plaintext that the connection \<open>c\<close> still delivers when the bytes \<open>w\<close> arrive
  behind what it has been given.  \<open>BIO_write\<close> to a memory buffer takes everything; \<open>SSL_read\<close> gives the next
  plaintext, asks for more only when what it was given holds no complete record, and fails otherwise only when
  the session delivers nothing more.\<close>

locale ssl_reading =
  fixes L :: "('c, 'x, 'k) openssl" and opened :: "'c \<Rightarrow> string \<Rightarrow> string"
  assumes BIO_write_all: "BIO_write L bs c = (r, c') \<Longrightarrow> bs \<noteq> [] \<Longrightarrow>
      r = int (length bs) \<and> opened c' w = opened c (bs @ w)"
    and SSL_read_data: "SSL_read L k c = (r, bs, c') \<Longrightarrow> 0 < r \<Longrightarrow>
      r = int (length bs) \<and> r \<le> k \<and> opened c w = bs @ opened c' w"
    and SSL_read_none: "SSL_read L k c = (r, bs, c') \<Longrightarrow> r \<le> 0 \<Longrightarrow> opened c' w = opened c w"
    and SSL_read_wants: "SSL_read L k c = (- 1, bs, c') \<Longrightarrow> 0 < k \<Longrightarrow> SSL_get_error L (- 1) c' = SSL_ERROR_WANT_READ \<Longrightarrow>
      opened c [] = []"
    and SSL_read_fails: "SSL_read L k c = (r, bs, c') \<Longrightarrow> 0 < k \<Longrightarrow> r \<le> 0 \<Longrightarrow>
      \<not> (r = - 1 \<and> SSL_get_error L r c' = SSL_ERROR_WANT_READ) \<Longrightarrow> opened c w = []"

text \<open>\<open>wire c w\<close>: the library has put out the ciphertext \<open>w\<close> in this session so far; \<open>unseal w\<close> is what the
  peer reads from it.  \<open>SSL_write\<close> on an established session with memory buffers takes at least one byte and
  puts the records for what it took into the outgoing buffer.\<close>

locale ssl_writing =
  fixes L :: "('c, 'x, 'k) openssl" and wire :: "'c \<Rightarrow> string \<Rightarrow> bool" and unseal :: "string \<Rightarrow> string"
  assumes SSL_write_takes: "wire c w \<Longrightarrow> p \<noteq> [] \<Longrightarrow> SSL_write L p (int (length p)) c = (r, c') \<Longrightarrow>
      0 < r \<and> r \<le> int (length p) \<and>
      (\<exists>rec. BIO_get_mem_data L c' = BIO_get_mem_data L c @ rec \<and> wire c' (w @ rec) \<and>
         unseal (w @ rec) = unseal w @ take (nat r) p)"
    and BIO_reset_empties: "wire c w \<Longrightarrow> BIO_reset_out L c = (r, c') \<Longrightarrow>
      r = 1 \<and> BIO_get_mem_data L c' = [] \<and> wire c' w"

section \<open>Reading\<close>

definition ssl_reader ::
    "('c, 'x, 'k) openssl \<Rightarrow> 't transport_io \<Rightarrow> nat \<Rightarrow> ('c, 't, 'z) SrsSslConnection_scheme \<Rightarrow>
     string srs \<times> ('c, 't, 'z) SrsSslConnection_scheme" where
  "ssl_reader L T n s =
     (case SrsSslConnection_read L T n s of
        Some (Go bs s') \<Rightarrow> (Ok bs, s') | Some (Ret e s') \<Rightarrow> (Err e, s') | _ \<Rightarrow> (Err CXX_OUT_OF_RANGE, s))"

text \<open>TLS over a transport: a reader that, like a socket, fails when it is asked for nothing.\<close>

locale ssl_over = ssl_reading L opened + tr: byte_reader "tr_read T" pending
  for L :: "('c, 'x, 'k) openssl" and opened and T :: "'t transport_io" and pending +
  assumes read_nothing: "tr_read T 0 t \<noteq> (Ok bs, t')"
begin

definition plain :: "('c, 't, 'z) SrsSslConnection_scheme \<Rightarrow> string" where
  "plain s = opened (ssl s) (pending (transport s))"

lemma transport_read:
  assumes "tr_read T n t = (Ok bs, t')"
  shows "bs \<noteq> [] \<and> length bs \<le> n \<and> pending t = bs @ pending t'"
  using assms read_nothing tr.read_Ok [of n t bs t'] by (cases n) auto

lemma feed:
  assumes "tr_read T n (transport s) = (Ok buf, t)" "BIO_write L buf (ssl s) = (r, c)"
  shows "0 < r \<and> length (pending t) < length (pending (transport s)) \<and> opened c (pending t) = plain s"
  using transport_read [OF assms(1)] BIO_write_all [OF assms(2)] by (auto simp: plain_def)

lemma ssl_read_cases:
  "\<exists>res. SrsSslConnection_read L T n s = Some res \<and>
    (case res of
       Go bs s' \<Rightarrow> bs \<noteq> [] \<and> length bs \<le> n \<and> plain s = bs @ plain s'
     | Ret e s' \<Rightarrow> plain s' = plain s
     | Crash \<Rightarrow> to_int32 (int n) < 0)"
proof (induction s rule: measure_induct_rule [of "\<lambda>s. length (pending (transport s))"])
  case (less s)
  have n: "to_int32 (int n) \<le> int n"
    using zmod_le_nonneg_dividend [of "int n + 2 ^ 31" "2 ^ 32"] by (simp add: to_int32_def)
  obtain r0 bs c where r: "SSL_read L (to_int32 (int n)) (ssl s) = (r0, bs, c)" by (metis prod_cases3)
  consider "0 < r0" | "r0 \<le> 0" "\<not> (r0 = - 1 \<and> SSL_get_error L r0 c = SSL_ERROR_WANT_READ)"
    | "r0 = - 1" "SSL_get_error L r0 c = SSL_ERROR_WANT_READ" by linarith
  then show ?case
  proof cases
    case 1
    with SSL_read_data [OF r 1] n r show ?thesis
      by (subst SrsSslConnection_read.simps) (auto simp: Let_def plain_def)
  next
    case 2
    with SSL_read_none [OF r] r show ?thesis
      by (subst SrsSslConnection_read.simps) (auto simp: Let_def plain_def)
  next
    case 3
    have p: "opened c w = opened (ssl s) w" for w using SSL_read_none [OF r] 3 by simp
    obtain x t where t: "tr_read T (nat (to_int32 (int n))) (transport s) = (x, t)" by fastforce
    show ?thesis
    proof (cases x)
      case (Inl e)
      with r t 3 tr.read_Err [OF t [unfolded Inl]] p show ?thesis
        by (subst SrsSslConnection_read.simps) (auto simp: Let_def plain_def)
    next
      case (Inr buf)
      obtain r1 c1 where b: "BIO_write L buf c = (r1, c1)" by fastforce
      let ?s = "s\<lparr>transport := t, ssl := c1\<rparr>"
      from feed [of _ "s\<lparr>ssl := c\<rparr>"] t b Inr p
      have f: "0 < r1" "length (pending t) < length (pending (transport s))" "plain ?s = plain s"
        by (auto simp: plain_def)
      have "\<exists>res. SrsSslConnection_read L T n ?s = Some res \<and>
        (case res of Go bs s' \<Rightarrow> bs \<noteq> [] \<and> length bs \<le> n \<and> plain s = bs @ plain s'
           | Ret e s' \<Rightarrow> plain s' = plain s | Crash \<Rightarrow> to_int32 (int n) < 0)"
        using less.IH [of ?s] f(2) unfolding f(3) by simp
      with r t 3 b f(1) Inr show ?thesis
        by (subst SrsSslConnection_read.simps) (auto simp: Let_def ssl_check_def ssl_call_def)
    qed
  qed
qed

lemma plain_reader: "byte_reader (ssl_reader L T) plain"
proof
  fix n s bs s'
  assume "ssl_reader L T n s = (Ok bs, s')"
  with ssl_read_cases [of n s] show "bs \<noteq> [] \<and> length bs \<le> n \<and> plain s = bs @ plain s'"
    unfolding ssl_reader_def by (elim exE conjE, split step.split_asm) simp_all
next
  fix n s e s'
  assume "ssl_reader L T n s = (Err e, s')"
  with ssl_read_cases [of n s] show "plain s' = plain s"
    unfolding ssl_reader_def by (elim exE conjE, split step.split_asm) auto
qed

end

text \<open>Over a transport that fails only at its end, an error of \<open>read\<close> means that the plaintext has ended.\<close>

locale ssl_reliable = ssl_over L opened T pending + tr: reliable_reader "tr_read T" pending
  for L :: "('c, 'x, 'k) openssl" and opened and T :: "'t transport_io" and pending
begin

lemma ssl_read_end:
  assumes "SrsSslConnection_read L T n s = Some (Ret e s')" "0 < n" "n < 2 ^ 31"
  shows "plain s = []"
  using assms
proof (induction s rule: measure_induct_rule [of "\<lambda>s. length (pending (transport s))"])
  case (less s)
  have n: "to_int32 (int n) = int n" using assms by (intro to_int32_small) auto
  obtain r0 bs c where r: "SSL_read L (int n) (ssl s) = (r0, bs, c)" by (metis prod_cases3)
  show ?case
  proof (cases "r0 = - 1 \<and> SSL_get_error L r0 c = SSL_ERROR_WANT_READ")
    case False
    with less.prems(1) r n have "r0 \<le> 0"
      by (subst (asm) SrsSslConnection_read.simps) (auto simp: Let_def split: if_splits)
    with SSL_read_fails [OF r _ _ False] assms(2) show ?thesis by (simp add: plain_def)
  next
    case True
    then have w: "r0 = - 1" "SSL_get_error L (- 1) c = SSL_ERROR_WANT_READ" by auto
    have p: "opened c w = opened (ssl s) w" for w using SSL_read_none [OF r] True by simp
    obtain x t where t: "tr_read T n (transport s) = (x, t)" by fastforce
    show ?thesis
    proof (cases x)
      case (Inl e')
      from tr.read_end [OF t [unfolded Inl]] assms(2) SSL_read_wants [of "int n" "ssl s" bs c] r True show ?thesis
        by (auto simp: plain_def)
    next
      case (Inr buf)
      obtain r1 c1 where b: "BIO_write L buf c = (r1, c1)" by fastforce
      let ?s = "s\<lparr>transport := t, ssl := c1\<rparr>"
      from feed [of _ "s\<lparr>ssl := c\<rparr>"] t b Inr p
      have f: "0 < r1" "length (pending t) < length (pending (transport s))" "plain ?s = plain s"
        by (auto simp: plain_def)
      from less.prems(1) have "SrsSslConnection_read L T n ?s = Some (Ret e s')"
        by (subst (asm) SrsSslConnection_read.simps)
          (simp add: n r t w Inr b f(1) ssl_check_def ssl_call_def Let_def)
      with less.IH [of ?s] f(2) assms(2,3) show ?thesis unfolding f(3) by simp
    qed
  qed
qed

end

section \<open>Writing\<close>

locale ssl_sending = ssl_writing L wire unseal + tr: byte_writer "tr_write T" sent
  for L :: "('c, 'x, 'k) openssl" and wire unseal and T :: "'t transport_io" and sent
begin

text \<open>The connection is in step with the transport: everything that was put out in this session, and nothing
  else, was sent behind \<open>base\<close>, and the outgoing buffer is empty.\<close>

definition in_step :: "string \<Rightarrow> string \<Rightarrow> ('c, 't, 'z) SrsSslConnection_scheme \<Rightarrow> bool" where
  "in_step base w s \<longleftrightarrow> wire (ssl s) w \<and> BIO_get_mem_data L (ssl s) = [] \<and> sent (transport s) = base @ w"

lemma write_loop_sends:
  assumes "in_step base w s" "length p \<le> nn" "nn < 2 ^ 31" "ssl_write_loop L T nn p nw s = (e, nw', s')"
  shows "(e = 0 \<and> nw' = nw + length p \<and> (\<exists>w'. in_step base w' s' \<and> unseal w' = unseal w @ p)) \<or>
    (e \<noteq> 0 \<and> (\<exists>bs t t'. bs \<noteq> [] \<and> tr_write T bs t = (e, t')))"
  using assms
proof (induction p arbitrary: w nw s rule: measure_induct_rule [of length])
  case (less p)
  show ?case
  proof (cases "p = []")
    case True
    with less.prems show ?thesis by (subst (asm) ssl_write_loop.simps) auto
  next
    case False
    have left: "to_int32 (to_int32 (int nn) - (int nn - int (length p))) = int (length p)"
      using less.prems(2,3) by (simp add: to_int32_small)
    obtain r0 c where r: "SSL_write L p (int (length p)) (ssl s) = (r0, c)" by fastforce
    obtain e0 t where t: "tr_write T (BIO_get_mem_data L c) (transport s) = (e0, t)" by fastforce
    obtain r1 c1 where b: "BIO_reset_out L c = (r1, c1)" by fastforce
    from less.prems(1) SSL_write_takes [OF _ False r, of w] obtain rec where rec: "0 < r0" "r0 \<le> int (length p)"
      "BIO_get_mem_data L c = rec" "wire c (w @ rec)" "unseal (w @ rec) = unseal w @ take (nat r0) p"
      by (auto simp: in_step_def)
    note run = less.prems(4) [unfolded ssl_write_loop.simps [of L T nn p] left, simplified False r prod.case Let_def]
    show ?thesis
    proof (cases "e0 = 0")
      case False
      with run rec(1) t have "e = e0" by simp
      moreover have "rec \<noteq> []" using rec(1,5) \<open>p \<noteq> []\<close> by auto
      ultimately show ?thesis using False t rec(3) by blast
    next
      case True
      from BIO_reset_empties [OF rec(4) b] have c1: "r1 = 1" "BIO_get_mem_data L c1 = []" "wire c1 (w @ rec)" by simp_all
      let ?s = "s\<lparr>transport := t, ssl := c1\<rparr>"
      have "sent t = sent (transport s) @ rec" using tr.put_Ok t True rec(3) by simp
      with less.prems(1) c1 have st: "in_step base (w @ rec) ?s" by (simp add: in_step_def)
      from run rec(1) t True b c1(1) have "ssl_write_loop L T nn (drop (nat r0) p) (nw + nat r0) ?s = (e, nw', s')" by simp
      from less.IH [OF _ st _ less.prems(3) this] rec(1,2) less.prems(2) show ?thesis
        by (auto simp: rec(5) min_def of_nat_diff)
    qed
  qed
qed

end

section \<open>The handshake\<close>

text \<open>A transport in both directions: reading sends nothing.\<close>

locale duplex_io = rd: byte_reader "tr_read T" pending + wr: byte_writer "tr_write T" sent
  for T :: "'t transport_io" and pending sent +
  assumes read_sends_nothing: "tr_read T n t = (r, t') \<Longrightarrow> sent t' = sent t"

lemma returns_ssl_call: "returns (\<lambda>_ s'. transport s' = transport s) (ssl_call f s)"
  by (simp add: ssl_call_def split: prod.split)

lemma returns_ssl_set: "returns (\<lambda>_ s'. transport s' = transport s) (ssl_set f s)"
  by (simp add: ssl_set_def)

lemma returns_ssl_check: "returns (\<lambda>_ s'. transport s' = transport s) (ssl_check f g e s)"
  unfolding ssl_check_def by (rule returns_andthen [OF returns_ssl_call]) simp

lemma returns_ssl_context: "returns (\<lambda>_ s'. transport s' = transport s) (ssl_context L m cb s)"
  unfolding ssl_context_def
  by (rule returns_andthen [OF returns_ssl_set] returns_andthen [OF returns_ssl_call])+ simp

lemma returns_ssl_object: "returns (\<lambda>_ s'. transport s' = transport s) (ssl_object L s)"
  unfolding ssl_object_def by (rule returns_ssl_check)

lemma returns_ssl_buffers: "returns (\<lambda>_ s'. transport s' = transport s) (ssl_buffers L s)"
  unfolding ssl_buffers_def
  by (rule returns_andthen [OF returns_ssl_check], rule returns_andthen [OF returns_ssl_call])
    (simp add: ssl_set_def)

lemma returns_ssl_role: "returns (\<lambda>_ s'. transport s' = transport s) (ssl_role L f s)"
  unfolding ssl_role_def by (rule returns_andthen [OF returns_ssl_set]) (simp add: ssl_set_def)

lemmas returns_setup = returns_ssl_context returns_ssl_object returns_ssl_buffers returns_ssl_role returns_ssl_check
  returns_ssl_set returns_ssl_call

context duplex_io
begin

text \<open>Two flights were sent.\<close>

definition two_flights :: "string \<Rightarrow> ('c, 't, 'z) SrsSslConnection_scheme \<Rightarrow> bool" where
  "two_flights before s \<longleftrightarrow> (\<exists>f g. f \<noteq> [] \<and> g \<noteq> [] \<and> sent (transport s) = before @ f @ g)"

text \<open>The shape that the three receiving loops share: they return when what they do with the bytes that they
  read returns, given that they return with less on the transport.\<close>

lemma receive_returns:
  fixes loop :: "('c, 't, 'z) SrsSslConnection_scheme \<Rightarrow> ('a, 'c, 't, 'z) ssl_step"
  assumes "\<And>s. loop s = (case tr_read T n (transport s) of
        (Inl e, t) \<Rightarrow> Some (Ret e (s\<lparr>transport := t\<rparr>)) | (Inr buf, t) \<Rightarrow> turn buf (s\<lparr>transport := t\<rparr>))"
    and "\<And>s buf. returns (Q (sent (transport s))) (turn buf s) \<or>
      (\<exists>s'. turn buf s = loop s' \<and> transport s' = transport s)"
    and "0 < n"
  shows "returns (Q (sent (transport s))) (loop s)"
proof (induction s rule: measure_induct_rule [of "\<lambda>s. length (pending (transport s))"])
  case (less s)
  obtain x t where t: "tr_read T n (transport s) = (x, t)" by fastforce
  show ?case
  proof (cases x)
    case (Inl e)
    with t assms(1) [of s] show ?thesis by simp
  next
    case (Inr buf)
    let ?s = "s\<lparr>transport := t\<rparr>"
    have l: "loop s = turn buf ?s" using t Inr assms(1) [of s] by simp
    have st: "sent t = sent (transport s)" using read_sends_nothing [OF t] .
    have sh: "length (pending t) < length (pending (transport s))"
      using rd.read_shrinks [OF t [unfolded Inr] assms(3)] .
    show ?thesis
    proof (cases "returns (Q (sent (transport ?s))) (turn buf ?s)")
      case True
      with st l show ?thesis by simp
    next
      case False
      with assms(2) [of ?s buf] obtain s' where s': "turn buf ?s = loop s'" "transport s' = t" by auto
      with less.IH [of s'] sh st l show ?thesis by simp
    qed
  qed
qed

lemma returns_receive_hello:
  "0 < n \<Longrightarrow> returns (\<lambda>data s'. data \<noteq> [] \<and> sent (transport s') = sent (transport s)) (receive_hello L T n s)"
  by (rule receive_returns [where Q = "\<lambda>b data s'. data \<noteq> [] \<and> sent (transport s') = b", OF receive_hello.simps])
    (auto simp: ssl_check_def ssl_call_def Let_def split: prod.splits if_splits)

lemma returns_receive_finished:
  "0 < n \<Longrightarrow> returns (\<lambda>_ s'. sent (transport s') = sent (transport s)) (receive_finished L T n s)"
  by (rule receive_returns [where Q = "\<lambda>b _ s'. sent (transport s') = b", OF receive_finished.simps])
    (auto simp: ssl_check_def ssl_call_def Let_def split: prod.splits if_splits)

lemma returns_receive_done:
  "0 < n \<Longrightarrow> returns (\<lambda>_ s'. sent (transport s') = sent (transport s)) (receive_done L T n s)"
  by (rule receive_returns [where Q = "\<lambda>b _ s'. sent (transport s') = b", OF receive_done.simps])
    (auto simp: ssl_check_def ssl_call_def Let_def split: prod.splits if_splits)

lemma returns_send_data: "returns (\<lambda>_ s'. sent (transport s') = sent (transport s) @ data) (send_data L T data s)"
  by (auto simp: send_data_def ssl_check_def ssl_call_def Let_def split: prod.splits dest: wr.put_Ok)

lemma returns_send_flight:
  "returns (\<lambda>_ s'. \<exists>f. f \<noteq> [] \<and> sent (transport s') = sent (transport s) @ f) (send_flight L T s)"
  using returns_send_data [where data = "BIO_get_mem_data L (ssl s)" and L = L and s = s]
  by (auto simp: send_flight_def Let_def elim: returns_mono)

lemma returns_ssl_accept: "returns (\<lambda>_. two_flights (sent (transport s))) (ssl_accept L T s)"
  unfolding ssl_accept_def
  apply (rule returns_andthen [OF returns_receive_hello], simp)
  apply (rule returns_andthen [OF returns_send_flight])
  apply (rule returns_andthen [OF returns_receive_finished], simp)
  apply (rule returns_mono [OF returns_send_flight])
  apply (auto simp: two_flights_def)
  done

lemma returns_ssl_connect: "returns (\<lambda>_. two_flights (sent (transport s))) (ssl_connect L T s)"
  unfolding ssl_connect_def
  apply (rule returns_andthen [OF returns_ssl_call])
  apply (simp, intro impI)
  apply (rule returns_andthen [OF returns_send_flight])
  apply (rule returns_andthen [OF returns_receive_hello], simp)
  apply (rule returns_andthen [OF returns_send_data])
  apply (rule returns_mono [OF returns_receive_done])
   apply (auto simp: two_flights_def)
  done

lemma returns_accept_from: "transport s = t \<Longrightarrow> returns (\<lambda>_. two_flights (sent t)) (ssl_accept L T s)"
  using returns_ssl_accept [of s L] by simp

lemma returns_connect_from: "transport s = t \<Longrightarrow> returns (\<lambda>_. two_flights (sent t)) (ssl_connect L T s)"
  using returns_ssl_connect [of s L] by simp

lemma returns_handshake_file: "returns (\<lambda>_. two_flights (sent (transport s))) (handshake_file L T key_file crt_file s)"
  unfolding handshake_file_def
  by ((rule returns_setup [THEN returns_andthen])+, rule returns_accept_from) simp

lemma returns_handshake_cert: "returns (\<lambda>_. two_flights (sent (transport s))) (handshake_cert L T cert key s)"
  unfolding handshake_cert_def
  by ((rule returns_setup [THEN returns_andthen])+, rule returns_accept_from) simp

lemma returns_client_handshake: "returns (\<lambda>_. two_flights (sent (transport s))) (SrsSslClient_handshake L T s)"
  unfolding SrsSslClient_handshake_def
  by ((rule returns_setup [THEN returns_andthen])+, rule returns_connect_from) simp

end

section \<open>TLS over a TCP connection\<close>

definition tcp_transport :: "'n st_read \<Rightarrow> 'n st_write \<Rightarrow> 'n SrsTcpConnection transport_io" where
  "tcp_transport st_read st_write =
     \<lparr>tr_read = SrsTcpConnection_read st_read, tr_write = SrsTcpConnection_write st_write\<rparr>"

lemma tcp_transport_simps [simp]:
  "tr_read (tcp_transport st_read st_write) = SrsTcpConnection_read st_read"
  "tr_write (tcp_transport st_read st_write) = SrsTcpConnection_write st_write"
  by (simp_all add: tcp_transport_def)

locale st_duplex = st_reading st_read incoming + st_writing st_write outgoing
  for st_read :: "'n st_read" and incoming and st_write :: "'n st_write" and outgoing +
  assumes st_read_sends_nothing: "st_read n tm w = (r, w') \<Longrightarrow> outgoing w' = outgoing w"

sublocale st_duplex < tls_io: duplex_io "tcp_transport st_read st_write"
    "\<lambda>c. incoming (net (skt c))" "\<lambda>c. outgoing (net (skt c))"
proof (unfold_locales, goal_cases)
  case (1 n r bs r')
  then show ?case by (simp add: tcp_conn.read_Ok)
next
  case (2 n r e r')
  then show ?case using tcp_conn.read_Err by simp
next
  case (3 bs w w')
  then show ?case using tcp_conn.put_Ok by simp
next
  case (4 n t r t')
  then show ?case
    by (auto simp: SrsTcpConnection_read_def SrsStSocket_read_def Let_def split: prod.splits st_in.splits if_splits
        dest: st_read_sends_nothing)
qed

context st_duplex
begin

lemma tcp_handshakes:
  shows "returns (\<lambda>_ s'. \<exists>f g. f \<noteq> [] \<and> g \<noteq> [] \<and>
        outgoing (net (skt (transport s'))) = outgoing (net (skt (transport s))) @ f @ g)
      (handshake_file L (tcp_transport st_read st_write) key_file crt_file s)"
    "returns (\<lambda>_ s'. \<exists>f g. f \<noteq> [] \<and> g \<noteq> [] \<and>
        outgoing (net (skt (transport s'))) = outgoing (net (skt (transport s))) @ f @ g)
      (handshake_cert L (tcp_transport st_read st_write) cert key s)"
    "returns (\<lambda>_ s'. \<exists>f g. f \<noteq> [] \<and> g \<noteq> [] \<and>
        outgoing (net (skt (transport s'))) = outgoing (net (skt (transport c))) @ f @ g)
      (SrsSslClient_handshake L (tcp_transport st_read st_write) c)"
  by (rule tls_io.returns_handshake_file [THEN returns_mono] tls_io.returns_handshake_cert [THEN returns_mono]
      tls_io.returns_client_handshake [THEN returns_mono], simp add: tls_io.two_flights_def)+

end

locale tcp_tls = ssl_reading L opened + st_reliable st_read incoming
  for L :: "('c, 'x, 'k) openssl" and opened and st_read :: "'n st_read" and incoming

sublocale tcp_tls < tls: ssl_reliable L opened "tcp_transport st_read st_write" "\<lambda>c. incoming (net (skt c))"
  for st_write
proof (unfold_locales, goal_cases)
  case (1 n r bs r')
  then show ?case by (simp add: tcp_conn.read_Ok)
next
  case (2 n r e r')
  then show ?case using tcp_conn.read_Err by simp
next
  case (3 t bs t')
  then show ?case
    by (auto simp: SrsTcpConnection_read_def SrsStSocket_read_def Let_def split: prod.splits st_in.splits if_splits
        dest: st_read_bytes)
next
  case (4 n r e r')
  then show ?case using tcp_conn.read_end by simp
qed

context tcp_tls
begin

lemma tcp_read:
  assumes "0 < n" "n < 2 ^ 31"
  shows "\<exists>res. SrsSslConnection_read L (tcp_transport st_read st_write) n s = Some res \<and>
    (case res of
       Go bs s' \<Rightarrow> bs \<noteq> [] \<and> length bs \<le> n \<and>
         opened (ssl s) (incoming (net (skt (transport s)))) =
           bs @ opened (ssl s') (incoming (net (skt (transport s'))))
     | Ret e s' \<Rightarrow> opened (ssl s) (incoming (net (skt (transport s)))) = []
     | Crash \<Rightarrow> False)"
proof -
  have n: "to_int32 (int n) = int n" using assms by (intro to_int32_small) auto
  obtain res where res: "SrsSslConnection_read L (tcp_transport st_read st_write) n s = Some res"
    "case res of
       Go bs s' \<Rightarrow> bs \<noteq> [] \<and> length bs \<le> n \<and> tls.plain s = bs @ tls.plain s'
     | Ret e s' \<Rightarrow> tls.plain s' = tls.plain s
     | Crash \<Rightarrow> to_int32 (int n) < 0"
    using tls.ssl_read_cases [of st_write n s] by blast
  then show ?thesis
    using tls.ssl_read_end [OF _ assms, of st_write s]
    by (cases res) (simp_all add: tls.plain_def n)
qed

end

locale tcp_tls_out = ssl_writing L wire unseal + st_writing st_write outgoing
  for L :: "('c, 'x, 'k) openssl" and wire unseal and st_write :: "'n st_write" and outgoing

sublocale tcp_tls_out < tls: ssl_sending L wire unseal "tcp_transport st_read st_write"
    "\<lambda>c. outgoing (net (skt c))" for st_read
proof (unfold_locales, goal_cases)
  case (1 bs w w')
  then show ?case using tcp_conn.put_Ok by simp
qed

context tcp_tls_out
begin

lemma tcp_write:
  assumes "wire (ssl s) w" "BIO_get_mem_data L (ssl s) = []" "outgoing (net (skt (transport s))) = base @ w"
    "length p < 2 ^ 31" "SrsSslConnection_write L (tcp_transport st_read st_write) p nw s = (e, nw', s')"
  shows "(e = 0 \<and> nw' = nw + length p \<and>
      (\<exists>w'. outgoing (net (skt (transport s'))) = base @ w' \<and> unseal w' = unseal w @ p \<and>
         wire (ssl s') w' \<and> BIO_get_mem_data L (ssl s') = [])) \<or>
    (e \<noteq> 0 \<and> (\<exists>bs c c'. bs \<noteq> [] \<and> SrsTcpConnection_write st_write bs c = (e, c')))"
  using tls.write_loop_sends [of base w s p "length p" st_read nw e nw' s'] assms
  by (auto simp: tls.in_step_def SrsSslConnection_write_def)

end

section \<open>A miniature record protocol\<close>

text \<open>An instance of the library: a handshake of two messages each way, and records of two bytes that
  carry one byte of plaintext.\<close>

record mini =
  phase :: nat
  in_buffer :: string
  out_buffer :: string

fun unpair :: "string \<Rightarrow> string" where
  "unpair (a # b # w) = b # unpair w"
| "unpair w = []"

lemma unpair_append: "even (length v) \<Longrightarrow> unpair (v @ w) = unpair v @ unpair w"
  by (induction v rule: unpair.induct) auto

definition mini_shake :: "mini \<Rightarrow> int \<times> mini" where
  "mini_shake c =
     (if in_buffer c = [] then (- 1, c)
      else if phase c = 0 then (- 1, c\<lparr>phase := 1, in_buffer := [], out_buffer := out_buffer c @ ''S''\<rparr>)
      else (1, c\<lparr>phase := 2, in_buffer := [], out_buffer := out_buffer c @ ''F''\<rparr>))"

definition mini_read :: "int \<Rightarrow> mini \<Rightarrow> int \<times> string \<times> mini" where
  "mini_read k c =
     (case in_buffer c of
        a # b # w \<Rightarrow> if 0 < k then (1, [b], c\<lparr>in_buffer := w\<rparr>) else (- 1, [], c)
      | _ \<Rightarrow> (- 1, [], c))"

definition mini_ssl :: "(mini, unit, unit) openssl" where
  "mini_ssl =
     \<lparr>SSL_CTX_new = (\<lambda>c. c), SSL_CTX_set_verify = (\<lambda>_ _ c. c), SSL_CTX_set_cipher_list = (\<lambda>_ c. (1, c)),
      SSL_CTX_use_certificate = (\<lambda>_ c. (1, c)), SSL_CTX_use_PrivateKey = (\<lambda>_ c. (1, c)),
      SSL_CTX_check_private_key = (\<lambda>c. (1, c)), SSL_new = (\<lambda>c. (True, c)),
      SSL_set_tlsext_host_name = (\<lambda>_ c. c), BIO_new_in = (\<lambda>c. (True, c)), BIO_new_out = (\<lambda>c. (True, c)),
      BIO_free_in = (\<lambda>c. c), SSL_set_bio = (\<lambda>c. c), SSL_set_accept_state = (\<lambda>c. c), SSL_set_connect_state = (\<lambda>c. c),
      SSL_set_mode = (\<lambda>c. c), SSL_use_certificate_file = (\<lambda>_ c. (1, c)), SSL_use_RSAPrivateKey_file = (\<lambda>_ c. (1, c)),
      SSL_check_private_key = (\<lambda>c. (1, c)), SSL_do_handshake = mini_shake,
      SSL_get_error = (\<lambda>r _. if r = 1 then SSL_ERROR_NONE else SSL_ERROR_WANT_READ), SSL_read = mini_read,
      SSL_write = (\<lambda>p _ c. (1, c\<lparr>out_buffer := out_buffer c @ [CHR 0x17, hd p]\<rparr>)),
      BIO_write = (\<lambda>bs c. (int (length bs), c\<lparr>in_buffer := in_buffer c @ bs\<rparr>)), BIO_get_mem_data = out_buffer,
      BIO_reset_in = (\<lambda>c. (1, c\<lparr>in_buffer := []\<rparr>)), BIO_reset_out = (\<lambda>c. (1, c\<lparr>out_buffer := []\<rparr>))\<rparr>"

interpretation mini_in: tcp_tls mini_ssl "\<lambda>c w. unpair (in_buffer c @ w)" script_read "\<lambda>w. concat (segments w)"
  by unfold_locales (auto simp: mini_ssl_def mini_read_def split: list.splits if_splits)

interpretation mini_out: tcp_tls_out mini_ssl "\<lambda>c w. even (length w)" unpair script_write delivered
  by unfold_locales (auto simp: mini_ssl_def unpair_append take_Suc neq_Nil_conv)

interpretation script_duplex: st_duplex script_read "\<lambda>w. concat (segments w)" script_write delivered
  by unfold_locales (auto simp: script_read_def split: list.splits if_splits)

section \<open>Properties\<close>

text \<open>C28. Reading from a TLS connection, in either role, over a TCP connection: for every library that keeps the
  documented contract \<open>read\<close> returns; it delivers the next bytes of the plaintext, at least one and not more
  than were asked for, however the ciphertext is cut into segments; an error means that the plaintext has
  ended; and no assertion fails.\<close>

theorem tls_read_delivers:
  assumes "ssl_reading L opened" "st_reliable st_read incoming" "0 < n" "n < 2 ^ 31"
  shows "\<exists>res. SrsSslConnection_read L (tcp_transport st_read st_write) n s = Some res \<and>
    (case res of
       Go bs s' \<Rightarrow> bs \<noteq> [] \<and> length bs \<le> n \<and>
         opened (ssl s) (incoming (net (skt (transport s)))) =
           bs @ opened (ssl s') (incoming (net (skt (transport s'))))
     | Ret e s' \<Rightarrow> opened (ssl s) (incoming (net (skt (transport s)))) = []
     | Crash \<Rightarrow> False)"
  using tcp_tls.tcp_read [OF tcp_tls.intro [OF assms(1,2)] assms(3,4)] .

theorem tls_read_delivers_witness:
  "\<exists>res. SrsSslConnection_read mini_ssl (tcp_transport script_read script_write) 4
      \<lparr>transport = SrsTcpConnection_new 3 \<lparr>segments = [''x'', ''ayb''], delivered = []\<rparr>,
       ssl = \<lparr>phase = 2, in_buffer = [], out_buffer = []\<rparr>\<rparr> = Some res \<and>
    (case res of
       Go bs s' \<Rightarrow> bs \<noteq> [] \<and> length bs \<le> 4 \<and>
         ''ab'' = bs @ unpair (in_buffer (ssl s') @ concat (segments (net (skt (transport s')))))
     | Ret e s' \<Rightarrow> ''ab'' = [] | Crash \<Rightarrow> False)"
proof -
  let ?s = "\<lparr>transport = SrsTcpConnection_new 3 \<lparr>segments = [''x'', ''ayb''], delivered = []\<rparr>,
       ssl = \<lparr>phase = 2, in_buffer = [], out_buffer = []\<rparr>\<rparr>"
  have "unpair (in_buffer (ssl ?s) @ concat (segments (net (skt (transport ?s))))) = ''ab''"
    by (simp add: SrsTcpConnection_new_def SrsStSocket_init_def)
  with tls_read_delivers [OF mini_in.ssl_reading_axioms script_in.st_reliable_axioms, of 4 script_write ?s]
  show ?thesis by (simp only:) simp
qed

text \<open>C29. Writing to a TLS connection, in either role, over a TCP connection: for every library that keeps the
  documented contract \<open>write\<close> sends records from which the peer reads exactly the plaintext behind what it had
  read before, \<open>nwrite\<close> is increased by its length, and nothing stays in the buffer; it fails only with an
  error that the TCP connection gives for records that are not empty.\<close>

theorem tls_write_delivers:
  assumes "ssl_writing L wire unseal" "st_writing st_write outgoing"
    "wire (ssl s) w" "BIO_get_mem_data L (ssl s) = []" "outgoing (net (skt (transport s))) = base @ w"
    "length p < 2 ^ 31" "SrsSslConnection_write L (tcp_transport st_read st_write) p nw s = (e, nw', s')"
  shows "(e = 0 \<and> nw' = nw + length p \<and>
      (\<exists>w'. outgoing (net (skt (transport s'))) = base @ w' \<and> unseal w' = unseal w @ p \<and>
         wire (ssl s') w' \<and> BIO_get_mem_data L (ssl s') = [])) \<or>
    (e \<noteq> 0 \<and> (\<exists>bs c c'. bs \<noteq> [] \<and> SrsTcpConnection_write st_write bs c = (e, c')))"
  using tcp_tls_out.tcp_write [OF tcp_tls_out.intro [OF assms(1,2)] assms(3-7)] .

theorem tls_write_delivers_witness:
  "\<exists>nw' s'. SrsSslConnection_write mini_ssl (tcp_transport script_read script_write) ''ab'' 0
      \<lparr>transport = SrsTcpConnection_new 3 \<lparr>segments = [], delivered = ''SF''\<rparr>,
       ssl = \<lparr>phase = 2, in_buffer = [], out_buffer = []\<rparr>\<rparr> = (0, nw', s') \<and>
    nw' = 2 \<and> (\<exists>w'. delivered (net (skt (transport s'))) = ''SF'' @ w' \<and> unpair w' = ''ab'')"
proof -
  let ?s = "\<lparr>transport = SrsTcpConnection_new 3 \<lparr>segments = [], delivered = ''SF''\<rparr>,
       ssl = \<lparr>phase = 2, in_buffer = [], out_buffer = []\<rparr>\<rparr>"
  obtain e nw' s' where r: "SrsSslConnection_write mini_ssl (tcp_transport script_read script_write) ''ab'' 0 ?s = (e, nw', s')"
    by (metis prod_cases3)
  then have "e = 0"
    by (auto simp: SrsSslConnection_write_def ssl_write_loop.simps mini_ssl_def SrsTcpConnection_new_def SrsStSocket_init_def
        SrsTcpConnection_write_def SrsStSocket_write_def script_write_def Let_def)
  with r tls_write_delivers [OF mini_out.ssl_writing_axioms script_out.st_writing_axioms _ _ _ _ r, of "[]" "''SF''"]
  show ?thesis by (auto simp: mini_ssl_def SrsTcpConnection_new_def SrsStSocket_init_def)
qed



end
