(* ===== verification/Resign.thy ===== *)
theory Resign
  imports App_Conn Prelude
begin

text \<open>
  The certificates that the proxy signs itself (\<open>SrsSslClient::prepare_resign_endpoint\<close> and
  \<open>get_new_cert_rsa\<close> of \<open>src/src/app/srs_app_conn.cpp\<close>, \<open>prepareResignCA\<close> and
  \<open>ResignEndpointCertMap\<close> of \<open>src/src/app/srs_app_http_conn.cpp\<close>): the certificate for a client is made from the
  certificate of the server and signed with the key of the proxy's own authority.  The calls of OpenSSL on
  certificates, names and keys are the record \<open>x509_lib\<close>; the locale \<open>x509_attributes\<close> states that an attribute
  that was set is read back and that setting one attribute leaves the others.
\<close>

section \<open>Definitions\<close>

abbreviation NID_subject_alt_name :: int where "NID_subject_alt_name \<equiv> 85"

text \<open>\<open>X509_get_ext\<close> and the identifier of its object are given together; times are seconds; \<open>now\<close> is the
  time to which \<open>X509_gmtime_adj\<close> adds.\<close>

record ('c, 'x, 'k, 'm, 'i, 'r) x509_lib =
  SSL_get_peer_certificate :: "'c \<Rightarrow> 'x option"
  X509_new :: 'x
  EVP_PKEY_new :: 'k
  X509_set_version :: "int \<Rightarrow> 'x \<Rightarrow> 'x"
  X509_get_serialNumber :: "'x \<Rightarrow> 'i option"
  X509_set_serialNumber :: "'i \<Rightarrow> 'x \<Rightarrow> 'x"
  X509_NAME_new :: 'm
  X509_NAME_add_entry_by_txt :: "string \<Rightarrow> string \<Rightarrow> 'm \<Rightarrow> 'm"
  X509_set_issuer_name :: "'m \<Rightarrow> 'x \<Rightarrow> 'x"
  X509_get_subject_name :: "'x \<Rightarrow> 'm"
  X509_set_subject_name :: "'m \<Rightarrow> 'x \<Rightarrow> 'x"
  now :: int
  X509_set_notBefore :: "int \<Rightarrow> 'x \<Rightarrow> 'x"
  X509_set_notAfter :: "int \<Rightarrow> 'x \<Rightarrow> 'x"
  BN_set_word :: "int \<Rightarrow> int"
  RSA_generate_key_ex :: "int \<Rightarrow> int \<times> 'r"
  EVP_PKEY_set1_RSA :: "'r \<Rightarrow> 'k \<Rightarrow> 'k"
  X509_set_pubkey :: "'k \<Rightarrow> 'x \<Rightarrow> 'x"
  X509_get_ext_count :: "'x \<Rightarrow> int"
  X509_get_ext :: "'x \<Rightarrow> int \<Rightarrow> int \<times> string"
  X509_add_ext :: "int \<times> string \<Rightarrow> 'x \<Rightarrow> 'x"
  X509_sign :: "'k \<Rightarrow> 'x \<Rightarrow> 'x"
  PEM_read_ca :: "'k \<Rightarrow> 'k"

text \<open>\<open>abort\<close> is \<open>None\<close>.\<close>

definition get_new_cert_rsa :: "('c, 'x, 'k, 'm, 'i, 'r) x509_lib \<Rightarrow> int \<Rightarrow> 'r option" where
  "get_new_cert_rsa X key_length =
     (if BN_set_word X 0x10001 \<le> 0 then None
      else case RSA_generate_key_ex X key_length of (r, rsa) \<Rightarrow> if r \<le> 0 then None else Some rsa)"

text \<open>The search for an extension: the first one with the identifier.\<close>

fun find_ext :: "('c, 'x, 'k, 'm, 'i, 'r) x509_lib \<Rightarrow> 'x \<Rightarrow> int \<Rightarrow> int list \<Rightarrow> (int \<times> string) option" where
  "find_ext X cert ext_id [] = None"
| "find_ext X cert ext_id (i # is) =
     (if fst (X509_get_ext X cert i) = ext_id then Some (X509_get_ext X cert i) else find_ext X cert ext_id is)"

definition add_ext_of :: "('c, 'x, 'k, 'm, 'i, 'r) x509_lib \<Rightarrow> 'x \<Rightarrow> int \<Rightarrow> 'x \<Rightarrow> 'x" where
  "add_ext_of X server ext_id cert =
     (case find_ext X server ext_id [0..X509_get_ext_count X server - 1] of
        None \<Rightarrow> cert
      | Some ext \<Rightarrow> X509_add_ext X ext cert)"

definition proxy_issuer :: "('c, 'x, 'k, 'm, 'i, 'r) x509_lib \<Rightarrow> 'm" where
  "proxy_issuer X =
     fold (\<lambda>(field, v). X509_NAME_add_entry_by_txt X field v)
       [(''CN'', ''www.xx.com''), (''O'', ''XX (Pty) Ltd.''), (''OU'', ''XX CA''), (''L'', ''Boston''), (''ST'', ''MA''), (''C'', ''US'')]
       (X509_NAME_new X)"

abbreviation seconds_per_day :: int where "seconds_per_day \<equiv> 60 * 60 * 24"

text \<open>A server without a certificate makes the code read through a null pointer, and a failed generation
  of the key aborts; both are \<open>None\<close>.\<close>

definition prepare_resign_endpoint ::
    "('c, 'x, 'k, 'm, 'i, 'r) x509_lib \<Rightarrow> 'k \<Rightarrow> 'c \<Rightarrow> 'x \<Rightarrow> 'k \<Rightarrow> ('x \<times> 'k) option" where
  "prepare_resign_endpoint X ca c fake_x509 server_key =
     (case SSL_get_peer_certificate X c of
        None \<Rightarrow> None
      | Some server_x509 \<Rightarrow>
          let x = X509_set_version X 2 fake_x509;
              x = (case X509_get_serialNumber X server_x509 of None \<Rightarrow> x | Some i \<Rightarrow> X509_set_serialNumber X i x);
              x = X509_set_issuer_name X (proxy_issuer X) x;
              x = X509_set_subject_name X (X509_get_subject_name X server_x509) x;
              x = X509_set_notBefore X (now X - seconds_per_day * 365) x;
              x = X509_set_notAfter X (now X + seconds_per_day * 365 * 2) x
          in case get_new_cert_rsa X 2048 of
               None \<Rightarrow> None
             | Some rsa \<Rightarrow>
                 let key = EVP_PKEY_set1_RSA X rsa server_key;
                     x = X509_set_pubkey X key x;
                     x = add_ext_of X server_x509 NID_subject_alt_name x
                 in Some (X509_sign X ca x, key))"

subsection \<open>The certificates of the process\<close>

text \<open>\<open>g_resignEndpointCertMap\<close> and \<open>ca_key\<close>.\<close>

record ('x, 'k) resign_state =
  cert_map :: "(string \<times> ('x \<times> 'k)) list"
  ca_key :: "'k option"

definition prepareResignCA :: "('c, 'x, 'k, 'm, 'i, 'r) x509_lib \<Rightarrow> ('x, 'k) resign_state \<Rightarrow> ('x, 'k) resign_state" where
  "prepareResignCA X g = g\<lparr>ca_key := Some (PEM_read_ca X (EVP_PKEY_new X))\<rparr>"

definition cert_count :: "string \<Rightarrow> ('x, 'k) resign_state \<Rightarrow> nat" where
  "cert_count domain g = (if smap_get (cert_map g) domain = None then 0 else 1)"

text \<open>The order of the \<open>std::unordered_map\<close> is never used; its \<open>insert\<close> keeps an entry that is there already.\<close>

definition cert_insert :: "string \<Rightarrow> 'x \<times> 'k \<Rightarrow> ('x, 'k) resign_state \<Rightarrow> ('x, 'k) resign_state" where
  "cert_insert domain c g =
     (if smap_get (cert_map g) domain = None then g\<lparr>cert_map := smap_set domain c (cert_map g)\<rparr> else g)"

text \<open>The choice of the certificate for a domain in \<open>process_https_connection\<close>: a stored one, or a new
  one made from the certificate of the connected server.\<close>

definition endpoint_cert ::
    "('c, 'x, 'k, 'm, 'i, 'r) x509_lib \<Rightarrow> 'c \<Rightarrow> string \<Rightarrow> ('x, 'k) resign_state \<Rightarrow> (('x \<times> 'k) \<times> ('x, 'k) resign_state) option" where
  "endpoint_cert X c domain g =
     (if cert_count domain g > 0 then map_option (\<lambda>e. (e, g)) (smap_get (cert_map g) domain)
      else
        let g = (if ca_key g = None then prepareResignCA X g else g) in
        case ca_key g of
          None \<Rightarrow> None
        | Some ca \<Rightarrow>
            map_option (\<lambda>e. (e, cert_insert domain e g)) (prepare_resign_endpoint X ca c (X509_new X) (EVP_PKEY_new X)))"

section \<open>Attributes of a certificate\<close>

locale x509_attributes =
  fixes X :: "('c, 'x, 'k, 'm, 'i, 'r) x509_lib" and san :: "'x \<Rightarrow> string option" and signer :: "'x \<Rightarrow> 'k option"
  assumes subject_set: "X509_get_subject_name X (X509_set_subject_name X m x) = m"
    and subject_frame: "X509_get_subject_name X (X509_set_notBefore X t x) = X509_get_subject_name X x"
      "X509_get_subject_name X (X509_set_notAfter X t x) = X509_get_subject_name X x"
      "X509_get_subject_name X (X509_set_pubkey X k x) = X509_get_subject_name X x"
      "X509_get_subject_name X (X509_add_ext X e x) = X509_get_subject_name X x"
      "X509_get_subject_name X (X509_sign X k x) = X509_get_subject_name X x"
    and san_ext: "find_ext X x NID_subject_alt_name [0..X509_get_ext_count X x - 1] =
      map_option (Pair NID_subject_alt_name) (san x)"
    and san_add: "san x = None \<Longrightarrow> san (X509_add_ext X (NID_subject_alt_name, v) x) = Some v"
    and san_new: "san (X509_new X) = None"
    and san_frame: "san (X509_set_version X n x) = san x" "san (X509_set_serialNumber X i x) = san x"
      "san (X509_set_issuer_name X m x) = san x" "san (X509_set_subject_name X m x) = san x"
      "san (X509_set_notBefore X t x) = san x" "san (X509_set_notAfter X t x) = san x"
      "san (X509_set_pubkey X k x) = san x" "san (X509_sign X k x) = san x"
    and signed: "signer (X509_sign X k x) = Some k"
begin

text \<open>The names for which a certificate is accepted are those of the server, and the proxy's authority has
  signed it.\<close>

lemma resign_identity:
  assumes "prepare_resign_endpoint X ca c (X509_new X) key0 = Some (cert, key)"
  shows "\<exists>server. SSL_get_peer_certificate X c = Some server \<and>
    X509_get_subject_name X cert = X509_get_subject_name X server \<and> san cert = san server \<and> signer cert = Some ca"
proof -
  obtain server where server: "SSL_get_peer_certificate X c = Some server"
    using assms by (auto simp: prepare_resign_endpoint_def split: option.splits)
  have ext: "X509_get_subject_name X (add_ext_of X server NID_subject_alt_name x) = X509_get_subject_name X x"
    "san x = None \<Longrightarrow> san (add_ext_of X server NID_subject_alt_name x) = san server" for x
    by (cases "san server"; simp add: add_ext_of_def san_ext subject_frame san_add)+
  from assms server show ?thesis
    by (auto simp: prepare_resign_endpoint_def Let_def ext subject_set subject_frame san_new san_frame signed
        split: option.splits)
qed

end

section \<open>A miniature certificate\<close>

text \<open>An instance: a certificate has a subject, its extensions and its signer.\<close>

record mini_cert =
  cert_subject :: string
  cert_exts :: "(int \<times> string) list"
  cert_signer :: "nat option"

definition mini_san :: "mini_cert \<Rightarrow> string option" where
  "mini_san x = map_of (cert_exts x) NID_subject_alt_name"

definition mini_x509 :: "mini_cert option \<Rightarrow> ('c, mini_cert, nat, string, nat, nat) x509_lib" where
  "mini_x509 server =
     \<lparr>SSL_get_peer_certificate = (\<lambda>_. server),
      X509_new = \<lparr>cert_subject = [], cert_exts = [], cert_signer = None\<rparr>, EVP_PKEY_new = 0,
      X509_set_version = (\<lambda>_ x. x), X509_get_serialNumber = (\<lambda>_. None), X509_set_serialNumber = (\<lambda>_ x. x),
      X509_NAME_new = [], X509_NAME_add_entry_by_txt = (\<lambda>f v m. m @ ''/'' @ f @ ''='' @ v),
      X509_set_issuer_name = (\<lambda>_ x. x), X509_get_subject_name = cert_subject,
      X509_set_subject_name = (\<lambda>m x. x\<lparr>cert_subject := m\<rparr>), now = 0, X509_set_notBefore = (\<lambda>_ x. x),
      X509_set_notAfter = (\<lambda>_ x. x), BN_set_word = (\<lambda>_. 1), RSA_generate_key_ex = (\<lambda>_. (1, 7)),
      EVP_PKEY_set1_RSA = (\<lambda>r _. r), X509_set_pubkey = (\<lambda>_ x. x), X509_get_ext_count = (\<lambda>x. int (length (cert_exts x))),
      X509_get_ext = (\<lambda>x i. cert_exts x ! nat i), X509_add_ext = (\<lambda>e x. x\<lparr>cert_exts := cert_exts x @ [e]\<rparr>),
      X509_sign = (\<lambda>k x. x\<lparr>cert_signer := Some k\<rparr>), PEM_read_ca = (\<lambda>_. 42)\<rparr>"

lemma find_ext_nth:
  assumes "\<And>i. i < length es \<Longrightarrow> X509_get_ext X x (int (k + i)) = es ! i"
  shows "find_ext X x ext_id (map int [k ..< k + length es]) = map_option (Pair ext_id) (map_of es ext_id)"
  using assms
proof (induction es arbitrary: k)
  case (Cons e es)
  have "[k ..< k + length (e # es)] = k # [Suc k ..< Suc k + length es]" by (simp add: upt_rec)
  moreover have "X509_get_ext X x (int k) = e" using Cons.prems [of 0] by simp
  moreover have "X509_get_ext X x (int (Suc k + i)) = es ! i" if "i < length es" for i
    using Cons.prems [of "Suc i"] that by simp
  ultimately show ?case using Cons.IH [of "Suc k"] by (cases e) auto
qed simp

lemma upto_map_int: "[0..int n - 1] = map int [0 ..< n]"
  by (induction n) (simp_all add: upto_rec2)

interpretation mini_cert: x509_attributes "mini_x509 server" mini_san cert_signer for server
proof (unfold_locales, goal_cases)
  case (7 x)
  have "X509_get_ext (mini_x509 server) x (int (0 + i)) = cert_exts x ! i" for i by (simp add: mini_x509_def)
  from find_ext_nth [of "cert_exts x" "mini_x509 server" x 0, OF this] show ?case
    by (simp add: mini_x509_def mini_san_def upto_map_int)
qed (auto simp: mini_x509_def mini_san_def map_add_def)

section \<open>Properties\<close>



end
