(* ===== verification/Proxy_Https.thy ===== *)
theory Proxy_Https
  imports Proxy_Relay Resign
begin

text \<open>
  The decryption branch of \<open>SrsHttpxProxyConn::process_https_connection\<close>
  (\<open>src/src/app/srs_app_http_conn.cpp\<close>): TLS to the server, a certificate for the client that the proxy has
  signed itself, TLS to the client, and then the transactions of plain HTTP over the two TLS connections.
  The sockets are those of \<open>Proxy_Conn\<close>; \<open>clt_ssl\<close> and \<open>svr_ssl\<close> hold the states of the two
  TLS connections over them.  The certificates of the process are part of the outside world.
\<close>

section \<open>Definitions\<close>

record ('c, 'x, 'k, 'm, 'i, 'r) tls_lib =
  ossl :: "('c, 'x, 'k) openssl"
  x509 :: "('c, 'x, 'k, 'm, 'i, 'r) x509_lib"
  ssl_null :: 'c

record ('e, 'x, 'k) tls_world =
  outside :: 'e
  resign :: "('x, 'k) resign_state"

type_synonym ('n, 'e, 'x, 'k) tls_base = "('n, ('e, 'x, 'k) tls_world) SrsHttpxProxyConn"
type_synonym ('n, 'e, 'x, 'k) tls_proxy_lib = "('n, ('e, 'x, 'k) tls_world) proxy_lib"

record ('n, 'e, 'c, 'x, 'k) tls_conn =
  base :: "('n, 'e, 'x, 'k) tls_base"
  clt_ssl :: 'c
  svr_ssl :: 'c

type_synonym ('a, 'n, 'e, 'c, 'x, 'k) tls_step = "('a, ('n, 'e, 'c, 'x, 'k) tls_conn) step option"

subsection \<open>The two TLS connections\<close>

definition socket_transport :: "('n, 'e) proxy_lib \<Rightarrow> 'n SrsStSocket transport_io" where
  "socket_transport L = \<lparr>tr_read = SrsStSocket_read (lib_read L), tr_write = SrsStSocket_write (lib_write L)\<rparr>"

definition clt_conn :: "('n, 'e, 'c, 'x, 'k) tls_conn \<Rightarrow> ('c, 'n SrsStSocket) SrsSslConnection" where
  "clt_conn p = \<lparr>transport = clt_skt (base p), ssl = clt_ssl p\<rparr>"

definition put_clt :: "('c, 'n SrsStSocket, 'z) SrsSslConnection_scheme \<Rightarrow> ('n, 'e, 'c, 'x, 'k) tls_conn \<Rightarrow> ('n, 'e, 'c, 'x, 'k) tls_conn" where
  "put_clt s p = p\<lparr>base := (base p)\<lparr>clt_skt := transport s\<rparr>, clt_ssl := ssl s\<rparr>"

definition svr_io :: "('n, 'e) SrsHttpxProxyConn \<Rightarrow> 'n SrsStSocket option" where
  "svr_io b = Option.bind (svr_skt b) tcp_io"

definition put_io :: "'n SrsStSocket \<Rightarrow> ('n, 'e) SrsHttpxProxyConn \<Rightarrow> ('n, 'e) SrsHttpxProxyConn" where
  "put_io io b = b\<lparr>svr_skt := map_option (tcp_io_update (\<lambda>_. Some io)) (svr_skt b)\<rparr>"

definition put_svr :: "('c, 'n SrsStSocket, 'z) SrsSslConnection_scheme \<Rightarrow> ('n, 'e, 'c, 'x, 'k) tls_conn \<Rightarrow> ('n, 'e, 'c, 'x, 'k) tls_conn" where
  "put_svr s p = p\<lparr>base := put_io (transport s) (base p), svr_ssl := ssl s\<rparr>"

definition clt_tls_write ::
    "('c, 'x, 'k, 'm, 'i, 'r) tls_lib \<Rightarrow> ('n, 'e, 'x, 'k) tls_proxy_lib \<Rightarrow> string \<Rightarrow> ('n, 'e, 'c, 'x, 'k) tls_conn \<Rightarrow>
     (int, 'n, 'e, 'c, 'x, 'k) tls_step" where
  "clt_tls_write V L bs p =
     (case SrsSslConnection_write (ossl V) (socket_transport L) bs 0 (clt_conn p) of (e, _, s) \<Rightarrow> Some (Go e (put_clt s p)))"

definition svr_tls_write ::
    "('c, 'x, 'k, 'm, 'i, 'r) tls_lib \<Rightarrow> ('n, 'e, 'x, 'k) tls_proxy_lib \<Rightarrow> string \<Rightarrow> ('n, 'e, 'c, 'x, 'k) tls_conn \<Rightarrow>
     (int, 'n, 'e, 'c, 'x, 'k) tls_step" where
  "svr_tls_write V L bs p =
     (case svr_io (base p) of
        None \<Rightarrow> Some Crash
      | Some io \<Rightarrow>
          (case SrsSslConnection_write (ossl V) (socket_transport L) bs 0 \<lparr>transport = io, ssl = svr_ssl p\<rparr> of
             (e, _, s) \<Rightarrow> Some (Go e (put_svr s p))))"

text \<open>Sequences of writes whose errors are ignored.\<close>

fun clt_tls_writes ::
    "('c, 'x, 'k, 'm, 'i, 'r) tls_lib \<Rightarrow> ('n, 'e, 'x, 'k) tls_proxy_lib \<Rightarrow> string list \<Rightarrow> ('n, 'e, 'c, 'x, 'k) tls_conn \<Rightarrow>
     (unit, 'n, 'e, 'c, 'x, 'k) tls_step" where
  "clt_tls_writes V L [] p = Some (Go () p)"
| "clt_tls_writes V L (bs # bss) p = andthen (clt_tls_write V L bs p) (\<lambda>_. clt_tls_writes V L bss)"

fun svr_tls_writes ::
    "('c, 'x, 'k, 'm, 'i, 'r) tls_lib \<Rightarrow> ('n, 'e, 'x, 'k) tls_proxy_lib \<Rightarrow> string list \<Rightarrow> ('n, 'e, 'c, 'x, 'k) tls_conn \<Rightarrow>
     (unit, 'n, 'e, 'c, 'x, 'k) tls_step" where
  "svr_tls_writes V L [] p = Some (Go () p)"
| "svr_tls_writes V L (bs # bss) p = andthen (svr_tls_write V L bs p) (\<lambda>_. svr_tls_writes V L bss)"

subsection \<open>One transaction\<close>

text \<open>The parsers and the body readers read through \<open>ssl_reader\<close>, which is \<open>read\<close> of the TLS connection.\<close>

definition read_tls_request ::
    "('c, 'x, 'k, 'm, 'i, 'r) tls_lib \<Rightarrow> ('n, 'e, 'x, 'k) tls_proxy_lib \<Rightarrow> ('n, 'e, 'c, 'x, 'k) tls_conn \<Rightarrow>
     (SrsHttpMessage, 'n, 'e, 'c, 'x, 'k) tls_step" where
  "read_tls_request V L p =
     map_option (\<lambda>res. case res of
         PmOk m obj s \<Rightarrow> Go m (put_clt s (p\<lparr>base := (base p)\<lparr>px_parser := obj\<rparr>\<rparr>))
       | PmErr e obj s \<Rightarrow> Ret e (put_clt s (p\<lparr>base := (base p)\<lparr>px_parser := obj\<rparr>\<rparr>))
       | PmCrash \<Rightarrow> Crash)
       (parse_message (public_ip L) (ssl_reader (ossl V) (socket_transport L)) (px_parser (base p)) (clt_conn p))"

definition send_tls_block ::
    "('c, 'x, 'k, 'm, 'i, 'r) tls_lib \<Rightarrow> ('n, 'e, 'x, 'k) tls_proxy_lib \<Rightarrow> SrsHttpMessage \<Rightarrow> ('n, 'e, 'c, 'x, 'k) tls_conn \<Rightarrow>
     (unit, 'n, 'e, 'c, 'x, 'k) tls_step" where
  "send_tls_block V L m p =
     (case prepare403block L (host_no_port m) (client_ip (base p)) of
        None \<Rightarrow> None
      | Some (head, body) \<Rightarrow> andthen (clt_tls_writes V L [head, body] p) (\<lambda>_ p. Some (Ret ERROR_SUCCESS p)))"

definition read_tls_body ::
    "('c, 'x, 'k, 'm, 'i, 'r) tls_lib \<Rightarrow> ('n, 'e, 'x, 'k) tls_proxy_lib \<Rightarrow> SrsHttpMessage \<Rightarrow> ('n, 'e, 'c, 'x, 'k) tls_conn \<Rightarrow>
     (unit, 'n, 'e, 'c, 'x, 'k) tls_step" where
  "read_tls_body V L m p =
     (let store = (\<lambda>content s r. put_clt r (p\<lparr>base := (base p)\<lparr>req_body := content,
            px_parser := (px_parser (base p))\<lparr>sp_buffer := s\<rparr>\<rparr>\<rparr>)) in
      if m_chunked m \<or> m_content_length m > 0 then
        map_option (\<lambda>(content, res). case res of
            BdOk _ _ s r \<Rightarrow> Go () (store content s r)
          | BdErr _ _ s r \<Rightarrow> Go () (store content s r)
          | BdCrash \<Rightarrow> Crash)
          (body_read_all (ssl_reader (ossl V) (socket_transport L)) (req_body (base p)) m (sp_buffer (px_parser (base p)))
            (clt_conn p))
      else Some (Go () p))"

definition forward_tls_request ::
    "('c, 'x, 'k, 'm, 'i, 'r) tls_lib \<Rightarrow> ('n, 'e, 'x, 'k) tls_proxy_lib \<Rightarrow> SrsHttpMessage \<Rightarrow> ('n, 'e, 'c, 'x, 'k) tls_conn \<Rightarrow>
     (unit, 'n, 'e, 'c, 'x, 'k) tls_step" where
  "forward_tls_request V L m p =
     andthen (svr_tls_writes V L [raw_header m] p) (\<lambda>_ p.
     andthen (read_tls_body V L m p) (\<lambda>_ p.
       let body = req_body (base p) in
       if m_chunked m then svr_tls_writes V L [chunk_size_text (length body), CRLF, body, CRLF, LAST_CHUNK] p
       else if m_content_length m > 0 then svr_tls_writes V L [body] p
       else Some (Go () p)))"

definition read_tls_response ::
    "('c, 'x, 'k, 'm, 'i, 'r) tls_lib \<Rightarrow> ('n, 'e, 'x, 'k) tls_proxy_lib \<Rightarrow> ('n, 'e, 'c, 'x, 'k) tls_conn \<Rightarrow>
     (SrsHttpMessage, 'n, 'e, 'c, 'x, 'k) tls_step" where
  "read_tls_response V L p =
     (case svr_io (base p) of
        None \<Rightarrow> Some Crash
      | Some io \<Rightarrow>
          map_option (\<lambda>res. case res of
              PmOk m obj s \<Rightarrow> Go m (put_svr s (p\<lparr>base := (base p)\<lparr>server_parser := obj\<rparr>\<rparr>))
            | PmErr e obj s \<Rightarrow> Ret e (put_svr s (p\<lparr>base := (base p)\<lparr>server_parser := obj\<rparr>\<rparr>))
            | PmCrash \<Rightarrow> Crash)
            (parse_message (public_ip L) (ssl_reader (ossl V) (socket_transport L))
               (SrsHttpParser_initialize HTTP_RESPONSE (server_parser (base p))) \<lparr>transport = io, ssl = svr_ssl p\<rparr>))"

definition read_tls_part ::
    "('c, 'x, 'k, 'm, 'i, 'r) tls_lib \<Rightarrow> ('n, 'e, 'x, 'k) tls_proxy_lib \<Rightarrow> SrsHttpMessage \<Rightarrow> ('n, 'e, 'c, 'x, 'k) tls_conn \<Rightarrow>
     (bool \<times> string \<times> SrsHttpMessage, 'n, 'e, 'c, 'x, 'k) tls_step" where
  "read_tls_part V L m p =
     (let store = (\<lambda>s r. put_svr r (p\<lparr>base := (base p)\<lparr>server_parser := (server_parser (base p))\<lparr>sp_buffer := s\<rparr>\<rparr>\<rparr>)) in
      case svr_io (base p) of
        None \<Rightarrow> Some Crash
      | Some io \<Rightarrow>
          map_option (\<lambda>(finish, res). case res of
              BdOk bs b s r \<Rightarrow> Go (finish, bs, m\<lparr>m_body := b\<rparr>) (store s r)
            | BdErr e b s r \<Rightarrow> Ret e (store s r)
            | BdCrash \<Rightarrow> Crash)
            (body_read_part (ssl_reader (ossl V) (socket_transport L)) 4096 [] m (sp_buffer (server_parser (base p)))
               \<lparr>transport = io, ssl = svr_ssl p\<rparr>))"

text \<open>Unlike for plain HTTP, the errors of writing to the client are ignored.\<close>

definition end_of_tls_body ::
    "('c, 'x, 'k, 'm, 'i, 'r) tls_lib \<Rightarrow> ('n, 'e, 'x, 'k) tls_proxy_lib \<Rightarrow> SrsHttpMessage \<Rightarrow> ('n, 'e, 'c, 'x, 'k) tls_conn \<Rightarrow>
     (unit, 'n, 'e, 'c, 'x, 'k) tls_step" where
  "end_of_tls_body V L m p = (if m_chunked m then clt_tls_writes V L [LAST_CHUNK] p else Some (Go () p))"

definition relay_tls_part ::
    "('c, 'x, 'k, 'm, 'i, 'r) tls_lib \<Rightarrow> ('n, 'e, 'x, 'k) tls_proxy_lib \<Rightarrow> SrsHttpMessage \<Rightarrow> string \<Rightarrow> ('n, 'e, 'c, 'x, 'k) tls_conn \<Rightarrow>
     (unit, 'n, 'e, 'c, 'x, 'k) tls_step" where
  "relay_tls_part V L m bs p =
     (if m_chunked m then clt_tls_writes V L [chunk_size_text (length bs), CRLF, bs, CRLF] p
      else if m_content_length m > 0 then clt_tls_writes V L [bs] p
      else Some (Go () p))"

partial_function (option) relay_tls_loop ::
    "('c, 'x, 'k, 'm, 'i, 'r) tls_lib \<Rightarrow> ('n, 'e, 'x, 'k) tls_proxy_lib \<Rightarrow> SrsHttpMessage \<Rightarrow> ('n, 'e, 'c, 'x, 'k) tls_conn \<Rightarrow>
     (unit, 'n, 'e, 'c, 'x, 'k) tls_step" where
  "relay_tls_loop V L m p =
     andthen (read_tls_part V L m p) (\<lambda>part p. case part of (finish, bs, m) \<Rightarrow>
       if finish \<and> bs = [] then end_of_tls_body V L m p
       else andthen (relay_tls_part V L m bs p) (\<lambda>_ p.
         if finish then end_of_tls_body V L m p else relay_tls_loop V L m p))"

definition relay_tls_response ::
    "('c, 'x, 'k, 'm, 'i, 'r) tls_lib \<Rightarrow> ('n, 'e, 'x, 'k) tls_proxy_lib \<Rightarrow> SrsHttpMessage \<Rightarrow> ('n, 'e, 'c, 'x, 'k) tls_conn \<Rightarrow>
     (unit, 'n, 'e, 'c, 'x, 'k) tls_step" where
  "relay_tls_response V L m p =
     andthen (clt_tls_writes V L [raw_header m] p) (\<lambda>_ p.
       if m_chunked m \<or> m_content_length m > 0 then relay_tls_loop V L m p else Some (Go () p))"

text \<open>After a 101 response the tunnel runs over the sockets, below the two TLS connections.\<close>

definition on_sockets ::
    "(('n, 'e, 'x, 'k) tls_base \<Rightarrow> (unit, ('n, 'e, 'x, 'k) tls_base) step option) \<Rightarrow> ('n, 'e, 'c, 'x, 'k) tls_conn \<Rightarrow>
     (unit, 'n, 'e, 'c, 'x, 'k) tls_step" where
  "on_sockets f p =
     map_option (\<lambda>r. case r of Go _ b \<Rightarrow> Go () (p\<lparr>base := b\<rparr>) | Ret e b \<Rightarrow> Ret e (p\<lparr>base := b\<rparr>) | Crash \<Rightarrow> Crash) (f (base p))"

definition serve_tls_request ::
    "('c, 'x, 'k, 'm, 'i, 'r) tls_lib \<Rightarrow> ('n, 'e, 'x, 'k) tls_proxy_lib \<Rightarrow> SrsHttpMessage \<Rightarrow> ('n, 'e, 'c, 'x, 'k) tls_conn \<Rightarrow>
     (unit, 'n, 'e, 'c, 'x, 'k) tls_step" where
  "serve_tls_request V L m p =
     (if match_black_list (policy L) (host_no_port m) then send_tls_block V L m p
      else
        andthen (forward_tls_request V L m p) (\<lambda>_ p.
        andthen (read_tls_response V L p) (\<lambda>r p.
        andthen (relay_tls_response V L r p) (\<lambda>_ p.
          if \<not> m_keep_alive m \<or> \<not> m_keep_alive r then Some (Ret ERROR_SUCCESS p)
          else andthen (if m_status r = 101 then on_sockets (processHttpsTunnel L) p else Some (Go () p)) (\<lambda>_ p.
            Some (Go () (p\<lparr>base := (base p)\<lparr>access_log := access_log (base p) @
              access_line (client_ip (base p)) (host_no_port m) (m_status r), req_body := []\<rparr>\<rparr>)))))))"

partial_function (option) tls_transactions ::
    "('c, 'x, 'k, 'm, 'i, 'r) tls_lib \<Rightarrow> ('n, 'e, 'x, 'k) tls_proxy_lib \<Rightarrow> ('n, 'e, 'c, 'x, 'k) tls_conn \<Rightarrow>
     (unit, 'n, 'e, 'c, 'x, 'k) tls_step" where
  "tls_transactions V L p =
     andthen (read_tls_request V L p) (\<lambda>m p.
     andthen (serve_tls_request V L m p) (\<lambda>_ p. tls_transactions V L p))"

subsection \<open>The branch\<close>

definition server_handshake ::
    "('c, 'x, 'k, 'm, 'i, 'r) tls_lib \<Rightarrow> ('n, 'e, 'x, 'k) tls_proxy_lib \<Rightarrow> string \<Rightarrow> ('n, 'e, 'c, 'x, 'k) tls_conn \<Rightarrow>
     (unit, 'n, 'e, 'c, 'x, 'k) tls_step" where
  "server_handshake V L domain p =
     (case svr_io (base p) of
        None \<Rightarrow> Some Crash
      | Some io \<Rightarrow>
          map_option (\<lambda>r. case r of Go _ s \<Rightarrow> Go () (put_svr s p) | Ret e s \<Rightarrow> Ret e (put_svr s p) | Crash \<Rightarrow> Crash)
            (SrsSslClient_handshake (ossl V) (socket_transport L) (set_SNI domain (SrsSslClient_new io (ssl_null V)))))"

definition resign_cert ::
    "('c, 'x, 'k, 'm, 'i, 'r) tls_lib \<Rightarrow> string \<Rightarrow> ('n, 'e, 'c, 'x, 'k) tls_conn \<Rightarrow> ('x \<times> 'k, 'n, 'e, 'c, 'x, 'k) tls_step" where
  "resign_cert V domain p =
     (let w = world (base p) in
      case endpoint_cert (x509 V) (svr_ssl p) domain (resign w) of
        None \<Rightarrow> Some Crash
      | Some (c, g) \<Rightarrow> Some (Go c (p\<lparr>base := (base p)\<lparr>world := w\<lparr>resign := g\<rparr>\<rparr>\<rparr>)))"

definition client_handshake ::
    "('c, 'x, 'k, 'm, 'i, 'r) tls_lib \<Rightarrow> ('n, 'e, 'x, 'k) tls_proxy_lib \<Rightarrow> 'x \<Rightarrow> 'k \<Rightarrow> ('n, 'e, 'c, 'x, 'k) tls_conn \<Rightarrow>
     (unit, 'n, 'e, 'c, 'x, 'k) tls_step" where
  "client_handshake V L cert key p =
     map_option (\<lambda>r. case r of Go _ s \<Rightarrow> Go () (put_clt s p) | Ret e s \<Rightarrow> Ret e (put_clt s p) | Crash \<Rightarrow> Crash)
       (handshake_cert (ossl V) (socket_transport L) cert key (clt_conn (p\<lparr>clt_ssl := ssl_null V\<rparr>)))"

definition tls_branch ::
    "('c, 'x, 'k, 'm, 'i, 'r) tls_lib \<Rightarrow> ('n, 'e, 'x, 'k) tls_proxy_lib \<Rightarrow> SrsHttpMessage \<Rightarrow> ('n, 'e, 'c, 'x, 'k) tls_conn \<Rightarrow>
     (unit, 'n, 'e, 'c, 'x, 'k) tls_step" where
  "tls_branch V L m p =
     andthen (server_handshake V L (host_no_port m) p) (\<lambda>_ p.
     andthen (resign_cert V (host_no_port m) p) (\<lambda>c p.
     andthen (on_sockets (\<lambda>b. andthen (clt_write L ESTABLISHED b) (\<lambda>_ b. Some (Go () b))) p) (\<lambda>_ p.
     andthen (client_handshake V L (fst c) (snd c) p) (\<lambda>_ p.
       tls_transactions V L p))))"

text \<open>The argument \<open>decrypt\<close> of \<open>serve_connect\<close>: the TLS connections are made here and freed with the connection.\<close>

definition decrypt_connection ::
    "('c, 'x, 'k, 'm, 'i, 'r) tls_lib \<Rightarrow> ('n, 'e, 'x, 'k) tls_proxy_lib \<Rightarrow> SrsHttpMessage \<Rightarrow> ('n, 'e, 'x, 'k) tls_base \<Rightarrow>
     (unit, ('n, 'e, 'x, 'k) tls_base) step option" where
  "decrypt_connection V L m b =
     map_option (\<lambda>r. case r of Go _ p \<Rightarrow> Go () (base p) | Ret e p \<Rightarrow> Ret e (base p) | Crash \<Rightarrow> Crash)
       (tls_branch V L m \<lparr>base = b, clt_ssl = ssl_null V, svr_ssl = ssl_null V\<rparr>)"

section \<open>The network and the library\<close>

context proxy_net
begin

lemma transport_write:
  assumes "tr_write (socket_transport L) bs s = (e, s')"
  shows "outgoing (net s') = outgoing (net s) @ bs \<and> (bs \<noteq> [] \<longrightarrow> e = ERROR_SUCCESS)"
proof (rule socket_write_ok [of bs s])
  fix e0 s0
  assume "SrsStSocket_write (lib_write L) bs s = (e0, s0)" "outgoing (net s0) = outgoing (net s) @ bs"
    "bs \<noteq> [] \<longrightarrow> e0 = ERROR_SUCCESS"
  with assms show ?thesis by (simp add: socket_transport_def)
qed

end

locale tls_net = proxy_net L incoming outgoing + ssl_writing "ossl V" wire unseal
  for L :: "('n, 'e, 'x, 'k) tls_proxy_lib" and incoming outgoing and V :: "('c, 'x, 'k, 'm, 'i, 'r) tls_lib" and wire unseal

sublocale tls_net < snd: ssl_sending "ossl V" wire unseal "socket_transport L" "\<lambda>s. outgoing (net s)"
proof unfold_locales
  fix bs s s'
  assume "tr_write (socket_transport L) bs s = (0, s')"
  from transport_write [OF this] show "outgoing (net s') = outgoing (net s) @ bs" by simp
qed

context tls_net
begin

text \<open>A TLS connection over the socket \<open>io\<close> with the state \<open>c\<close>: behind \<open>pre\<close> the ciphertext \<open>w\<close> was sent,
  and nothing is held back.\<close>

definition sealed :: "string \<Rightarrow> string \<Rightarrow> 'n SrsStSocket \<Rightarrow> 'c \<Rightarrow> bool" where
  "sealed pre w io c \<longleftrightarrow> wire c w \<and> BIO_get_mem_data (ossl V) c = [] \<and> outgoing (net io) = pre @ w"

lemma tls_write:
  assumes "sealed pre w io c" "length bs < 2 ^ 31"
  shows "\<exists>nw s' w'. SrsSslConnection_write (ossl V) (socket_transport L) bs 0 \<lparr>transport = io, ssl = c\<rparr> = (0, nw, s') \<and>
    sealed pre w' (transport s') (ssl s') \<and> unseal w' = unseal w @ bs"
proof -
  obtain e nw s' where r: "SrsSslConnection_write (ossl V) (socket_transport L) bs 0 \<lparr>transport = io, ssl = c\<rparr> = (e, nw, s')"
    by (metis prod_cases3)
  have "\<not> (b \<noteq> [] \<and> e \<noteq> 0 \<and> tr_write (socket_transport L) b t = (e, t'))" for b t t'
    using transport_write [of b t e t'] by auto
  with snd.write_loop_sends [of pre w "\<lparr>transport = io, ssl = c\<rparr>" bs "length bs" 0 e nw s'] assms r
  show ?thesis by (auto simp: snd.in_step_def sealed_def SrsSslConnection_write_def)
qed

lemma clt_tls_writes_ok:
  assumes "sealed pre w (clt_skt (base p)) (clt_ssl p)" "\<forall>bs \<in> set bss. length bs < 2 ^ 31"
  shows "\<exists>io c w'. clt_tls_writes V L bss p = Some (Go () (p\<lparr>base := (base p)\<lparr>clt_skt := io\<rparr>, clt_ssl := c\<rparr>)) \<and>
    sealed pre w' io c \<and> unseal w' = unseal w @ concat bss"
  using assms
proof (induction bss arbitrary: p w)
  case Nil
  then show ?case by (intro exI [of _ "clt_skt (base p)"] exI [of _ "clt_ssl p"] exI [of _ w]) simp
next
  case (Cons bs bss)
  from tls_write [OF Cons.prems(1), of bs] Cons.prems(2) obtain nw s' w1 where
    1: "SrsSslConnection_write (ossl V) (socket_transport L) bs 0 (clt_conn p) = (0, nw, s')"
    "sealed pre w1 (transport s') (ssl s')" "unseal w1 = unseal w @ bs" by (auto simp: clt_conn_def)
  from Cons.IH [of w1 "put_clt s' p"] 1(2,3) Cons.prems(2) obtain io c w' where
    "clt_tls_writes V L bss (put_clt s' p) = Some (Go () (p\<lparr>base := (base p)\<lparr>clt_skt := io\<rparr>, clt_ssl := c\<rparr>))"
    "sealed pre w' io c" "unseal w' = unseal w @ bs @ concat bss" by (auto simp: put_clt_def)
  with 1(1) show ?case by (auto simp: clt_tls_write_def)
qed

lemma svr_io_put: "svr_io b \<noteq> None \<Longrightarrow> svr_io (put_io io b) = Some io"
  by (auto simp: svr_io_def put_io_def bind_eq_Some_conv)

lemma put_io_put: "put_io io (put_io io' b) = put_io io b"
  by (cases "svr_skt b") (simp_all add: put_io_def)

lemma svr_tls_writes_ok:
  assumes "svr_io (base p) = Some io0" "sealed pre w io0 (svr_ssl p)" "\<forall>bs \<in> set bss. length bs < 2 ^ 31"
  shows "\<exists>io c w'. svr_tls_writes V L bss p = Some (Go () (p\<lparr>base := put_io io (base p), svr_ssl := c\<rparr>)) \<and>
    sealed pre w' io c \<and> unseal w' = unseal w @ concat bss"
  using assms
proof (induction bss arbitrary: p w io0)
  case Nil
  have "put_io io0 (base p) = base p" using Nil.prems(1)
    by (auto simp: svr_io_def put_io_def bind_eq_Some_conv)
  with Nil show ?case by (intro exI [of _ io0] exI [of _ "svr_ssl p"] exI [of _ w]) simp
next
  case (Cons bs bss)
  from tls_write [OF Cons.prems(2), of bs] Cons.prems(3) obtain nw s' w1 where
    1: "SrsSslConnection_write (ossl V) (socket_transport L) bs 0 \<lparr>transport = io0, ssl = svr_ssl p\<rparr> = (0, nw, s')"
    "sealed pre w1 (transport s') (ssl s')" "unseal w1 = unseal w @ bs" by auto
  from Cons.IH [of "put_svr s' p" "transport s'" w1] 1(2,3) Cons.prems(1,3) obtain io c w' where
    "svr_tls_writes V L bss (put_svr s' p) = Some (Go () (p\<lparr>base := put_io io (base p), svr_ssl := c\<rparr>))"
    "sealed pre w' io c" "unseal w' = unseal w @ bs @ concat bss"
    by (auto simp: put_svr_def svr_io_put put_io_put)
  with 1(1) Cons.prems(1) show ?case by (auto simp: svr_tls_write_def)
qed

end

section \<open>Scripted peers\<close>

definition mini_tls :: "(mini, unit, unit, unit, unit, unit) tls_lib" where
  "mini_tls =
     \<lparr>ossl = mini_ssl,
      x509 = \<lparr>SSL_get_peer_certificate = (\<lambda>_. Some ()), X509_new = (), EVP_PKEY_new = (), X509_set_version = (\<lambda>_ x. x),
        X509_get_serialNumber = (\<lambda>_. None), X509_set_serialNumber = (\<lambda>_ x. x), X509_NAME_new = (),
        X509_NAME_add_entry_by_txt = (\<lambda>_ _ m. m), X509_set_issuer_name = (\<lambda>_ x. x), X509_get_subject_name = (\<lambda>_. ()),
        X509_set_subject_name = (\<lambda>_ x. x), now = 0, X509_set_notBefore = (\<lambda>_ x. x), X509_set_notAfter = (\<lambda>_ x. x),
        BN_set_word = (\<lambda>_. 1), RSA_generate_key_ex = (\<lambda>_. (1, ())), EVP_PKEY_set1_RSA = (\<lambda>_ k. k),
        X509_set_pubkey = (\<lambda>_ x. x), X509_get_ext_count = (\<lambda>_. 0), X509_get_ext = (\<lambda>_ _. (0, [])), X509_add_ext = (\<lambda>_ x. x),
        X509_sign = (\<lambda>_ x. x), PEM_read_ca = (\<lambda>k. k)\<rparr>,
      ssl_null = \<lparr>phase = 0, in_buffer = [], out_buffer = []\<rparr>\<rparr>"

definition script_tls_lib :: "SrsPolicy \<Rightarrow> (script, unit, unit, unit) tls_proxy_lib" where
  "script_tls_lib pol =
     \<lparr>lib_read = script_read, lib_peek = script_peek, lib_write = script_write,
      lib_dialer = \<lparr>do_resolve = (\<lambda>h e. (length h, e)), sys_socket = (\<lambda>e. (True, e)), st_netfd_open_socket = (\<lambda>e. (True, e)),
        st_connect = (\<lambda>_ _ _ e. (None, e))\<rparr>,
      lib_poll = (\<lambda>_ _ e. (None, e)), policy = pol, notification_page = ''blocked'', next_hip = None,
      public_ip = ''127.0.0.1'', stray_port = 0, stray_buf = replicate 8 (CHR 0x00), pull = ERROR_SUCCESS\<rparr>"

interpretation script_tls: tls_net "script_tls_lib pol" "\<lambda>w. concat (segments w)" delivered mini_tls "\<lambda>c w. even (length w)" unpair
  for pol
proof (rule tls_net.intro, rule proxy_net.intro)
  show "st_reliable (lib_read (script_tls_lib pol)) (\<lambda>w. concat (segments w))"
    using script_in.st_reliable_axioms by (simp add: script_tls_lib_def)
  show "ssl_writing (ossl mini_tls) (\<lambda>c w. even (length w)) unpair"
    using mini_out.ssl_writing_axioms by (simp add: mini_tls_def)
qed (auto simp: script_tls_lib_def script_read_def script_write_def split: list.splits if_splits)

definition tls_peers :: "(script, unit, mini, unit, unit) tls_conn" where
  "tls_peers =
     \<lparr>base = (SrsHttpxProxyConn_new (\<lambda>_. CHR ''x'') (SrsStSocket_init \<lparr>segments = [], delivered = ''SF''\<rparr>) ''10.0.0.1''
        \<lparr>outside = (), resign = \<lparr>cert_map = [], ca_key = None\<rparr>\<rparr>)
          \<lparr>svr_skt := Some ((SrsTcpClient_new ''a.com'' 443 5000000)
             \<lparr>tcp_io := Some (SrsStSocket_init \<lparr>segments = [], delivered = ''HK''\<rparr>)\<rparr>)\<rparr>,
      clt_ssl = \<lparr>phase = 2, in_buffer = [], out_buffer = []\<rparr>, svr_ssl = \<lparr>phase = 2, in_buffer = [], out_buffer = []\<rparr>\<rparr>"

lemma read_tls_body_server:
  assumes "read_tls_body V L m p = Some (Go () p')"
  shows "svr_io (base p') = svr_io (base p) \<and> svr_ssl p' = svr_ssl p"
proof (cases "m_chunked m \<or> m_content_length m > 0")
  case True
  with assms obtain content res where
    "body_read_all (ssl_reader (ossl V) (socket_transport L)) (req_body (base p)) m (sp_buffer (px_parser (base p))) (clt_conn p) =
      Some (content, res)"
    by (auto simp: read_tls_body_def)
  with True assms show ?thesis
    by (cases res) (auto simp: read_tls_body_def Let_def put_clt_def svr_io_def)
qed (use assms in \<open>simp add: read_tls_body_def\<close>)

lemma svr_tls_writes_body: "svr_tls_writes V L bss p = Some (Go () p') \<Longrightarrow> req_body (base p') = req_body (base p)"
  by (induction bss arbitrary: p)
    (auto simp: svr_tls_write_def put_svr_def put_io_def split: option.splits prod.splits)

lemma chunk_size_small: "length (chunk_size_text n) < 2 ^ 31"
proof -
  have "length (to_hex (n mod 2 ^ 32)) \<le> 8" by (rule length_to_hex) simp_all
  then show ?thesis by (simp add: chunk_size_text_def)
qed

context tls_net
begin

lemma forward_sealed:
  assumes "svr_io (base p) = Some io" "sealed pre w io (svr_ssl p)" "length (raw_header m) < 2 ^ 31"
    "forward_tls_request V L m p = Some (Go () p')" "length (req_body (base p')) < 2 ^ 31"
  shows "\<exists>io' w'. svr_io (base p') = Some io' \<and> sealed pre w' io' (svr_ssl p') \<and>
    unseal w' = unseal w @ raw_header m @
      (if m_chunked m then chunk_size_text (length (req_body (base p'))) @ CRLF @ req_body (base p') @ CRLF @ LAST_CHUNK
       else if m_content_length m > 0 then req_body (base p') else [])"
proof -
  from svr_tls_writes_ok [OF assms(1,2), of "[raw_header m]"] assms(3) obtain io1 c1 w1 where
    head: "svr_tls_writes V L [raw_header m] p = Some (Go () (p\<lparr>base := put_io io1 (base p), svr_ssl := c1\<rparr>))"
    "sealed pre w1 io1 c1" "unseal w1 = unseal w @ raw_header m" by auto
  let ?p1 = "p\<lparr>base := put_io io1 (base p), svr_ssl := c1\<rparr>"
  have io1: "svr_io (base ?p1) = Some io1" using assms(1) svr_io_put [of "base p" io1] by simp
  from assms(4) head(1) obtain p2 where body: "read_tls_body V L m ?p1 = Some (Go () p2)"
    by (auto simp: forward_tls_request_def andthen_Go_iff simp del: svr_tls_writes.simps)
  have keep: "svr_io (base p2) = Some io1" "svr_ssl p2 = c1" using read_tls_body_server [OF body] io1 by simp_all
  define b where "b = req_body (base p2)"
  define bss where "bss = (if m_chunked m then [chunk_size_text (length b), CRLF, b, CRLF, LAST_CHUNK]
    else if m_content_length m > 0 then [b] else [])"
  have run: "svr_tls_writes V L bss p2 = Some (Go () p')"
    using assms(4) head(1) body
    by (auto simp: forward_tls_request_def Let_def bss_def b_def simp del: svr_tls_writes.simps(2) split: if_splits)
  have b: "b = req_body (base p')" using svr_tls_writes_body [OF run] by (simp add: b_def)
  then have "\<forall>x \<in> set bss. length x < 2 ^ 31"
    using assms(5) by (auto simp: bss_def chunk_size_small [simplified] LAST_CHUNK_def)
  from svr_tls_writes_ok [OF keep(1) _ this, of pre w1] head(2) keep(2) run obtain io c w' where
    p': "p' = p2\<lparr>base := put_io io (base p2), svr_ssl := c\<rparr>" "sealed pre w' io c" "unseal w' = unseal w1 @ concat bss"
    by auto
  then have "svr_io (base p') = Some io" "sealed pre w' io (svr_ssl p')" using keep(1) by (simp_all add: svr_io_put)
  moreover have "concat bss = (if m_chunked m then chunk_size_text (length b) @ CRLF @ b @ CRLF @ LAST_CHUNK
      else if m_content_length m > 0 then b else [])" by (simp add: bss_def)
  ultimately show ?thesis using p'(3) head(3) unfolding b by (intro exI [of _ io] exI [of _ w']) simp
qed

end

section \<open>Properties\<close>

lemma length_nat_to_str: "length (nat_to_str n) \<le> Suc n"
proof (induction n rule: nat_to_str.induct)
  case (1 n)
  then show ?case by (subst nat_to_str.simps) (cases "n < 10"; fastforce)
qed

text \<open>C6. Inside a decrypted connection the black list is enforced: a request for a blocked host is not sent to the
  server; the client reads one complete 403 response with the page for the host from its TLS connection,
  and the handler ends.\<close>

theorem decrypted_request_blocked:
  assumes "proxy_net L incoming outgoing" "ssl_writing (ossl V) wire unseal"
    "match_black_list (policy L) (host_no_port m)"
    "wire (clt_ssl p) w" "BIO_get_mem_data (ossl V) (clt_ssl p) = []" "outgoing (net (clt_skt (base p))) = pre @ w"
    "getNotification (notification_page L) (host_no_port m) (client_ip (base p)) = Some page" "length page < 2 ^ 30"
  shows "\<exists>p' w'. serve_tls_request V L m p = Some (Ret ERROR_SUCCESS p') \<and>
    svr_skt (base p') = svr_skt (base p) \<and> svr_ssl p' = svr_ssl p \<and> world (base p') = world (base p) \<and>
    outgoing (net (clt_skt (base p'))) = pre @ w' \<and>
    unseal w' = unseal w @ ''HTTP/1.1 403 Forbidden'' @ CRLF @ ''Connection: close'' @ CRLF @
      ''Content-Length: '' @ srs_int2str (int (length page)) @ CRLF @ ''Content-Type: text/html'' @ CRLF @ CRLF @ page"
proof -
  have net: "tls_net L incoming outgoing V wire unseal" using assms(1,2) by (rule tls_net.intro)
  let ?head = "''HTTP/1.1 403 Forbidden'' @ CRLF @ ''Connection: close'' @ CRLF @
    ''Content-Length: '' @ srs_int2str (int (length page)) @ CRLF @ ''Content-Type: text/html'' @ CRLF @ CRLF"
  have block: "prepare403block L (host_no_port m) (client_ip (base p)) = Some (?head, page)"
    by (simp add: prepare403block_def assms(7) block_head_text)
  have "length (srs_int2str (int (length page))) \<le> Suc (length page)"
    using length_nat_to_str by (simp add: srs_int2str_def int_to_str_def)
  then have small: "\<forall>bs \<in> set [?head, page]. length bs < 2 ^ 31" using assms(8) by simp
  from tls_net.clt_tls_writes_ok [OF net _ small, of pre w p] assms(4-6) obtain io c w' where
    wr: "clt_tls_writes V L [?head, page] p = Some (Go () (p\<lparr>base := (base p)\<lparr>clt_skt := io\<rparr>, clt_ssl := c\<rparr>))"
    "outgoing (net io) = pre @ w'" "unseal w' = unseal w @ concat [?head, page]"
    by (auto simp: tls_net.sealed_def [OF net])
  from assms(3) wr(1) have "serve_tls_request V L m p =
      Some (Ret ERROR_SUCCESS (p\<lparr>base := (base p)\<lparr>clt_skt := io\<rparr>, clt_ssl := c\<rparr>))"
    by (simp add: serve_tls_request_def send_tls_block_def block)
  with wr(2,3) show ?thesis
    by (intro exI [of _ "p\<lparr>base := (base p)\<lparr>clt_skt := io\<rparr>, clt_ssl := c\<rparr>"] exI [of _ w']) simp
qed

theorem decrypted_request_blocked_witness:
  "\<exists>p' w'. serve_tls_request mini_tls (script_tls_lib \<lparr>black_list_vec = [''a.com''], tunnel_domain_vec = [], https_descrypt_enable = True\<rparr>)
      (SrsHttpMessage_new\<lparr>host_no_port := ''www.a.com''\<rparr>) tls_peers = Some (Ret ERROR_SUCCESS p') \<and>
    svr_skt (base p') = svr_skt (base tls_peers) \<and> delivered (net (clt_skt (base p'))) = ''SF'' @ w' \<and>
    (\<exists>page. unpair w' = ''HTTP/1.1 403 Forbidden'' @ CRLF @ ''Connection: close'' @ CRLF @
      ''Content-Length: '' @ srs_int2str (int (length page)) @ CRLF @ ''Content-Type: text/html'' @ CRLF @ CRLF @ page)"
proof -
  let ?L = "script_tls_lib \<lparr>black_list_vec = [''a.com''], tunnel_domain_vec = [], https_descrypt_enable = True\<rparr>"
  let ?m = "SrsHttpMessage_new\<lparr>host_no_port := ''www.a.com''\<rparr>"
  have black: "match_black_list (policy ?L) (host_no_port ?m)" by (simp add: match_black_list_def script_tls_lib_def)
  have st: "BIO_get_mem_data (ossl mini_tls) (clt_ssl tls_peers) = []"
    "delivered (net (clt_skt (base tls_peers))) = ''SF'' @ []"
    by (simp_all add: mini_tls_def mini_ssl_def tls_peers_def SrsHttpxProxyConn_new_def SrsStSocket_init_def)
  have "getNotification (notification_page ?L) (host_no_port ?m) (client_ip (base tls_peers)) = Some ''blocked''"
    by (simp add: script_tls_lib_def getNotification_def srs_string_replace_def replace_loop.simps str_find_from_def)
  from decrypted_request_blocked [OF script_tls.proxy_net_axioms script_tls.ssl_writing_axioms black _ st this]
  show ?thesis by fastforce
qed



end
