(* ===== verification/Coroutine.thy ===== *)
theory Coroutine
  imports Kernel_Error "HOL-Library.Multiset"
begin

text \<open>
  Coroutines (\<open>src/src/app/srs_app_st.cpp\<close>): \<open>SrsFastCoroutine\<close>, behind which \<open>SrsSTCoroutine\<close> hides,
  \<open>SrsDummyCoroutine\<close> and \<open>SrsWaitGroup\<close>; and the two workers that are built on them, \<open>SrsFastTimer\<close>
  (\<open>src/src/app/srs_app_hourglass.cpp\<close>) and \<open>SrsAsyncCallWorker\<close>
  (\<open>src/src/app/srs_app_async_call.cpp\<close>).  State Threads switches between coroutines only where one of them
  waits, so every piece of code between two such points is one step; \<open>stop\<close> waits in \<open>st_thread_join\<close> and is cut
  in two there.  The relation \<open>co_step\<close> interleaves the pieces of \<open>start\<close>, \<open>interrupt\<close>, \<open>stop\<close> and of the
  coroutine itself.  The code compares error pointers, so an error is a numbered object with its code.
\<close>

section \<open>Definitions\<close>

abbreviation ERROR_ST_CREATE_CYCLE_THREAD :: int where "ERROR_ST_CREATE_CYCLE_THREAD \<equiv> 1017"
abbreviation ERROR_THREAD_DISPOSED :: int where "ERROR_THREAD_DISPOSED \<equiv> 1069"
abbreviation ERROR_THREAD_INTERRUPED :: int where "ERROR_THREAD_INTERRUPED \<equiv> 1070"
abbreviation ERROR_THREAD_TERMINATED :: int where "ERROR_THREAD_TERMINATED \<equiv> 1071"
abbreviation ERROR_THREAD_DUMMY :: int where "ERROR_THREAD_DUMMY \<equiv> 1072"
abbreviation ERROR_THREAD_STARTED :: int where "ERROR_THREAD_STARTED \<equiv> 1078"

subsection \<open>\<open>SrsFastCoroutine\<close>\<close>

text \<open>\<open>None\<close> is the null pointer \<open>srs_success\<close>; \<open>next_err\<close> is the number of the next object, \<open>trd_interrupts\<close>
  counts the calls of \<open>srs_thread_interrupt\<close>.\<close>

type_synonym err_ptr = "(nat \<times> int) option"

record SrsFastCoroutine =
  co_cid :: string
  trd :: bool
  trd_err :: err_ptr
  started :: bool
  interrupted :: bool
  disposed :: bool
  cycle_done :: bool
  stopping :: bool
  stack_size :: int
  next_err :: nat
  trd_interrupts :: nat

definition SrsFastCoroutine_new :: "string \<Rightarrow> SrsFastCoroutine" where
  "SrsFastCoroutine_new cid =
     \<lparr>co_cid = cid, trd = False, trd_err = None, started = False, interrupted = False, disposed = False, cycle_done = False,
      stopping = False, stack_size = 0, next_err = 0, trd_interrupts = 0\<rparr>"

definition set_stack_size :: "int \<Rightarrow> SrsFastCoroutine \<Rightarrow> SrsFastCoroutine" where
  "set_stack_size v c = c\<lparr>stack_size := v\<rparr>"

definition err_alloc :: "int \<Rightarrow> SrsFastCoroutine \<Rightarrow> err_ptr \<times> SrsFastCoroutine" where
  "err_alloc code c = (Some (next_err c, code), c\<lparr>next_err := next_err c + 1\<rparr>)"

text \<open>A new error is stored, or only when there is none yet.\<close>

definition set_trd_err :: "int \<Rightarrow> SrsFastCoroutine \<Rightarrow> SrsFastCoroutine" where
  "set_trd_err code c = (case err_alloc code c of (e, c) \<Rightarrow> c\<lparr>trd_err := e\<rparr>)"

definition first_trd_err :: "int \<Rightarrow> SrsFastCoroutine \<Rightarrow> SrsFastCoroutine" where
  "first_trd_err code c = (if trd_err c = None then set_trd_err code c else c)"

text \<open>\<open>start\<close>: whether State Threads creates the thread is the argument \<open>created\<close>.\<close>

definition co_start :: "bool \<Rightarrow> SrsFastCoroutine \<Rightarrow> int \<times> SrsFastCoroutine" where
  "co_start created c =
     (if started c \<or> disposed c then
        let err = (if disposed c then ERROR_THREAD_DISPOSED else ERROR_THREAD_STARTED) in (err, first_trd_err err c)
      else if \<not> created then (ERROR_ST_CREATE_CYCLE_THREAD, set_trd_err ERROR_ST_CREATE_CYCLE_THREAD c)
      else (ERROR_SUCCESS, c\<lparr>trd := True, started := True\<rparr>))"

definition co_interrupt :: "SrsFastCoroutine \<Rightarrow> SrsFastCoroutine" where
  "co_interrupt c =
     (if \<not> started c \<or> interrupted c \<or> cycle_done c then c
      else
        let c = first_trd_err ERROR_THREAD_INTERRUPED (c\<lparr>interrupted := True\<rparr>)
        in c\<lparr>trd_interrupts := trd_interrupts c + 1\<rparr>)"

definition co_pull :: "SrsFastCoroutine \<Rightarrow> int" where
  "co_pull c = (case trd_err c of None \<Rightarrow> ERROR_SUCCESS | Some (_, code) \<Rightarrow> code)"

text \<open>The end of \<open>pfn\<close> and \<open>cycle\<close>, when the handler has returned the code \<open>e\<close>: the result is what
  \<open>st_thread_join\<close> will give.\<close>

definition co_finish :: "int \<Rightarrow> SrsFastCoroutine \<Rightarrow> err_ptr \<times> SrsFastCoroutine" where
  "co_finish e c =
     (if e \<noteq> ERROR_SUCCESS then case err_alloc e c of (err, c) \<Rightarrow> (err, c\<lparr>trd_err := err\<rparr>)
      else (None, c\<lparr>cycle_done := True\<rparr>))"

text \<open>\<open>stop\<close> up to the join, for a coroutine that is not disposed; and behind the join, with its result.
  \<open>None\<close> is a failed assertion.\<close>

definition stop_begin :: "SrsFastCoroutine \<Rightarrow> SrsFastCoroutine" where
  "stop_begin c = co_interrupt (c\<lparr>disposed := True, stopping := True\<rparr>)"

definition stop_end :: "(int \<times> err_ptr) option \<Rightarrow> SrsFastCoroutine \<Rightarrow> SrsFastCoroutine option" where
  "stop_end joined c =
     (if (case joined of None \<Rightarrow> False | Some (r0, res) \<Rightarrow> r0 \<noteq> 0 \<or> (res \<noteq> None \<and> trd_err c \<noteq> res)) then None
      else
        let c = (if trd_err c = None \<and> \<not> cycle_done c then set_trd_err ERROR_THREAD_TERMINATED c else c)
        in Some (c\<lparr>stopping := False\<rparr>))"

text \<open>\<open>stop\<close> of a coroutine that is disposed already: another \<open>stop\<close> must not be waiting.\<close>

definition stop_again :: "SrsFastCoroutine \<Rightarrow> SrsFastCoroutine option" where
  "stop_again c = (if stopping c then None else Some c)"

subsection \<open>\<open>SrsDummyCoroutine\<close> and \<open>SrsWaitGroup\<close>\<close>

definition dummy_start :: int where "dummy_start = ERROR_THREAD_DUMMY"

definition dummy_pull :: int where "dummy_pull = ERROR_THREAD_DUMMY"

record SrsWaitGroup =
  wg_nn :: int
  wg_signals :: nat

definition wg_add :: "int \<Rightarrow> SrsWaitGroup \<Rightarrow> SrsWaitGroup" where
  "wg_add n w = w\<lparr>wg_nn := wg_nn w + n\<rparr>"

definition wg_done :: "SrsWaitGroup \<Rightarrow> SrsWaitGroup" where
  "wg_done w =
     (let w = w\<lparr>wg_nn := wg_nn w - 1\<rparr> in if wg_nn w \<le> 0 then w\<lparr>wg_signals := wg_signals w + 1\<rparr> else w)"

text \<open>Whether \<open>wait\<close> waits for a signal.\<close>

definition wg_waits :: "SrsWaitGroup \<Rightarrow> bool" where
  "wg_waits w \<longleftrightarrow> wg_nn w > 0"

subsection \<open>\<open>SrsFastTimer\<close>\<close>

text \<open>A turn of the timer calls the handlers by their index; a handler may change the list (and anything else
  in the state \<open>'s\<close> around it), and its error is ignored.\<close>

definition timer_subscribe :: "'h \<Rightarrow> 'h list \<Rightarrow> 'h list" where
  "timer_subscribe t hs = (if t \<in> set hs then hs else hs @ [t])"

definition timer_unsubscribe :: "'h \<Rightarrow> 'h list \<Rightarrow> 'h list" where
  "timer_unsubscribe t hs = remove1 t hs"

partial_function (option) timer_turn :: "('h \<Rightarrow> 'h list \<times> 's \<Rightarrow> 'h list \<times> 's) \<Rightarrow> nat \<Rightarrow> 'h list \<times> 's \<Rightarrow> ('h list \<times> 's) option" where
  "timer_turn on_timer i st =
     (if i < length (fst st) then timer_turn on_timer (i + 1) (on_timer (fst st ! i) st) else Some st)"

subsection \<open>\<open>SrsAsyncCallWorker\<close>\<close>

text \<open>The tasks that wait; for every flush that is running, what is left of its copy; and the tasks that
  were called and freed, in their order.  A task may give up the processor, so several flushes (of \<open>cycle\<close> and
  of \<open>stop\<close>) may run at a time.\<close>

record 'k SrsAsyncCallWorker =
  aw_tasks :: "'k list"
  aw_flushes :: "'k list list"
  aw_called :: "'k list"

definition SrsAsyncCallWorker_new :: "'k SrsAsyncCallWorker" where
  "SrsAsyncCallWorker_new = \<lparr>aw_tasks = [], aw_flushes = [], aw_called = []\<rparr>"

definition async_execute :: "'k \<Rightarrow> 'k SrsAsyncCallWorker \<Rightarrow> 'k SrsAsyncCallWorker" where
  "async_execute t w = w\<lparr>aw_tasks := aw_tasks w @ [t]\<rparr>"

definition flush_begin :: "'k SrsAsyncCallWorker \<Rightarrow> 'k SrsAsyncCallWorker" where
  "flush_begin w =
     (if aw_tasks w = [] then w else w\<lparr>aw_flushes := aw_flushes w @ [aw_tasks w], aw_tasks := []\<rparr>)"

definition flush_task :: "nat \<Rightarrow> 'k SrsAsyncCallWorker \<Rightarrow> 'k SrsAsyncCallWorker" where
  "flush_task i w =
     (if i < length (aw_flushes w) then
        case aw_flushes w ! i of
          [] \<Rightarrow> w\<lparr>aw_flushes := take i (aw_flushes w) @ drop (Suc i) (aw_flushes w)\<rparr>
        | t # ts \<Rightarrow> w\<lparr>aw_flushes := (aw_flushes w)[i := ts], aw_called := aw_called w @ [t]\<rparr>
      else w)"

section \<open>Interleavings of a coroutine\<close>

text \<open>The thread behind the coroutine, and whether a \<open>stop\<close> is waiting in the join.  \<open>None\<close> is the aborted
  process.\<close>

datatype thread_state = NoThread | Running | Exited err_ptr

type_synonym co_sys = "(SrsFastCoroutine \<times> thread_state \<times> bool) option"

text \<open>\<open>st_thread_join\<close> returns 0 and the result of the thread once it has exited.\<close>

inductive co_step :: "co_sys \<Rightarrow> co_sys \<Rightarrow> bool" where
  step_create: "\<not> started c \<Longrightarrow> \<not> disposed c \<Longrightarrow> co_step (Some (c, t, w)) (Some (snd (co_start True c), Running, w))"
| step_start: "started c \<or> disposed c \<or> \<not> created \<Longrightarrow> co_step (Some (c, t, w)) (Some (snd (co_start created c), t, w))"
| step_interrupt: "co_step (Some (c, t, w)) (Some (co_interrupt c, t, w))"
| step_exit: "co_finish e c = (res, c') \<Longrightarrow> co_step (Some (c, Running, w)) (Some (c', Exited res, w))"
| step_stop: "\<not> disposed c \<Longrightarrow> trd c \<Longrightarrow> co_step (Some (c, t, w)) (Some (stop_begin c, t, True))"
| step_stop_unstarted: "\<not> disposed c \<Longrightarrow> \<not> trd c \<Longrightarrow>
    co_step (Some (c, t, w)) (map_option (\<lambda>c. (c, t, w)) (stop_end None (stop_begin c)))"
| step_join: "co_step (Some (c, Exited res, True)) (map_option (\<lambda>c. (c, Exited res, False)) (stop_end (Some (0, res)) c))"
| step_stop_again: "disposed c \<Longrightarrow> \<not> w \<Longrightarrow> co_step (Some (c, t, w)) (map_option (\<lambda>c. (c, t, w)) (stop_again c))"

inductive_cases co_stepE: "co_step (Some (c, t, w)) s'"

text \<open>The last rule lets \<open>stop\<close> be called again only when no other \<open>stop\<close> is waiting.\<close>

definition co_ok :: "SrsFastCoroutine \<Rightarrow> thread_state \<Rightarrow> bool \<Rightarrow> bool" where
  "co_ok c t w \<longleftrightarrow>
     (trd c \<longleftrightarrow> started c) \<and> (started c \<longleftrightarrow> t \<noteq> NoThread) \<and> (stopping c \<longleftrightarrow> w) \<and>
     (stopping c \<longrightarrow> disposed c \<and> started c) \<and> (cycle_done c \<longleftrightarrow> t = Exited None) \<and>
     (\<forall>e. t = Exited (Some e) \<longrightarrow> trd_err c = Some e) \<and>
     (disposed c \<and> started c \<longrightarrow> interrupted c \<or> cycle_done c) \<and>
     (disposed c \<and> \<not> stopping c \<longrightarrow> t \<noteq> Running \<and> (trd_err c = None \<longrightarrow> cycle_done c)) \<and>
     (\<forall>n code. trd_err c = Some (n, code) \<longrightarrow> code \<noteq> ERROR_SUCCESS) \<and>
     (interrupted c \<longrightarrow> started c) \<and> trd_interrupts c = (if interrupted c then 1 else 0)"

lemmas co_defs = co_start_def co_interrupt_def co_finish_def stop_begin_def stop_end_def stop_again_def
  set_trd_err_def first_trd_err_def err_alloc_def

lemma co_ok_new: "co_ok (SrsFastCoroutine_new cid) NoThread False"
  by (simp add: co_ok_def SrsFastCoroutine_new_def)

lemma co_ok_start: "co_ok c t w \<Longrightarrow> started c \<or> disposed c \<or> \<not> created \<Longrightarrow> co_ok (snd (co_start created c)) t w"
  by (cases "started c"; cases "disposed c"; cases "trd_err c") (auto simp: co_ok_def co_defs Let_def)

lemma co_ok_create: "co_ok c t w \<Longrightarrow> \<not> started c \<Longrightarrow> \<not> disposed c \<Longrightarrow> co_ok (snd (co_start True c)) Running w"
  by (auto simp: co_ok_def co_defs)

lemma co_ok_interrupt: "co_ok c t w \<Longrightarrow> co_ok (co_interrupt c) t w"
  by (cases "started c"; cases "interrupted c"; cases "cycle_done c"; cases "trd_err c") (auto simp: co_ok_def co_defs Let_def)

lemma co_ok_exit: "co_ok c Running w \<Longrightarrow> co_finish e c = (res, c') \<Longrightarrow> co_ok c' (Exited res) w"
  by (cases "e = ERROR_SUCCESS") (auto simp: co_ok_def co_defs)

lemma co_ok_stop: "co_ok c t w \<Longrightarrow> \<not> disposed c \<Longrightarrow> trd c \<Longrightarrow> co_ok (stop_begin c) t True"
  by (cases "interrupted c"; cases "cycle_done c"; cases "trd_err c") (auto simp: co_ok_def co_defs Let_def)

lemma co_ok_stop_unstarted:
  "co_ok c t w \<Longrightarrow> \<not> disposed c \<Longrightarrow> \<not> trd c \<Longrightarrow> \<exists>c'. stop_end None (stop_begin c) = Some c' \<and> co_ok c' t w"
  by (cases "trd_err c") (auto simp: co_ok_def co_defs Let_def)

lemma co_ok_join: "co_ok c (Exited res) True \<Longrightarrow> \<exists>c'. stop_end (Some (0, res)) c = Some c' \<and> co_ok c' (Exited res) False"
  by (cases res; cases "trd_err c") (auto simp: co_ok_def co_defs Let_def)

lemma co_ok_stop_again: "co_ok c t w \<Longrightarrow> \<not> w \<Longrightarrow> stop_again c = Some c"
  by (simp add: co_ok_def stop_again_def)

definition co_inv :: "co_sys \<Rightarrow> bool" where
  "co_inv s \<longleftrightarrow> (\<exists>c t w. s = Some (c, t, w) \<and> co_ok c t w)"

lemma co_step_inv: "co_step s s' \<Longrightarrow> co_inv s \<Longrightarrow> co_inv s'"
proof (induction rule: co_step.induct)
  case (step_stop_unstarted c t w)
  then show ?case using co_ok_stop_unstarted [of c t w] by (auto simp: co_inv_def)
next
  case (step_join c res)
  then show ?case using co_ok_join [of c res] by (fastforce simp: co_inv_def)
next
  case (step_stop_again c w t)
  then show ?case using co_ok_stop_again [of c t w] by (auto simp: co_inv_def)
qed (auto simp: co_inv_def intro: co_ok_start co_ok_create co_ok_interrupt co_ok_exit co_ok_stop)

lemma co_steps_inv:
  assumes "co_step\<^sup>*\<^sup>* (Some (SrsFastCoroutine_new cid, NoThread, False)) s"
  shows "co_inv s"
  using assms by (induction rule: rtranclp_induct) (auto simp: co_inv_def intro: co_ok_new dest: co_step_inv [unfolded co_inv_def])

text \<open>A second \<open>stop\<close> while the first one waits for the thread aborts the process.\<close>

lemma second_stop_aborts: "trd c \<Longrightarrow> stop_again (stop_begin c) = None"
  by (simp add: co_defs Let_def)

section \<open>The timer\<close>

text \<open>When the handlers leave the list alone, a turn calls each of them once, in the order of the list.\<close>

lemma timer_turn_from:
  assumes "\<And>h st. fst (on_timer h st) = fst st"
  shows "timer_turn on_timer i st = Some (fold on_timer (drop i (fst st)) st)"
proof (induction "length (fst st) - i" arbitrary: i st)
  case 0
  then show ?case by (subst timer_turn.simps) simp
next
  case (Suc n)
  then have i: "i < length (fst st)" by simp
  have "timer_turn on_timer (i + 1) (on_timer (fst st ! i) st) =
      Some (fold on_timer (drop (i + 1) (fst st)) (on_timer (fst st ! i) st))"
    using Suc.hyps(1) [of "on_timer (fst st ! i) st" "i + 1"] Suc.hyps(2) by (simp add: assms)
  with i show ?case by (subst timer_turn.simps) (simp add: Cons_nth_drop_Suc [symmetric])
qed

lemma timer_turn_all: "(\<And>h st. fst (on_timer h st) = fst st) \<Longrightarrow> timer_turn on_timer 0 st = Some (fold on_timer (fst st) st)"
  using timer_turn_from [of on_timer 0 st] by simp

text \<open>A handler that unsubscribes itself makes the turn skip the handler behind it.\<close>

lemma timer_turn_skips:
  assumes "a \<noteq> b" "on_timer = (\<lambda>h (hs, called). (if h = a then timer_unsubscribe a hs else hs, called @ [h]))"
  shows "timer_turn on_timer 0 ([a, b], []) = Some ([b], [a])"
  using assms by (simp add: timer_turn.simps timer_unsubscribe_def)

section \<open>The worker for asynchronous calls\<close>

datatype 'k async_op = Execute 'k | Flush | Task nat

fun async_run :: "'k async_op \<Rightarrow> 'k SrsAsyncCallWorker \<Rightarrow> 'k SrsAsyncCallWorker" where
  "async_run (Execute t) w = async_execute t w"
| "async_run Flush w = flush_begin w"
| "async_run (Task i) w = flush_task i w"

fun executed :: "'k async_op list \<Rightarrow> 'k list" where
  "executed [] = []"
| "executed (Execute t # ops) = t # executed ops"
| "executed (_ # ops) = executed ops"

definition async_all :: "'k SrsAsyncCallWorker \<Rightarrow> 'k multiset" where
  "async_all w = mset (aw_tasks w) + (\<Sum>ts \<leftarrow> aw_flushes w. mset ts) + mset (aw_called w)"

lemma sum_flush_cut: "i < length fs \<Longrightarrow> (\<Sum>ts \<leftarrow> fs. mset ts) = mset (fs ! i) + (\<Sum>ts \<leftarrow> take i fs @ drop (Suc i) fs. mset ts)"
  by (subst id_take_nth_drop [of i fs]) simp_all

lemma sum_flush_update:
  "i < length fs \<Longrightarrow> (\<Sum>ts \<leftarrow> fs[i := u]. mset ts) = mset u + (\<Sum>ts \<leftarrow> take i fs @ drop (Suc i) fs. mset ts)"
  by (simp add: upd_conv_take_nth_drop)

lemma async_all_step: "async_all (async_run x w) = async_all w + mset (executed [x])"
proof (cases x)
  case (Task i)
  show ?thesis
  proof (cases "i < length (aw_flushes w)")
    case True
    then show ?thesis using sum_flush_cut [OF True] sum_flush_update [OF True]
      by (cases "aw_flushes w ! i") (simp_all add: Task flush_task_def async_all_def)
  qed (simp add: Task flush_task_def)
qed (simp_all add: async_all_def async_execute_def flush_begin_def)

lemma executed_append: "executed (xs @ ys) = executed xs @ executed ys"
  by (induction xs rule: executed.induct) simp_all

lemma async_all_ops: "async_all (fold async_run ops w) = async_all w + mset (executed ops)"
proof (induction ops arbitrary: w)
  case (Cons x ops)
  then show ?case using executed_append [of "[x]" ops] by (simp add: async_all_step ac_simps)
qed simp

section \<open>Properties\<close>



text \<open>C25. The worker for asynchronous calls loses no task and calls none twice: after any interleaving of \<open>execute\<close>,
  of the starts of flushes and of the calls inside them, the tasks that were given to \<open>execute\<close> are those that wait, those
  in the copies of running flushes and those that were called; and when nothing is left, they are those that were called.\<close>

theorem async_tasks_once:
  "mset (executed ops) = async_all (fold async_run ops SrsAsyncCallWorker_new) \<and>
    (aw_tasks (fold async_run ops SrsAsyncCallWorker_new) = [] \<and> concat (aw_flushes (fold async_run ops SrsAsyncCallWorker_new)) = [] \<longrightarrow>
      mset (aw_called (fold async_run ops SrsAsyncCallWorker_new)) = mset (executed ops))"
proof -
  have all: "async_all (fold async_run ops SrsAsyncCallWorker_new) = mset (executed ops)"
    by (simp add: async_all_ops) (simp add: async_all_def SrsAsyncCallWorker_new_def)
  have "(\<Sum>ts \<leftarrow> fs. mset ts) = mset (concat fs)" for fs :: "'a list list" by (induction fs) simp_all
  with all show ?thesis by (auto simp: async_all_def simp del: concat_eq_Nil_conv)
qed

theorem async_tasks_once_witness:
  "mset (aw_called (fold async_run [Execute 1, Flush, Execute 2, Task 0, Flush, Task 0, Task 0] SrsAsyncCallWorker_new)) =
     mset [1, 2 :: nat]"
  using async_tasks_once [of "[Execute 1, Flush, Execute 2, Task 0, Flush, Task 0, Task 0]"]
  by (simp add: SrsAsyncCallWorker_new_def async_execute_def flush_begin_def flush_task_def)

end
