(* ===== verification/Proc_Stat.thy ===== *)
theory Proc_Stat
  imports Json_Parser Complex_Main
begin

text \<open>
  The statistics of the process (\<open>src/src/app/srs_app_utility.cpp\<close>): \<open>SrsProcSelfStat\<close>, and the update that derives the
  CPU usage from two samples of \<open>/proc/self/stat\<close>.  The result of \<open>fscanf\<close> on that file is an argument.  The field
  \<open>percent\<close> has the type \<open>'d\<close> of \<open>double\<close>; the update computes it exactly, as a rational number.
\<close>

section \<open>Definitions\<close>

record 'd SrsProcSelfStat =
  ps_ok :: bool
  ps_sample_time :: int
  ps_percent :: 'd
  ps_pid :: int
  ps_comm :: string
  ps_state :: char
  ps_ppid :: int
  ps_pgrp :: int
  ps_session :: int
  ps_tty_nr :: int
  ps_tpgid :: int
  ps_flags :: int
  ps_minflt :: int
  ps_cminflt :: int
  ps_majflt :: int
  ps_cmajflt :: int
  ps_utime :: int
  ps_stime :: int
  ps_cutime :: int
  ps_cstime :: int
  ps_priority :: int
  ps_nice :: int
  ps_num_threads :: int
  ps_itrealvalue :: int
  ps_starttime :: int
  ps_vsize :: int
  ps_rss :: int
  ps_rsslim :: int
  ps_startcode :: int
  ps_endcode :: int
  ps_startstack :: int
  ps_kstkesp :: int
  ps_kstkeip :: int
  ps_signal :: int
  ps_blocked :: int
  ps_sigignore :: int
  ps_sigcatch :: int
  ps_wchan :: int
  ps_nswap :: int
  ps_cnswap :: int
  ps_exit_signal :: int
  ps_processor :: int
  ps_rt_priority :: int
  ps_policy :: int
  ps_delayacct_blkio_ticks :: int
  ps_guest_time :: int
  ps_cguest_time :: int

definition SrsProcSelfStat_new :: "'d \<Rightarrow> 'd SrsProcSelfStat" where
  "SrsProcSelfStat_new zero =
     \<lparr>ps_ok = False, ps_sample_time = 0, ps_percent = zero, ps_pid = 0, ps_comm = [], ps_state = CHR ''0'',
      ps_ppid = 0, ps_pgrp = 0, ps_session = 0, ps_tty_nr = 0, ps_tpgid = 0, ps_flags = 0, ps_minflt = 0,
      ps_cminflt = 0, ps_majflt = 0, ps_cmajflt = 0, ps_utime = 0, ps_stime = 0, ps_cutime = 0, ps_cstime = 0,
      ps_priority = 0, ps_nice = 0, ps_num_threads = 0, ps_itrealvalue = 0, ps_starttime = 0, ps_vsize = 0, ps_rss = 0,
      ps_rsslim = 0, ps_startcode = 0, ps_endcode = 0, ps_startstack = 0, ps_kstkesp = 0, ps_kstkeip = 0,
      ps_signal = 0, ps_blocked = 0, ps_sigignore = 0, ps_sigcatch = 0, ps_wchan = 0, ps_nswap = 0, ps_cnswap = 0,
      ps_exit_signal = 0, ps_processor = 0, ps_rt_priority = 0, ps_policy = 0, ps_delayacct_blkio_ticks = 0,
      ps_guest_time = 0, ps_cguest_time = 0\<rparr>"

text \<open>\<open>scanned\<close> is what \<open>fscanf\<close> makes of a new object, or \<open>None\<close> when the file cannot be opened.\<close>

definition get_proc_self_stat :: "'d SrsProcSelfStat option \<Rightarrow> 'd SrsProcSelfStat option" where
  "get_proc_self_stat scanned = map_option (\<lambda>r. r\<lparr>ps_ok := True\<rparr>) scanned"

text \<open>\<open>sum\<close> and \<open>difference\<close> are those of \<open>unsigned long\<close>, converted to \<open>int64_t\<close>; \<open>now\<close> is the time in
  microseconds and \<open>user_hz\<close> the number of clock ticks of a second.\<close>

definition srs_update_proc_stat ::
    "int \<Rightarrow> int \<Rightarrow> rat SrsProcSelfStat option \<Rightarrow> rat SrsProcSelfStat \<Rightarrow> rat SrsProcSelfStat" where
  "srs_update_proc_stat user_hz now scanned prev =
     (case get_proc_self_stat scanned of
        None \<Rightarrow> prev
      | Some r \<Rightarrow>
          let r = r\<lparr>ps_sample_time := now div 1000\<rparr>;
              total = ps_sample_time r - ps_sample_time prev;
              usage = wrap64 ((ps_utime r + ps_stime r) - (ps_utime prev + ps_stime prev))
          in if total > 0
             then r\<lparr>ps_percent := of_int (wrap64 (usage * 1000)) / of_int total / of_int user_hz\<rparr> else r)"

section \<open>The usage\<close>

text \<open>The share of the time between two samples, in ticks, that the process was running.\<close>

lemma percent_is_share:
  assumes "0 < user_hz" "ps_sample_time prev < now div 1000"
    "ps_utime r + ps_stime r = ps_utime prev + ps_stime prev + ticks" "0 \<le> ticks" "ticks < 2 ^ 53"
  shows "ps_percent (srs_update_proc_stat user_hz now (Some r) prev) * of_int (now div 1000 - ps_sample_time prev) * of_int user_hz
    = of_int (ticks * 1000)"
proof -
  have "wrap64 x = x" if "0 \<le> x" "x < 2 ^ 63" for x using that by (simp add: wrap64_def)
  then have "wrap64 (wrap64 ticks * 1000) = ticks * 1000" using assms(4,5) by simp
  with assms show ?thesis by (simp add: srs_update_proc_stat_def get_proc_self_stat_def Let_def field_simps)
qed

end
