(* ===== verification/App_Threads.thy ===== *)
theory App_Threads
  imports Coroutine Config Proc_Stat
begin

text \<open>
  \<open>src/src/app/srs_app_threads.cpp\<close>: \<open>SrsCircuitBreaker\<close>, which derives three water levels from the CPU usage that
  the timer samples once a second, and \<open>SrsThreadPool\<close> with the start of threads and the lock on the pid file.
  The reference for the water levels are windows over the history of samples.
\<close>

section \<open>Definitions\<close>

abbreviation ERROR_SYSTEM_PID_ACQUIRE :: int where "ERROR_SYSTEM_PID_ACQUIRE \<equiv> 1034"
abbreviation ERROR_SYSTEM_PID_ALREADY_RUNNING :: int where "ERROR_SYSTEM_PID_ALREADY_RUNNING \<equiv> 1035"
abbreviation ERROR_SYSTEM_PID_LOCK :: int where "ERROR_SYSTEM_PID_LOCK \<equiv> 1036"
abbreviation ERROR_THREAD_CREATE :: int where "ERROR_THREAD_CREATE \<equiv> 1082"
abbreviation ERROR_THREAD_FINISHED :: int where "ERROR_THREAD_FINISHED \<equiv> 1083"

subsection \<open>\<open>SrsCircuitBreaker\<close>\<close>

record SrsCircuitBreaker =
  enabled :: bool
  high_threshold :: int
  high_pulse :: int
  critical_threshold :: int
  critical_pulse :: int
  dying_threshold :: int
  dying_pulse :: int
  high_level :: int
  critical_level :: int
  dying_level :: int

definition SrsCircuitBreaker_new :: SrsCircuitBreaker where
  "SrsCircuitBreaker_new =
     \<lparr>enabled = False, high_threshold = 0, high_pulse = 0, critical_threshold = 0, critical_pulse = 0, dying_threshold = 0,
      dying_pulse = 0, high_level = 0, critical_level = 0, dying_level = 0\<rparr>"

definition hybrid_dying_water_level :: "SrsCircuitBreaker \<Rightarrow> bool" where
  "hybrid_dying_water_level b \<longleftrightarrow> enabled b \<and> dying_pulse b \<noteq> 0 \<and> dying_level b \<ge> dying_pulse b"

definition hybrid_critical_water_level :: "SrsCircuitBreaker \<Rightarrow> bool" where
  "hybrid_critical_water_level b \<longleftrightarrow> enabled b \<and> (hybrid_dying_water_level b \<or> critical_level b \<noteq> 0)"

definition hybrid_high_water_level :: "SrsCircuitBreaker \<Rightarrow> bool" where
  "hybrid_high_water_level b \<longleftrightarrow> enabled b \<and> (hybrid_critical_water_level b \<or> high_level b \<noteq> 0)"

text \<open>The high and the critical level: set to the pulse by a high sample, counted down by others.\<close>

definition hold_level :: "rat \<Rightarrow> int \<Rightarrow> int \<Rightarrow> int \<Rightarrow> int" where
  "hold_level cpu threshold pulse level =
     (if cpu > of_int threshold then pulse else if level > 0 then level - 1 else level)"

definition dying_next :: "rat \<Rightarrow> int \<Rightarrow> int \<Rightarrow> int \<Rightarrow> int" where
  "dying_next cpu threshold pulse level =
     (if cpu > of_int threshold then min (pulse + 1) (level + 1) else if level > 0 then 0 else level)"

text \<open>The levels in \<open>on_timer\<close>; \<open>cpu\<close> is \<open>stat->percent * 100\<close>.\<close>

definition breaker_on_timer :: "rat \<Rightarrow> SrsCircuitBreaker \<Rightarrow> SrsCircuitBreaker" where
  "breaker_on_timer cpu b =
     b\<lparr>high_level := hold_level cpu (high_threshold b) (high_pulse b) (high_level b),
       critical_level := hold_level cpu (critical_threshold b) (critical_pulse b) (critical_level b),
       dying_level := dying_next cpu (dying_threshold b) (dying_pulse b) (dying_level b)\<rparr>"

definition SrsCircuitBreaker_on_timer ::
    "int \<Rightarrow> int \<Rightarrow> rat SrsProcSelfStat option \<Rightarrow> rat SrsProcSelfStat \<times> SrsCircuitBreaker \<Rightarrow> rat SrsProcSelfStat \<times> SrsCircuitBreaker" where
  "SrsCircuitBreaker_on_timer user_hz now scanned st =
     (let u = srs_update_proc_stat user_hz now scanned (fst st) in (u, breaker_on_timer (ps_percent u * 100) (snd st)))"

definition breaker_initialize :: "SrsConfDirective \<Rightarrow> SrsCircuitBreaker \<Rightarrow> SrsCircuitBreaker" where
  "breaker_initialize conf b =
     b\<lparr>enabled := get_circuit_breaker conf, high_threshold := get_high_threshold conf, high_pulse := get_high_pulse conf,
       critical_threshold := get_critical_threshold conf, critical_pulse := get_critical_pulse conf,
       dying_threshold := get_dying_threshold conf, dying_pulse := get_dying_pulse conf\<rparr>"

subsection \<open>\<open>SrsThreadPool\<close>\<close>

record SrsThreadEntry =
  label :: string
  entry_name :: string
  num :: int
  entry_err :: int

text \<open>\<open>next_num\<close> is the static variable of \<open>execute\<close>.\<close>

record SrsThreadPool =
  threads :: "SrsThreadEntry list"
  hybrids :: "SrsThreadEntry list"
  next_num :: int
  pool_interval :: int

definition SrsThreadPool_new :: SrsThreadPool where
  "SrsThreadPool_new =
     \<lparr>threads = [\<lparr>label = ''primordial'', entry_name = ''srs-master-1'', num = 1, entry_err = ERROR_SUCCESS\<rparr>], hybrids = [],
      next_num = 2, pool_interval = 0\<rparr>"

text \<open>The name is cut by \<open>snprintf\<close> to the 255 bytes of its buffer; \<open>create\<close> is the result of
  \<open>pthread_create\<close>.\<close>

definition thread_name :: "string \<Rightarrow> int \<Rightarrow> string" where
  "thread_name lbl n = take 255 (''srs-'' @ lbl @ ''-'' @ int_to_str n)"

definition pool_execute :: "string \<Rightarrow> int \<Rightarrow> SrsThreadPool \<Rightarrow> int \<times> SrsThreadPool" where
  "pool_execute lbl create p =
     (let code = (if create \<noteq> 0 then ERROR_THREAD_CREATE else ERROR_SUCCESS);
          entry = \<lparr>label = lbl, entry_name = thread_name lbl (next_num p), num = next_num p, entry_err = code\<rparr>
      in (code, p\<lparr>threads := threads p @ [entry], hybrids := hybrids p @ (if lbl = ''hybrid'' then [entry] else []),
            next_num := next_num p + 1\<rparr>))"

text \<open>The body of a thread: \<open>st_init\<close> and \<open>run\<close> are the results of initialising State Threads and of the
  start function.\<close>

definition pool_start :: "int \<Rightarrow> int \<Rightarrow> SrsThreadEntry \<Rightarrow> SrsThreadEntry" where
  "pool_start st_init run entry =
     (if st_init \<noteq> ERROR_SUCCESS then entry\<lparr>entry_err := st_init\<rparr>
      else
        let entry = (if run \<noteq> ERROR_SUCCESS then entry\<lparr>entry_err := run\<rparr> else entry) in
        if entry_err entry = ERROR_SUCCESS then entry\<lparr>entry_err := ERROR_THREAD_FINISHED\<rparr> else entry)"

text \<open>The lock on the pid file: opening gives a descriptor or nothing; locking succeeds, finds the lock taken
  (\<open>EACCES\<close>, \<open>EAGAIN\<close>) or fails; the result also says whether the descriptor was closed.  The descriptor is
  never stored, so nothing else closes it.\<close>

datatype lock_result = Locked | LockTaken | LockFailed

definition acquire_pid_file :: "(string \<Rightarrow> int option) \<Rightarrow> (int \<Rightarrow> lock_result) \<Rightarrow> SrsConfDirective \<Rightarrow> int \<times> int list" where
  "acquire_pid_file open_file setlk conf =
     (case open_file (get_pid_file conf) of
        None \<Rightarrow> (ERROR_SYSTEM_PID_ACQUIRE, [])
      | Some fd \<Rightarrow>
          (case setlk fd of
             Locked \<Rightarrow> (ERROR_SUCCESS, [])
           | LockTaken \<Rightarrow> (ERROR_SYSTEM_PID_ALREADY_RUNNING, [fd])
           | LockFailed \<Rightarrow> (ERROR_SYSTEM_PID_LOCK, [])))"

definition pool_initialize :: "(string \<Rightarrow> int option) \<Rightarrow> (int \<Rightarrow> lock_result) \<Rightarrow> SrsConfDirective \<Rightarrow> SrsThreadPool \<Rightarrow> int \<times> SrsThreadPool" where
  "pool_initialize open_file setlk conf p =
     (case acquire_pid_file open_file setlk conf of (e, _) \<Rightarrow>
        if e \<noteq> ERROR_SUCCESS then (e, p) else (ERROR_SUCCESS, p\<lparr>pool_interval := get_threads_interval conf\<rparr>))"

section \<open>Windows over the samples\<close>

text \<open>The samples are listed with the latest first.\<close>

definition any_recent :: "int \<Rightarrow> nat \<Rightarrow> rat list \<Rightarrow> bool" where
  "any_recent threshold n samples \<longleftrightarrow> (\<exists>x \<in> set (take n samples). x > of_int threshold)"

definition all_recent :: "int \<Rightarrow> nat \<Rightarrow> rat list \<Rightarrow> bool" where
  "all_recent threshold n samples \<longleftrightarrow> n \<le> length samples \<and> (\<forall>x \<in> set (take n samples). x > of_int threshold)"

fun run_levels :: "rat list \<Rightarrow> SrsCircuitBreaker \<Rightarrow> SrsCircuitBreaker" where
  "run_levels [] b = b"
| "run_levels (x # xs) b = breaker_on_timer x (run_levels xs b)"

fun held :: "int \<Rightarrow> int \<Rightarrow> rat list \<Rightarrow> int" where
  "held th pulse [] = 0"
| "held th pulse (x # xs) = hold_level x th pulse (held th pulse xs)"

fun dying_held :: "int \<Rightarrow> int \<Rightarrow> rat list \<Rightarrow> int" where
  "dying_held th pulse [] = 0"
| "dying_held th pulse (x # xs) = dying_next x th pulse (dying_held th pulse xs)"

lemma run_levels_fields:
  assumes "high_level b = 0" "critical_level b = 0" "dying_level b = 0"
  shows "run_levels xs b =
    b\<lparr>high_level := held (high_threshold b) (high_pulse b) xs, critical_level := held (critical_threshold b) (critical_pulse b) xs,
      dying_level := dying_held (dying_threshold b) (dying_pulse b) xs\<rparr>"
  using assms by (induction xs) (simp_all add: breaker_on_timer_def)

text \<open>A held level is the time that is left: it exceeds \<open>k\<close> when a sample of the last \<open>pulse - k\<close> was high.\<close>

lemma held_exceeds:
  assumes "0 \<le> pulse" "k \<le> nat pulse"
  shows "held th pulse xs > int k \<longleftrightarrow> any_recent th (nat pulse - k) xs"
  using assms(2)
proof (induction xs arbitrary: k)
  case Nil
  then show ?case by (simp add: any_recent_def)
next
  case (Cons x xs)
  show ?case
  proof (cases "k = nat pulse")
    case True
    have "held th pulse xs \<le> pulse" for xs
      using assms(1) by (induction xs) (auto simp: hold_level_def)
    with True assms(1) show ?thesis by (auto simp: any_recent_def not_less simp del: held.simps)
  next
    case False
    with Cons.prems have k: "nat pulse - k = Suc (nat pulse - Suc k)" "Suc k \<le> nat pulse" by auto
    have nn: "0 \<le> held th pulse xs" using assms(1) by (induction xs) (auto simp: hold_level_def)
    show ?thesis
    proof (cases "x > of_int th")
      case True
      with k assms(1) False Cons.prems show ?thesis by (auto simp: hold_level_def any_recent_def)
    next
      case low: False
      have "any_recent th (nat pulse - k) (x # xs) \<longleftrightarrow> any_recent th (nat pulse - Suc k) xs"
        using k(1) low by (simp add: any_recent_def)
      with Cons.IH [OF k(2)] low nn show ?thesis by (auto simp: hold_level_def)
    qed
  qed
qed

text \<open>The dying level is the length of the latest run of high samples, cut at \<open>pulse + 1\<close>.\<close>

lemma dying_held_run:
  assumes "0 \<le> pulse"
  shows "dying_held th pulse xs = min (pulse + 1) (int (length (takeWhile (\<lambda>x. x > of_int th) xs)))"
  using assms by (induction xs) (auto simp: dying_next_def)

lemma all_recent_run: "all_recent th n xs \<longleftrightarrow> n \<le> length (takeWhile (\<lambda>x. x > of_int th) xs)"
proof
  assume "all_recent th n xs"
  then show "n \<le> length (takeWhile (\<lambda>x. x > of_int th) xs)"
  proof (induction xs arbitrary: n)
    case (Cons x xs)
    then show ?case by (cases n) (auto simp: all_recent_def)
  qed (simp add: all_recent_def)
next
  assume n: "n \<le> length (takeWhile (\<lambda>x. x > of_int th) xs)"
  then have "take n xs = take n (takeWhile (\<lambda>x. x > of_int th) xs)"
    by (metis append_take_drop_id take_append takeWhile_dropWhile_id append_eq_conv_conj diff_is_0_eq take0 append_Nil2)
  with n show "all_recent th n xs"
    using set_takeWhileD length_takeWhile_le [of "\<lambda>x. x > of_int th" xs] by (fastforce simp: all_recent_def dest: in_set_takeD)
qed

section \<open>Properties\<close>

text \<open>C24. The water levels after any history of samples are windows over it: the dying level is reached when the
  last \<open>dying_pulse\<close> samples were all above its threshold; the critical level in that case and when one of the last
  \<open>critical_pulse\<close> samples was above its threshold; the high level in these cases and when one of the last \<open>high_pulse\<close>
  samples was above its threshold.\<close>

theorem breaker_levels_are_windows:
  assumes "b = breaker_initialize conf SrsCircuitBreaker_new" "enabled b"
    "0 \<le> high_pulse b" "0 \<le> critical_pulse b" "0 < dying_pulse b"
  shows "(hybrid_dying_water_level (run_levels xs b) \<longleftrightarrow> all_recent (dying_threshold b) (nat (dying_pulse b)) xs) \<and>
    (hybrid_critical_water_level (run_levels xs b) \<longleftrightarrow>
       hybrid_dying_water_level (run_levels xs b) \<or> any_recent (critical_threshold b) (nat (critical_pulse b)) xs) \<and>
    (hybrid_high_water_level (run_levels xs b) \<longleftrightarrow>
       hybrid_critical_water_level (run_levels xs b) \<or> any_recent (high_threshold b) (nat (high_pulse b)) xs)"
proof -
  have lv: "run_levels xs b =
    b\<lparr>high_level := held (high_threshold b) (high_pulse b) xs, critical_level := held (critical_threshold b) (critical_pulse b) xs,
      dying_level := dying_held (dying_threshold b) (dying_pulse b) xs\<rparr>"
    by (rule run_levels_fields) (simp_all add: assms(1) breaker_initialize_def SrsCircuitBreaker_new_def)
  have pos: "held th pulse xs \<noteq> 0 \<longleftrightarrow> any_recent th (nat pulse) xs" if "0 \<le> pulse" for th pulse
  proof -
    have "0 \<le> held th pulse xs" using that by (induction xs) (auto simp: hold_level_def)
    with held_exceeds [OF that, of 0 th xs] show ?thesis by (simp add: less_le)
  qed
  have "dying_pulse b \<le> dying_held (dying_threshold b) (dying_pulse b) xs \<longleftrightarrow> all_recent (dying_threshold b) (nat (dying_pulse b)) xs"
    using assms(5) by (auto simp: dying_held_run all_recent_run)
  with assms(2-5) pos [of "high_pulse b"] pos [of "critical_pulse b"] show ?thesis
    by (auto simp: lv hybrid_dying_water_level_def hybrid_critical_water_level_def hybrid_high_water_level_def)
qed

theorem breaker_levels_are_windows_witness:
  "hybrid_dying_water_level (run_levels (replicate 5 100) (breaker_initialize SrsConfDirective_new SrsCircuitBreaker_new)) \<and>
   \<not> hybrid_high_water_level (run_levels [10, 10, 95] (breaker_initialize SrsConfDirective_new SrsCircuitBreaker_new))"
proof -
  let ?b = "breaker_initialize SrsConfDirective_new SrsCircuitBreaker_new"
  have f: "enabled ?b" "high_pulse ?b = 2" "critical_pulse ?b = 1" "dying_pulse ?b = 5"
    "high_threshold ?b = 90" "critical_threshold ?b = 95" "dying_threshold ?b = 99" by code_simp+
  note windows = breaker_levels_are_windows [of ?b SrsConfDirective_new]
  from windows [of "replicate 5 100"] windows [of "[10, 10, 95]"] f show ?thesis
    by (simp add: all_recent_def any_recent_def eval_nat_numeral)
qed

end
