(* ===== verification/Http_Api.thy ===== *)
theory Http_Api
  imports Http_Mux Json_Text Proc_Stat
begin

text \<open>
  The HTTP API (\<open>src/src/app/srs_app_http_api.cpp\<close>): the answer in JSON or JSONP, the handlers of the API and the
  routes that \<open>SrsServer::http_handle\<close> (\<open>src/src/app/srs_app_server.cpp\<close>) registers for them.  A handler reads the
  body from the stream buffer of the parser and from the socket, and writes through the response writer to the same
  socket; the three are the record \<open>api_io\<close>, with a mark for a handler that has aborted the process or does not return.
  The type \<open>'d\<close> stands for \<open>double\<close>, and \<open>fmt\<close> for its \<open>printf\<close>.
\<close>

section \<open>Definitions\<close>

subsection \<open>The answer\<close>

definition srs_api_response_jsonp ::
    "'w put \<Rightarrow> 'w putv \<Rightarrow> string \<Rightarrow> string \<Rightarrow> SrsHttpResponseWriter \<Rightarrow> 'w \<Rightarrow> 'w served" where
  "srs_api_response_jsonp put putv callback data rw w =
     (let h = set_content_type ''text/javascript'' (set_content_length (int (length data + length callback + 2)) (hdr rw))
      in write_each put putv ((if callback \<noteq> [] then [callback] else []) @ [''('', data, '')'']) (rw\<lparr>hdr := h\<rparr>) w)"

definition srs_api_response_json :: "'w put \<Rightarrow> 'w putv \<Rightarrow> string \<Rightarrow> SrsHttpResponseWriter \<Rightarrow> 'w \<Rightarrow> 'w served" where
  "srs_api_response_json put putv data rw w =
     (let h = set_content_type ''application/json'' (set_content_length (int (length data)) (hdr rw))
      in rw_write put putv (Some data) (rw\<lparr>hdr := h\<rparr>) w)"

definition srs_api_response ::
    "'w put \<Rightarrow> 'w putv \<Rightarrow> SrsHttpMessage \<Rightarrow> string \<Rightarrow> SrsHttpResponseWriter \<Rightarrow> 'w \<Rightarrow> 'w served" where
  "srs_api_response put putv r json rw w =
     (if \<not> m_jsonp r then srs_api_response_json put putv json rw w
      else srs_api_response_jsonp put putv (query_get ''callback'' r) json rw w)"

subsection \<open>The values\<close>

definition c_string :: "string \<Rightarrow> string" where
  "c_string s = takeWhile (\<lambda>c. c \<noteq> CHR 0x00) s"

text \<open>A sequence of calls of \<open>set\<close> on a new object.\<close>

definition json_object_of :: "(string \<times> 'd SrsJsonAny) list \<Rightarrow> 'd SrsJsonAny" where
  "json_object_of kvs = SrsJsonObject (fold (\<lambda>(k, v). object_set k (Some v)) kvs [])"

definition api_value :: "'d SrsJsonAny" where
  "api_value = json_object_of
     [(''code'', SrsJsonInteger ERROR_SUCCESS), (''urls'', json_object_of [(''v1'', SrsJsonString ''the api version 1.0'')])]"

definition version_value :: "'d SrsJsonAny" where
  "version_value = json_object_of
     [(''code'', SrsJsonInteger ERROR_SUCCESS),
      (''data'', json_object_of [(''major'', SrsJsonInteger 5), (''minor'', SrsJsonInteger 0),
         (''revision'', SrsJsonInteger 61), (''version'', SrsJsonString ''5.0.61'')])]"

definition mytest_value :: "'d SrsJsonAny" where
  "mytest_value = json_object_of [(''code'', SrsJsonInteger ERROR_SUCCESS), (''msg'', SrsJsonString ''Hello'')]"

text \<open>\<open>SrsJsonAny::integer\<close> takes an \<open>int64_t\<close>, to which the unsigned fields are converted.\<close>

definition self_proc_value :: "'d SrsProcSelfStat \<Rightarrow> 'd SrsJsonAny" where
  "self_proc_value u = json_object_of
     [(''code'', SrsJsonInteger ERROR_SUCCESS), (''data'', json_object_of [
      (''ok'', SrsJsonBoolean (ps_ok u)), (''sample_time'', SrsJsonInteger (wrap64 (ps_sample_time u))),
       (''percent'', SrsJsonNumber (ps_percent u)), (''pid'', SrsJsonInteger (wrap64 (ps_pid u))),
       (''comm'', SrsJsonString (c_string (ps_comm u))), (''state'', SrsJsonString (c_string [ps_state u])),
       (''ppid'', SrsJsonInteger (wrap64 (ps_ppid u))), (''pgrp'', SrsJsonInteger (wrap64 (ps_pgrp u))),
       (''session'', SrsJsonInteger (wrap64 (ps_session u))),
       (''tty_nr'', SrsJsonInteger (wrap64 (ps_tty_nr u))), (''tpgid'', SrsJsonInteger (wrap64 (ps_tpgid u))),
       (''flags'', SrsJsonInteger (wrap64 (ps_flags u))), (''minflt'', SrsJsonInteger (wrap64 (ps_minflt u))),
       (''cminflt'', SrsJsonInteger (wrap64 (ps_cminflt u))),
       (''majflt'', SrsJsonInteger (wrap64 (ps_majflt u))),
       (''cmajflt'', SrsJsonInteger (wrap64 (ps_cmajflt u))), (''utime'', SrsJsonInteger (wrap64 (ps_utime u))),
       (''stime'', SrsJsonInteger (wrap64 (ps_stime u))), (''cutime'', SrsJsonInteger (wrap64 (ps_cutime u))),
       (''cstime'', SrsJsonInteger (wrap64 (ps_cstime u))),
       (''priority'', SrsJsonInteger (wrap64 (ps_priority u))), (''nice'', SrsJsonInteger (wrap64 (ps_nice u))),
       (''num_threads'', SrsJsonInteger (wrap64 (ps_num_threads u))),
       (''itrealvalue'', SrsJsonInteger (wrap64 (ps_itrealvalue u))),
       (''starttime'', SrsJsonInteger (wrap64 (ps_starttime u))),
       (''vsize'', SrsJsonInteger (wrap64 (ps_vsize u))), (''rss'', SrsJsonInteger (wrap64 (ps_rss u))),
       (''rsslim'', SrsJsonInteger (wrap64 (ps_rsslim u))),
       (''startcode'', SrsJsonInteger (wrap64 (ps_startcode u))),
       (''endcode'', SrsJsonInteger (wrap64 (ps_endcode u))),
       (''startstack'', SrsJsonInteger (wrap64 (ps_startstack u))),
       (''kstkesp'', SrsJsonInteger (wrap64 (ps_kstkesp u))),
       (''kstkeip'', SrsJsonInteger (wrap64 (ps_kstkeip u))),
       (''signal'', SrsJsonInteger (wrap64 (ps_signal u))),
       (''blocked'', SrsJsonInteger (wrap64 (ps_blocked u))),
       (''sigignore'', SrsJsonInteger (wrap64 (ps_sigignore u))),
       (''sigcatch'', SrsJsonInteger (wrap64 (ps_sigcatch u))),
       (''wchan'', SrsJsonInteger (wrap64 (ps_wchan u))), (''nswap'', SrsJsonInteger (wrap64 (ps_nswap u))),
       (''cnswap'', SrsJsonInteger (wrap64 (ps_cnswap u))),
       (''exit_signal'', SrsJsonInteger (wrap64 (ps_exit_signal u))),
       (''processor'', SrsJsonInteger (wrap64 (ps_processor u))),
       (''rt_priority'', SrsJsonInteger (wrap64 (ps_rt_priority u))),
       (''policy'', SrsJsonInteger (wrap64 (ps_policy u))),
       (''delayacct_blkio_ticks'', SrsJsonInteger (wrap64 (ps_delayacct_blkio_ticks u))),
       (''guest_time'', SrsJsonInteger (wrap64 (ps_guest_time u))),
       (''cguest_time'', SrsJsonInteger (wrap64 (ps_cguest_time u)))])]"

subsection \<open>The handlers\<close>

datatype api_fate = Living | Killed | Endless

record 's api_io =
  io_buf :: SrsFastStream
  io_skt :: 's
  fate :: api_fate

definition io_put :: "'s put \<Rightarrow> 's api_io put" where
  "io_put put bs w = (case put bs (io_skt w) of (e, s) \<Rightarrow> (e, w\<lparr>io_skt := s\<rparr>))"

definition io_putv :: "'s putv \<Rightarrow> 's api_io putv" where
  "io_putv putv iov w = (case putv iov (io_skt w) of (e, s) \<Rightarrow> (e, w\<lparr>io_skt := s\<rparr>))"

text \<open>What the handlers use: the socket, the operations on \<open>double\<close>, and the statistics of the process.\<close>

record ('s, 'd) api_lib =
  api_read :: "'s reader_fun"
  api_put :: "'s put"
  api_putv :: "'s putv"
  doubles :: "'d double_ops"
  print_double :: "'d \<Rightarrow> string"
  self_stat :: "'d SrsProcSelfStat"

definition answer ::
    "('s, 'd) api_lib \<Rightarrow> 'd SrsJsonAny \<Rightarrow> SrsHttpMessage \<Rightarrow> SrsHttpResponseWriter \<Rightarrow> 's api_io \<Rightarrow> 's api_io served" where
  "answer A v r rw w =
     srs_api_response (io_put (api_put A)) (io_putv (api_putv A)) r (any_dumps (print_double A) v) rw w"

text \<open>Whether the handler dereferences a null pointer (a body that is not an object) or fails an assertion (a message
  that is not a string).\<close>

definition request_aborts :: "'d SrsJsonAny \<Rightarrow> bool" where
  "request_aborts v =
     (case to_object v of
        None \<Rightarrow> True
      | Some obj_req \<Rightarrow> (case get_property ''msg'' obj_req of None \<Rightarrow> False | Some msg \<Rightarrow> to_str msg = None))"

definition api_answer_body ::
    "('s, 'd) api_lib \<Rightarrow> string \<Rightarrow> SrsHttpMessage \<Rightarrow> SrsHttpResponseWriter \<Rightarrow> 's api_io \<Rightarrow> 's api_io served" where
  "api_answer_body A body r rw w =
     (case loads (doubles A) body of
        None \<Rightarrow> (ERROR_SUCCESS, rw, w)
      | Some v \<Rightarrow>
          if request_aborts v then (ERROR_SUCCESS, rw, w\<lparr>fate := Killed\<rparr>) else answer A api_value r rw w)"

text \<open>An error of reading the body is ignored.\<close>

definition SrsGoApiApi_serve ::
    "('s, 'd) api_lib \<Rightarrow> SrsHttpMessage \<Rightarrow> SrsHttpResponseWriter \<Rightarrow> 's api_io \<Rightarrow> 's api_io served" where
  "SrsGoApiApi_serve A r rw w =
     (case body_read_all (api_read A) [] r (io_buf w) (io_skt w) of
        None \<Rightarrow> (ERROR_SUCCESS, rw, w\<lparr>fate := Endless\<rparr>)
      | Some (_, BdCrash) \<Rightarrow> (ERROR_SUCCESS, rw, w\<lparr>fate := Killed\<rparr>)
      | Some (body, BdOk _ _ s k) \<Rightarrow> api_answer_body A body r rw (w\<lparr>io_buf := s, io_skt := k\<rparr>)
      | Some (body, BdErr _ _ s k) \<Rightarrow> api_answer_body A body r rw (w\<lparr>io_buf := s, io_skt := k\<rparr>))"

subsection \<open>The routes\<close>

datatype api_handler = SrsGoApiApi | SrsMytest | SrsGoApiSelfProcStats | SrsGoApiVersion

fun api_serve ::
    "('s, 'd) api_lib \<Rightarrow> api_handler \<Rightarrow> SrsHttpMessage \<Rightarrow> SrsHttpResponseWriter \<Rightarrow> 's api_io \<Rightarrow> 's api_io served" where
  "api_serve A SrsGoApiApi r rw w = SrsGoApiApi_serve A r rw w"
| "api_serve A SrsMytest r rw w = answer A mytest_value r rw w"
| "api_serve A SrsGoApiSelfProcStats r rw w = answer A (self_proc_value (self_stat A)) r rw w"
| "api_serve A SrsGoApiVersion r rw w = answer A version_value r rw w"

definition http_handle :: "api_handler SrsHttpServeMux \<Rightarrow> int \<times> api_handler SrsHttpServeMux" where
  "http_handle m =
     (case mux_handle ''/api/'' SrsGoApiApi m of (e, m) \<Rightarrow>
        if e \<noteq> ERROR_SUCCESS then (e, m)
        else case mux_handle ''/api/mytest'' SrsMytest m of (e, m) \<Rightarrow>
          if e \<noteq> ERROR_SUCCESS then (e, m)
          else mux_handle ''/api/v1/self_proc_stats'' SrsGoApiSelfProcStats m)"

section \<open>Writing the answer\<close>

lemma io_conn:
  assumes "response_conn put sent putv"
  shows "response_conn (io_put put) (\<lambda>w. sent (io_skt w)) (io_putv putv)"
proof -
  from assms have "byte_writer put sent" by (simp add: response_conn_def)
  then show ?thesis
    by unfold_locales
      (auto simp: io_put_def io_putv_def split: prod.splits
        dest: byte_writer.put_Ok [rotated] response_conn.putv_Ok [OF assms])
qed

text \<open>The first write of a handler that has set type and length sends the head with status 200.\<close>

lemma rw_write_first:
  assumes "\<not> header_wrote rw" "content_type (hdr rw) \<noteq> []" "content_length (hdr rw) \<noteq> - 1"
  shows "rw_write put putv data rw w = rw_write put putv data (rw_write_header SRS_CONSTS_HTTP_OK rw) w"
  using assms by (simp add: rw_write_def Let_def rw_write_header_def)

lemma rw_write_sent:
  assumes "rw_write put putv data rw w = (0, rw', w')" "header_wrote rw" "header_sent rw"
  shows "hdr rw' = hdr rw \<and> status rw' = status rw \<and> header_wrote rw' \<and> header_sent rw'"
  using assms by (auto simp: rw_write_def send_header_def Let_def split: if_splits option.splits prod.splits)

lemma write_each_sent:
  "write_each put putv iov rw w = (0, rw', w') \<Longrightarrow> header_wrote rw \<Longrightarrow> header_sent rw \<Longrightarrow>
     hdr rw' = hdr rw \<and> status rw' = status rw"
  by (induction iov arbitrary: rw w) (auto split: prod.splits if_splits dest!: rw_write_sent)

lemma complete_header_length: "content_length (complete_header data rw) = content_length (hdr rw)"
  by (simp add: complete_header_def Let_def content_length_def set_content_type_def header_get_set split: option.split)

text \<open>A list of pieces whose total length was announced.\<close>

lemma write_pieces:
  assumes "response_conn put sent putv" "\<not> header_wrote rw" "\<not> header_sent rw" "hf rw = None" "written rw = 0"
    "content_type (hdr rw) \<noteq> []" "content_length (hdr rw) = int (length (concat iov))" "iov \<noteq> []"
    "write_each put putv iov rw w = (ERROR_SUCCESS, rw', w')"
  shows "sent w' = sent w @ response_head rw' @ concat iov \<and> status rw' = SRS_CONSTS_HTTP_OK \<and>
    content_length (hdr rw') = int (length (concat iov))"
proof -
  let ?rw = "rw_write_header SRS_CONSTS_HTTP_OK rw"
  obtain bs bss where iov: "iov = bs # bss" using assms(8) by (cases iov) auto
  have rw: "header_wrote ?rw" "\<not> header_sent ?rw" "rw_content_length ?rw = int (length (concat iov))" "hf ?rw = None"
    "status ?rw = SRS_CONSTS_HTTP_OK" "hdr ?rw = hdr rw"
    using assms by (simp_all add: rw_write_header_def)
  have "rw_write put putv (Some bs) rw w = rw_write put putv (Some bs) ?rw w"
    by (rule rw_write_first) (use assms(2,6,7) in simp_all)
  with assms(9) have run: "write_each put putv iov ?rw w = (0, rw', w')" by (simp add: iov)
  have "on_wire (sent w) [] (sent w) ?rw" using rw by (simp add: on_wire_def)
  from response_conn.write_each_Ok [OF assms(1) run this] rw(3) have wire: "on_wire (sent w) (concat iov) (sent w') rw'" by simp
  obtain rw1 w1 where w1: "rw_write put putv (Some bs) ?rw w = (0, rw1, w1)" "write_each put putv bss rw1 w1 = (0, rw', w')"
    using run by (auto simp: iov split: prod.splits if_splits)
  have h: "status rw1 = SRS_CONSTS_HTTP_OK \<and> hdr rw1 = complete_header (Some bs) ?rw"
    using rw_write_head [OF w1(1) rw(1,2,4)] rw(5) by simp
  have s: "header_sent rw1 \<and> header_wrote rw1"
    using response_conn.rw_write_Ok [OF assms(1) w1(1), of "sent w" "[]"] rw by (auto simp: on_wire_def)
  from write_each_sent [OF w1(2)] s h have hdr: "status rw' = SRS_CONSTS_HTTP_OK" "hdr rw' = complete_header (Some bs) ?rw"
    by auto
  have "header_sent rw'"
    using w1(2) s by (induction bss arbitrary: rw1 w1) (auto split: prod.splits if_splits dest!: rw_write_sent)
  with wire hdr assms(7) rw(6) show ?thesis by (simp add: on_wire_def complete_header_length)
qed

text \<open>The pieces of an answer.\<close>

definition api_pieces :: "SrsHttpMessage \<Rightarrow> string \<Rightarrow> string list" where
  "api_pieces r json =
     (if m_jsonp r then (if query_get ''callback'' r \<noteq> [] then [query_get ''callback'' r] else []) @ [''('', json, '')'']
      else [json])"

definition api_body :: "SrsHttpMessage \<Rightarrow> string \<Rightarrow> string" where
  "api_body r json = (if m_jsonp r then query_get ''callback'' r @ ''('' @ json @ '')'' else json)"

lemma concat_api_pieces [simp]: "concat (api_pieces r json) = api_body r json"
  by (simp add: api_pieces_def api_body_def)

lemma srs_api_response_pieces:
  "srs_api_response put putv r json rw w =
     write_each put putv (api_pieces r json)
       (rw\<lparr>hdr := set_content_type (if m_jsonp r then ''text/javascript'' else ''application/json'')
         (set_content_length (int (length (api_body r json))) (hdr rw))\<rparr>) w"
  by (auto simp: srs_api_response_def srs_api_response_json_def srs_api_response_jsonp_def api_pieces_def api_body_def Let_def
      add.commute split: prod.splits)

lemma api_response_wire:
  assumes "response_conn put sent putv" "\<not> header_wrote rw" "\<not> header_sent rw" "hf rw = None" "written rw = 0"
    "length (api_body r json) < 2 ^ 53" "srs_api_response put putv r json rw w = (ERROR_SUCCESS, rw', w')"
  shows "sent w' = sent w @ response_head rw' @ api_body r json \<and> status rw' = SRS_CONSTS_HTTP_OK \<and>
    content_length (hdr rw') = int (length (api_body r json))"
proof -
  let ?h = "set_content_type (if m_jsonp r then ''text/javascript'' else ''application/json'')
         (set_content_length (int (length (api_body r json))) (hdr rw))"
  have len: "content_length ?h = int (length (concat (api_pieces r json)))"
    using content_length_set [of "int (length (api_body r json))" "hdr rw"] assms(6)
    by (simp add: content_length_def set_content_type_def header_get_set)
  have "api_pieces r json \<noteq> []" by (simp add: api_pieces_def)
  with assms len write_pieces [of put sent putv "rw\<lparr>hdr := ?h\<rparr>" "api_pieces r json" w rw' w'] show ?thesis
    by (simp add: srs_api_response_pieces content_type_def set_content_type_def header_get_set)
qed

section \<open>The routes of the API\<close>

definition api_entry :: "string \<Rightarrow> api_handler \<Rightarrow> string \<times> api_handler SrsHttpMuxEntry" where
  "api_entry p h = (p, \<lparr>explicit_match = True, entry_handler = h, entry_pattern = p, entry_enabled = True\<rparr>)"

definition api_mux :: "api_handler SrsHttpServeMux" where
  "api_mux = \<lparr>mux_entries = [api_entry ''/api/'' SrsGoApiApi, api_entry ''/api/mytest'' SrsMytest,
     api_entry ''/api/v1/self_proc_stats'' SrsGoApiSelfProcStats], mux_vhosts = []\<rparr>"

lemma http_handle_new: "http_handle SrsHttpServeMux_new = (ERROR_SUCCESS, api_mux)"
  by code_simp

lemma path_match_exact: "last p \<noteq> CHR ''/'' \<Longrightarrow> p \<noteq> [] \<Longrightarrow> path_match p path \<longleftrightarrow> path = p"
  by (auto simp: path_match_def)

lemma path_match_tree: "last p = CHR ''/'' \<Longrightarrow> p \<noteq> [] \<Longrightarrow> path_match p path \<longleftrightarrow> prefix p path"
  by (auto simp: path_match_def prefix_def) (metis append_take_drop_id)

lemma api_mux_match:
  "mux_match api_mux r =
     (let path = uri_path (m_uri r) in
      if path = ''/api/mytest'' then Some SrsMytest
      else if path = ''/api/v1/self_proc_stats'' then Some SrsGoApiSelfProcStats
      else if prefix ''/api/'' path then Some SrsGoApiApi else None)"
proof -
  have "prefix ''/api/'' ''/api/mytest''" "prefix ''/api/'' ''/api/v1/self_proc_stats''" by simp_all
  then show ?thesis
    by (auto simp: mux_match_def match_path_def api_mux_def api_entry_def path_match_exact path_match_tree Let_def)
qed

section \<open>The body of a request\<close>

lemma request_aborts_iff:
  "request_aborts v \<longleftrightarrow> \<not> (\<exists>ps. v = SrsJsonObject ps \<and> (\<forall>msg. get_property ''msg'' ps = Some msg \<longrightarrow> is_string msg))"
  by (cases v) (auto simp: request_aborts_def to_object_def to_str_def is_string_def split: option.splits SrsJsonAny.splits)

text \<open>A body with a content length is read whole, however it arrives.\<close>

lemma api_reads_body:
  assumes "st_reliable st_read incoming" "api_read A = SrsStSocket_read st_read" "stream_inv (io_buf w)" "0 < nb_buffer (io_buf w)"
    "\<not> m_chunked r" "m_content_length r = int (length body)" "length body < 2 ^ 31" "m_body r = SrsHttpResponseReader_new"
    "stream_bytes (io_buf w) @ incoming (net (io_skt w)) = body @ rest"
  shows "\<exists>s k. SrsGoApiApi_serve A r rw w = api_answer_body A body r rw (w\<lparr>io_buf := s, io_skt := k\<rparr>) \<and>
    stream_bytes s @ incoming (net k) = rest"
proof -
  have "body_left (message_owner r) body rest SrsHttpResponseReader_new (io_buf w) (incoming (net (io_skt w)))"
    using assms by (intro body_left_length) (auto simp: SrsHttpResponseReader_new_def message_owner_def)
  from reliable_reader.read_all_left [OF st_reliable.socket_reliable [OF assms(1)] this, of "[]"] obtain b' s k where
    "srs_ioutil_read_all (SrsStSocket_read st_read) (message_owner r) [] SrsHttpResponseReader_new (io_buf w) (io_skt w) =
       Some (body, BdOk [] b' s k)" "stream_bytes s @ incoming (net k) = rest" by (auto simp: body_left_def)
  with assms(2,8) show ?thesis
    by (intro exI [of _ s] exI [of _ k]) (simp add: SrsGoApiApi_serve_def body_read_all_def)
qed

text \<open>A request without a body, such as a \<open>GET\<close>, is not answered at all.\<close>

lemma api_without_body_unanswered:
  assumes "st_reliable st_read incoming" "api_read A = SrsStSocket_read st_read" "stream_inv (io_buf w)" "0 < nb_buffer (io_buf w)"
    "\<not> m_chunked r" "m_content_length r = 0" "m_body r = SrsHttpResponseReader_new"
  shows "\<exists>s k. SrsGoApiApi_serve A r rw w = (ERROR_SUCCESS, rw, w\<lparr>io_buf := s, io_skt := k\<rparr>)"
  using api_reads_body [OF assms(1-5), of "[]" "stream_bytes (io_buf w) @ incoming (net (io_skt w))" rw] assms(6,7)
  by (auto simp: api_answer_body_def loads_def)

section \<open>Properties\<close>

definition script_lib :: "(script SrsStSocket, int) api_lib" where
  "script_lib = \<lparr>api_read = SrsStSocket_read script_read, api_put = SrsStSocket_write script_write,
     api_putv = SrsStSocket_writev script_write, doubles = whole_ops, print_double = int_to_str, self_stat = SrsProcSelfStat_new 0\<rparr>"

text \<open>The routes of the API: \<open>http_handle\<close> registers its handlers without an error, and then a request goes to
  the test handler for \<open>/api/mytest\<close>, to the statistics for their path, to the handler of the API for every other path below
  \<open>/api/\<close>, and else to the handler for status 404; a URL with two dots in a row is refused.\<close>

lemma api_routes:
  "\<exists>m. http_handle SrsHttpServeMux_new = (ERROR_SUCCESS, m) \<and>
     find_handler m r =
       (if srs_string_contains (uri_url (m_uri r)) ''..'' then Err ERROR_HTTP_URL_NOT_CLEAN
        else Ok (if uri_path (m_uri r) = ''/api/mytest'' then Registered SrsMytest
          else if uri_path (m_uri r) = ''/api/v1/self_proc_stats'' then Registered SrsGoApiSelfProcStats
          else if prefix ''/api/'' (uri_path (m_uri r)) then Registered SrsGoApiApi else NotFoundHandler))"
  by (auto simp: http_handle_new find_handler_def srs_string_contains_def api_mux_match Let_def)

text \<open>An answer of the API: when the connection takes it, the client gets one response with status 200, whose
  \<open>Content-Length\<close> is the length of its body; the body is the text of the value, inside a call of the callback for JSONP; and
  parsing that text gives the value back.\<close>

lemma api_answer_on_wire:
  assumes "st_conn st_write st_writev outgoing" "api_put A = SrsStSocket_write st_write" "api_putv A = SrsStSocket_writev st_writev"
    "dumpable v" "length (api_body r (any_dumps (print_double A) v)) < 2 ^ 53"
    "answer A v r (SrsHttpResponseWriter_new\<lparr>hdr := h\<rparr>) w = (ERROR_SUCCESS, rw', w')"
  shows "outgoing (net (io_skt w')) = outgoing (net (io_skt w)) @ response_head rw' @ api_body r (any_dumps (print_double A) v) \<and>
    status rw' = 200 \<and> content_length (hdr rw') = int (length (api_body r (any_dumps (print_double A) v))) \<and>
    loads (doubles A) (any_dumps (print_double A) v) = Some v"
  using api_response_wire [OF io_conn [OF st_conn.socket_conn [OF assms(1)]], of "SrsHttpResponseWriter_new\<lparr>hdr := h\<rparr>"] assms
    loads_dumps [OF assms(4)]
  by (simp add: answer_def SrsHttpResponseWriter_new_def)

text \<open>C22. A request to the handler of the API with a JSON value as its body, however the body arrives: the process
  aborts when the value is not an object or has a member \<open>msg\<close> that is not a string; else the body is consumed and the
  request is answered.\<close>

theorem api_post_outcome:
  fixes A :: "('n SrsStSocket, 'd) api_lib" and v :: "'d SrsJsonAny"
  assumes "st_reliable st_read incoming" "api_read A = SrsStSocket_read st_read" "stream_inv (io_buf w)" "0 < nb_buffer (io_buf w)"
    "\<not> m_chunked r" "m_content_length r = int (length body)" "length body < 2 ^ 31" "m_body r = SrsHttpResponseReader_new"
    "stream_bytes (io_buf w) @ incoming (net (io_skt w)) = body @ rest"
    "dumpable v" "body = any_dumps fmt v"
  shows "\<exists>s k. stream_bytes s @ incoming (net k) = rest \<and>
    SrsGoApiApi_serve A r rw w =
      (if \<exists>ps. v = SrsJsonObject ps \<and> (\<forall>msg. get_property ''msg'' ps = Some msg \<longrightarrow> is_string msg)
       then answer A api_value r rw (w\<lparr>io_buf := s, io_skt := k\<rparr>)
       else (ERROR_SUCCESS, rw, w\<lparr>io_buf := s, io_skt := k, fate := Killed\<rparr>))"
proof -
  from api_reads_body [OF assms(1-9), of rw] obtain s k where
    "SrsGoApiApi_serve A r rw w = api_answer_body A body r rw (w\<lparr>io_buf := s, io_skt := k\<rparr>)"
    "stream_bytes s @ incoming (net k) = rest" by blast
  with loads_dumps [OF assms(10), of "doubles A" fmt] assms(11) request_aborts_iff [of v] show ?thesis
    by (intro exI [of _ s] exI [of _ k]) (auto simp: api_answer_body_def)
qed

theorem api_post_outcome_witness:
  "\<exists>s k. SrsGoApiApi_serve script_lib (SrsHttpMessage_new\<lparr>m_content_length := 2, m_body := SrsHttpResponseReader_new, m_chunked := False\<rparr>)
       SrsHttpResponseWriter_new
       \<lparr>io_buf = SrsFastStream_new 16 (\<lambda>_. CHR ''x''), io_skt = SrsStSocket_init \<lparr>segments = [''['', '']''], delivered = []\<rparr>, fate = Living\<rparr> =
     (ERROR_SUCCESS, SrsHttpResponseWriter_new, \<lparr>io_buf = s, io_skt = k, fate = Killed\<rparr>)"
proof -
  let ?r = "SrsHttpMessage_new\<lparr>m_content_length := 2, m_body := SrsHttpResponseReader_new, m_chunked := False\<rparr>"
  let ?w = "\<lparr>io_buf = SrsFastStream_new 16 (\<lambda>_. CHR ''x''), io_skt = SrsStSocket_init \<lparr>segments = [''['', '']''], delivered = []\<rparr>, fate = Living\<rparr>"
  let ?v = "SrsJsonArray [] :: int SrsJsonAny"
  have w: "api_read script_lib = SrsStSocket_read script_read" "stream_inv (io_buf ?w)" "0 < nb_buffer (io_buf ?w)"
    "stream_bytes (io_buf ?w) @ concat (segments (net (io_skt ?w))) = ''[]'' @ []"
    using stream_inv_new [of 16 "\<lambda>_. CHR ''x''"]
    by (simp_all add: script_lib_def SrsStSocket_init_def SrsFastStream_new_def stream_bytes_def)
  have r: "\<not> m_chunked ?r" "m_content_length ?r = int (length ''[]'')" "length ''[]'' < 2 ^ 31" "m_body ?r = SrsHttpResponseReader_new"
    by simp_all
  have v: "dumpable ?v" "''[]'' = any_dumps int_to_str ?v" by (simp_all add: uint_max_def)
  have "\<not> (\<exists>ps. ?v = SrsJsonObject ps \<and> (\<forall>msg. get_property ''msg'' ps = Some msg \<longrightarrow> is_string msg))" by simp
  with api_post_outcome [OF script_in.st_reliable_axioms w(1-3) r w(4) v, of SrsHttpResponseWriter_new] show ?thesis
    unfolding if_not_P by auto
qed

end
