(* ===== verification/Http_Conn.thy ===== *)
theory Http_Conn
  imports Http_Api Srs_Http_Parser Steps
begin

text \<open>
  The connections of the HTTP API (\<open>src/src/app/srs_app_http_conn.cpp\<close>): \<open>SrsHttpConn\<close>, which parses requests and
  hands them to the dispatchers, and its owner \<open>SrsHttpxConn\<close>.  The socket \<open>'s\<close> is the one of the client, or the TLS
  connection on top of it.  Three functions end without a return statement on their successful path; what their caller gets
  then is a field of the library, \<open>None\<close> if the process does not survive it.
\<close>

section \<open>Definitions\<close>

record ('s, 'd) conn_lib =
  api :: "('s, 'd) api_lib"
  recv_timeout :: "'s \<Rightarrow> 's"
  handshake :: "('s \<Rightarrow> int \<times> 's) option"
  conn_pull :: "nat \<Rightarrow> int"
  resolve_ip :: string
  stray_request :: "int option"
  stray_requests :: "int option"
  stray_cycle :: "int option"

text \<open>\<open>conn_removed\<close> counts the calls of \<open>manager->remove\<close> with the connection.\<close>

record 's SrsHttpConn =
  hc_parser :: SrsHttpParser
  hc_cors :: SrsHttpCorsMux
  hc_skt :: 's
  conn_removed :: nat

definition SrsHttpConn_new :: "(nat \<Rightarrow> char) \<Rightarrow> 's \<Rightarrow> 's SrsHttpConn" where
  "SrsHttpConn_new mem skt =
     \<lparr>hc_parser = SrsHttpParser_new mem, hc_cors = \<lparr>cors_required = False, cors_enabled = False\<rparr>, hc_skt = skt, conn_removed = 0\<rparr>"

type_synonym ('a, 's) conn_step = "('a, 's SrsHttpConn) step option"

definition missing_return :: "int option \<Rightarrow> 's SrsHttpConn \<Rightarrow> (int, 's) conn_step" where
  "missing_return v c = (case v of None \<Rightarrow> Some Crash | Some e \<Rightarrow> Some (Go e c))"

subsection \<open>\<open>SrsHttpxConn\<close>\<close>

definition httpx_on_start :: "('s, 'd) conn_lib \<Rightarrow> 's SrsHttpConn \<Rightarrow> int \<times> 's SrsHttpConn" where
  "httpx_on_start L c =
     (let c = c\<lparr>hc_parser := (hc_parser c)\<lparr>sp_jsonp := True\<rparr>\<rparr> in
      case handshake L of
        None \<Rightarrow> (ERROR_SUCCESS, c)
      | Some h \<Rightarrow> (case h (hc_skt c) of (e, s) \<Rightarrow> (e, c\<lparr>hc_skt := s\<rparr>)))"

definition httpx_on_http_message :: "('s, 'd) conn_lib \<Rightarrow> SrsHttpMessage \<Rightarrow> SrsHttpMessage" where
  "httpx_on_http_message L r = (if handshake L \<noteq> None then set_https True r else r)"

definition httpx_on_conn_done :: "int \<Rightarrow> 's SrsHttpConn \<Rightarrow> int \<times> 's SrsHttpConn" where
  "httpx_on_conn_done r0 c =
     (let c = c\<lparr>conn_removed := Suc (conn_removed c)\<rparr> in
      if r0 = ERROR_SOCKET_TIMEOUT then (ERROR_SUCCESS, c) else (r0, c))"

definition set_crossdomain_enabled :: "bool \<Rightarrow> 's SrsHttpConn \<Rightarrow> 's SrsHttpConn" where
  "set_crossdomain_enabled v c = c\<lparr>hc_cors := SrsHttpCorsMux_initialize v (hc_cors c)\<rparr>"

subsection \<open>\<open>SrsHttpConn\<close>\<close>

definition process_request ::
    "('s, 'd) conn_lib \<Rightarrow> api_handler SrsHttpServeMux \<Rightarrow> SrsHttpMessage \<Rightarrow> SrsHttpResponseWriter \<Rightarrow> 's SrsHttpConn \<Rightarrow> (int, 's) conn_step" where
  "process_request L m r rw c =
     (let put = io_put (api_put (api L)); putv = io_putv (api_putv (api L));
          w = \<lparr>io_buf = sp_buffer (hc_parser c), io_skt = hc_skt c, fate = Living\<rparr>
      in case cors_serve_http (mux_serve_http (api_serve (api L)) put putv m) put putv (hc_cors c) r rw w of (cors, e, _, w) \<Rightarrow>
        let c = c\<lparr>hc_cors := cors, hc_parser := (hc_parser c)\<lparr>sp_buffer := io_buf w\<rparr>, hc_skt := io_skt w\<rparr> in
        case fate w of
          Endless \<Rightarrow> None
        | Killed \<Rightarrow> Some Crash
        | Living \<Rightarrow> if e \<noteq> ERROR_SUCCESS then Some (Go e c) else missing_return (stray_request L) c)"

definition read_message :: "('s, 'd) conn_lib \<Rightarrow> 's SrsHttpConn \<Rightarrow> (SrsHttpMessage, 's) conn_step" where
  "read_message L c =
     map_option (\<lambda>res. case res of
         PmOk m obj s \<Rightarrow> Go m (c\<lparr>hc_parser := obj, hc_skt := s\<rparr>)
       | PmErr e obj s \<Rightarrow> Ret e (c\<lparr>hc_parser := obj, hc_skt := s\<rparr>)
       | PmCrash \<Rightarrow> Crash)
       (parse_message (resolve_ip L) (api_read (api L)) (hc_parser c) (hc_skt c))"

partial_function (option) http_conn_process_requests ::
    "('s, 'd) conn_lib \<Rightarrow> api_handler SrsHttpServeMux \<Rightarrow> nat \<Rightarrow> 's SrsHttpConn \<Rightarrow> (int, 's) conn_step" where
  "http_conn_process_requests L m req_id c =
     (if conn_pull L req_id \<noteq> ERROR_SUCCESS then Some (Ret (conn_pull L req_id) c)
      else
        andthen (read_message L c) (\<lambda>r c.
        andthen (process_request L m (httpx_on_http_message L r) SrsHttpResponseWriter_new c) (\<lambda>e c.
          if e \<noteq> ERROR_SUCCESS then Some (Ret e c)
          else if \<not> m_keep_alive r then missing_return (stray_requests L) c
          else http_conn_process_requests L m (Suc req_id) c)))"

text \<open>The value of \<open>http_conn_process_requests\<close> is not used.\<close>

definition http_conn_do_cycle ::
    "('s, 'd) conn_lib \<Rightarrow> api_handler SrsHttpServeMux \<Rightarrow> 's SrsHttpConn \<Rightarrow> (int, 's) conn_step" where
  "http_conn_do_cycle L m c =
     (let c = c\<lparr>hc_skt := recv_timeout L (hc_skt c), hc_parser := SrsHttpParser_initialize HTTP_REQUEST (hc_parser c)\<rparr> in
      case httpx_on_start L c of (e, c) \<Rightarrow>
        if e \<noteq> ERROR_SUCCESS then Some (Ret e c)
        else
          (case http_conn_process_requests L m 0 c of
             None \<Rightarrow> None
           | Some Crash \<Rightarrow> Some Crash
           | Some (Go _ c) \<Rightarrow> missing_return (stray_cycle L) c
           | Some (Ret _ c) \<Rightarrow> missing_return (stray_cycle L) c))"

text \<open>Every error that is left is logged and freed.\<close>

definition http_conn_cycle ::
    "('s, 'd) conn_lib \<Rightarrow> api_handler SrsHttpServeMux \<Rightarrow> 's SrsHttpConn \<Rightarrow> (int, 's) conn_step" where
  "http_conn_cycle L m c =
     (case http_conn_do_cycle L m c of
        None \<Rightarrow> None
      | Some Crash \<Rightarrow> Some Crash
      | Some (Go e c) \<Rightarrow> Some (Go ERROR_SUCCESS (snd (httpx_on_conn_done e c)))
      | Some (Ret e c) \<Rightarrow> Some (Go ERROR_SUCCESS (snd (httpx_on_conn_done e c))))"

section \<open>The end of a connection\<close>

text \<open>No step before \<open>on_conn_done\<close> removes the connection.\<close>

definition stays :: "nat \<Rightarrow> ('a, 's) conn_step \<Rightarrow> bool" where
  "stays n m \<longleftrightarrow> (\<forall>a c. m = Some (Go a c) \<longrightarrow> conn_removed c = n) \<and> (\<forall>e c. m = Some (Ret e c) \<longrightarrow> conn_removed c = n)"

lemma stays_simps [simp]:
  "stays n None" "stays n (Some Crash)" "stays n (Some (Go a c)) \<longleftrightarrow> conn_removed c = n" "stays n (Some (Ret e c)) \<longleftrightarrow> conn_removed c = n"
  "stays n (missing_return v c) \<longleftrightarrow> v = None \<or> conn_removed c = n"
  by (auto simp: stays_def missing_return_def split: option.splits)

lemma stays_option: "(\<And>r. m = Some r \<Longrightarrow> stays n (Some r)) \<Longrightarrow> stays n m"
  by (cases m) simp_all

lemma stays_andthen: "stays n m \<Longrightarrow> (\<And>a c. conn_removed c = n \<Longrightarrow> stays n (f a c)) \<Longrightarrow> stays n (andthen m f)"
  by (cases m) (auto simp: andthen_def split: step.splits)

lemma stays_process_request: "conn_removed c = n \<Longrightarrow> stays n (process_request L m r rw c)"
  by (auto simp: process_request_def Let_def split: prod.splits api_fate.splits)

lemma stays_read_message: "conn_removed c = n \<Longrightarrow> stays n (read_message L c)"
  by (cases "parse_message (resolve_ip L) (api_read (api L)) (hc_parser c) (hc_skt c)")
    (auto simp: read_message_def split: parse_result.splits)

lemmas stays_intros = stays_andthen stays_process_request stays_read_message

lemma stays_process_requests:
  fixes L :: "('s, 'd) conn_lib"
  shows "conn_removed c = n \<Longrightarrow> stays n (http_conn_process_requests L m req_id c)"
proof -
  have "stays (conn_removed c) (Some r)" if "http_conn_process_requests L m req_id c = Some r" for L :: "('s, 'd) conn_lib" and m req_id c r
  proof (rule http_conn_process_requests.raw_induct [where P = "\<lambda>L m req_id c r. stays (conn_removed c) (Some r)", OF _ that])
    fix rec :: "('s, 'd) conn_lib \<Rightarrow> api_handler SrsHttpServeMux \<Rightarrow> nat \<Rightarrow> 's SrsHttpConn \<Rightarrow> (int, 's) conn_step" and L m req_id c r
    assume IH: "\<And>L m req_id c r. rec L m req_id c = Some r \<Longrightarrow> stays (conn_removed c) (Some r)"
    assume run: "(if conn_pull L req_id \<noteq> ERROR_SUCCESS then Some (Ret (conn_pull L req_id) c)
      else
        andthen (read_message L c) (\<lambda>r c.
        andthen (process_request L m (httpx_on_http_message L r) SrsHttpResponseWriter_new c) (\<lambda>e c.
          if e \<noteq> ERROR_SUCCESS then Some (Ret e c)
          else if \<not> m_keep_alive r then missing_return (stray_requests L) c
          else rec L m (Suc req_id) c))) = Some r"
    have rec: "conn_removed q = t \<Longrightarrow> stays t (rec L m i q)" for t L m i q using IH by (auto intro: stays_option)
    show "stays (conn_removed c) (Some r)"
      unfolding run [symmetric] by (auto intro!: stays_intros rec)
  qed
  then show "conn_removed c = n \<Longrightarrow> stays n (http_conn_process_requests L m req_id c)" by (auto intro: stays_option)
qed

lemma stays_do_cycle: "conn_removed c = n \<Longrightarrow> stays n (http_conn_do_cycle L m c)"
proof -
  assume n: "conn_removed c = n"
  let ?c = "c\<lparr>hc_skt := recv_timeout L (hc_skt c), hc_parser := SrsHttpParser_initialize HTTP_REQUEST (hc_parser c)\<rparr>"
  obtain e c1 where st: "httpx_on_start L ?c = (e, c1)" by (cases "httpx_on_start L ?c")
  then have "conn_removed c1 = n" using n by (auto simp: httpx_on_start_def Let_def split: option.splits prod.splits)
  with stays_process_requests [OF this, of L m 0] st show ?thesis
    by (auto simp: http_conn_do_cycle_def Let_def split: option.splits step.splits)
qed

section \<open>One request\<close>

text \<open>A connection that takes everything takes a response that stays inside its length.\<close>

lemma rw_write_succeeds:
  assumes "\<forall>bs w. bs \<noteq> [] \<longrightarrow> fst (put bs w) = ERROR_SUCCESS" "header_wrote rw" "hf rw = None" "rw_content_length rw \<noteq> - 1"
    "written rw + int (length bs) \<le> rw_content_length rw"
  shows "\<exists>rw1 w1. rw_write put putv (Some bs) rw w = (ERROR_SUCCESS, rw1, w1) \<and> header_wrote rw1 \<and> hf rw1 = None \<and>
    rw_content_length rw1 = rw_content_length rw \<and> written rw1 = written rw + int (length bs)"
proof -
  have "\<exists>rw1 w1. send_header put (Some bs) rw w = (ERROR_SUCCESS, rw1, w1) \<and> header_wrote rw1 \<and> hf rw1 = None \<and>
    rw_content_length rw1 = rw_content_length rw \<and> written rw1 = written rw"
  proof (cases "header_sent rw")
    case True
    with assms(2,3) show ?thesis by (simp add: send_header_def)
  next
    case False
    let ?t = "status_line (status rw) @ header_write (complete_header (Some bs) rw) @ CRLF"
    have "?t \<noteq> []" by (simp add: status_line_def)
    with assms(1) [rule_format, OF this, of w] obtain w1 where "put ?t w = (ERROR_SUCCESS, w1)" by (cases "put ?t w") auto
    with assms(2,3) False show ?thesis by (simp add: send_header_def Let_def)
  qed
  then obtain rw1 w1 where sh: "send_header put (Some bs) rw w = (ERROR_SUCCESS, rw1, w1)" and
    rw1: "header_wrote rw1" "hf rw1 = None" "rw_content_length rw1 = rw_content_length rw" "written rw1 = written rw" by blast
  show ?thesis
    using assms(1) [rule_format, of bs w1] assms(2,4,5) sh rw1
    by (cases "put bs w1") (auto simp: rw_write_def Let_def data_size_def)
qed

lemma write_each_succeeds:
  assumes "\<forall>bs w. bs \<noteq> [] \<longrightarrow> fst (put bs w) = ERROR_SUCCESS"
  shows "header_wrote rw \<Longrightarrow> hf rw = None \<Longrightarrow> rw_content_length rw \<noteq> - 1 \<Longrightarrow>
    written rw + int (length (concat iov)) \<le> rw_content_length rw \<Longrightarrow> fst (write_each put putv iov rw w) = ERROR_SUCCESS"
proof (induction iov arbitrary: rw w)
  case (Cons bs iov)
  then have "written rw + int (length bs) \<le> rw_content_length rw" by simp
  from rw_write_succeeds [OF assms Cons.prems(1-3) this] obtain rw1 w1 where
    "rw_write put putv (Some bs) rw w = (ERROR_SUCCESS, rw1, w1)" "header_wrote rw1" "hf rw1 = None"
    "rw_content_length rw1 = rw_content_length rw" "written rw1 = written rw + int (length bs)" by blast
  with Cons.IH [of rw1 w1] Cons.prems show ?case by simp
qed simp

text \<open>What the writes of a response leave alone.\<close>

lemma rw_write_keeps:
  assumes "\<And>bs w. K (snd (put bs w)) = K w" "\<And>iov w. K (snd (putv iov w)) = K w" "rw_write put putv data rw w = (e, rw', w')"
  shows "K w' = K w"
proof -
  have p: "K w1 = K w" if "put bs w = (e, w1)" for bs w e w1 using assms(1) [of bs w] that by simp
  have pv: "K w1 = K w" if "putv iov w = (e, w1)" for iov w e w1 using assms(2) [of iov w] that by simp
  have sh: "send_header put data rw w = (e, rw', w') \<Longrightarrow> K w' = K w" for data e rw rw' w w'
    by (auto simp: send_header_def Let_def split: if_splits prod.splits dest!: p)
  show ?thesis
    using assms(3) by (auto simp: rw_write_def Let_def split: if_splits prod.splits option.splits dest!: sh p pv)
qed

lemma write_each_keeps:
  assumes "\<And>bs w. K (snd (put bs w)) = K w" "\<And>iov w. K (snd (putv iov w)) = K w"
  shows "write_each put putv iov rw w = (e, rw', w') \<Longrightarrow> K w' = K w"
  by (induction iov arbitrary: rw w) (auto split: prod.splits if_splits dest!: rw_write_keeps [where K = K, OF assms])

text \<open>The answer of a handler that does not read the body.\<close>

lemma answer_served:
  assumes "st_conn st_write st_writev outgoing" "api_put A = SrsStSocket_write st_write" "api_putv A = SrsStSocket_writev st_writev"
    "\<forall>bs tm n. bs \<noteq> [] \<longrightarrow> (\<exists>k n'. st_write bs tm n = (StWrote k, n') \<and> 0 < k)"
    "length (api_body r (any_dumps (print_double A) v)) < 2 ^ 53"
  shows "\<exists>rw' w'. answer A v r (SrsHttpResponseWriter_new\<lparr>hdr := h\<rparr>) w = (ERROR_SUCCESS, rw', w') \<and>
    outgoing (net (io_skt w')) = outgoing (net (io_skt w)) @ response_head rw' @ api_body r (any_dumps (print_double A) v) \<and>
    content_length (hdr rw') = int (length (api_body r (any_dumps (print_double A) v))) \<and> status rw' = 200 \<and>
    io_buf w' = io_buf w \<and> fate w' = fate w"
proof -
  let ?body = "api_body r (any_dumps (print_double A) v)" and ?put = "io_put (api_put A)" and ?putv = "io_putv (api_putv A)"
  let ?rw = "SrsHttpResponseWriter_new\<lparr>hdr := h\<rparr>"
  let ?h = "set_content_type (if m_jsonp r then ''text/javascript'' else ''application/json'') (set_content_length (int (length ?body)) h)"
  have len: "content_length ?h = int (length ?body)"
    using content_length_set [of "int (length ?body)" h] assms(5)
    by (simp add: content_length_def set_content_type_def header_get_set)
  have ty: "content_type ?h \<noteq> []" by (simp add: content_type_def set_content_type_def header_get_set)
  have ok: "\<forall>bs w. bs \<noteq> [] \<longrightarrow> fst (?put bs w) = ERROR_SUCCESS"
  proof clarify
    fix bs :: string and w :: "'a SrsStSocket api_io"
    assume "bs \<noteq> []"
    with assms(4) obtain k n' where "st_write bs (stm (io_skt w)) (net (io_skt w)) = (StWrote k, n')" "0 < k" by blast
    then show "fst (?put bs w) = ERROR_SUCCESS" by (simp add: io_put_def assms(2) SrsStSocket_write_def Let_def)
  qed
  have K: "(io_buf (snd (?put bs w)), fate (snd (?put bs w))) = (io_buf w, fate w)"
    "(io_buf (snd (?putv iov w)), fate (snd (?putv iov w))) = (io_buf w, fate w)" for bs iov w
    by (simp_all add: io_put_def io_putv_def split: prod.splits)
  obtain e rw' w' where run: "answer A v r ?rw w = (e, rw', w')" by (metis prod_cases3)
  then have we: "write_each ?put ?putv (api_pieces r (any_dumps (print_double A) v)) (?rw\<lparr>hdr := ?h\<rparr>) w = (e, rw', w')"
    by (simp add: answer_def srs_api_response_pieces)
  have "api_pieces r (any_dumps (print_double A) v) \<noteq> []" by (simp add: api_pieces_def)
  then obtain p ps where pp: "api_pieces r (any_dumps (print_double A) v) = p # ps" by (meson list.exhaust)
  let ?rw1 = "rw_write_header SRS_CONSTS_HTTP_OK (?rw\<lparr>hdr := ?h\<rparr>)"
  have "rw_write ?put ?putv (Some p) (?rw\<lparr>hdr := ?h\<rparr>) w = rw_write ?put ?putv (Some p) ?rw1 w"
    by (rule rw_write_first) (use len ty in \<open>simp_all add: SrsHttpResponseWriter_new_def\<close>)
  then have "write_each ?put ?putv (p # ps) ?rw1 w = (e, rw', w')" using we unfolding pp by simp
  moreover have "fst (write_each ?put ?putv (p # ps) ?rw1 w) = ERROR_SUCCESS"
    by (rule write_each_succeeds [OF ok], insert concat_api_pieces [of r "any_dumps (print_double A) v"] len)
      (simp_all add: rw_write_header_def SrsHttpResponseWriter_new_def pp del: concat.simps)
  ultimately have e: "e = ERROR_SUCCESS" by simp
  from write_each_keeps [where K = "\<lambda>w. (io_buf w, fate w)", OF K we] have "io_buf w' = io_buf w" "fate w' = fate w" by simp_all
  with run e api_response_wire [OF io_conn [OF st_conn.socket_conn [OF assms(1)]], of ?rw r "any_dumps (print_double A) v" w rw' w'] assms(2,3,5)
  show ?thesis by (simp add: answer_def SrsHttpResponseWriter_new_def)
qed

lemma cors_passes:
  assumes "\<not> is_http_options r"
  shows "\<exists>cors h. cors_serve_http worker put putv c r rw w = (cors, worker r (rw\<lparr>hdr := h\<rparr>) w)"
proof -
  let ?c = "if cors_enabled c then c\<lparr>cors_required := (header_get ''Origin'' (m_header r) \<noteq> [])\<rparr> else c"
  have "cors_serve_http worker put putv c r rw w =
      (?c, worker r (rw\<lparr>hdr := if cors_required ?c then cors_headers (hdr rw) else hdr rw\<rparr>) w)"
    using assms by (simp add: cors_serve_http_def Let_def)
  then show ?thesis by blast
qed

section \<open>Properties\<close>

definition script_conn_lib :: "(nat \<Rightarrow> int) \<Rightarrow> (script SrsStSocket, int) conn_lib" where
  "script_conn_lib p =
     \<lparr>api = script_lib, recv_timeout = (\<lambda>s. s\<lparr>rtm := 15000000\<rparr>), handshake = None, conn_pull = p, resolve_ip = [],
      stray_request = Some 0, stray_requests = Some 0, stray_cycle = Some 0\<rparr>"

definition script_conn :: "script SrsStSocket SrsHttpConn" where
  "script_conn = SrsHttpConn_new (\<lambda>_. CHR ''x'') (SrsStSocket_init \<lparr>segments = [], delivered = []\<rparr>)"

text \<open>However a connection of the API ends (the peer closes, a parser error, the last request, the expiry of the
  coroutine), its coroutine returns success and has asked the manager to remove the connection exactly once.\<close>

lemma api_connection_removed_once:
  assumes "http_conn_cycle L m c = Some res" "res \<noteq> Crash"
  shows "\<exists>c'. res = Go ERROR_SUCCESS c' \<and> conn_removed c' = Suc (conn_removed c)"
  using assms stays_do_cycle [OF refl, of c L m]
  by (auto simp: http_conn_cycle_def httpx_on_conn_done_def Let_def split: option.splits step.splits)

text \<open>C21. A request for one of the two reports of the API, on the routes of \<open>http_handle\<close> and over a connection that
  takes everything: the client gets one complete response whose length field is the length of the JSON text.  The value of
  \<open>process_request\<close> is what its missing return statement leaves, and a body of the request that is in the buffer stays
  there, so that the next turn of the loop takes it for a request.\<close>

theorem api_request_served:
  fixes L :: "('n SrsStSocket, 'd) conn_lib"
  assumes "st_conn st_write st_writev outgoing" "api_put (api L) = SrsStSocket_write st_write"
    "api_putv (api L) = SrsStSocket_writev st_writev"
    "\<forall>bs tm n. bs \<noteq> [] \<longrightarrow> (\<exists>k n'. st_write bs tm n = (StWrote k, n') \<and> 0 < k)"
    "http_handle SrsHttpServeMux_new = (ERROR_SUCCESS, m)"
    "\<not> srs_string_contains (uri_url (m_uri r)) ''..''" "\<not> is_http_options r"
    "uri_path (m_uri r) = ''/api/mytest'' \<and> v = mytest_value \<or>
     uri_path (m_uri r) = ''/api/v1/self_proc_stats'' \<and> v = self_proc_value (self_stat (api L))"
    "length (api_body r (any_dumps (print_double (api L)) v)) < 2 ^ 53" "stray_request L = Some e"
  shows "\<exists>c' rw. process_request L m r SrsHttpResponseWriter_new c = Some (Go e c') \<and>
    outgoing (net (hc_skt c')) = outgoing (net (hc_skt c)) @ response_head rw @ api_body r (any_dumps (print_double (api L)) v) \<and>
    content_length (hdr rw) = int (length (api_body r (any_dumps (print_double (api L)) v))) \<and> status rw = 200 \<and>
    sp_buffer (hc_parser c') = sp_buffer (hc_parser c)"
proof -
  let ?put = "io_put (api_put (api L))" and ?putv = "io_putv (api_putv (api L))"
  let ?w = "\<lparr>io_buf = sp_buffer (hc_parser c), io_skt = hc_skt c, fate = Living\<rparr>"
  have m: "m = api_mux" using assms(5) http_handle_new by simp
  have mux: "mux_serve_http (api_serve (api L)) ?put ?putv m r rw ?w = answer (api L) v r rw ?w" for rw
    using assms(6,8) by (auto simp: mux_serve_http_def find_handler_def m api_mux_match Let_def srs_string_contains_def)
  obtain cors h where "cors_serve_http (mux_serve_http (api_serve (api L)) ?put ?putv m) ?put ?putv (hc_cors c) r SrsHttpResponseWriter_new ?w =
      (cors, answer (api L) v r (SrsHttpResponseWriter_new\<lparr>hdr := h\<rparr>) ?w)"
    using cors_passes [OF assms(7)] mux by metis
  moreover obtain rw' w' where "answer (api L) v r (SrsHttpResponseWriter_new\<lparr>hdr := h\<rparr>) ?w = (ERROR_SUCCESS, rw', w')"
    "outgoing (net (io_skt w')) = outgoing (net (hc_skt c)) @ response_head rw' @ api_body r (any_dumps (print_double (api L)) v)"
    "content_length (hdr rw') = int (length (api_body r (any_dumps (print_double (api L)) v)))" "status rw' = 200"
    "io_buf w' = sp_buffer (hc_parser c)" "fate w' = Living"
    using answer_served [OF assms(1-4,9), of h ?w] by auto
  ultimately show ?thesis
    using assms(10) by (intro exI [of _ "c\<lparr>hc_cors := cors, hc_parser := (hc_parser c)\<lparr>sp_buffer := io_buf w'\<rparr>, hc_skt := io_skt w'\<rparr>"] exI [of _ rw'])
      (simp add: process_request_def Let_def missing_return_def)
qed

theorem api_request_served_witness:
  "\<exists>c' rw. process_request (script_conn_lib (\<lambda>_. 0)) api_mux
       (SrsHttpMessage_new\<lparr>m_uri := SrsHttpUri_new\<lparr>uri_path := ''/api/mytest''\<rparr>\<rparr>) SrsHttpResponseWriter_new script_conn = Some (Go 0 c') \<and>
     delivered (net (hc_skt c')) = response_head rw @ any_dumps int_to_str (mytest_value :: int SrsJsonAny) \<and> status rw = 200"
proof -
  let ?r = "SrsHttpMessage_new\<lparr>m_uri := SrsHttpUri_new\<lparr>uri_path := ''/api/mytest''\<rparr>\<rparr>"
  let ?L = "script_conn_lib (\<lambda>_. 0)"
  let ?v = "mytest_value :: int SrsJsonAny"
  have L: "api_put (api ?L) = SrsStSocket_write script_write" "api_putv (api ?L) = SrsStSocket_writev script_write"
    "print_double (api ?L) = int_to_str" "stray_request ?L = Some 0"
    by (simp_all add: script_conn_lib_def script_lib_def)
  have w: "\<forall>bs tm n. bs \<noteq> [] \<longrightarrow> (\<exists>k n'. script_write bs tm n = (StWrote k, n') \<and> 0 < k)" by (simp add: script_write_def)
  have r: "\<not> srs_string_contains (uri_url (m_uri ?r)) ''..''" "\<not> is_http_options ?r" "\<not> m_jsonp ?r"
    by (simp_all add: srs_string_contains_def SrsHttpUri_new_def is_http_options_def SrsHttpMessage_new_def)
  have p: "uri_path (m_uri ?r) = ''/api/mytest'' \<and> ?v = mytest_value \<or>
     uri_path (m_uri ?r) = ''/api/v1/self_proc_stats'' \<and> ?v = self_proc_value (self_stat (api ?L))" by simp
  have "length (any_dumps int_to_str ?v) = 24" by code_simp
  then have len: "length (api_body ?r (any_dumps (print_double (api ?L)) ?v)) < 2 ^ 53" using r(3) by (simp add: api_body_def L(3))
  from api_request_served [OF script_link.st_conn_axioms L(1,2) w http_handle_new r(1,2) p len L(4), of script_conn] r(3) show ?thesis
    by (auto simp: api_body_def L(3) script_conn_def SrsHttpConn_new_def SrsStSocket_init_def)
qed

end
