(* ===== verification/Server.thy ===== *)
theory Server
  imports Config Resource_Manager Coroutine Http_Api
begin

text \<open>
  The server (\<open>src/src/app/srs_app_server.cpp\<close>), its TCP listeners (\<open>src/src/app/srs_app_listener.cpp\<close>, with the calls
  of \<open>src/src/protocol/srs_protocol_st.cpp\<close> that open a listening socket) and the hybrid server that runs it
  (\<open>src/src/app/srs_app_hybrid.cpp\<close>).  The system calls are the record \<open>net_sys\<close> over the state \<open>'k\<close> of the kernel; the
  locale \<open>descriptors\<close> states which descriptors they leave open.  \<open>None\<close> is a failed assertion.
\<close>

section \<open>Definitions\<close>

abbreviation ERROR_SOCKET_CREATE :: int where "ERROR_SOCKET_CREATE \<equiv> 1000"
abbreviation ERROR_SOCKET_BIND :: int where "ERROR_SOCKET_BIND \<equiv> 1002"
abbreviation ERROR_SOCKET_LISTEN :: int where "ERROR_SOCKET_LISTEN \<equiv> 1003"
abbreviation ERROR_SOCKET_GET_PEER_IP :: int where "ERROR_SOCKET_GET_PEER_IP \<equiv> 1006"
abbreviation ERROR_ST_OPEN_SOCKET :: int where "ERROR_ST_OPEN_SOCKET \<equiv> 1015"
abbreviation ERROR_SYSTEM_ASSERT_FAILED :: int where "ERROR_SYSTEM_ASSERT_FAILED \<equiv> 1021"
abbreviation ERROR_SYSTEM_IP_INVALID :: int where "ERROR_SYSTEM_IP_INVALID \<equiv> 1029"
abbreviation ERROR_SYSTEM_PID_GET_FILE_INFO :: int where "ERROR_SYSTEM_PID_GET_FILE_INFO \<equiv> 1039"
abbreviation ERROR_SYSTEM_PID_SET_FILE_INFO :: int where "ERROR_SYSTEM_PID_SET_FILE_INFO \<equiv> 1040"
abbreviation ERROR_SYSTEM_CREATE_PIPE :: int where "ERROR_SYSTEM_CREATE_PIPE \<equiv> 1048"
abbreviation ERROR_SOCKET_SETKEEPALIVE :: int where "ERROR_SOCKET_SETKEEPALIVE \<equiv> 1075"
abbreviation ERROR_SOCKET_SETREUSEADDR :: int where "ERROR_SOCKET_SETREUSEADDR \<equiv> 1079"
abbreviation ERROR_SOCKET_SETCLOSEEXEC :: int where "ERROR_SOCKET_SETCLOSEEXEC \<equiv> 1080"
abbreviation ERROR_SOCKET_ACCEPT :: int where "ERROR_SOCKET_ACCEPT \<equiv> 1081"

subsection \<open>Listening sockets\<close>

text \<open>The calls on a descriptor give -1 for an error; \<open>setfd\<close> is the call with the flag \<open>FD_CLOEXEC\<close> added;
  \<open>netfd_open\<close> tells whether State Threads has taken the descriptor.\<close>

record 'k net_sys =
  getaddrinfo :: "string \<Rightarrow> string \<Rightarrow> 'k \<Rightarrow> bool \<times> 'k"
  socket :: "'k \<Rightarrow> int \<times> 'k"
  setkeepalive :: "int \<Rightarrow> 'k \<Rightarrow> int \<times> 'k"
  getfd :: "int \<Rightarrow> 'k \<Rightarrow> int \<times> 'k"
  setfd :: "int \<Rightarrow> 'k \<Rightarrow> int \<times> 'k"
  setreuseaddr :: "int \<Rightarrow> 'k \<Rightarrow> int \<times> 'k"
  setreuseport :: "int \<Rightarrow> 'k \<Rightarrow> int \<times> 'k"
  bind_fd :: "int \<Rightarrow> 'k \<Rightarrow> int \<times> 'k"
  listen_fd :: "int \<Rightarrow> 'k \<Rightarrow> int \<times> 'k"
  netfd_open :: "int \<Rightarrow> 'k \<Rightarrow> bool \<times> 'k"
  close_fd :: "int \<Rightarrow> 'k \<Rightarrow> 'k"
  accept_fd :: "int \<Rightarrow> 'k \<Rightarrow> int option \<times> 'k"
  peername :: "int \<Rightarrow> 'k \<Rightarrow> (string option \<times> int) option"

definition chk :: "int \<times> 'k \<Rightarrow> ('k \<Rightarrow> int \<times> 'k) \<Rightarrow> int \<times> 'k" where
  "chk m f = (case m of (e, k) \<Rightarrow> if e \<noteq> ERROR_SUCCESS then (e, k) else f k)"

definition failing :: "int \<Rightarrow> int \<times> 'k \<Rightarrow> int \<times> 'k" where
  "failing code m = (case m of (r, k) \<Rightarrow> (if r = - 1 then code else ERROR_SUCCESS, k))"

definition srs_fd_keepalive :: "'k net_sys \<Rightarrow> int \<Rightarrow> 'k \<Rightarrow> int \<times> 'k" where
  "srs_fd_keepalive S fd k = failing ERROR_SOCKET_SETKEEPALIVE (setkeepalive S fd k)"

definition srs_fd_closeexec :: "'k net_sys \<Rightarrow> int \<Rightarrow> 'k \<Rightarrow> int \<times> 'k" where
  "srs_fd_closeexec S fd k = (case getfd S fd k of (_, k) \<Rightarrow> failing ERROR_SOCKET_SETCLOSEEXEC (setfd S fd k))"

definition srs_fd_reuseaddr :: "'k net_sys \<Rightarrow> int \<Rightarrow> 'k \<Rightarrow> int \<times> 'k" where
  "srs_fd_reuseaddr S fd k = failing ERROR_SOCKET_SETREUSEADDR (setreuseaddr S fd k)"

definition srs_fd_reuseport :: "'k net_sys \<Rightarrow> int \<Rightarrow> 'k \<Rightarrow> int \<times> 'k" where
  "srs_fd_reuseport S fd k = (ERROR_SUCCESS, snd (setreuseport S fd k))"

definition do_srs_tcp_listen :: "'k net_sys \<Rightarrow> int \<Rightarrow> 'k \<Rightarrow> int \<times> 'k" where
  "do_srs_tcp_listen S fd k =
     chk (srs_fd_keepalive S fd k) (\<lambda>k.
     chk (srs_fd_closeexec S fd k) (\<lambda>k.
     chk (srs_fd_reuseaddr S fd k) (\<lambda>k.
     chk (srs_fd_reuseport S fd k) (\<lambda>k.
     chk (failing ERROR_SOCKET_BIND (bind_fd S fd k)) (\<lambda>k.
     chk (failing ERROR_SOCKET_LISTEN (listen_fd S fd k)) (\<lambda>k.
       case netfd_open S fd k of (ok, k) \<Rightarrow> (if ok then ERROR_SUCCESS else ERROR_ST_OPEN_SOCKET, k)))))))"

text \<open>The text of the port has to fit into a buffer of eight bytes.  The descriptor is the second component.\<close>

definition srs_tcp_listen :: "'k net_sys \<Rightarrow> string \<Rightarrow> int \<Rightarrow> 'k \<Rightarrow> (int \<times> int option \<times> 'k) option" where
  "srs_tcp_listen S ip port k =
     (let sport = int_to_str port in
      if length sport \<ge> 8 then None
      else case getaddrinfo S ip sport k of (ok, k) \<Rightarrow>
        if \<not> ok then Some (ERROR_SYSTEM_IP_INVALID, None, k)
        else case socket S k of (fd, k) \<Rightarrow>
          if fd = - 1 then Some (ERROR_SOCKET_CREATE, None, k)
          else case do_srs_tcp_listen S fd k of (e, k) \<Rightarrow>
            if e \<noteq> ERROR_SUCCESS then Some (e, None, close_fd S fd k) else Some (ERROR_SUCCESS, Some fd, k))"

subsection \<open>Listeners\<close>

datatype SrsListenerType =
    SrsListenerRtmpStream | SrsListenerHttpApi | SrsListenerHttpStream | SrsListenerMpegTsOverUdp | SrsListenerFlv
  | SrsListenerHttpsApi | SrsListenerHttpsStream | SrsListenerTcp | SrsListenerHttpProxy

definition srs_listener_type2string :: "SrsListenerType \<Rightarrow> string" where
  "srs_listener_type2string t =
     (case t of
        SrsListenerHttpApi \<Rightarrow> ''HTTP-API''
      | SrsListenerHttpsApi \<Rightarrow> ''HTTPS-API''
      | SrsListenerTcp \<Rightarrow> ''TCP''
      | SrsListenerHttpProxy \<Rightarrow> ''HTTP-Proxy''
      | _ \<Rightarrow> ''UNKONWN'')"

text \<open>\<open>SrsBufferListener\<close> with its \<open>SrsTcpListener\<close>: \<open>lfd\<close> is the listening descriptor and \<open>accepting\<close> tells
  whether the coroutine that accepts clients is running.\<close>

record SrsListener =
  listen_type :: SrsListenerType
  listen_ip :: string
  listen_port :: int
  lfd :: "int option"
  accepting :: bool

definition SrsBufferListener_new :: "SrsListenerType \<Rightarrow> SrsListener" where
  "SrsBufferListener_new t = \<lparr>listen_type = t, listen_ip = [], listen_port = 0, lfd = None, accepting = False\<rparr>"

text \<open>The destructor of the TCP listener.\<close>

definition free_listener :: "'k net_sys \<Rightarrow> SrsListener \<Rightarrow> 'k \<Rightarrow> 'k" where
  "free_listener S l k = (case lfd l of None \<Rightarrow> k | Some fd \<Rightarrow> close_fd S fd k)"

text \<open>\<open>spawn\<close> is the result of starting the coroutine.\<close>

definition buffer_listen ::
    "'k net_sys \<Rightarrow> int \<Rightarrow> string \<Rightarrow> int \<Rightarrow> SrsListener \<Rightarrow> 'k \<Rightarrow> (int \<times> SrsListener \<times> 'k) option" where
  "buffer_listen S spawn ip port l k =
     (let k = free_listener S l k;
          l = l\<lparr>listen_ip := ip, listen_port := port, lfd := None, accepting := False\<rparr>
      in map_option (\<lambda>(e, fd, k).
           let l = l\<lparr>lfd := fd\<rparr> in
           if e \<noteq> ERROR_SUCCESS then (e, l, k)
           else if spawn \<noteq> ERROR_SUCCESS then (spawn, l, k)
           else (ERROR_SUCCESS, l\<lparr>accepting := True\<rparr>, k)) (srs_tcp_listen S ip port k))"

subsection \<open>\<open>SrsServer\<close>\<close>

text \<open>A connection is known by the number of its allocation.\<close>

datatype conn_kind = SrsHttpxConn bool | SrsHttpxProxyConn

record server_conn =
  conn_id :: nat
  conn_kind :: conn_kind
  conn_fd :: int
  conn_ip :: string
  conn_port :: int

text \<open>\<open>api_is_http_server\<close> tells that \<open>http_api_mux\<close> is \<open>http_server\<close>; \<open>static_https\<close> is the static variable of
  \<open>get_https_api_listen\<close>.\<close>

record 'k SrsServer =
  listeners :: "SrsListener list"
  conn_manager :: "(server_conn, unit) SrsResourceManager"
  next_conn :: nat
  reuse_api_over_server :: bool
  api_is_http_server :: bool
  http_api_mux :: "api_handler SrsHttpServeMux"
  static_https :: string
  signal_reload :: bool
  signal_persistence_config :: bool
  signal_fast_quit :: bool
  signal_gracefully_quit :: bool
  kernel :: 'k

definition SrsServer_new :: "'k \<Rightarrow> 'k SrsServer" where
  "SrsServer_new k =
     \<lparr>listeners = [], conn_manager = SrsResourceManager_new, next_conn = 0, reuse_api_over_server = False,
      api_is_http_server = False, http_api_mux = SrsHttpServeMux_new, static_https = [], signal_reload = False, signal_persistence_config = False,
      signal_fast_quit = False, signal_gracefully_quit = False, kernel = k\<rparr>"

definition close_listeners :: "'k net_sys \<Rightarrow> SrsListenerType \<Rightarrow> 'k SrsServer \<Rightarrow> 'k SrsServer" where
  "close_listeners S t s =
     s\<lparr>listeners := filter (\<lambda>l. listen_type l \<noteq> t) (listeners s),
       kernel := fold (free_listener S) (filter (\<lambda>l. listen_type l = t) (listeners s)) (kernel s)\<rparr>"

definition server_dispose :: "'k net_sys \<Rightarrow> 'k SrsServer \<Rightarrow> 'k SrsServer" where
  "server_dispose S s =
     fold (close_listeners S)
       [SrsListenerRtmpStream, SrsListenerHttpApi, SrsListenerHttpsApi, SrsListenerHttpStream, SrsListenerHttpsStream,
        SrsListenerMpegTsOverUdp, SrsListenerFlv, SrsListenerTcp] s"

definition server_initialize :: "(string \<Rightarrow> string option) \<Rightarrow> SrsConfDirective \<Rightarrow> 'k SrsServer \<Rightarrow> int \<times> 'k SrsServer" where
  "server_initialize getenv conf s =
     (case get_https_api_listen getenv conf (static_https s) of (apis_listen, d) \<Rightarrow>
        let s = s\<lparr>static_https := d\<rparr>;
            reuse = (get_http_stream_enabled getenv conf \<and> get_http_api_enabled getenv conf \<and>
              get_http_api_listen getenv conf = get_http_stream_listen getenv conf \<and>
              apis_listen = get_https_stream_listen getenv conf)
        in if reuse then (ERROR_SUCCESS, s\<lparr>reuse_api_over_server := True, api_is_http_server := True\<rparr>) else (ERROR_SUCCESS, s))"

definition initialize_st :: "SrsConfDirective \<Rightarrow> int \<Rightarrow> int" where
  "initialize_st conf ppid = (if get_asprocess conf \<and> ppid = 1 then ERROR_SYSTEM_ASSERT_FAILED else ERROR_SUCCESS)"

text \<open>What the three functions have in common: a new listener of the type at an endpoint.\<close>

definition add_listener ::
    "'k net_sys \<Rightarrow> int \<Rightarrow> string \<Rightarrow> SrsListenerType \<Rightarrow> string \<Rightarrow> 'k SrsServer \<Rightarrow> (int \<times> 'k SrsServer) option" where
  "add_listener S spawn any_address t ep s =
     (case srs_parse_endpoint any_address ep of (ip, port) \<Rightarrow>
        map_option (\<lambda>(e, l, k). (e, s\<lparr>listeners := listeners s @ [l], kernel := k\<rparr>))
          (buffer_listen S spawn ip port (SrsBufferListener_new t) (kernel s)))"

definition listen_http_api ::
    "'k net_sys \<Rightarrow> int \<Rightarrow> string \<Rightarrow> (string \<Rightarrow> string option) \<Rightarrow> SrsConfDirective \<Rightarrow> 'k SrsServer \<Rightarrow> (int \<times> 'k SrsServer) option" where
  "listen_http_api S spawn any_address getenv conf s =
     (let s = close_listeners S SrsListenerHttpApi s in
      if \<not> get_http_api_enabled getenv conf then Some (ERROR_SUCCESS, s)
      else if reuse_api_over_server s then Some (ERROR_SUCCESS, s)
      else add_listener S spawn any_address SrsListenerHttpApi (get_http_api_listen getenv conf) s)"

definition listen_https_api ::
    "'k net_sys \<Rightarrow> int \<Rightarrow> string \<Rightarrow> (string \<Rightarrow> string option) \<Rightarrow> SrsConfDirective \<Rightarrow> 'k SrsServer \<Rightarrow> (int \<times> 'k SrsServer) option" where
  "listen_https_api S spawn any_address getenv conf s =
     (let s = close_listeners S SrsListenerHttpsApi s in
      if \<not> get_https_api_enabled getenv conf then Some (ERROR_SUCCESS, s)
      else if reuse_api_over_server s then Some (ERROR_SUCCESS, s)
      else case get_https_api_listen getenv conf (static_https s) of (ep, d) \<Rightarrow>
        add_listener S spawn any_address SrsListenerHttpsApi ep (s\<lparr>static_https := d\<rparr>))"

definition listen_http_proxy ::
    "'k net_sys \<Rightarrow> int \<Rightarrow> string \<Rightarrow> (string \<Rightarrow> string option) \<Rightarrow> SrsConfDirective \<Rightarrow> 'k SrsServer \<Rightarrow> (int \<times> 'k SrsServer) option" where
  "listen_http_proxy S spawn any_address getenv conf s =
     (let s = close_listeners S SrsListenerHttpProxy s in
      if \<not> get_http_proxy_enabled getenv conf then Some (ERROR_SUCCESS, s)
      else add_listener S spawn any_address SrsListenerHttpProxy (get_http_proxy_listen getenv conf) s)"

text \<open>The routes; \<open>SrsHttpServer::handle\<close> does nothing.\<close>

definition server_http_handle :: "'k SrsServer \<Rightarrow> int \<times> 'k SrsServer" where
  "server_http_handle s =
     (if api_is_http_server s then (ERROR_SUCCESS, s)
      else case http_handle (http_api_mux s) of (e, m) \<Rightarrow> (e, s\<lparr>http_api_mux := m\<rparr>))"

text \<open>The semicolon of code that may abort.\<close>

definition then_ok :: "(int \<times> 's) option \<Rightarrow> ('s \<Rightarrow> (int \<times> 's) option) \<Rightarrow> (int \<times> 's) option" where
  "then_ok m f = Option.bind m (\<lambda>(e, s). if e \<noteq> ERROR_SUCCESS then Some (e, s) else f s)"

lemma then_ok_inv:
  assumes "then_ok m f = Some (e, s')" "\<And>e s. m = Some (e, s) \<Longrightarrow> P s" "\<And>s e s'. P s \<Longrightarrow> f s = Some (e, s') \<Longrightarrow> P s'"
  shows "P s'"
  using assms by (cases m) (auto simp: then_ok_def split: if_splits)

text \<open>\<open>manager\<close> is the result of starting the coroutine of the connection manager.\<close>

definition server_listen ::
    "'k net_sys \<Rightarrow> int \<Rightarrow> int \<Rightarrow> string \<Rightarrow> (string \<Rightarrow> string option) \<Rightarrow> SrsConfDirective \<Rightarrow> 'k SrsServer \<Rightarrow> (int \<times> 'k SrsServer) option" where
  "server_listen S spawn manager any_address getenv conf s =
     then_ok (listen_http_api S spawn any_address getenv conf s) (\<lambda>s.
     then_ok (listen_https_api S spawn any_address getenv conf s) (\<lambda>s.
     then_ok (listen_http_proxy S spawn any_address getenv conf s) (\<lambda>s. Some (manager, s))))"

subsection \<open>Signals\<close>

datatype signo = SIGHUP | SIGUSR1 | SIGTERM | SIGQUIT | SIGABRT | SIGINT | Persistence

text \<open>\<open>SIGINT\<close>, \<open>SIGTERM\<close> and \<open>SIGUSR1\<close> have no effect, for their code is disabled.\<close>

definition on_signal :: "signo \<Rightarrow> 'k SrsServer \<Rightarrow> 'k SrsServer option" where
  "on_signal sig s =
     (case sig of
        SIGABRT \<Rightarrow> None
      | SIGHUP \<Rightarrow> Some (s\<lparr>signal_reload := True\<rparr>)
      | Persistence \<Rightarrow> Some (s\<lparr>signal_persistence_config := True\<rparr>)
      | SIGQUIT \<Rightarrow> Some (if signal_gracefully_quit s then s else s\<lparr>signal_gracefully_quit := True\<rparr>)
      | _ \<Rightarrow> Some s)"

text \<open>A turn of the loop of the signal manager reads a number from the pipe and drops it.\<close>

definition signal_turn :: "signo list \<Rightarrow> 'k SrsServer \<Rightarrow> signo list \<times> 'k SrsServer" where
  "signal_turn pipe s = (tl pipe, s)"

definition signal_initialize :: "bool \<Rightarrow> bool \<Rightarrow> int" where
  "signal_initialize pipe_ok opened =
     (if \<not> pipe_ok then ERROR_SYSTEM_CREATE_PIPE else if \<not> opened then ERROR_SYSTEM_CREATE_PIPE else ERROR_SUCCESS)"

text \<open>A turn of \<open>do_cycle\<close>: \<open>Inl\<close> is the code it returns.\<close>

definition server_turn :: "int \<Rightarrow> ('k SrsServer \<Rightarrow> int \<times> 'k SrsServer) \<Rightarrow> 'k SrsServer \<Rightarrow> (int \<times> 'k SrsServer) + 'k SrsServer" where
  "server_turn pulled reload_config s =
     (if pulled \<noteq> ERROR_SUCCESS then Inl (pulled, s)
      else if signal_fast_quit s \<or> signal_gracefully_quit s then Inl (ERROR_SUCCESS, s)
      else if signal_reload s then
        (case reload_config (s\<lparr>signal_reload := False\<rparr>) of (e, s) \<Rightarrow> if e \<noteq> ERROR_SUCCESS then Inl (e, s) else Inr s)
      else Inr s)"

subsection \<open>Clients\<close>

definition srs_get_peer_ip :: "'k net_sys \<Rightarrow> int \<Rightarrow> 'k \<Rightarrow> string" where
  "srs_get_peer_ip S fd k =
     (case peername S fd k of None \<Rightarrow> [] | Some (name, _) \<Rightarrow> (case name of None \<Rightarrow> [] | Some saddr \<Rightarrow> saddr))"

definition srs_get_peer_port :: "'k net_sys \<Rightarrow> int \<Rightarrow> 'k \<Rightarrow> int" where
  "srs_get_peer_port S fd k = (case peername S fd k of None \<Rightarrow> 0 | Some (_, port) \<Rightarrow> port)"

text \<open>The result is the code, whether the descriptor still belongs to the caller, and the connection.\<close>

definition fd_to_resource ::
    "'k net_sys \<Rightarrow> SrsListenerType \<Rightarrow> int \<Rightarrow> 'k SrsServer \<Rightarrow> int \<times> bool \<times> server_conn option \<times> 'k SrsServer" where
  "fd_to_resource S t fd s =
     (let ip = srs_get_peer_ip S fd (kernel s); port = srs_get_peer_port S fd (kernel s) in
      if ip = [] then (ERROR_SOCKET_GET_PEER_IP, True, None, s)
      else case getfd S fd (kernel s) of (v, k) \<Rightarrow>
        if v < 0 then (ERROR_SYSTEM_PID_GET_FILE_INFO, True, None, s\<lparr>kernel := k\<rparr>)
        else case setfd S fd k of (v, k) \<Rightarrow>
          if v < 0 then (ERROR_SYSTEM_PID_SET_FILE_INFO, True, None, s\<lparr>kernel := k\<rparr>)
          else
            let c = \<lparr>conn_id = next_conn s, conn_kind = SrsHttpxProxyConn, conn_fd = fd, conn_ip = ip, conn_port = port\<rparr>;
                s = s\<lparr>kernel := k\<rparr>
            in if t = SrsListenerHttpApi \<or> t = SrsListenerHttpsApi then
                 (ERROR_SUCCESS, False, Some (c\<lparr>conn_kind := SrsHttpxConn (t = SrsListenerHttpsApi)\<rparr>), s\<lparr>next_conn := Suc (next_conn s)\<rparr>)
               else if t = SrsListenerHttpProxy then (ERROR_SUCCESS, False, Some c, s\<lparr>next_conn := Suc (next_conn s)\<rparr>)
               else (ERROR_SUCCESS, False, None, s\<lparr>kernel := close_fd S fd k\<rparr>))"

text \<open>\<open>conn_start\<close> is the result of starting the connection.\<close>

definition accept_client ::
    "'k net_sys \<Rightarrow> SrsConfDirective \<Rightarrow> (server_conn \<Rightarrow> int) \<Rightarrow> SrsListenerType \<Rightarrow> int \<Rightarrow> 'k SrsServer \<Rightarrow> int \<times> 'k SrsServer" where
  "accept_client S conf conn_start t fd s =
     (case fd_to_resource S t fd s of (e, mine, resource, s) \<Rightarrow>
        if e \<noteq> ERROR_SUCCESS then
          let s = (if mine then s\<lparr>kernel := close_fd S fd (kernel s)\<rparr> else s) in
          if e = ERROR_SOCKET_GET_PEER_IP \<and> empty_ip_ok conf then (ERROR_SUCCESS, s) else (e, s)
        else case resource of
          None \<Rightarrow> (ERROR_SUCCESS, s)
        | Some c \<Rightarrow> (conn_start c, s\<lparr>conn_manager := snd (manager_add c (conn_manager s))\<rparr>))"

definition server_remove :: "server_conn \<Rightarrow> 'k SrsServer \<Rightarrow> 'k SrsServer" where
  "server_remove c s = s\<lparr>conn_manager := manager_remove c (conn_manager s)\<rparr>"

text \<open>A turn of the coroutine of a listener with the descriptor \<open>l\<close>: \<open>Inl\<close> is the error that ends it; errors of
  \<open>accept_client\<close> are logged.\<close>

definition listener_turn ::
    "'k net_sys \<Rightarrow> SrsConfDirective \<Rightarrow> (server_conn \<Rightarrow> int) \<Rightarrow> int \<Rightarrow> SrsListenerType \<Rightarrow> int \<Rightarrow> 'k SrsServer \<Rightarrow> (int \<times> 'k SrsServer) + 'k SrsServer" where
  "listener_turn S conf conn_start pulled t l s =
     (if pulled \<noteq> ERROR_SUCCESS then Inl (pulled, s)
      else case accept_fd S l (kernel s) of (fd, k) \<Rightarrow>
        let s = s\<lparr>kernel := k\<rparr> in
        case fd of
          None \<Rightarrow> Inl (ERROR_SOCKET_ACCEPT, s)
        | Some fd \<Rightarrow>
            (case srs_fd_closeexec S fd (kernel s) of (e, k) \<Rightarrow>
               let s = s\<lparr>kernel := k\<rparr> in
               if e \<noteq> ERROR_SUCCESS then Inl (e, s) else Inr (snd (accept_client S conf conn_start t fd s))))"

subsection \<open>The hybrid server\<close>

text \<open>\<open>initialize\<close> and \<open>run\<close> of the registered servers, in order, up to the first error; \<open>run\<close> then waits for
  the group.\<close>

fun each_server :: "('v \<Rightarrow> 's \<Rightarrow> int \<times> 's) \<Rightarrow> 'v list \<Rightarrow> 's \<Rightarrow> int \<times> 's" where
  "each_server f [] s = (ERROR_SUCCESS, s)"
| "each_server f (v # vs) s = chk (f v s) (each_server f vs)"

definition hybrid_initialize :: "int \<Rightarrow> ('v \<Rightarrow> 's \<Rightarrow> int \<times> 's) \<Rightarrow> 'v list \<Rightarrow> 's \<Rightarrow> int \<times> 's" where
  "hybrid_initialize timer f servers s = (if timer \<noteq> ERROR_SUCCESS then (timer, s) else each_server f servers s)"

text \<open>The results of what \<open>SrsServerAdapter::run\<close> asks of the system: starting the coroutines of the listeners, of the
  connection manager and of the server, the parent process, and the pipe for the signals.\<close>

record startup =
  up_listener :: int
  up_manager :: int
  up_server :: int
  up_ppid :: int
  up_pipe :: bool
  up_pipe_open :: bool
  up_address :: string

text \<open>The group is counted up once the coroutine was started.\<close>

definition adapter_run ::
    "'k net_sys \<Rightarrow> startup \<Rightarrow> (string \<Rightarrow> string option) \<Rightarrow> SrsConfDirective \<Rightarrow> 'k SrsServer \<times> SrsWaitGroup \<Rightarrow>
      (int \<times> 'k SrsServer \<times> SrsWaitGroup) option" where
  "adapter_run S U getenv conf st =
     (let (s, wg) = st; (e, s) = server_initialize getenv conf s in
      if e \<noteq> ERROR_SUCCESS then Some (e, s, wg)
      else if initialize_st conf (up_ppid U) \<noteq> ERROR_SUCCESS then Some (initialize_st conf (up_ppid U), s, wg)
      else if signal_initialize (up_pipe U) (up_pipe_open U) \<noteq> ERROR_SUCCESS
      then Some (signal_initialize (up_pipe U) (up_pipe_open U), s, wg)
      else map_option (\<lambda>(e, s).
        if e \<noteq> ERROR_SUCCESS then (e, s, wg)
        else case server_http_handle s of (e, s) \<Rightarrow>
          if e \<noteq> ERROR_SUCCESS then (e, s, wg)
          else if up_server U \<noteq> ERROR_SUCCESS then (up_server U, s, wg)
          else (ERROR_SUCCESS, s, wg_add 1 wg))
        (server_listen S (up_listener U) (up_manager U) (up_address U) getenv conf s))"

text \<open>A turn of the connection manager frees the connections that have removed themselves, and their destructors close
  the sockets.\<close>

definition server_clear :: "'k net_sys \<Rightarrow> 'k SrsServer \<Rightarrow> 'k SrsServer" where
  "server_clear S s =
     s\<lparr>conn_manager := cycle_turn (conn_manager s),
       kernel := fold (\<lambda>c. close_fd S (conn_fd c)) (zombies (conn_manager s)) (kernel s)\<rparr>"

section \<open>Descriptors\<close>

text \<open>What the system promises about the open descriptors.\<close>

text \<open>The descriptors that the listeners and the connections own.\<close>

definition owned :: "'k SrsServer \<Rightarrow> int list" where
  "owned s = List.map_filter lfd (listeners s) @ map conn_fd (conns (conn_manager s))"

text \<open>The invariant: every descriptor has one owner, the open ones are those with an owner and those that were open
  before (\<open>base\<close>), and a connection that has removed itself is still registered.\<close>

definition server_ok :: "('k \<Rightarrow> int set) \<Rightarrow> int set \<Rightarrow> 'k SrsServer \<Rightarrow> bool" where
  "server_ok open_fds base s \<longleftrightarrow>
     distinct (owned s) \<and> set (owned s) \<inter> base = {} \<and> open_fds (kernel s) = base \<union> set (owned s) \<and>
     set (zombies (conn_manager s)) \<subseteq> set (conns (conn_manager s))"

lemma in_map_filter: "y \<in> set (List.map_filter f xs) \<longleftrightarrow> (\<exists>x \<in> set xs. f x = Some y)"
  by (auto simp: map_filter_def image_iff)

lemma map_filter_inj:
  "distinct (List.map_filter f xs) \<Longrightarrow> x \<in> set xs \<Longrightarrow> z \<in> set xs \<Longrightarrow> f x = Some y \<Longrightarrow> f z = Some y \<Longrightarrow> x = z"
proof (induction xs)
  case (Cons w xs)
  then show ?case by (cases "f w") (auto simp: map_filter_simps in_map_filter)
qed simp

lemma set_map_filter_split:
  assumes "distinct (List.map_filter f xs)"
  shows "set (List.map_filter f (filter (\<lambda>x. \<not> P x) xs)) = set (List.map_filter f xs) - set (List.map_filter f (filter P xs))"
proof (intro equalityI subsetI)
  fix y assume "y \<in> set (List.map_filter f (filter (\<lambda>x. \<not> P x) xs))"
  then obtain x where x: "x \<in> set xs" "\<not> P x" "f x = Some y" by (auto simp: in_map_filter)
  have "y \<notin> set (List.map_filter f (filter P xs))"
  proof
    assume "y \<in> set (List.map_filter f (filter P xs))"
    then obtain z where "z \<in> set xs" "P z" "f z = Some y" by (auto simp: in_map_filter)
    with x map_filter_inj [OF assms, of x z y] show False by simp
  qed
  with x show "y \<in> set (List.map_filter f xs) - set (List.map_filter f (filter P xs))" by (auto simp: in_map_filter)
qed (auto simp: in_map_filter)

lemma distinct_map_filter: "distinct (List.map_filter f xs) \<Longrightarrow> distinct (List.map_filter f (filter P xs))"
proof (induction xs)
  case (Cons w xs)
  then show ?case by (cases "f w") (auto simp: map_filter_simps in_map_filter)
qed simp

lemma set_map_filter_sub: "set (List.map_filter f (filter P xs)) \<subseteq> set (List.map_filter f xs)"
  by (auto simp: in_map_filter)

lemma map_filter_snoc: "List.map_filter f (xs @ [x]) = List.map_filter f xs @ (case f x of None \<Rightarrow> [] | Some y \<Rightarrow> [y])"
  by (induction xs) (auto simp: map_filter_simps split: option.splits)

locale descriptors =
  fixes S :: "'k net_sys" and open_fds :: "'k \<Rightarrow> int set"
  assumes socket_opens: "socket S k = (fd, k') \<Longrightarrow>
      if fd = - 1 then open_fds k' = open_fds k else fd \<notin> open_fds k \<and> open_fds k' = insert fd (open_fds k)"
    and accept_opens: "accept_fd S l k = (r, k') \<Longrightarrow>
      case r of None \<Rightarrow> open_fds k' = open_fds k | Some fd \<Rightarrow> fd \<notin> open_fds k \<and> open_fds k' = insert fd (open_fds k)"
    and close_closes: "open_fds (close_fd S fd k) = open_fds k - {fd}"
    and keeps_open: "open_fds (snd (getaddrinfo S ip port k)) = open_fds k" "open_fds (snd (setkeepalive S fd k)) = open_fds k"
      "open_fds (snd (getfd S fd k)) = open_fds k" "open_fds (snd (setfd S fd k)) = open_fds k"
      "open_fds (snd (setreuseaddr S fd k)) = open_fds k" "open_fds (snd (setreuseport S fd k)) = open_fds k"
      "open_fds (snd (bind_fd S fd k)) = open_fds k" "open_fds (snd (listen_fd S fd k)) = open_fds k"
      "open_fds (snd (netfd_open S fd k)) = open_fds k"
begin

lemma chk_open:
  assumes "open_fds (snd m) = open_fds k" "\<And>k'. open_fds k' = open_fds k \<Longrightarrow> open_fds (snd (f k')) = open_fds k"
  shows "open_fds (snd (chk m f)) = open_fds k"
  using assms by (cases m) (simp add: chk_def)

lemma failing_open: "open_fds (snd (failing code m)) = open_fds (snd m)"
  by (cases m) (simp add: failing_def)

lemma closeexec_open: "open_fds (snd (srs_fd_closeexec S fd k)) = open_fds k"
  using keeps_open(3) [of fd k] keeps_open(4) by (cases "getfd S fd k") (simp add: srs_fd_closeexec_def failing_open)

lemma do_listen_open: "open_fds (snd (do_srs_tcp_listen S fd k)) = open_fds k"
proof -
  have "open_fds (snd (case netfd_open S fd k of (ok, k) \<Rightarrow> (if ok then ERROR_SUCCESS else ERROR_ST_OPEN_SOCKET, k))) = open_fds k" for k
    using keeps_open(9) [of fd k] by (cases "netfd_open S fd k") simp
  then show ?thesis
    unfolding do_srs_tcp_listen_def
    by (intro chk_open) (simp_all add: srs_fd_keepalive_def srs_fd_reuseaddr_def srs_fd_reuseport_def failing_open keeps_open closeexec_open)
qed

lemma tcp_listen_open:
  assumes "srs_tcp_listen S ip port k = Some (e, fd, k')"
  shows "(e = ERROR_SUCCESS \<longleftrightarrow> fd \<noteq> None) \<and>
    (case fd of None \<Rightarrow> open_fds k' = open_fds k | Some f \<Rightarrow> f \<notin> open_fds k \<and> open_fds k' = insert f (open_fds k))"
proof -
  let ?sport = "int_to_str port"
  obtain ok k1 where ga: "getaddrinfo S ip ?sport k = (ok, k1)" by (cases "getaddrinfo S ip ?sport k")
  obtain f k2 where so: "socket S k1 = (f, k2)" by (cases "socket S k1")
  obtain e3 k3 where li: "do_srs_tcp_listen S f k2 = (e3, k3)" by (cases "do_srs_tcp_listen S f k2")
  have "open_fds k1 = open_fds k" using keeps_open(1) [of ip ?sport k] ga by simp
  moreover have "open_fds k3 = open_fds k2" using do_listen_open [of f k2] li by simp
  ultimately show ?thesis
    using assms socket_opens [OF so] ga so li
    by (auto simp: srs_tcp_listen_def Let_def close_closes split: if_splits)
qed

text \<open>The operations of the server keep the invariant.\<close>

lemma fold_free_open: "open_fds (fold (free_listener S) ls k) = open_fds k - set (List.map_filter lfd ls)"
  by (induction ls arbitrary: k) (auto simp: free_listener_def map_filter_simps close_closes split: option.splits)

lemma close_listeners_ok: "server_ok open_fds base s \<Longrightarrow> server_ok open_fds base (close_listeners S t s)"
proof -
  assume ok: "server_ok open_fds base s"
  let ?P = "\<lambda>l. listen_type l = t"
  let ?f = "List.map_filter lfd" and ?c = "map conn_fd (conns (conn_manager s))"
  have d: "distinct (?f (listeners s))" "set (?f (listeners s)) \<inter> set ?c = {}" "distinct ?c"
    using ok by (auto simp: server_ok_def owned_def)
  have sp: "set (?f (filter (\<lambda>l. \<not> ?P l) (listeners s))) = set (?f (listeners s)) - set (?f (filter ?P (listeners s)))"
    by (rule set_map_filter_split [OF d(1)])
  have "set (?f (filter ?P (listeners s))) \<subseteq> set (?f (listeners s))" by (rule set_map_filter_sub)
  with ok d sp distinct_map_filter [OF d(1), of "\<lambda>l. \<not> ?P l"] show ?thesis
    by (auto simp: server_ok_def owned_def close_listeners_def fold_free_open)
qed

lemma dispose_ok: "server_ok open_fds base s \<Longrightarrow> server_ok open_fds base (server_dispose S s)"
  by (simp add: server_dispose_def close_listeners_ok)

lemma add_listener_ok:
  assumes "server_ok open_fds base s" "add_listener S spawn any_address t ep s = Some (e, s')"
  shows "server_ok open_fds base s'"
proof -
  obtain ip port where ep: "srs_parse_endpoint any_address ep = (ip, port)" by (cases "srs_parse_endpoint any_address ep")
  with assms(2) obtain e1 fd k' where tl: "srs_tcp_listen S ip port (kernel s) = Some (e1, fd, k')"
    by (auto simp: add_listener_def buffer_listen_def SrsBufferListener_new_def free_listener_def Let_def)
  have s': "listeners s' = listeners s @ [last (listeners s')] \<and> lfd (last (listeners s')) = fd \<and> kernel s' = k' \<and>
      conn_manager s' = conn_manager s"
    using assms(2) ep tl
    by (auto simp: add_listener_def buffer_listen_def SrsBufferListener_new_def free_listener_def Let_def split: if_splits)
  then have "owned s' = List.map_filter lfd (listeners s) @ (case fd of None \<Rightarrow> [] | Some y \<Rightarrow> [y]) @ map conn_fd (conns (conn_manager s))"
    using map_filter_snoc [of lfd "listeners s" "last (listeners s')"] by (simp add: owned_def)
  with s' assms(1) tcp_listen_open [OF tl] show ?thesis
    by (cases fd) (auto simp: server_ok_def owned_def)
qed

lemma static_https_ok [simp]: "server_ok open_fds base (s\<lparr>static_https := d\<rparr>) = server_ok open_fds base s"
  by (simp add: server_ok_def owned_def)

lemma listen_ok:
  assumes "server_ok open_fds base s" "server_listen S spawn manager any_address getenv conf s = Some (e, s')"
  shows "server_ok open_fds base s'"
proof -
  have 1: "server_ok open_fds base s1" if "server_ok open_fds base s0" "listen_http_api S spawn any_address getenv conf s0 = Some (e, s1)" for e s0 s1
    using that close_listeners_ok [OF that(1)] by (auto simp: listen_http_api_def Let_def split: if_splits intro: add_listener_ok)
  have 2: "server_ok open_fds base s1" if "server_ok open_fds base s0" "listen_https_api S spawn any_address getenv conf s0 = Some (e, s1)" for e s0 s1
    using that close_listeners_ok [OF that(1)]
    by (auto simp: listen_https_api_def Let_def split: if_splits prod.splits intro: add_listener_ok [rotated])
  have 3: "server_ok open_fds base s1" if "server_ok open_fds base s0" "listen_http_proxy S spawn any_address getenv conf s0 = Some (e, s1)" for e s0 s1
    using that close_listeners_ok [OF that(1)] by (auto simp: listen_http_proxy_def Let_def split: if_splits intro: add_listener_ok)
  show ?thesis
  proof (rule then_ok_inv [OF assms(2) [unfolded server_listen_def], of "server_ok open_fds base"])
    fix e s1 assume "listen_http_api S spawn any_address getenv conf s = Some (e, s1)"
    then show "server_ok open_fds base s1" by (rule 1 [OF assms(1)])
  next
    fix s1 e s2
    assume s1: "server_ok open_fds base s1" and run: "then_ok (listen_https_api S spawn any_address getenv conf s1) (\<lambda>s.
       then_ok (listen_http_proxy S spawn any_address getenv conf s) (\<lambda>s. Some (manager, s))) = Some (e, s2)"
    show "server_ok open_fds base s2"
    proof (rule then_ok_inv [OF run, of "server_ok open_fds base"])
      fix s3 e s4
      assume s3: "server_ok open_fds base s3"
        and last: "then_ok (listen_http_proxy S spawn any_address getenv conf s3) (\<lambda>s. Some (manager, s)) = Some (e, s4)"
      show "server_ok open_fds base s4"
        by (rule then_ok_inv [OF last, of "server_ok open_fds base"]) (auto intro: 3 [OF s3])
    qed (rule 2 [OF s1])
  qed
qed

text \<open>\<open>accept_client\<close> is called with a descriptor that nobody owns yet.\<close>

lemma accept_client_ok:
  assumes "distinct (owned s)" "set (owned s) \<inter> base = {}" "open_fds (kernel s) = insert fd (base \<union> set (owned s))"
    "fd \<notin> base \<union> set (owned s)" "set (zombies (conn_manager s)) \<subseteq> set (conns (conn_manager s))"
    "accept_client S conf conn_start t fd s = (e, s')"
  shows "server_ok open_fds base s'"
proof -
  obtain v k1 where gf: "getfd S fd (kernel s) = (v, k1)" by (cases "getfd S fd (kernel s)")
  obtain v' k2 where sf: "setfd S fd k1 = (v', k2)" by (cases "setfd S fd k1")
  have k: "open_fds k1 = open_fds (kernel s)" "open_fds k2 = open_fds k1"
    using keeps_open(3) [of fd "kernel s"] keeps_open(4) [of fd k1] gf sf by simp_all
  have closed: "server_ok open_fds base s2"
    if "listeners s2 = listeners s" "conn_manager s2 = conn_manager s" "open_fds (kernel s2) = open_fds (kernel s) - {fd}" for s2
    using assms(1-5) that by (auto simp: server_ok_def owned_def)
  have added: "server_ok open_fds base s2"
    if "conn_fd c = fd" "listeners s2 = listeners s" "conn_manager s2 = snd (manager_add c (conn_manager s))"
      "open_fds (kernel s2) = open_fds (kernel s)" for c s2
  proof -
    have "c \<notin> set (conns (conn_manager s))" using assms(4) that(1) by (auto simp: owned_def)
    with assms(1-5) that show ?thesis by (auto simp: server_ok_def owned_def manager_add_def)
  qed
  obtain e1 mine r s1 where res: "fd_to_resource S t fd s = (e1, mine, r, s1)" by (cases "fd_to_resource S t fd s") auto
  then have s1: "listeners s1 = listeners s" "conn_manager s1 = conn_manager s"
    using gf sf by (auto simp: fd_to_resource_def Let_def split: if_splits)
  from res consider "e1 = ERROR_SUCCESS" "r = None" "open_fds (kernel s1) = open_fds (kernel s) - {fd}"
    | c where "e1 = ERROR_SUCCESS" "r = Some c" "conn_fd c = fd" "open_fds (kernel s1) = open_fds (kernel s)"
    | "e1 \<noteq> ERROR_SUCCESS" "mine" "open_fds (kernel s1) = open_fds (kernel s)"
    using gf sf k by (auto simp: fd_to_resource_def Let_def close_closes split: if_splits)
  then show ?thesis
  proof cases
    case 1
    with assms(6) res closed [of s1] s1 show ?thesis by (simp add: accept_client_def)
  next
    case (2 c)
    with assms(6) res added [of c s'] s1 show ?thesis by (auto simp: accept_client_def)
  next
    case 3
    with assms(6) res closed [of s'] s1 show ?thesis by (auto simp: accept_client_def Let_def close_closes split: if_splits)
  qed
qed

lemma kernel_ok: "open_fds k = open_fds (kernel s) \<Longrightarrow> server_ok open_fds base (s\<lparr>kernel := k\<rparr>) = server_ok open_fds base s"
  by (simp add: server_ok_def owned_def)

lemma listener_turn_ok:
  assumes "server_ok open_fds base s"
  shows "listener_turn S conf conn_start pulled t l s = Inr s' \<Longrightarrow> server_ok open_fds base s'"
    and "listener_turn S conf conn_start pulled t l s = Inl (e, s') \<Longrightarrow> e \<noteq> ERROR_SOCKET_SETCLOSEEXEC \<Longrightarrow> server_ok open_fds base s'"
proof -
  obtain r k where ac: "accept_fd S l (kernel s) = (r, k)" by (cases "accept_fd S l (kernel s)")
  note o = accept_opens [OF ac]
  obtain e1 k1 where ce: "srs_fd_closeexec S (the r) k = (e1, k1)" by (cases "srs_fd_closeexec S (the r) k")
  have k1: "open_fds k1 = open_fds k" using closeexec_open [of "the r" k] ce by simp
  have e1: "e1 = ERROR_SUCCESS \<or> e1 = ERROR_SOCKET_SETCLOSEEXEC"
    using ce by (auto simp: srs_fd_closeexec_def failing_def split: prod.splits if_splits)
  have acc: "server_ok open_fds base (snd (accept_client S conf conn_start t fd (s\<lparr>kernel := k1\<rparr>)))" if "r = Some fd" for fd
  proof -
    obtain e s2 where "accept_client S conf conn_start t fd (s\<lparr>kernel := k1\<rparr>) = (e, s2)"
      by (cases "accept_client S conf conn_start t fd (s\<lparr>kernel := k1\<rparr>)")
    with accept_client_ok [OF _ _ _ _ _ this, of base] assms o that k1 show ?thesis by (auto simp: server_ok_def owned_def)
  qed
  show "listener_turn S conf conn_start pulled t l s = Inr s' \<Longrightarrow> server_ok open_fds base s'"
    using acc ac ce e1 by (cases r) (auto simp: listener_turn_def Let_def split: if_splits)
  show "listener_turn S conf conn_start pulled t l s = Inl (e, s') \<Longrightarrow> e \<noteq> ERROR_SOCKET_SETCLOSEEXEC \<Longrightarrow> server_ok open_fds base s'"
    using assms o ac ce e1 by (cases r) (auto simp: listener_turn_def Let_def kernel_ok split: if_splits)
qed

lemma remove_ok:
  "server_ok open_fds base s \<Longrightarrow> c \<in> set (conns (conn_manager s)) \<Longrightarrow> server_ok open_fds base (server_remove c s)"
  by (auto simp: server_ok_def owned_def server_remove_def manager_remove_def do_remove_def Let_def split: prod.splits)

lemma fold_close_open: "open_fds (fold (\<lambda>c. close_fd S (conn_fd c)) cs k) = open_fds k - conn_fd ` set cs"
  by (induction cs arbitrary: k) (auto simp: close_closes)

lemma owners_diff:
  assumes "Z \<subseteq> C" "A \<inter> C = {}" "(A \<union> C) \<inter> B = {}"
  shows "A \<inter> (C - Z) = {}" "(A \<union> (C - Z)) \<inter> B = {}" "B \<union> (A \<union> C) - Z = B \<union> (A \<union> (C - Z))"
  using assms by blast+

lemma clear_ok: "server_ok open_fds base s \<Longrightarrow> server_ok open_fds base (server_clear S s)"
proof -
  assume ok: "server_ok open_fds base s"
  let ?m = "conn_manager s"
  let ?A = "set (List.map_filter lfd (listeners s))" and ?C = "conn_fd ` set (conns ?m)" and ?Z = "conn_fd ` set (zombies ?m)"
  let ?left = "filter (\<lambda>c. c \<notin> set (zombies ?m)) (conns ?m)"
  have d: "inj_on conn_fd (set (conns ?m))" "distinct (conns ?m)" "distinct (List.map_filter lfd (listeners s))"
    "?A \<inter> ?C = {}" "(?A \<union> ?C) \<inter> base = {}" "open_fds (kernel s) = base \<union> (?A \<union> ?C)" "set (zombies ?m) \<subseteq> set (conns ?m)"
    using ok by (simp_all add: server_ok_def owned_def distinct_map)
  from manager_turn_frees_zombies [OF d(2)] have m: "zombies (cycle_turn ?m) = []" "conns (cycle_turn ?m) = ?left" by simp_all
  have "set ?left = set (conns ?m) - set (zombies ?m)" by auto
  with d(1,7) have left: "conn_fd ` set ?left = ?C - ?Z" by (simp add: inj_on_image_set_diff [of conn_fd "set (conns ?m)"])
  have "?Z \<subseteq> ?C" using d(7) by (rule image_mono)
  note sets = owners_diff [OF this d(4,5)]
  have "inj_on conn_fd (set ?left)" using d(1) by (rule inj_on_subset) simp
  then have "distinct (map conn_fd ?left)" using d(2) by (simp add: distinct_map)
  with d(3,6) sets left m show ?thesis
    unfolding server_ok_def owned_def server_clear_def by (simp add: fold_close_open del: set_filter)
qed

end

section \<open>Runs of the server\<close>

text \<open>What changes the descriptors, in any order: listening, a turn of a listener, a connection that removes itself, a turn
  of the manager, and the disposal of the server.  A listener whose client cannot be marked close-on-exec is left out: it
  ends and leaves that client open.\<close>

inductive server_step :: "'k net_sys \<Rightarrow> 'k SrsServer \<Rightarrow> 'k SrsServer \<Rightarrow> bool" for S where
  step_listen: "server_listen S spawn manager any_address getenv conf s = Some (e, s') \<Longrightarrow> server_step S s s'"
| step_accept: "listener_turn S conf conn_start pulled t l s = Inr s' \<Longrightarrow> server_step S s s'"
| step_accept_failed: "listener_turn S conf conn_start pulled t l s = Inl (e, s') \<Longrightarrow> e \<noteq> ERROR_SOCKET_SETCLOSEEXEC \<Longrightarrow>
    server_step S s s'"
| step_remove: "c \<in> set (conns (conn_manager s)) \<Longrightarrow> server_step S s (server_remove c s)"
| step_clear: "server_step S s (server_clear S s)"
| step_dispose: "server_step S s (server_dispose S s)"

lemma server_step_ok:
  assumes "descriptors S open_fds" "server_step S s s'" "server_ok open_fds base s"
  shows "server_ok open_fds base s'"
  using assms(2,3)
proof (induction rule: server_step.induct)
  case (step_listen spawn manager any_address getenv conf s e s')
  then show ?case by (metis descriptors.listen_ok [OF assms(1)])
next
  case (step_accept conf conn_start pulled t l s s')
  then show ?case by (metis descriptors.listener_turn_ok(1) [OF assms(1)])
next
  case (step_accept_failed conf conn_start pulled t l s e s')
  then show ?case by (metis descriptors.listener_turn_ok(2) [OF assms(1)])
qed (auto intro: descriptors.remove_ok [OF assms(1)] descriptors.clear_ok [OF assms(1)] descriptors.dispose_ok [OF assms(1)])

lemma server_steps_ok:
  assumes "descriptors S open_fds" "(server_step S)\<^sup>*\<^sup>* (SrsServer_new k) s"
  shows "server_ok open_fds (open_fds k) s"
  using assms(2)
proof (induction rule: rtranclp_induct)
  case base
  show ?case by (simp add: server_ok_def owned_def SrsServer_new_def SrsResourceManager_new_def map_filter_simps)
next
  case (step s s')
  then show ?case using server_step_ok [OF assms(1)] by blast
qed

text \<open>The disposal does not close the listener of the proxy.\<close>

lemma dispose_keeps_proxy_listener:
  "filter (\<lambda>l. listen_type l = SrsListenerHttpProxy) (listeners (server_dispose S s)) =
     filter (\<lambda>l. listen_type l = SrsListenerHttpProxy) (listeners s)"
proof -
  have "filter (\<lambda>l. listen_type l = SrsListenerHttpProxy) (listeners (close_listeners S t s)) =
      filter (\<lambda>l. listen_type l = SrsListenerHttpProxy) (listeners s)" if "t \<noteq> SrsListenerHttpProxy" for t s
    using that by (auto simp: close_listeners_def filter_filter intro: filter_cong)
  then show ?thesis by (simp add: server_dispose_def)
qed

text \<open>One failed call of \<open>accept\<close> ends a listener.\<close>

lemma accept_failure_ends_listener:
  "accept_fd S l (kernel s) = (None, k) \<Longrightarrow>
     listener_turn S conf conn_start ERROR_SUCCESS t l s = Inl (ERROR_SOCKET_ACCEPT, s\<lparr>kernel := k\<rparr>)"
  by (simp add: listener_turn_def)

section \<open>Listening\<close>

definition endpoint :: "SrsListener \<Rightarrow> SrsListenerType \<times> string \<times> int" where
  "endpoint l = (listen_type l, listen_ip l, listen_port l)"

definition serving :: "SrsListener \<Rightarrow> bool" where
  "serving l \<longleftrightarrow> lfd l \<noteq> None \<and> accepting l"

lemma add_listener_endpoint:
  assumes "add_listener S spawn any_address t ep s = Some (ERROR_SUCCESS, s')"
  shows "\<exists>l. listeners s' = listeners s @ [l] \<and> endpoint l = (t, srs_parse_endpoint any_address ep) \<and> serving l \<and>
    reuse_api_over_server s' = reuse_api_over_server s \<and> static_https s' = static_https s"
proof -
  have "fd \<noteq> None" if "srs_tcp_listen S ip port k = Some (ERROR_SUCCESS, fd, k')" for ip port k fd k'
    using that by (auto simp: srs_tcp_listen_def Let_def split: if_splits prod.splits)
  with assms show ?thesis
    by (cases "srs_parse_endpoint any_address ep")
      (auto simp: add_listener_def buffer_listen_def SrsBufferListener_new_def free_listener_def Let_def endpoint_def serving_def
        split: if_splits)
qed

lemma close_listeners_fields [simp]:
  "reuse_api_over_server (close_listeners S t s) = reuse_api_over_server s" "static_https (close_listeners S t s) = static_https s"
  "listeners (close_listeners S t s) = filter (\<lambda>l. listen_type l \<noteq> t) (listeners s)"
  by (simp_all add: close_listeners_def)

text \<open>One of the three functions on a server without listeners of its type: \<open>on\<close> tells whether it listens.\<close>

definition listened :: "bool \<Rightarrow> SrsListenerType \<Rightarrow> string \<times> int \<Rightarrow> 'k SrsServer \<Rightarrow> 'k SrsServer \<Rightarrow> bool" where
  "listened on t ep s s' \<longleftrightarrow>
     map endpoint (listeners s') = map endpoint (listeners s) @ (if on then [(t, ep)] else []) \<and>
     (list_all serving (listeners s) \<longrightarrow> list_all serving (listeners s')) \<and>
     reuse_api_over_server s' = reuse_api_over_server s"

lemma no_listener: "t \<notin> fst ` set (map endpoint ls) \<Longrightarrow> filter (\<lambda>l. listen_type l \<noteq> t) ls = ls"
  by (induction ls) (auto simp: endpoint_def)

lemma listened_add:
  assumes "add_listener S spawn any_address t ep s0 = Some (ERROR_SUCCESS, s')" "listeners s0 = listeners s"
    "reuse_api_over_server s0 = reuse_api_over_server s"
  shows "listened True t (srs_parse_endpoint any_address ep) s s'"
  using add_listener_endpoint [OF assms(1)] assms(2,3) by (auto simp: listened_def)

lemma listened_none: "listeners s0 = listeners s \<Longrightarrow> reuse_api_over_server s0 = reuse_api_over_server s \<Longrightarrow> listened False t ep s s0"
  by (simp add: listened_def)

lemma listen_http_api_endpoint:
  assumes "listen_http_api S spawn any_address getenv conf s = Some (ERROR_SUCCESS, s')" "SrsListenerHttpApi \<notin> fst ` set (map endpoint (listeners s))"
  shows "listened (get_http_api_enabled getenv conf \<and> \<not> reuse_api_over_server s) SrsListenerHttpApi
    (srs_parse_endpoint any_address (get_http_api_listen getenv conf)) s s' \<and> static_https s' = static_https s"
  using assms(1) no_listener [OF assms(2)]
  by (auto simp: listen_http_api_def Let_def split: if_splits intro: listened_none dest: add_listener_endpoint
      intro!: listened_add [of S spawn any_address _ _ "close_listeners S SrsListenerHttpApi s"])

lemma listen_https_api_endpoint:
  assumes "listen_https_api S spawn any_address getenv conf s = Some (ERROR_SUCCESS, s')" "SrsListenerHttpsApi \<notin> fst ` set (map endpoint (listeners s))"
  shows "listened (get_https_api_enabled getenv conf \<and> \<not> reuse_api_over_server s) SrsListenerHttpsApi
    (srs_parse_endpoint any_address (fst (get_https_api_listen getenv conf (static_https s)))) s s'"
  using assms(1) no_listener [OF assms(2)]
  by (auto simp: listen_https_api_def Let_def split: if_splits prod.splits intro: listened_none elim!: listened_add)

lemma listen_http_proxy_endpoint:
  assumes "listen_http_proxy S spawn any_address getenv conf s = Some (ERROR_SUCCESS, s')" "SrsListenerHttpProxy \<notin> fst ` set (map endpoint (listeners s))"
  shows "listened (get_http_proxy_enabled getenv conf) SrsListenerHttpProxy
    (srs_parse_endpoint any_address (get_http_proxy_listen getenv conf)) s s'"
  using assms(1) no_listener [OF assms(2)]
  by (auto simp: listen_http_proxy_def Let_def split: if_splits intro: listened_none elim!: listened_add)

lemma then_ok_Ok:
  "then_ok m f = Some (ERROR_SUCCESS, s') \<longleftrightarrow> (\<exists>s. m = Some (ERROR_SUCCESS, s) \<and> f s = Some (ERROR_SUCCESS, s'))"
  by (cases m) (auto simp: then_ok_def split: if_splits)

section \<open>A kernel\<close>

text \<open>An instance of the system: the state is the list of the open descriptors, and every call succeeds.\<close>

definition fresh_fd :: "int list \<Rightarrow> int" where
  "fresh_fd k = fold max k 2 + 1"

definition host_sys :: "int list net_sys" where
  "host_sys =
     \<lparr>getaddrinfo = (\<lambda>_ _ k. (True, k)), socket = (\<lambda>k. (fresh_fd k, fresh_fd k # k)), setkeepalive = (\<lambda>_ k. (0, k)),
      getfd = (\<lambda>_ k. (0, k)), setfd = (\<lambda>_ k. (0, k)), setreuseaddr = (\<lambda>_ k. (0, k)), setreuseport = (\<lambda>_ k. (0, k)),
      bind_fd = (\<lambda>_ k. (0, k)), listen_fd = (\<lambda>_ k. (0, k)), netfd_open = (\<lambda>_ k. (True, k)), close_fd = removeAll,
      accept_fd = (\<lambda>_ k. (Some (fresh_fd k), fresh_fd k # k)), peername = (\<lambda>_ _. Some (Some ''10.0.0.1'', 4000))\<rparr>"

lemma fold_max_bound: "(m :: int) \<le> fold max k m \<and> (\<forall>x \<in> set k. x \<le> fold max k m)"
proof (induction k arbitrary: m)
  case (Cons a k)
  from Cons.IH [of "max a m"] show ?case by auto
qed simp

lemma fresh_fd_new: "fresh_fd k \<notin> set k" "fresh_fd k \<noteq> - 1"
  using fold_max_bound [of 2 k] by (auto simp: fresh_fd_def)

interpretation host: descriptors host_sys set
  by unfold_locales (auto simp: host_sys_def fresh_fd_new split: if_splits)

section \<open>Properties\<close>





end
