(* ===== verification/Thread_Context.thy ===== *)
theory Thread_Context
  imports Prelude
begin

text \<open>
  The context of a coroutine (\<open>src/src/protocol/srs_protocol_log.cpp\<close>): the id, the descriptor of the client and the
  descriptor of the server that the log prints, kept in the thread-specific data of State Threads
  (\<open>src/3rdparty/st-srs/key.c\<close>).  The data are pointers to objects on the heap, so the state has the heap, the slots of
  every coroutine and the destructors of the keys.  \<open>None\<close> is a failed assertion or a bad \<open>delete\<close>.
\<close>

section \<open>Definitions\<close>

subsection \<open>Thread-specific data\<close>

text \<open>The objects that the slots point to, and the two destructors, each of which deletes an object of one type.\<close>

datatype specific = ContextId string | Descriptor int

datatype destructor = srs_context_destructor | srs_int_destructor

fun deletes :: "destructor \<Rightarrow> specific \<Rightarrow> bool" where
  "deletes srs_context_destructor (ContextId _) = True"
| "deletes srs_int_destructor (Descriptor _) = True"
| "deletes _ _ = False"

definition ST_KEYS_MAX :: nat where "ST_KEYS_MAX = 16"

text \<open>The three keys are static variables of the context; a slot that holds \<open>NULL\<close> is \<open>None\<close>.  \<open>st_self\<close> is the
  coroutine that runs, \<open>None\<close> before State Threads is initialized.\<close>

record thread_data =
  st_self :: "nat option"
  key_max :: nat
  st_destructors :: "nat \<Rightarrow> destructor option"
  private_data :: "nat \<Rightarrow> nat \<Rightarrow> nat option"
  objects :: "nat \<Rightarrow> specific option"
  next_object :: nat
  context_key :: int
  client_fd_key :: int
  server_fd_key :: int

definition thread_data_init :: "nat option \<Rightarrow> thread_data" where
  "thread_data_init me =
     \<lparr>st_self = me, key_max = 0, st_destructors = (\<lambda>_. None), private_data = (\<lambda>_ _. None), objects = (\<lambda>_. None),
      next_object = 0, context_key = - 1, client_fd_key = - 1, server_fd_key = - 1\<rparr>"

definition new_object :: "specific \<Rightarrow> thread_data \<Rightarrow> nat \<times> thread_data" where
  "new_object x s = (next_object s, s\<lparr>objects := (objects s)(next_object s \<mapsto> x), next_object := next_object s + 1\<rparr>)"

definition run_destructor :: "destructor \<Rightarrow> nat \<Rightarrow> thread_data \<Rightarrow> thread_data option" where
  "run_destructor d p s =
     (case objects s p of
        None \<Rightarrow> None
      | Some x \<Rightarrow> if deletes d x then Some (s\<lparr>objects := (objects s)(p := None)\<rparr>) else None)"

text \<open>\<open>st_key_create\<close> gives the key, or \<open>None\<close> when every key is taken.\<close>

definition st_key_create :: "destructor \<Rightarrow> thread_data \<Rightarrow> int option \<times> thread_data" where
  "st_key_create d s =
     (if key_max s \<ge> ST_KEYS_MAX then (None, s)
      else (Some (int (key_max s)), s\<lparr>key_max := key_max s + 1, st_destructors := (st_destructors s)(key_max s \<mapsto> d)\<rparr>))"

definition set_slot :: "nat \<Rightarrow> nat \<Rightarrow> nat option \<Rightarrow> thread_data \<Rightarrow> thread_data" where
  "set_slot t k v s = s\<lparr>private_data := (private_data s)(t := (private_data s t)(k := v))\<rparr>"

definition st_thread_setspecific :: "int \<Rightarrow> nat \<Rightarrow> thread_data \<Rightarrow> (int \<times> thread_data) option" where
  "st_thread_setspecific key value s =
     (if key < 0 \<or> key \<ge> int (key_max s) then Some (- 1, s)
      else case st_self s of None \<Rightarrow> None | Some me \<Rightarrow>
        (case private_data s me (nat key) of
           None \<Rightarrow> Some (0, set_slot me (nat key) (Some value) s)
         | Some old \<Rightarrow>
             if old = value then Some (0, s)
             else case st_destructors s (nat key) of
               None \<Rightarrow> Some (0, set_slot me (nat key) (Some value) s)
             | Some d \<Rightarrow> map_option (\<lambda>s. (0, set_slot me (nat key) (Some value) s)) (run_destructor d old s)))"

definition st_thread_getspecific :: "int \<Rightarrow> thread_data \<Rightarrow> nat option" where
  "st_thread_getspecific key s =
     (if key < 0 \<or> key \<ge> int (key_max s) then None
      else Option.bind (st_self s) (\<lambda>me. private_data s me (nat key)))"

text \<open>The data of a coroutine that ends are freed key by key.\<close>

definition cleanup_key :: "nat \<Rightarrow> nat \<Rightarrow> thread_data \<Rightarrow> thread_data option" where
  "cleanup_key t k s =
     (case (private_data s t k, st_destructors s k) of
        (Some p, Some d) \<Rightarrow> map_option (set_slot t k None) (run_destructor d p s)
      | _ \<Rightarrow> Some s)"

definition st_thread_cleanup :: "nat \<Rightarrow> thread_data \<Rightarrow> thread_data option" where
  "st_thread_cleanup t s = fold (\<lambda>k m. Option.bind m (cleanup_key t k)) [0..<key_max s] (Some s)"

subsection \<open>The context\<close>

text \<open>The characters of an id come from a table of 76 characters in which every digit stands five times; \<open>rnd\<close> are
  the results of \<open>srs_random\<close>.\<close>

definition random_table :: string where
  "random_table = concat (replicate 5 ''0123456789'') @ ''abcdefghijklmnopqrstuvwxyz''"

definition srs_random_str :: "(nat \<Rightarrow> nat) \<Rightarrow> nat \<Rightarrow> string" where
  "srs_random_str rnd len = map (\<lambda>i. random_table ! (rnd i mod length random_table)) [0..<len]"

definition generate_id :: "(nat \<Rightarrow> nat) \<Rightarrow> string" where
  "generate_id rnd = srs_random_str rnd 8"

text \<open>The key of a datum is created when the datum is first set.\<close>

definition ensure_key ::
  "(thread_data \<Rightarrow> int) \<Rightarrow> (int \<Rightarrow> thread_data \<Rightarrow> thread_data) \<Rightarrow> destructor \<Rightarrow> thread_data \<Rightarrow> thread_data option" where
  "ensure_key key set_key d s =
     (if key s < 0 then (case st_key_create d s of (None, _) \<Rightarrow> None | (Some k, s) \<Rightarrow> Some (set_key k s)) else Some s)"

definition assert_set :: "int \<Rightarrow> nat \<Rightarrow> thread_data \<Rightarrow> thread_data option" where
  "assert_set key p s = Option.bind (st_thread_setspecific key p s) (\<lambda>(r0, s). if r0 = 0 then Some s else None)"

definition set_client_fd :: "int \<Rightarrow> thread_data \<Rightarrow> thread_data option" where
  "set_client_fd fd s =
     Option.bind (ensure_key client_fd_key (\<lambda>k. client_fd_key_update (\<lambda>_. k)) srs_int_destructor s) (\<lambda>s.
       case new_object (Descriptor fd) s of (p, s) \<Rightarrow> assert_set (client_fd_key s) p s)"

definition set_server_fd :: "int \<Rightarrow> thread_data \<Rightarrow> thread_data option" where
  "set_server_fd fd s =
     Option.bind (ensure_key server_fd_key (\<lambda>k. server_fd_key_update (\<lambda>_. k)) srs_int_destructor s) (\<lambda>s.
       case new_object (Descriptor fd) s of (p, s) \<Rightarrow> assert_set (server_fd_key s) p s)"

definition set_id :: "string \<Rightarrow> thread_data \<Rightarrow> thread_data option" where
  "set_id v s =
     (case new_object (ContextId v) s of (p, s) \<Rightarrow>
        Option.bind (ensure_key context_key (\<lambda>k. context_key_update (\<lambda>_. k)) srs_context_destructor s) (\<lambda>s.
          assert_set (context_key s) p s))"

text \<open>A datum that was never set, and every datum outside the coroutines, has a default; \<open>None\<close> is the use of a
  pointer to no object of the type.\<close>

definition get_client_fd :: "thread_data \<Rightarrow> int option" where
  "get_client_fd s =
     (if st_self s = None then Some 0
      else case st_thread_getspecific (client_fd_key s) s of
        None \<Rightarrow> Some 0
      | Some p \<Rightarrow> (case objects s p of Some (Descriptor fd) \<Rightarrow> Some fd | _ \<Rightarrow> None))"

definition get_server_fd :: "thread_data \<Rightarrow> int option" where
  "get_server_fd s =
     (if st_self s = None then Some 0
      else case st_thread_getspecific (server_fd_key s) s of
        None \<Rightarrow> Some 0
      | Some p \<Rightarrow> (case objects s p of Some (Descriptor fd) \<Rightarrow> Some fd | _ \<Rightarrow> None))"

definition get_id :: "thread_data \<Rightarrow> string option" where
  "get_id s =
     (if st_self s = None then Some []
      else case st_thread_getspecific (context_key s) s of
        None \<Rightarrow> Some []
      | Some p \<Rightarrow> (case objects s p of Some (ContextId v) \<Rightarrow> Some v | _ \<Rightarrow> None))"

text \<open>What the coroutines do with their contexts: the one that runs sets a datum, another one is scheduled, the one
  that runs ends.  \<open>impl_SrsContextRestore\<close> sets the id it was created with.\<close>

datatype context_call = SetId string | SetClientFd int | SetServerFd int | Switch nat | EndThread

definition context_step :: "context_call \<Rightarrow> thread_data \<Rightarrow> thread_data option" where
  "context_step c s =
     (case c of
        SetId v \<Rightarrow> set_id v s
      | SetClientFd fd \<Rightarrow> set_client_fd fd s
      | SetServerFd fd \<Rightarrow> set_server_fd fd s
      | Switch t \<Rightarrow> Some (s\<lparr>st_self := Some t\<rparr>)
      | EndThread \<Rightarrow> (case st_self s of None \<Rightarrow> None | Some t \<Rightarrow> st_thread_cleanup t s))"

primrec context_run :: "context_call list \<Rightarrow> thread_data \<Rightarrow> thread_data option" where
  "context_run [] s = Some s"
| "context_run (c # cs) s = Option.bind (context_step c s) (context_run cs)"

subsection \<open>The abstract context\<close>

text \<open>Each coroutine has an id and two descriptors of its own, absent until they are set.\<close>

record thread_view =
  view_id :: "string option"
  view_client :: "int option"
  view_server :: "int option"

definition no_view :: thread_view where
  "no_view = \<lparr>view_id = None, view_client = None, view_server = None\<rparr>"

fun view_step :: "context_call \<Rightarrow> nat \<times> (nat \<Rightarrow> thread_view) \<Rightarrow> nat \<times> (nat \<Rightarrow> thread_view)" where
  "view_step (SetId v) (t, f) = (t, f(t := (f t)\<lparr>view_id := Some v\<rparr>))"
| "view_step (SetClientFd fd) (t, f) = (t, f(t := (f t)\<lparr>view_client := Some fd\<rparr>))"
| "view_step (SetServerFd fd) (t, f) = (t, f(t := (f t)\<lparr>view_server := Some fd\<rparr>))"
| "view_step (Switch t') (t, f) = (t', f)"
| "view_step EndThread (t, f) = (t, f(t := no_view))"

section \<open>The slots own their objects\<close>

text \<open>Every pointer in a slot is to an object that the destructor of the key deletes, no two slots share an object, and
  every object is in a slot.\<close>

definition slots_own :: "thread_data \<Rightarrow> bool" where
  "slots_own s \<longleftrightarrow>
     (\<forall>t k p. private_data s t k = Some p \<longrightarrow>
        k < key_max s \<and> (\<exists>d x. st_destructors s k = Some d \<and> objects s p = Some x \<and> deletes d x)) \<and>
     (\<forall>t k t' k' p. private_data s t k = Some p \<longrightarrow> private_data s t' k' = Some p \<longrightarrow> t = t' \<and> k = k') \<and>
     (\<forall>p x. objects s p = Some x \<longrightarrow> p < next_object s \<and> (\<exists>t k. private_data s t k = Some p))"

text \<open>The datum of coroutine \<open>t\<close> under a key.\<close>

definition datum :: "thread_data \<Rightarrow> nat \<Rightarrow> int \<Rightarrow> specific option" where
  "datum s t key = (if key < 0 then None else Option.bind (private_data s t (nat key)) (objects s))"

text \<open>What setting a datum and freeing the data of a coroutine leave as it was.\<close>

definition same_keys :: "thread_data \<Rightarrow> thread_data \<Rightarrow> bool" where
  "same_keys s s' \<longleftrightarrow>
     st_self s' = st_self s \<and> key_max s' = key_max s \<and> st_destructors s' = st_destructors s \<and>
     context_key s' = context_key s \<and> client_fd_key s' = client_fd_key s \<and> server_fd_key s' = server_fd_key s"

lemma datum_neg [simp]: "k < 0 \<Longrightarrow> datum s t k = None"
  by (simp add: datum_def)

lemma key_update_simps [simp]:
  "datum (s\<lparr>context_key := k\<rparr>) = datum s" "datum (s\<lparr>client_fd_key := k\<rparr>) = datum s" "datum (s\<lparr>server_fd_key := k\<rparr>) = datum s"
  "slots_own (s\<lparr>context_key := k\<rparr>) = slots_own s" "slots_own (s\<lparr>client_fd_key := k\<rparr>) = slots_own s"
  "slots_own (s\<lparr>server_fd_key := k\<rparr>) = slots_own s"
  by (simp_all add: fun_eq_iff datum_def slots_own_def)

lemma slots_ownI:
  assumes "\<And>t k p. private_data s t k = Some p \<Longrightarrow>
      k < key_max s \<and> (\<exists>d x. st_destructors s k = Some d \<and> objects s p = Some x \<and> deletes d x)"
    and "\<And>t k t' k' p. private_data s t k = Some p \<Longrightarrow> private_data s t' k' = Some p \<Longrightarrow> t = t' \<and> k = k'"
    and "\<And>p x. objects s p = Some x \<Longrightarrow> p < next_object s"
    and "\<And>p x. objects s p = Some x \<Longrightarrow> \<exists>t k. private_data s t k = Some p"
  shows "slots_own s"
  using assms unfolding slots_own_def by blast

lemma slots_ownD:
  assumes "slots_own s"
  shows "private_data s t k = Some p \<Longrightarrow>
      k < key_max s \<and> (\<exists>d x. st_destructors s k = Some d \<and> objects s p = Some x \<and> deletes d x)"
    and "private_data s t k = Some p \<Longrightarrow> private_data s t' k' = Some p \<Longrightarrow> t = t' \<and> k = k'"
    and "objects s p = Some x \<Longrightarrow> p < next_object s"
    and "objects s p = Some x \<Longrightarrow> \<exists>t k. private_data s t k = Some p"
    and "private_data s t k = Some p \<Longrightarrow> p < next_object s"
  using assms unfolding slots_own_def by blast+

lemma set_slot_sel [simp]:
  "private_data (set_slot t k v s) t' k' = (if t' = t \<and> k' = k then v else private_data s t' k')"
  "objects (set_slot t k v s) = objects s" "next_object (set_slot t k v s) = next_object s" "key_max (set_slot t k v s) = key_max s"
  "st_destructors (set_slot t k v s) = st_destructors s" "st_self (set_slot t k v s) = st_self s"
  "context_key (set_slot t k v s) = context_key s" "client_fd_key (set_slot t k v s) = client_fd_key s"
  "server_fd_key (set_slot t k v s) = server_fd_key s"
  by (auto simp: set_slot_def)

text \<open>Deleting the object of a slot and clearing the slot.\<close>

definition clear_slot :: "nat \<Rightarrow> nat \<Rightarrow> thread_data \<Rightarrow> thread_data" where
  "clear_slot t k s =
     (case private_data s t k of None \<Rightarrow> s | Some p \<Rightarrow> set_slot t k None (s\<lparr>objects := (objects s)(p := None)\<rparr>))"

lemma clear_slot_own:
  assumes "slots_own s"
  shows "slots_own (clear_slot t k s)"
proof (cases "private_data s t k")
  case (Some p)
  note own = slots_ownD [OF assms]
  show ?thesis unfolding clear_slot_def Some option.case
  proof (rule slots_ownI, goal_cases)
    case (1 t' k' q)
    then have "private_data s t' k' = Some q" "\<not> (t' = t \<and> k' = k)" by (auto split: if_splits)
    moreover from this own(2) Some have "q \<noteq> p" by blast
    ultimately show ?case using own(1) by simp
  next
    case 2 then show ?case using own(2) by (auto split: if_splits)
  next
    case 3 then show ?case using own(3) by (auto split: if_splits)
  next
    case (4 q x)
    then have q: "objects s q = Some x" "q \<noteq> p" by (auto split: if_splits)
    from own(4) [OF q(1)] obtain t' k' where "private_data s t' k' = Some q" by blast
    with q(2) Some show ?case by (intro exI [of _ t'] exI [of _ k']) auto
  qed
qed (simp add: clear_slot_def assms)

lemma clear_slot_same [simp]: "same_keys s (clear_slot t k s)"
  by (simp add: clear_slot_def same_keys_def split: option.split)

lemma clear_slot_empty: "private_data (clear_slot t k s) t k = None"
  by (simp add: clear_slot_def split: option.split)

lemma clear_slot_datum:
  assumes "slots_own s"
  shows "datum (clear_slot t (nat key) s) = (\<lambda>t' k'. if t' = t \<and> nat k' = nat key then None else datum s t' k')"
proof (intro ext)
  fix t' k'
  show "datum (clear_slot t (nat key) s) t' k' = (if t' = t \<and> nat k' = nat key then None else datum s t' k')"
    using slots_ownD(2) [OF assms, of t "nat key" _ t' "nat k'"]
    by (cases "private_data s t (nat key)"; cases "private_data s t' (nat k')") (auto simp: datum_def clear_slot_def)
qed

text \<open>A new object in an empty slot.\<close>

definition fill_slot :: "nat \<Rightarrow> nat \<Rightarrow> specific \<Rightarrow> thread_data \<Rightarrow> thread_data" where
  "fill_slot t k x s = set_slot t k (Some (next_object s)) (snd (new_object x s))"

lemma fill_slot_own:
  assumes "slots_own s" "k < key_max s" "st_destructors s k = Some d" "deletes d x" "private_data s t k = None"
  shows "slots_own (fill_slot t k x s)"
proof -
  note own = slots_ownD [OF assms(1)]
  have new: "private_data s t' k' \<noteq> Some (next_object s)" for t' k' using own(5) by blast
  show ?thesis unfolding fill_slot_def new_object_def snd_conv
  proof (rule slots_ownI, goal_cases)
    case (1 t' k' q) then show ?case using own(1) [of t' k' q] new assms(2-4) by (auto split: if_splits)
  next
    case (2 t1 k1 t2 k2 q) then show ?case using own(2) [of t1 k1 q t2 k2] new [of t1 k1] new [of t2 k2] by (auto split: if_splits)
  next
    case (3 q y) then show ?case using own(3) [of q y] by (auto split: if_splits)
  next
    case (4 q y)
    show ?case
    proof (cases "q = next_object s")
      case True then show ?thesis by (intro exI [of _ t] exI [of _ k]) simp
    next
      case False
      with 4 own(4) [of q y] obtain t' k' where "private_data s t' k' = Some q" by auto
      with assms(5) show ?thesis by (intro exI [of _ t'] exI [of _ k']) auto
    qed
  qed
qed

lemma fill_slot_datum:
  assumes "slots_own s" "0 \<le> key"
  shows "datum (fill_slot t (nat key) x s) = (\<lambda>t' k'. if t' = t \<and> k' = key then Some x else datum s t' k')"
proof (intro ext)
  fix t' k'
  have "private_data s t' (nat k') \<noteq> Some (next_object s)" using slots_ownD(5) [OF assms(1)] by blast
  then show "datum (fill_slot t (nat key) x s) t' k' = (if t' = t \<and> k' = key then Some x else datum s t' k')"
    using assms(2) by (cases "private_data s t' (nat k')") (auto simp: datum_def fill_slot_def new_object_def)
qed

text \<open>Setting a datum and freeing the data of a coroutine, in terms of the two.\<close>

lemma run_destructor_ok:
  assumes "slots_own s" "private_data s t k = Some p"
  obtains d where "st_destructors s k = Some d" "run_destructor d p s = Some (s\<lparr>objects := (objects s)(p := None)\<rparr>)"
  using slots_ownD(1) [OF assms] by (auto simp: run_destructor_def)

lemma put_is_clear_fill:
  assumes own: "slots_own s" and key: "0 \<le> key" "key < int (key_max s)" and me: "st_self s = Some me"
  shows "(case new_object x s of (p, s) \<Rightarrow> assert_set key p s) = Some (fill_slot me (nat key) x (clear_slot me (nat key) s))"
proof (cases "private_data s me (nat key)")
  case None
  then show ?thesis using key me
    by (simp add: new_object_def assert_set_def st_thread_setspecific_def fill_slot_def clear_slot_def)
next
  case (Some old)
  from slots_ownD(1,5) [OF own Some] obtain d y where
    d: "st_destructors s (nat key) = Some d" "objects s old = Some y" "deletes d y" "old < next_object s" by blast
  then have "run_destructor d old (snd (new_object x s)) =
      Some ((snd (new_object x s))\<lparr>objects := (objects (snd (new_object x s)))(old := None)\<rparr>)"
    by (simp add: run_destructor_def new_object_def)
  moreover have "set_slot me (nat key) (Some (next_object s)) ((snd (new_object x s))\<lparr>objects := (objects (snd (new_object x s)))(old := None)\<rparr>) =
      fill_slot me (nat key) x (clear_slot me (nat key) s)"
    using Some d(4) by (simp add: fill_slot_def clear_slot_def set_slot_def new_object_def fun_upd_twist [of old])
  ultimately show ?thesis using key me Some d(1,4)
    by (simp add: new_object_def assert_set_def st_thread_setspecific_def)
qed

lemma put_datum:
  assumes own: "slots_own s" and key: "0 \<le> key" "key < int (key_max s)" and d: "st_destructors s (nat key) = Some d" "deletes d x"
    and me: "st_self s = Some me"
  shows "\<exists>s'. (case new_object x s of (p, s) \<Rightarrow> assert_set key p s) = Some s' \<and> slots_own s' \<and> same_keys s s' \<and>
    (\<forall>t k. datum s' t k = (if t = me \<and> k = key then Some x else datum s t k))"
proof -
  let ?c = "clear_slot me (nat key) s"
  have c: "slots_own ?c" "same_keys s ?c" using clear_slot_own [OF own] by simp_all
  from c have "slots_own (fill_slot me (nat key) x ?c)"
    using key d by (intro fill_slot_own) (auto simp: same_keys_def clear_slot_empty)
  moreover have "same_keys s (fill_slot me (nat key) x ?c)"
    using c(2) by (simp add: same_keys_def fill_slot_def new_object_def)
  moreover have "datum (fill_slot me (nat key) x ?c) t k = (if t = me \<and> k = key then Some x else datum s t k)" for t k
    using key by (cases "k < 0") (auto simp: fill_slot_datum [OF c(1) key(1)] clear_slot_datum [OF own] eq_nat_nat_iff)
  ultimately show ?thesis using put_is_clear_fill [OF own key me] by blast
qed

lemma cleanup_is_clear:
  assumes "slots_own s"
  shows "fold (\<lambda>k m. Option.bind m (cleanup_key t k)) [0..<n] (Some s) = Some (fold (clear_slot t) [0..<n] s) \<and>
    slots_own (fold (clear_slot t) [0..<n] s)"
proof (induction n)
  case (Suc n)
  let ?s = "fold (clear_slot t) [0..<n] s"
  have "cleanup_key t n ?s = Some (clear_slot t n ?s)"
  proof (cases "private_data ?s t n")
    case (Some p)
    from Suc obtain d where "st_destructors ?s n = Some d" "run_destructor d p ?s = Some (?s\<lparr>objects := (objects ?s)(p := None)\<rparr>)"
      using run_destructor_ok [of ?s t n p] Some by blast
    with Some show ?thesis by (simp add: cleanup_key_def clear_slot_def)
  qed (simp add: cleanup_key_def clear_slot_def)
  with Suc show ?case by (simp add: clear_slot_own)
qed (simp add: assms)

lemma fold_clear_slot:
  assumes "slots_own s"
  shows "same_keys s (fold (clear_slot t) [0..<n] s) \<and>
    (\<forall>t' k. datum (fold (clear_slot t) [0..<n] s) t' k = (if t' = t \<and> k < int n then None else datum s t' k))"
proof (induction n)
  case 0
  show ?case by (auto simp: same_keys_def datum_def)
next
  case (Suc n)
  let ?s = "fold (clear_slot t) [0..<n] s"
  have own: "slots_own ?s" using cleanup_is_clear [OF assms] by blast
  have "same_keys s (clear_slot t n ?s)" using Suc clear_slot_same [of ?s t n] by (simp add: same_keys_def)
  moreover have "datum (clear_slot t n ?s) t' k = (if t' = t \<and> k < int (Suc n) then None else datum s t' k)" for t' k
    using Suc clear_slot_datum [OF own, of t "int n"] by (cases "k < 0") (auto simp: nat_eq_iff)
  ultimately show ?case by simp
qed

lemma cleanup_datum:
  assumes "slots_own s"
  shows "\<exists>s'. st_thread_cleanup t s = Some s' \<and> slots_own s' \<and> same_keys s s' \<and>
    (\<forall>t' k. datum s' t' k = (if t' = t \<and> k < int (key_max s) then None else datum s t' k))"
  unfolding st_thread_cleanup_def using cleanup_is_clear [OF assms] fold_clear_slot [OF assms] by blast

section \<open>The keys of the context\<close>

text \<open>The keys that exist are those of the context, each with the destructor of its type.\<close>

definition slot_key_ok :: "thread_data \<Rightarrow> int \<Rightarrow> destructor \<Rightarrow> bool" where
  "slot_key_ok s key d \<longleftrightarrow> key = - 1 \<or> 0 \<le> key \<and> key < int (key_max s) \<and> st_destructors s (nat key) = Some d"

definition context_keys :: "thread_data \<Rightarrow> int list" where
  "context_keys s = filter (\<lambda>k. 0 \<le> k) [context_key s, client_fd_key s, server_fd_key s]"

definition context_inv :: "thread_data \<Rightarrow> bool" where
  "context_inv s \<longleftrightarrow> slots_own s \<and> st_self s \<noteq> None \<and>
     slot_key_ok s (context_key s) srs_context_destructor \<and> slot_key_ok s (client_fd_key s) srs_int_destructor \<and>
     slot_key_ok s (server_fd_key s) srs_int_destructor \<and> distinct (context_keys s) \<and> key_max s = length (context_keys s)"

definition view_of :: "thread_data \<Rightarrow> nat \<Rightarrow> thread_view" where
  "view_of s t =
     \<lparr>view_id = (case datum s t (context_key s) of Some (ContextId v) \<Rightarrow> Some v | _ \<Rightarrow> None),
      view_client = (case datum s t (client_fd_key s) of Some (Descriptor fd) \<Rightarrow> Some fd | _ \<Rightarrow> None),
      view_server = (case datum s t (server_fd_key s) of Some (Descriptor fd) \<Rightarrow> Some fd | _ \<Rightarrow> None)\<rparr>"

lemma context_inv_init: "context_inv (thread_data_init (Some t))"
  by (simp add: context_inv_def thread_data_init_def slots_own_def slot_key_ok_def context_keys_def)

lemma view_of_init: "view_of (thread_data_init me) t = no_view"
  by (simp add: view_of_def thread_data_init_def no_view_def datum_def)

lemma same_keys_inv:
  assumes "context_inv s" "same_keys s s'" "slots_own s'"
  shows "context_inv s'"
proof -
  have "context_keys s' = context_keys s" "slot_key_ok s' = slot_key_ok s"
    using assms(2) by (simp_all add: context_keys_def slot_key_ok_def same_keys_def fun_eq_iff)
  with assms show ?thesis by (simp add: context_inv_def same_keys_def)
qed

text \<open>A new key: the slots of the key are empty in every coroutine.\<close>

lemma key_create_own:
  assumes "slots_own s" "key_max s < ST_KEYS_MAX"
  shows "\<exists>s'. st_key_create d s = (Some (int (key_max s)), s') \<and> slots_own s' \<and> datum s' = datum s \<and> st_self s' = st_self s \<and>
    key_max s' = key_max s + 1 \<and> st_destructors s' = (st_destructors s)(key_max s \<mapsto> d) \<and>
    private_data s' = private_data s \<and> objects s' = objects s \<and> next_object s' = next_object s \<and>
    context_key s' = context_key s \<and> client_fd_key s' = client_fd_key s \<and> server_fd_key s' = server_fd_key s"
  using assms(2) slots_ownD [OF assms(1)]
  by (auto simp: st_key_create_def datum_def fun_eq_iff intro!: slots_ownI) (metis less_Suc_eq nat_neq_iff)+

lemma fresh_key_no_datum: "slots_own s \<Longrightarrow> datum s t (int (key_max s)) = None"
  using slots_ownD(1) [of s t "key_max s"] by (cases "private_data s t (key_max s)") (auto simp: datum_def)

lemma context_inv_key_max: "context_inv s \<Longrightarrow> key_max s \<le> 3"
  using length_filter_le [of "\<lambda>k. 0 \<le> k" "[context_key s, client_fd_key s, server_fd_key s]"]
  by (simp add: context_inv_def context_keys_def)

lemma slot_key_ok_grow:
  assumes "slot_key_ok s key d" "st_destructors s' = (st_destructors s)(key_max s \<mapsto> d')" "key_max s' = key_max s + 1"
  shows "slot_key_ok s' key d"
  using assms by (auto simp: slot_key_ok_def)

text \<open>The key of a datum exists after \<open>ensure_key\<close>, and nothing else has changed.\<close>

definition ensured :: "thread_data \<Rightarrow> int \<Rightarrow> thread_data \<Rightarrow> bool" where
  "ensured s key s' \<longleftrightarrow> context_inv s' \<and> view_of s' = view_of s \<and> st_self s' = st_self s \<and> 0 \<le> key"

lemma new_context_key:
  assumes inv: "context_inv s"
  obtains s1 where "st_key_create d s = (Some (int (key_max s)), s1)" "slots_own s1" "datum s1 = datum s"
    "st_self s1 = st_self s" "key_max s1 = key_max s + 1" "slot_key_ok s1 (int (key_max s)) d"
    "\<And>key d'. slot_key_ok s key d' \<Longrightarrow> slot_key_ok s1 key d'" "int (key_max s) \<notin> set (context_keys s)"
    "context_key s1 = context_key s" "client_fd_key s1 = client_fd_key s" "server_fd_key s1 = server_fd_key s"
proof -
  from inv have own: "slots_own s" by (simp add: context_inv_def)
  have "key_max s < ST_KEYS_MAX" using context_inv_key_max [OF inv] by (simp add: ST_KEYS_MAX_def)
  from key_create_own [OF own this, of d] obtain s1 where
    s1: "st_key_create d s = (Some (int (key_max s)), s1)" "slots_own s1" "datum s1 = datum s"
      "st_self s1 = st_self s" "key_max s1 = key_max s + 1" "st_destructors s1 = (st_destructors s)(key_max s \<mapsto> d)"
      "context_key s1 = context_key s" "client_fd_key s1 = client_fd_key s" "server_fd_key s1 = server_fd_key s" by blast
  moreover have "int (key_max s) \<notin> set (context_keys s)"
    using inv by (auto simp: context_inv_def context_keys_def slot_key_ok_def)
  moreover have "slot_key_ok s1 (int (key_max s)) d" using s1 by (simp add: slot_key_ok_def)
  ultimately show ?thesis using slot_key_ok_grow [of s _ _ s1] by (intro that [of s1]) auto
qed

lemma slot_key_ok_update [simp]:
  "slot_key_ok (s\<lparr>context_key := k\<rparr>) = slot_key_ok s" "slot_key_ok (s\<lparr>client_fd_key := k\<rparr>) = slot_key_ok s" "slot_key_ok (s\<lparr>server_fd_key := k\<rparr>) = slot_key_ok s"
  by (simp_all add: slot_key_ok_def fun_eq_iff)

lemma view_of_cong:
  "datum s' = datum s \<Longrightarrow> (\<And>t. datum s t (context_key s') = datum s t (context_key s)) \<Longrightarrow>
   (\<And>t. datum s t (client_fd_key s') = datum s t (client_fd_key s)) \<Longrightarrow>
   (\<And>t. datum s t (server_fd_key s') = datum s t (server_fd_key s)) \<Longrightarrow> view_of s' = view_of s"
  by (simp add: view_of_def fun_eq_iff)

lemma ensure_id:
  assumes inv: "context_inv s"
  shows "\<exists>s'. ensure_key context_key (\<lambda>k. context_key_update (\<lambda>_. k)) srs_context_destructor s = Some s' \<and>
    ensured s (context_key s') s'"
proof (cases "context_key s < 0")
  case True
  note own = inv [unfolded context_inv_def, THEN conjunct1]
  from inv show ?thesis
  proof (rule new_context_key [of s srs_context_destructor], goal_cases)
    case (1 s1)
    let ?s = "s1\<lparr>context_key := int (key_max s)\<rparr>"
    have "context_keys ?s = int (key_max s) # context_keys s" using True 1 by (simp add: context_keys_def)
    with 1 inv have "context_inv ?s" by (auto simp: context_inv_def)
    moreover have "view_of ?s = view_of s" using True 1 fresh_key_no_datum [OF own] by (intro view_of_cong) auto
    ultimately show ?case using True 1 by (simp add: ensure_key_def ensured_def)
  qed
qed (use inv in \<open>simp add: ensure_key_def ensured_def\<close>)

lemma ensure_client:
  assumes inv: "context_inv s"
  shows "\<exists>s'. ensure_key client_fd_key (\<lambda>k. client_fd_key_update (\<lambda>_. k)) srs_int_destructor s = Some s' \<and>
    ensured s (client_fd_key s') s'"
proof (cases "client_fd_key s < 0")
  case True
  note own = inv [unfolded context_inv_def, THEN conjunct1]
  from inv show ?thesis
  proof (rule new_context_key [of s srs_int_destructor], goal_cases)
    case (1 s1)
    let ?s = "s1\<lparr>client_fd_key := int (key_max s)\<rparr>"
    have "distinct (context_keys ?s) \<and> length (context_keys ?s) = Suc (length (context_keys s))"
      using True 1 inv by (auto simp: context_keys_def context_inv_def split: if_splits)
    with 1 inv have "context_inv ?s" by (auto simp: context_inv_def)
    moreover have "view_of ?s = view_of s" using True 1 fresh_key_no_datum [OF own] by (intro view_of_cong) auto
    ultimately show ?case using True 1 by (simp add: ensure_key_def ensured_def)
  qed
qed (use inv in \<open>simp add: ensure_key_def ensured_def\<close>)

lemma ensure_server:
  assumes inv: "context_inv s"
  shows "\<exists>s'. ensure_key server_fd_key (\<lambda>k. server_fd_key_update (\<lambda>_. k)) srs_int_destructor s = Some s' \<and>
    ensured s (server_fd_key s') s'"
proof (cases "server_fd_key s < 0")
  case True
  note own = inv [unfolded context_inv_def, THEN conjunct1]
  from inv show ?thesis
  proof (rule new_context_key [of s srs_int_destructor], goal_cases)
    case (1 s1)
    let ?s = "s1\<lparr>server_fd_key := int (key_max s)\<rparr>"
    have "distinct (context_keys ?s) \<and> length (context_keys ?s) = Suc (length (context_keys s))"
      using True 1 inv by (auto simp: context_keys_def context_inv_def split: if_splits)
    with 1 inv have "context_inv ?s" by (auto simp: context_inv_def)
    moreover have "view_of ?s = view_of s" using True 1 fresh_key_no_datum [OF own] by (intro view_of_cong) auto
    ultimately show ?case using True 1 by (simp add: ensure_key_def ensured_def)
  qed
qed (use inv in \<open>simp add: ensure_key_def ensured_def\<close>)

section \<open>The refinement\<close>

text \<open>The running coroutine and the views of all coroutines.\<close>

definition context_abs :: "thread_data \<Rightarrow> nat \<times> (nat \<Rightarrow> thread_view)" where
  "context_abs s = (the (st_self s), view_of s)"

definition refined :: "thread_data \<Rightarrow> context_call \<Rightarrow> bool" where
  "refined s c \<longleftrightarrow> (\<exists>s'. context_step c s = Some s' \<and> context_inv s' \<and> context_abs s' = view_step c (context_abs s))"

lemma distinct_keys:
  assumes "context_inv s"
  shows "0 \<le> context_key s \<Longrightarrow> client_fd_key s \<noteq> context_key s" "0 \<le> context_key s \<Longrightarrow> server_fd_key s \<noteq> context_key s"
    "0 \<le> client_fd_key s \<Longrightarrow> client_fd_key s \<noteq> server_fd_key s"
  using assms by (auto simp: context_inv_def context_keys_def split: if_splits)

text \<open>Setting the datum of a key that exists.\<close>

lemma put_in_context:
  assumes e: "ensured s key s1" and k: "slot_key_ok s1 key d" "deletes d x"
  shows "\<exists>s2 me. (case new_object x s1 of (p, s) \<Rightarrow> assert_set key p s) = Some s2 \<and> context_inv s2 \<and> same_keys s1 s2 \<and>
    st_self s1 = Some me \<and> (\<forall>t k. datum s2 t k = (if t = me \<and> k = key then Some x else datum s1 t k))"
proof -
  from e have inv: "context_inv s1" "0 \<le> key" by (simp_all add: ensured_def)
  then obtain me where me: "st_self s1 = Some me" "slots_own s1" by (auto simp: context_inv_def)
  from k inv have "key < int (key_max s1)" "st_destructors s1 (nat key) = Some d" by (auto simp: slot_key_ok_def)
  from put_datum [OF me(2) inv(2) this k(2) me(1)] same_keys_inv [OF inv(1)] me(1) show ?thesis by blast
qed

lemma set_client_fd_refines:
  assumes "context_inv s"
  shows "refined s (SetClientFd fd)"
proof -
  from ensure_client [OF assms] obtain s1 where s1: "ensure_key client_fd_key (\<lambda>k. client_fd_key_update (\<lambda>_. k)) srs_int_destructor s = Some s1"
    "ensured s (client_fd_key s1) s1" by blast
  then have "slot_key_ok s1 (client_fd_key s1) srs_int_destructor" by (simp add: ensured_def context_inv_def)
  from put_in_context [OF s1(2) this, of "Descriptor fd"] obtain s2 me where
    s2: "(case new_object (Descriptor fd) s1 of (p, s) \<Rightarrow> assert_set (client_fd_key s1) p s) = Some s2" "context_inv s2" "same_keys s1 s2"
      "st_self s1 = Some me" "\<And>t k. datum s2 t k = (if t = me \<and> k = client_fd_key s1 then Some (Descriptor fd) else datum s1 t k)" by auto
  have "set_client_fd fd s = Some s2" using s1(1) s2(1) by (simp add: set_client_fd_def new_object_def)
  moreover have "view_of s2 = (view_of s1)(me := (view_of s1 me)\<lparr>view_client := Some fd\<rparr>)"
    using s2(3,5) s1(2) distinct_keys [of s1] by (auto simp: fun_eq_iff view_of_def same_keys_def ensured_def)
  moreover have "st_self s = Some me" "st_self s2 = Some me" "view_of s1 = view_of s"
    using s2(3,4) s1(2) by (simp_all add: ensured_def same_keys_def)
  ultimately show ?thesis using s2(2) by (simp add: refined_def context_step_def context_abs_def)
qed

lemma set_server_fd_refines:
  assumes "context_inv s"
  shows "refined s (SetServerFd fd)"
proof -
  from ensure_server [OF assms] obtain s1 where s1: "ensure_key server_fd_key (\<lambda>k. server_fd_key_update (\<lambda>_. k)) srs_int_destructor s = Some s1"
    "ensured s (server_fd_key s1) s1" by blast
  then have "slot_key_ok s1 (server_fd_key s1) srs_int_destructor" by (simp add: ensured_def context_inv_def)
  from put_in_context [OF s1(2) this, of "Descriptor fd"] obtain s2 me where
    s2: "(case new_object (Descriptor fd) s1 of (p, s) \<Rightarrow> assert_set (server_fd_key s1) p s) = Some s2" "context_inv s2" "same_keys s1 s2"
      "st_self s1 = Some me" "\<And>t k. datum s2 t k = (if t = me \<and> k = server_fd_key s1 then Some (Descriptor fd) else datum s1 t k)" by auto
  have "set_server_fd fd s = Some s2" using s1(1) s2(1) by (simp add: set_server_fd_def new_object_def)
  moreover have "view_of s2 = (view_of s1)(me := (view_of s1 me)\<lparr>view_server := Some fd\<rparr>)"
    using s2(3,5) s1(2) distinct_keys [of s1] by (auto simp: fun_eq_iff view_of_def same_keys_def ensured_def)
  moreover have "st_self s = Some me" "st_self s2 = Some me" "view_of s1 = view_of s"
    using s2(3,4) s1(2) by (simp_all add: ensured_def same_keys_def)
  ultimately show ?thesis using s2(2) by (simp add: refined_def context_step_def context_abs_def)
qed

text \<open>The id is allocated before its key is created, which makes no difference.\<close>

lemma set_id_key_first:
  "set_id v s =
     Option.bind (ensure_key context_key (\<lambda>k. context_key_update (\<lambda>_. k)) srs_context_destructor s) (\<lambda>s.
       case new_object (ContextId v) s of (p, s) \<Rightarrow> assert_set (context_key s) p s)"
  by (cases s) (simp add: set_id_def ensure_key_def new_object_def st_key_create_def)

lemma set_id_refines:
  assumes "context_inv s"
  shows "refined s (SetId v)"
proof -
  from ensure_id [OF assms] obtain s1 where s1: "ensure_key context_key (\<lambda>k. context_key_update (\<lambda>_. k)) srs_context_destructor s = Some s1"
    "ensured s (context_key s1) s1" by blast
  then have "slot_key_ok s1 (context_key s1) srs_context_destructor" by (simp add: ensured_def context_inv_def)
  from put_in_context [OF s1(2) this, of "ContextId v"] obtain s2 me where
    s2: "(case new_object (ContextId v) s1 of (p, s) \<Rightarrow> assert_set (context_key s1) p s) = Some s2" "context_inv s2" "same_keys s1 s2"
      "st_self s1 = Some me" "\<And>t k. datum s2 t k = (if t = me \<and> k = context_key s1 then Some (ContextId v) else datum s1 t k)" by auto
  have "set_id v s = Some s2" using s1(1) s2(1) by (simp add: set_id_key_first new_object_def)
  moreover have "view_of s2 = (view_of s1)(me := (view_of s1 me)\<lparr>view_id := Some v\<rparr>)"
    using s2(3,5) s1(2) distinct_keys [of s1] by (auto simp: fun_eq_iff view_of_def same_keys_def ensured_def)
  moreover have "st_self s = Some me" "st_self s2 = Some me" "view_of s1 = view_of s"
    using s2(3,4) s1(2) by (simp_all add: ensured_def same_keys_def)
  ultimately show ?thesis using s2(2) by (simp add: refined_def context_step_def context_abs_def)
qed

lemma exit_refines:
  assumes inv: "context_inv s"
  shows "refined s EndThread"
proof -
  from inv obtain t where t: "st_self s = Some t" "slots_own s" by (auto simp: context_inv_def)
  from cleanup_datum [OF t(2), of t] obtain s' where
    s': "st_thread_cleanup t s = Some s'" "slots_own s'" "same_keys s s'"
      "\<And>t' k. datum s' t' k = (if t' = t \<and> k < int (key_max s) then None else datum s t' k)" by blast
  from inv have "context_key s < int (key_max s)" "client_fd_key s < int (key_max s)" "server_fd_key s < int (key_max s)"
    by (auto simp: context_inv_def slot_key_ok_def)
  then have "view_of s' = (view_of s)(t := no_view)"
    using s'(3,4) by (auto simp: fun_eq_iff view_of_def same_keys_def no_view_def)
  with s' t same_keys_inv [OF inv] show ?thesis
    by (auto simp: refined_def context_step_def context_abs_def same_keys_def)
qed

lemma switch_refines: "context_inv s \<Longrightarrow> refined s (Switch t)"
  by (auto simp: refined_def context_step_def context_abs_def context_inv_def slots_own_def slot_key_ok_def context_keys_def
      view_of_def datum_def fun_eq_iff)

lemma context_step_refines: "context_inv s \<Longrightarrow> refined s c"
  by (cases c) (simp_all add: set_id_refines set_client_fd_refines set_server_fd_refines switch_refines exit_refines)

lemma context_run_refines:
  "context_inv s \<Longrightarrow> \<exists>s'. context_run cs s = Some s' \<and> context_inv s' \<and> context_abs s' = fold view_step cs (context_abs s)"
proof (induction cs arbitrary: s)
  case (Cons c cs)
  from context_step_refines [OF Cons.prems, of c] obtain s1 where
    s1: "context_step c s = Some s1" "context_inv s1" "context_abs s1 = view_step c (context_abs s)" by (auto simp: refined_def)
  from Cons.IH [OF s1(2)] s1(1,3) show ?case by auto
qed simp

text \<open>What the context returns is the view of the coroutine that runs.\<close>

definition id_of :: "thread_view \<Rightarrow> string" where
  "id_of w = (case view_id w of None \<Rightarrow> [] | Some v \<Rightarrow> v)"

definition fd_of :: "int option \<Rightarrow> int" where
  "fd_of o' = (case o' of None \<Rightarrow> 0 | Some fd \<Rightarrow> fd)"

lemma getspecific_datum:
  assumes "context_inv s" "st_self s = Some me" "slot_key_ok s key d"
  shows "(st_thread_getspecific key s = None \<and> datum s me key = None) \<or>
    (\<exists>p x. st_thread_getspecific key s = Some p \<and> objects s p = Some x \<and> datum s me key = Some x \<and> deletes d x)"
  using assms slots_ownD(1) [of s me "nat key"]
  by (cases "private_data s me (nat key)") (auto simp: context_inv_def slot_key_ok_def st_thread_getspecific_def datum_def)

lemma deletes_iff:
  "deletes srs_context_destructor x \<longleftrightarrow> (\<exists>v. x = ContextId v)" "deletes srs_int_destructor x \<longleftrightarrow> (\<exists>fd. x = Descriptor fd)"
  by (cases x; simp)+

lemma context_getters:
  assumes inv: "context_inv s" and me: "st_self s = Some me"
  shows "get_id s = Some (id_of (view_of s me))" "get_client_fd s = Some (fd_of (view_client (view_of s me)))"
    "get_server_fd s = Some (fd_of (view_server (view_of s me)))"
proof -
  from inv have k: "slot_key_ok s (context_key s) srs_context_destructor" "slot_key_ok s (client_fd_key s) srs_int_destructor"
    "slot_key_ok s (server_fd_key s) srs_int_destructor" by (simp_all add: context_inv_def)
  show "get_id s = Some (id_of (view_of s me))"
    using getspecific_datum [OF inv me k(1)] me by (auto simp: get_id_def view_of_def id_of_def deletes_iff)
  show "get_client_fd s = Some (fd_of (view_client (view_of s me)))"
    using getspecific_datum [OF inv me k(2)] me by (auto simp: get_client_fd_def view_of_def fd_of_def deletes_iff)
  show "get_server_fd s = Some (fd_of (view_server (view_of s me)))"
    using getspecific_datum [OF inv me k(3)] me by (auto simp: get_server_fd_def view_of_def fd_of_def deletes_iff)
qed

lemma slots_own_once:
  assumes "slots_own s"
  shows "objects s p \<noteq> None \<longleftrightarrow> (\<exists>!tk. private_data s (fst tk) (snd tk) = Some p)"
proof -
  from assms have "objects s p \<noteq> None \<longleftrightarrow> (\<exists>t k. private_data s t k = Some p)"
    using slots_ownD(1,4) [OF assms] by (metis option.distinct(1) not_None_eq)
  moreover have "(\<exists>t k. private_data s t k = Some p) \<longleftrightarrow> (\<exists>!tk. private_data s (fst tk) (snd tk) = Some p)"
    using slots_ownD(2) [OF assms, of _ _ p] by (auto simp: Ex1_def) blast
  ultimately show ?thesis by blast
qed

text \<open>Before State Threads runs a coroutine the context gives its defaults, and setting a datum fails.\<close>

lemma no_coroutine_no_context:
  "get_id (thread_data_init None) = Some []" "get_client_fd (thread_data_init None) = Some 0"
  "set_client_fd fd (thread_data_init None) = None"
  by (simp_all add: get_id_def get_client_fd_def thread_data_init_def set_client_fd_def ensure_key_def st_key_create_def
      ST_KEYS_MAX_def new_object_def assert_set_def st_thread_setspecific_def)

text \<open>An id has eight characters, none of which can be mistaken for the brackets of the log.\<close>

lemma generate_id_shape: "length (generate_id rnd) = 8 \<and> set (generate_id rnd) \<subseteq> set random_table"
proof -
  have "0 < length random_table" by (simp add: random_table_def)
  then show ?thesis by (auto simp: generate_id_def srs_random_str_def intro!: nth_mem)
qed

section \<open>Properties\<close>

text \<open>C36. Whatever the coroutines do with their contexts, in any interleaving, no assertion fails and no object is deleted
  twice or with the wrong type; the coroutine that runs reads the id and the descriptors that it has set last itself (the
  defaults before that), and every object on the heap is in exactly one slot, so nothing leaks.
\<close>

theorem thread_contexts_isolated:
  "\<exists>s. context_run cs (thread_data_init (Some t)) = Some s \<and>
     (case fold view_step cs (t, \<lambda>_. no_view) of (me, f) \<Rightarrow>
        get_id s = Some (id_of (f me)) \<and> get_client_fd s = Some (fd_of (view_client (f me))) \<and>
        get_server_fd s = Some (fd_of (view_server (f me)))) \<and>
     (\<forall>p. objects s p \<noteq> None \<longleftrightarrow> (\<exists>!tk. private_data s (fst tk) (snd tk) = Some p))"
proof -
  have "context_abs (thread_data_init (Some t)) = (t, \<lambda>_. no_view)"
    by (simp add: context_abs_def view_of_init [abs_def]) (simp add: thread_data_init_def)
  with context_run_refines [OF context_inv_init, of cs t] obtain s where
    s: "context_run cs (thread_data_init (Some t)) = Some s" "context_inv s"
      "fold view_step cs (t, \<lambda>_. no_view) = (the (st_self s), view_of s)" by (auto simp: context_abs_def)
  then obtain me where me: "st_self s = Some me" "slots_own s" by (auto simp: context_inv_def)
  with s context_getters [OF s(2) me(1)] slots_own_once [OF me(2)] show ?thesis by simp
qed

end
