(* ===== verification/App_Log.thy ===== *)
theory App_Log
  imports Config Thread_Context
begin

text \<open>
  The log: its levels (\<open>src/src/kernel/srs_kernel_log.hpp\<close>), the head of a line
  (\<open>src/src/protocol/srs_protocol_log.cpp\<close>) and \<open>SrsFileLog\<close> (\<open>src/src/app/srs_app_log.cpp\<close>), which
  writes lines to the console or appends them to a file that is opened again when it has been moved away.  The
  formatted text of a call, the time and the process are arguments.  The files of the host are a record: the bytes of
  every file, the file that stands under the name of the log, the files moved away from that name and the open
  descriptors.
\<close>

section \<open>Definitions\<close>

subsection \<open>Levels\<close>

definition SrsLogLevelVerbose :: int where "SrsLogLevelVerbose = 1"
definition SrsLogLevelInfo :: int where "SrsLogLevelInfo = 2"
definition SrsLogLevelTrace :: int where "SrsLogLevelTrace = 4"
definition SrsLogLevelWarn :: int where "SrsLogLevelWarn = 8"
definition SrsLogLevelError :: int where "SrsLogLevelError = 16"
definition SrsLogLevelDisabled :: int where "SrsLogLevelDisabled = 32"

lemmas log_levels =
  SrsLogLevelVerbose_def SrsLogLevelInfo_def SrsLogLevelTrace_def SrsLogLevelWarn_def SrsLogLevelError_def SrsLogLevelDisabled_def

definition srs_get_log_level :: "string \<Rightarrow> int" where
  "srs_get_log_level level =
     (if level = ''verbose'' then SrsLogLevelVerbose
      else if level = ''info'' then SrsLogLevelInfo
      else if level = ''trace'' then SrsLogLevelTrace
      else if level = ''warn'' then SrsLogLevelWarn
      else if level = ''error'' then SrsLogLevelError
      else SrsLogLevelDisabled)"

subsection \<open>The head of a line\<close>

text \<open>\<open>%0<w>d\<close>: zeros between the sign and the digits up to the width.\<close>

definition pad_int :: "nat \<Rightarrow> int \<Rightarrow> string" where
  "pad_int w v =
     (let ds = nat_to_str (nat \<bar>v\<bar>); sign = (if v < 0 then ''-'' else '''') in
      sign @ replicate (w - (length sign + length ds)) (CHR ''0'') @ ds)"

record tm =
  tm_year :: int
  tm_mon :: int
  tm_mday :: int
  tm_hour :: int
  tm_min :: int
  tm_sec :: int

text \<open>What a call of the log finds: the seconds and microseconds of \<open>gettimeofday\<close>, the conversions to calendar time, the
  process id, \<open>errno\<close> with its text, and the descriptors of the context.\<close>

record log_env =
  gettimeofday :: "(int \<times> int) option"
  gmtime_r :: "int \<Rightarrow> tm option"
  localtime_r :: "int \<Rightarrow> tm option"
  env_pid :: int
  env_errno :: int
  env_strerror :: string
  env_client_fd :: int
  env_server_fd :: int

definition env_context :: "thread_data \<Rightarrow> log_env \<Rightarrow> log_env option" where
  "env_context s e =
     Option.bind (get_client_fd s) (\<lambda>c. map_option (\<lambda>v. e\<lparr>env_client_fd := c, env_server_fd := v\<rparr>) (get_server_fd s))"

text \<open>The arguments of a call; \<open>call_msg\<close> is the text that the format and its arguments give, \<open>None\<close> when
  \<open>vsnprintf\<close> fails.\<close>

record log_call =
  call_tag :: "string option"
  call_cid :: string
  call_func :: string
  call_file :: string
  call_line :: int
  call_msg :: "string option"

definition bracket :: "string \<Rightarrow> string" where "bracket t = ''['' @ t @ '']''"

definition log_time :: "tm \<Rightarrow> int \<Rightarrow> string" where
  "log_time now usec =
     bracket (int_to_str (1900 + tm_year now) @ ''-'' @ pad_int 2 (1 + tm_mon now) @ ''-'' @ pad_int 2 (tm_mday now) @ '' '' @
       pad_int 2 (tm_hour now) @ '':'' @ pad_int 2 (tm_min now) @ '':'' @ pad_int 2 (tm_sec now) @ ''.'' @ pad_int 3 (usec div 1000))"

definition header_text :: "log_env \<Rightarrow> bool \<Rightarrow> string option \<Rightarrow> string \<Rightarrow> string \<Rightarrow> string \<Rightarrow> string \<Rightarrow> int \<Rightarrow> tm \<Rightarrow> int \<Rightarrow> string" where
  "header_text e dangerous tag cid level func file line now usec =
     log_time now usec @ bracket level @ bracket (int_to_str (env_pid e)) @ bracket cid @
     (if dangerous then bracket (int_to_str (env_errno e)) else []) @
     (case tag of None \<Rightarrow> [] | Some t \<Rightarrow> bracket t) @
     bracket func @ bracket (file @ '':'' @ int_to_str line) @
     bracket (int_to_str (env_client_fd e) @ '':'' @ int_to_str (env_server_fd e)) @ '' ''"

text \<open>\<open>snprintf\<close> gives the length of the whole text, and a text that does not fit drops the line.\<close>

definition srs_log_header ::
    "nat \<Rightarrow> log_env \<Rightarrow> bool \<Rightarrow> bool \<Rightarrow> string option \<Rightarrow> string \<Rightarrow> string \<Rightarrow> string \<Rightarrow> string \<Rightarrow> int \<Rightarrow> string option" where
  "srs_log_header bufsize e use_utc dangerous tag cid level func file line =
     (case gettimeofday e of
        None \<Rightarrow> None
      | Some (sec, usec) \<Rightarrow>
          (case (if use_utc then gmtime_r e sec else localtime_r e sec) of
             None \<Rightarrow> None
           | Some now \<Rightarrow>
               let t = header_text e dangerous tag cid level func file line now usec in
               if length t \<le> 0 \<or> length t \<ge> bufsize then None else Some t))"

subsection \<open>The files of the host\<close>

text \<open>A descriptor stands for a file, a file is a number.  \<open>fd_limit\<close> bounds the descriptors of the process.\<close>

record host =
  file_bytes :: "nat \<Rightarrow> string"
  next_file :: nat
  named_file :: "string \<Rightarrow> nat option"
  moved_files :: "nat list"
  open_fds :: "(nat \<times> nat) list"
  fd_limit :: nat
  may_open :: "string \<Rightarrow> bool"
  console :: string

text \<open>\<open>open\<close> with \<open>O_RDWR | O_CREAT | O_APPEND\<close> takes the lowest descriptor that is not in use.\<close>

definition lowest_free :: "nat list \<Rightarrow> nat" where
  "lowest_free used = hd (filter (\<lambda>n. n \<notin> set used) [0..<length used + 1])"

definition host_open :: "string \<Rightarrow> host \<Rightarrow> int \<times> host" where
  "host_open name h =
     (let fd = lowest_free (map fst (open_fds h)) in
      if \<not> may_open h name \<or> fd_limit h \<le> fd then (- 1, h)
      else case named_file h name of
        Some f \<Rightarrow> (int fd, h\<lparr>open_fds := (fd, f) # open_fds h\<rparr>)
      | None \<Rightarrow> (int fd, h\<lparr>open_fds := (fd, next_file h) # open_fds h, named_file := (named_file h)(name \<mapsto> next_file h),
                       file_bytes := (file_bytes h)(next_file h := []), next_file := next_file h + 1\<rparr>))"

definition host_close :: "int \<Rightarrow> host \<Rightarrow> host" where
  "host_close fd h = h\<lparr>open_fds := filter (\<lambda>(d, f). int d \<noteq> fd) (open_fds h)\<rparr>"

definition host_write :: "int \<Rightarrow> string \<Rightarrow> host \<Rightarrow> host" where
  "host_write fd bs h =
     (if fd < 0 then h
      else case map_of (open_fds h) (nat fd) of
        None \<Rightarrow> h
      | Some f \<Rightarrow> h\<lparr>file_bytes := (file_bytes h)(f := file_bytes h f @ bs)\<rparr>)"

definition host_print :: "string \<Rightarrow> host \<Rightarrow> host" where
  "host_print bs h = h\<lparr>console := console h @ bs\<rparr>"

definition srs_is_file_exist :: "string \<Rightarrow> host \<Rightarrow> bool" where
  "srs_is_file_exist name h \<longleftrightarrow> named_file h name \<noteq> None"

text \<open>An outside program moves the file of the log away.\<close>

definition move_away :: "string \<Rightarrow> host \<Rightarrow> host" where
  "move_away name h =
     (case named_file h name of
        None \<Rightarrow> h
      | Some f \<Rightarrow> h\<lparr>named_file := (named_file h)(name := None), moved_files := moved_files h @ [f]\<rparr>)"

subsection \<open>The log object\<close>

definition LOG_MAX_SIZE :: nat where "LOG_MAX_SIZE = 8192"
definition LOG_TAIL :: char where "LOG_TAIL = CHR 0x0A"
definition LOG_TAIL_SIZE :: nat where "LOG_TAIL_SIZE = 1"

record SrsFileLog =
  level :: int
  log_to_file_tank :: bool
  log_fd :: int
  utc :: bool

definition SrsFileLog_new :: SrsFileLog where
  "SrsFileLog_new = \<lparr>level = SrsLogLevelTrace, log_to_file_tank = False, log_fd = - 1, utc = False\<rparr>"

definition SrsFileLog_free :: "'h \<Rightarrow> SrsFileLog \<Rightarrow> 'h SrsConfig \<Rightarrow> host \<Rightarrow> 'h SrsConfig \<times> host" where
  "SrsFileLog_free this l c h = (unsubscribe this c, if log_fd l > 0 then host_close (log_fd l) h else h)"

definition log_initialize :: "'h \<Rightarrow> SrsFileLog \<Rightarrow> 'h SrsConfig \<Rightarrow> SrsFileLog \<times> 'h SrsConfig" where
  "log_initialize this l c =
     (l\<lparr>log_to_file_tank := get_log_tank_file (cfg_root c), level := srs_get_log_level (get_log_level (cfg_root c)),
        utc := get_utc_time (cfg_root c)\<rparr>, subscribe this c)"

definition open_log_file :: "SrsConfDirective \<Rightarrow> SrsFileLog \<Rightarrow> host \<Rightarrow> SrsFileLog \<times> host" where
  "open_log_file root l h =
     (let filename = get_log_file root in
      if filename = [] then (l, h) else case host_open filename h of (fd, h) \<Rightarrow> (l\<lparr>log_fd := fd\<rparr>, h))"

definition reopen :: "SrsConfDirective \<Rightarrow> SrsFileLog \<Rightarrow> host \<Rightarrow> SrsFileLog \<times> host" where
  "reopen root l h =
     (let h = (if log_fd l > 0 then host_close (log_fd l) h else h) in
      if \<not> log_to_file_tank l then (l, h) else open_log_file root l h)"

text \<open>\<open>printf\<close> with \<open>%.*s\<close> stops at a zero byte.\<close>

definition console_text :: "string \<Rightarrow> int \<Rightarrow> string" where
  "console_text line lv =
     (let t = takeWhile (\<lambda>c. c \<noteq> CHR 0x00) line in
      if lv \<le> SrsLogLevelTrace then t
      else if lv = SrsLogLevelWarn then CHR 0x1B # ''[33m'' @ t @ CHR 0x1B # ''[0m''
      else CHR 0x1B # ''[31m'' @ t @ CHR 0x1B # ''[0m'')"

text \<open>The line with its tail: \<open>str\<close> are the bytes of the buffer up to \<open>size\<close>.\<close>

definition log_tail :: "string \<Rightarrow> string" where
  "log_tail str = take (LOG_MAX_SIZE - 1 - LOG_TAIL_SIZE) str @ [LOG_TAIL]"

text \<open>The file is opened when it has never been, and again when no file stands under its name.\<close>

definition ready_log_file :: "SrsConfDirective \<Rightarrow> SrsFileLog \<Rightarrow> host \<Rightarrow> SrsFileLog \<times> host" where
  "ready_log_file root l h =
     (case (if log_fd l < 0 then open_log_file root l h else (l, h)) of (l, h) \<Rightarrow>
        if \<not> srs_is_file_exist (get_log_file root) h then open_log_file root l h else (l, h))"

definition write_log :: "SrsConfDirective \<Rightarrow> string \<Rightarrow> int \<Rightarrow> SrsFileLog \<Rightarrow> host \<Rightarrow> SrsFileLog \<times> host" where
  "write_log root str lv l h =
     (let line = log_tail str in
      if \<not> log_to_file_tank l then (l, host_print (console_text line lv) h)
      else case ready_log_file root l h of (l, h) \<Rightarrow>
        (l, if log_fd l > 0 then host_write (log_fd l) line h else h))"

text \<open>The five calls: the name of the source file without its directory, the head, and the text of the call.  Only
  \<open>verbose\<close> accepts an empty text.\<close>

definition file_str :: "string \<Rightarrow> string" where
  "file_str file = (if file = [] then [] else case str_rfind file ''/'' of None \<Rightarrow> file | Some pos \<Rightarrow> drop (pos + 1) file)"

definition call_header :: "log_env \<Rightarrow> SrsFileLog \<Rightarrow> bool \<Rightarrow> string \<Rightarrow> log_call \<Rightarrow> string option" where
  "call_header e l dangerous name c =
     srs_log_header LOG_MAX_SIZE e (utc l) dangerous (call_tag c) (call_cid c) name (call_func c) (file_str (call_file c)) (call_line c)"

text \<open>\<open>r0\<close> is the result of \<open>vsnprintf\<close> at the end of what the buffer has.\<close>

definition printed :: "string option \<Rightarrow> int" where
  "printed msg = (case msg of None \<Rightarrow> - 1 | Some m \<Rightarrow> int (length m))"

definition verbose_text :: "log_env \<Rightarrow> SrsFileLog \<Rightarrow> log_call \<Rightarrow> string option" where
  "verbose_text e l c =
     (if level l > SrsLogLevelVerbose then None
      else case call_header e l False ''Verb'' c of None \<Rightarrow> None | Some t \<Rightarrow>
        let r0 = printed (call_msg c) in
        if r0 < 0 \<or> r0 \<ge> int (LOG_MAX_SIZE - length t) then None else Some (t @ the (call_msg c)))"

definition info_text :: "log_env \<Rightarrow> SrsFileLog \<Rightarrow> log_call \<Rightarrow> string option" where
  "info_text e l c =
     (if level l > SrsLogLevelInfo then None
      else case call_header e l False ''Debug'' c of None \<Rightarrow> None | Some t \<Rightarrow>
        let r0 = printed (call_msg c) in
        if r0 \<le> 0 \<or> r0 \<ge> int (LOG_MAX_SIZE - length t) then None else Some (t @ the (call_msg c)))"

definition trace_text :: "log_env \<Rightarrow> SrsFileLog \<Rightarrow> log_call \<Rightarrow> string option" where
  "trace_text e l c =
     (if level l > SrsLogLevelTrace then None
      else case call_header e l False ''Trace'' c of None \<Rightarrow> None | Some t \<Rightarrow>
        let r0 = printed (call_msg c) in
        if r0 \<le> 0 \<or> r0 \<ge> int (LOG_MAX_SIZE - length t) then None else Some (t @ the (call_msg c)))"

definition warn_text :: "log_env \<Rightarrow> SrsFileLog \<Rightarrow> log_call \<Rightarrow> string option" where
  "warn_text e l c =
     (if level l > SrsLogLevelWarn then None
      else case call_header e l True ''Warn'' c of None \<Rightarrow> None | Some t \<Rightarrow>
        let r0 = printed (call_msg c) in
        if r0 \<le> 0 \<or> r0 \<ge> int (LOG_MAX_SIZE - length t) then None else Some (t @ the (call_msg c)))"

text \<open>An error has the text of \<open>errno\<close> at its end; when that does not fit, the whole line is dropped.\<close>

definition error_text :: "log_env \<Rightarrow> SrsFileLog \<Rightarrow> log_call \<Rightarrow> string option" where
  "error_text e l c =
     (if level l > SrsLogLevelError then None
      else case call_header e l True ''Error'' c of None \<Rightarrow> None | Some t \<Rightarrow>
        let r0 = printed (call_msg c) in
        if r0 \<le> 0 \<or> r0 \<ge> int (LOG_MAX_SIZE - length t) then None
        else let t = t @ the (call_msg c) in
          if env_errno e \<noteq> 0 \<and> length t < LOG_MAX_SIZE
          then let s = ''('' @ env_strerror e @ '')'' in
            if length s \<le> 0 \<or> length s \<ge> LOG_MAX_SIZE - length t then None else Some (t @ s)
          else Some t)"

datatype severity = Verbose | Info | Trace | Warn | Error

fun severity_level :: "severity \<Rightarrow> int" where
  "severity_level Verbose = SrsLogLevelVerbose"
| "severity_level Info = SrsLogLevelInfo"
| "severity_level Trace = SrsLogLevelTrace"
| "severity_level Warn = SrsLogLevelWarn"
| "severity_level Error = SrsLogLevelError"

fun severity_text :: "severity \<Rightarrow> log_env \<Rightarrow> SrsFileLog \<Rightarrow> log_call \<Rightarrow> string option" where
  "severity_text Verbose = verbose_text"
| "severity_text Info = info_text"
| "severity_text Trace = trace_text"
| "severity_text Warn = warn_text"
| "severity_text Error = error_text"

definition log_message ::
    "SrsConfDirective \<Rightarrow> severity \<Rightarrow> log_env \<Rightarrow> log_call \<Rightarrow> SrsFileLog \<Rightarrow> host \<Rightarrow> SrsFileLog \<times> host" where
  "log_message root v e c l h =
     (case severity_text v e l c of None \<Rightarrow> (l, h) | Some str \<Rightarrow> write_log root str (severity_level v) l h)"

text \<open>What happens to a log that is in use.\<close>

datatype log_event = Called severity log_env log_call | MovedAway | Reopened

fun log_step :: "SrsConfDirective \<Rightarrow> log_event \<Rightarrow> SrsFileLog \<times> host \<Rightarrow> SrsFileLog \<times> host" where
  "log_step root (Called v e c) (l, h) = log_message root v e c l h"
| "log_step root MovedAway (l, h) = (l, move_away (get_log_file root) h)"
| "log_step root Reopened (l, h) = reopen root l h"

subsection \<open>The abstract log\<close>

text \<open>The files moved away and the current file, absent when it has been moved away and nothing was written since.\<close>

type_synonym log_files = "string list \<times> string option"

fun files_step :: "SrsFileLog \<Rightarrow> log_event \<Rightarrow> log_files \<Rightarrow> log_files" where
  "files_step l (Called v e c) (old, cur) =
     (case severity_text v e l c of None \<Rightarrow> (old, cur) | Some str \<Rightarrow> (old, Some (or_default [] cur @ log_tail str)))"
| "files_step l MovedAway (old, cur) = (case cur of None \<Rightarrow> (old, None) | Some t \<Rightarrow> (old @ [t], None))"
| "files_step l Reopened (old, cur) = (old, Some (or_default [] cur))"

definition host_files :: "string \<Rightarrow> host \<Rightarrow> log_files" where
  "host_files name h = (map (file_bytes h) (moved_files h), map_option (file_bytes h) (named_file h name))"

section \<open>Lines\<close>

lemma call_header_short: "call_header e l d name c = Some t \<Longrightarrow> length t < LOG_MAX_SIZE"
  by (auto simp: call_header_def srs_log_header_def Let_def split: option.splits prod.splits if_splits)

text \<open>A line that is written has passed the level, and it is shorter than the buffer.\<close>

lemma severity_text_fits:
  assumes "severity_text v e l c = Some str"
  shows "level l \<le> severity_level v \<and> length str < LOG_MAX_SIZE"
  using assms call_header_short
  by (cases v) (auto simp: verbose_text_def info_text_def trace_text_def warn_text_def error_text_def printed_def Let_def
      split: if_splits option.splits dest: call_header_short)

lemma log_tail_bounds: "length (log_tail str) \<le> LOG_MAX_SIZE - 1 \<and> last (log_tail str) = LOG_TAIL"
  by (simp add: log_tail_def LOG_MAX_SIZE_def LOG_TAIL_SIZE_def)

lemma log_tail_whole: "length str < LOG_MAX_SIZE - 1 \<Longrightarrow> log_tail str = str @ [LOG_TAIL]"
  by (simp add: log_tail_def LOG_MAX_SIZE_def LOG_TAIL_SIZE_def)

lemma severity_text_fd [simp]: "severity_text v e (l\<lparr>log_fd := fd\<rparr>) c = severity_text v e l c"
  by (cases v) (simp_all add: verbose_text_def info_text_def trace_text_def warn_text_def error_text_def call_header_def)

lemma files_step_fd [simp]: "files_step (l\<lparr>log_fd := fd\<rparr>) ev s = files_step l ev s"
  by (cases ev; cases s) simp_all

text \<open>The log of a coroutine shows the descriptors that the coroutine has set.\<close>

lemma log_shows_context:
  assumes "context_inv s" "st_self s = Some me"
  shows "env_context s e =
    Some (e\<lparr>env_client_fd := fd_of (view_client (view_of s me)), env_server_fd := fd_of (view_server (view_of s me))\<rparr>)"
  by (simp add: env_context_def context_getters [OF assms])

lemma get_log_file_nonempty: "get_log_file root \<noteq> []"
  by (auto simp: get_log_file_def or_default_def setting_def split: option.splits if_splits)

section \<open>The file of the log\<close>

lemma lowest_free: "lowest_free used \<notin> set used \<and> lowest_free used \<le> length used"
proof -
  have "\<not> set [0..<length used + 1] \<subseteq> set used"
  proof
    assume "set [0..<length used + 1] \<subseteq> set used"
    then have "card (set [0..<length used + 1]) \<le> card (set used)" by (intro card_mono) auto
    also have "\<dots> \<le> length used" by (rule card_length)
    finally show False by simp
  qed
  then have "filter (\<lambda>n. n \<notin> set used) [0..<length used + 1] \<noteq> []" by (auto simp: filter_empty_conv)
  from hd_in_set [OF this] show ?thesis by (auto simp: lowest_free_def)
qed

text \<open>The host on which a log runs: standard input is open, files have numbers below the next one, the file under the
  name of the log is none of those moved away, and an open log has that file if there is one.\<close>

definition host_ok :: "string \<Rightarrow> host \<Rightarrow> bool" where
  "host_ok name h \<longleftrightarrow>
     distinct (map fst (open_fds h)) \<and> 0 \<in> fst ` set (open_fds h) \<and> may_open h name \<and>
     (\<forall>f \<in> set (moved_files h). f < next_file h) \<and>
     (\<forall>f. named_file h name = Some f \<longrightarrow> f < next_file h \<and> f \<notin> set (moved_files h))"

definition log_ok :: "string \<Rightarrow> SrsFileLog \<Rightarrow> host \<Rightarrow> bool" where
  "log_ok name l h \<longleftrightarrow> log_to_file_tank l \<and>
     (log_fd l = - 1 \<or> 0 < log_fd l \<and>
        (\<exists>f. map_of (open_fds h) (nat (log_fd l)) = Some f \<and> (\<forall>g. named_file h name = Some g \<longrightarrow> g = f)))"

text \<open>The descriptors in use and those that the log may need without another move of its file.\<close>

definition fds_needed :: "string \<Rightarrow> SrsFileLog \<Rightarrow> host \<Rightarrow> nat" where
  "fds_needed name l h = length (open_fds h) + (if log_fd l < 0 \<or> named_file h name = None then 1 else 0)"

lemma host_open_ok:
  assumes "host_ok name h" "length (open_fds h) < fd_limit h"
  obtains fd f h' where "host_open name h = (int fd, h')" "0 < fd" "host_ok name h'" "fd \<notin> fst ` set (open_fds h)"
    "open_fds h' = (fd, f) # open_fds h" "named_file h' name = Some f" "fd_limit h' = fd_limit h"
    "host_files name h' = (fst (host_files name h), Some (or_default [] (snd (host_files name h))))"
proof -
  let ?fd = "lowest_free (map fst (open_fds h))"
  have fd: "?fd \<notin> fst ` set (open_fds h)" "?fd < fd_limit h" using lowest_free [of "map fst (open_fds h)"] assms(2) by auto
  then have "0 < ?fd" using assms(1) by (metis host_ok_def not_gr_zero)
  show ?thesis
  proof (cases "named_file h name")
    case (Some f)
    with fd \<open>0 < ?fd\<close> assms(1) show ?thesis
      by (intro that [of ?fd "h\<lparr>open_fds := (?fd, f) # open_fds h\<rparr>" f])
        (auto simp: host_open_def Let_def host_ok_def host_files_def or_default_def)
  next
    case None
    let ?h = "h\<lparr>open_fds := (?fd, next_file h) # open_fds h, named_file := (named_file h)(name \<mapsto> next_file h),
      file_bytes := (file_bytes h)(next_file h := []), next_file := next_file h + 1\<rparr>"
    from None fd \<open>0 < ?fd\<close> assms(1) show ?thesis
      by (intro that [of ?fd ?h "next_file h"])
        (auto simp: host_open_def Let_def host_ok_def host_files_def or_default_def)
  qed
qed

text \<open>One event: the invariants hold, the files are those of the abstract log and only a move needs one more
  descriptor.\<close>

definition stepped :: "string \<Rightarrow> SrsFileLog \<Rightarrow> host \<Rightarrow> log_files \<Rightarrow> nat \<Rightarrow> SrsFileLog \<times> host \<Rightarrow> bool" where
  "stepped name l h fs n r \<longleftrightarrow>
     (\<exists>fd h'. r = (l\<lparr>log_fd := fd\<rparr>, h') \<and> host_ok name h' \<and> log_ok name (l\<lparr>log_fd := fd\<rparr>) h' \<and> host_files name h' = fs \<and>
        fd_limit h' = fd_limit h \<and> fds_needed name (l\<lparr>log_fd := fd\<rparr>) h' \<le> fds_needed name l h + n)"

lemma open_log_file_ok:
  assumes "host_ok (get_log_file root) h" "log_to_file_tank l" "length (open_fds h) < fd_limit h"
  shows "\<exists>fd h'. open_log_file root l h = (l\<lparr>log_fd := fd\<rparr>, h') \<and> 0 < fd \<and> host_ok (get_log_file root) h' \<and>
    log_ok (get_log_file root) (l\<lparr>log_fd := fd\<rparr>) h' \<and> named_file h' (get_log_file root) \<noteq> None \<and>
    length (open_fds h') = Suc (length (open_fds h)) \<and> fd_limit h' = fd_limit h \<and>
    host_files (get_log_file root) h' =
      (fst (host_files (get_log_file root) h), Some (or_default [] (snd (host_files (get_log_file root) h))))"
proof (rule host_open_ok [OF assms(1,3)], goal_cases)
  case (1 fd f h')
  then show ?case using assms(2)
    by (intro exI [of _ "int fd"] exI [of _ h']) (simp add: open_log_file_def get_log_file_nonempty log_ok_def)
qed

lemma reopen_ok:
  assumes ok: "host_ok name h" "log_ok name l h" and lim: "fds_needed name l h \<le> fd_limit h" and name: "name = get_log_file root"
  shows "stepped name l h (files_step l Reopened (host_files name h)) 0 (reopen root l h)"
proof -
  let ?h = "if log_fd l > 0 then host_close (log_fd l) h else h"
  from ok have ok': "host_ok name ?h"
    by (auto simp: host_ok_def host_close_def distinct_map_filter image_iff)
  have len: "Suc (length (open_fds ?h)) \<le> fds_needed name l h"
  proof (cases "log_fd l > 0")
    case True
    with ok(2) obtain f where "(nat (log_fd l), f) \<in> set (open_fds h)" by (auto simp: log_ok_def dest: map_of_SomeD)
    then have "length (filter (\<lambda>(d, f). int d \<noteq> log_fd l) (open_fds h)) < length (open_fds h)"
      using True by (intro length_filter_less [of "(nat (log_fd l), f)"]) auto
    with True show ?thesis by (simp add: fds_needed_def host_close_def)
  next
    case False
    with ok(2) show ?thesis by (auto simp: log_ok_def fds_needed_def)
  qed
  have same: "host_files name ?h = host_files name h" "fd_limit ?h = fd_limit h" by (simp_all add: host_files_def host_close_def)
  from ok(2) have tank: "log_to_file_tank l" by (simp add: log_ok_def)
  have "length (open_fds ?h) < fd_limit ?h" using len lim same(2) by linarith
  from open_log_file_ok [OF ok' [unfolded name] tank this] obtain fd h' where
    o: "open_log_file root l ?h = (l\<lparr>log_fd := fd\<rparr>, h')" "0 < fd" "host_ok name h'" "log_ok name (l\<lparr>log_fd := fd\<rparr>) h'"
      "named_file h' name \<noteq> None" "length (open_fds h') = Suc (length (open_fds ?h))" "fd_limit h' = fd_limit ?h"
      "host_files name h' = (fst (host_files name ?h), Some (or_default [] (snd (host_files name ?h))))"
    unfolding name by blast
  have "reopen root l h = (l\<lparr>log_fd := fd\<rparr>, h')" using o(1) tank by (simp add: reopen_def)
  moreover have "fds_needed name (l\<lparr>log_fd := fd\<rparr>) h' = length (open_fds h')" using o(2,5) by (auto simp: fds_needed_def)
  moreover from this have "fds_needed name (l\<lparr>log_fd := fd\<rparr>) h' \<le> fds_needed name l h" using o(6) len by linarith
  ultimately show ?thesis using o(3,4,7,8) same
    unfolding stepped_def by (cases "host_files name h") auto
qed

lemma move_away_ok:
  assumes "host_ok name h" "log_ok name l h"
  shows "stepped name l h (files_step l MovedAway (host_files name h)) 1 (l, move_away name h)"
  unfolding stepped_def using assms
  by (intro exI [of _ "log_fd l"] exI [of _ "move_away name h"])
    (auto simp: move_away_def host_ok_def log_ok_def host_files_def fds_needed_def split: option.splits)

text \<open>Writing a line to the file that is open.\<close>

lemma host_write_ok:
  assumes "host_ok name h" "log_ok name l h" "0 < log_fd l" "named_file h name \<noteq> None"
  shows "host_ok name (host_write (log_fd l) bs h) \<and> log_ok name l (host_write (log_fd l) bs h) \<and>
    fd_limit (host_write (log_fd l) bs h) = fd_limit h \<and> open_fds (host_write (log_fd l) bs h) = open_fds h \<and>
    named_file (host_write (log_fd l) bs h) = named_file h \<and>
    host_files name (host_write (log_fd l) bs h) = (fst (host_files name h), Some (or_default [] (snd (host_files name h)) @ bs))"
proof -
  from assms obtain f where "map_of (open_fds h) (nat (log_fd l)) = Some f" "named_file h name = Some f"
    by (auto simp: log_ok_def)
  with assms show ?thesis
    by (auto simp: host_write_def host_ok_def log_ok_def host_files_def or_default_def)
qed

lemma ready_ok:
  assumes ok: "host_ok name h" "log_ok name l h" and lim: "fds_needed name l h \<le> fd_limit h" and name: "name = get_log_file root"
  shows "\<exists>fd h'. ready_log_file root l h = (l\<lparr>log_fd := fd\<rparr>, h') \<and>
    0 < fd \<and> host_ok name h' \<and> log_ok name (l\<lparr>log_fd := fd\<rparr>) h' \<and> named_file h' name \<noteq> None \<and>
    length (open_fds h') \<le> fds_needed name l h \<and> fd_limit h' = fd_limit h \<and>
    (fst (host_files name h'), or_default [] (snd (host_files name h'))) = (fst (host_files name h), or_default [] (snd (host_files name h)))"
proof (cases "log_fd l < 0 \<or> named_file h name = None")
  case False
  then show ?thesis using ok
    by (intro exI [of _ "log_fd l"] exI [of _ h]) (auto simp: ready_log_file_def name [symmetric] srs_is_file_exist_def fds_needed_def log_ok_def)
next
  case True
  from ok(2) have tank: "log_to_file_tank l" by (simp add: log_ok_def)
  have "length (open_fds h) < fd_limit h" using True lim by (simp add: fds_needed_def split: if_splits)
  from open_log_file_ok [OF ok(1) [unfolded name] tank this] obtain fd h' where
    o: "open_log_file root l h = (l\<lparr>log_fd := fd\<rparr>, h')" "0 < fd" "host_ok name h'" "log_ok name (l\<lparr>log_fd := fd\<rparr>) h'"
      "named_file h' name \<noteq> None" "length (open_fds h') = Suc (length (open_fds h))" "fd_limit h' = fd_limit h"
      "host_files name h' = (fst (host_files name h), Some (or_default [] (snd (host_files name h))))"
    unfolding name by blast
  then show ?thesis using True
    by (intro exI [of _ fd] exI [of _ h']) (auto simp: ready_log_file_def name [symmetric] srs_is_file_exist_def fds_needed_def or_default_def)
qed

lemma log_message_ok:
  assumes ok: "host_ok name h" "log_ok name l h" and lim: "fds_needed name l h \<le> fd_limit h" and name: "name = get_log_file root"
  shows "stepped name l h (files_step l (Called v e c) (host_files name h)) 0 (log_message root v e c l h)"
proof (cases "severity_text v e l c")
  case None
  with ok show ?thesis unfolding stepped_def
    by (intro exI [of _ "log_fd l"] exI [of _ h]) (cases "host_files name h", simp add: log_message_def)
next
  case (Some str)
  from ready_ok [OF assms] obtain fd h' where
    r: "ready_log_file root l h = (l\<lparr>log_fd := fd\<rparr>, h')" "0 < fd" "host_ok name h'"
      "log_ok name (l\<lparr>log_fd := fd\<rparr>) h'" "named_file h' name \<noteq> None" "length (open_fds h') \<le> fds_needed name l h"
      "fd_limit h' = fd_limit h" "fst (host_files name h') = fst (host_files name h)"
      "or_default [] (snd (host_files name h')) = or_default [] (snd (host_files name h))" by auto
  let ?w = "host_write fd (log_tail str) h'"
  from host_write_ok [OF r(3,4) _ r(5), of "log_tail str"] r(2) have
    w: "host_ok name ?w" "log_ok name (l\<lparr>log_fd := fd\<rparr>) ?w" "fd_limit ?w = fd_limit h'" "open_fds ?w = open_fds h'"
      "named_file ?w = named_file h'"
      "host_files name ?w = (fst (host_files name h), Some (or_default [] (snd (host_files name h)) @ log_tail str))"
    using r(8,9) by simp_all
  have "log_message root v e c l h = (l\<lparr>log_fd := fd\<rparr>, ?w)"
    using r(1,2) ok(2) Some by (simp add: log_message_def write_log_def log_ok_def)
  moreover have "fds_needed name (l\<lparr>log_fd := fd\<rparr>) ?w = length (open_fds h')" using w(4,5) r(2,5) by (auto simp: fds_needed_def)
  ultimately show ?thesis using w(1,2,3,6) r(6,7) Some unfolding stepped_def
    by (intro exI [of _ fd] exI [of _ ?w]) (cases "host_files name h", simp)
qed

lemma log_step_ok:
  assumes "host_ok name h" "log_ok name l h" "fds_needed name l h \<le> fd_limit h" "name = get_log_file root"
  shows "stepped name l h (files_step l ev (host_files name h)) (if ev = MovedAway then 1 else 0) (log_step root ev (l, h))"
  using assms by (cases ev) (simp_all add: log_message_ok reopen_ok move_away_ok [unfolded One_nat_def])

lemma log_run_ok:
  assumes "host_ok name h" "log_ok name l h" "fds_needed name l h + length (filter ((=) MovedAway) es) \<le> fd_limit h"
    "name = get_log_file root"
  shows "stepped name l h (fold (files_step l) es (host_files name h)) (length (filter ((=) MovedAway) es))
    (fold (log_step root) es (l, h))"
  using assms
proof (induction es arbitrary: l h)
  case Nil
  then show ?case unfolding stepped_def by (intro exI [of _ "log_fd l"] exI [of _ h]) simp
next
  case (Cons ev es)
  let ?n = "if ev = MovedAway then 1 else 0" and ?m = "length (filter ((=) MovedAway) es)"
  have n: "length (filter ((=) MovedAway) (ev # es)) = ?n + ?m" by auto
  from log_step_ok [OF Cons.prems(1,2) _ Cons.prems(4), of ev] Cons.prems(3) obtain fd h1 where
    1: "log_step root ev (l, h) = (l\<lparr>log_fd := fd\<rparr>, h1)" "host_ok name h1" "log_ok name (l\<lparr>log_fd := fd\<rparr>) h1"
      "host_files name h1 = files_step l ev (host_files name h)" "fd_limit h1 = fd_limit h"
      "fds_needed name (l\<lparr>log_fd := fd\<rparr>) h1 \<le> fds_needed name l h + ?n"
    unfolding stepped_def by (auto split del: if_split)
  have "fds_needed name (l\<lparr>log_fd := fd\<rparr>) h1 + ?m \<le> fd_limit h1" using 1(5,6) Cons.prems(3) n by linarith
  from Cons.IH [OF 1(2,3) this Cons.prems(4)] obtain fd' h2 where
    2: "fold (log_step root) es (l\<lparr>log_fd := fd\<rparr>, h1) = (l\<lparr>log_fd := fd'\<rparr>, h2)" "host_ok name h2" "log_ok name (l\<lparr>log_fd := fd'\<rparr>) h2"
      "host_files name h2 = fold (files_step l) es (host_files name h1)" "fd_limit h2 = fd_limit h1"
      "fds_needed name (l\<lparr>log_fd := fd'\<rparr>) h2 \<le> fds_needed name (l\<lparr>log_fd := fd\<rparr>) h1 + ?m"
    unfolding stepped_def by (auto simp: files_step_fd [abs_def])
  moreover have "fds_needed name (l\<lparr>log_fd := fd'\<rparr>) h2 \<le> fds_needed name l h + length (filter ((=) MovedAway) (ev # es))"
    using 1(6) 2(6) n by linarith
  ultimately show ?case using 1(1,4,5) unfolding stepped_def
    by (intro exI [of _ fd'] exI [of _ h2]) simp
qed

text \<open>Every move of the file that is followed by a line costs one descriptor for good: the log opens the new file and does
  not close the old one.\<close>

lemma moved_log_leaks:
  assumes ok: "host_ok name h" "log_ok name l h" and fd: "0 < log_fd l" "named_file h name \<noteq> None" and name: "name = get_log_file root"
    and lim: "length (open_fds h) < fd_limit h" and t: "severity_text v e l c \<noteq> None"
  shows "\<exists>fd h'. fold (log_step root) [MovedAway, Called v e c] (l, h) = (l\<lparr>log_fd := fd\<rparr>, h') \<and> fd \<noteq> log_fd l \<and>
    set (open_fds h) \<subset> set (open_fds h') \<and> length (open_fds h') = length (open_fds h) + 1"
proof -
  let ?h = "move_away name h"
  have h: "host_ok name ?h" "log_ok name l ?h" "open_fds ?h = open_fds h" "named_file ?h name = None" "fd_limit ?h = fd_limit h"
    using ok by (auto simp: move_away_def host_ok_def log_ok_def split: option.splits)
  from t obtain str where str: "severity_text v e l c = Some str" by blast
  have "length (open_fds ?h) < fd_limit ?h" using h lim by simp
  show ?thesis
  proof (rule host_open_ok [OF h(1) \<open>length (open_fds ?h) < fd_limit ?h\<close>], goal_cases)
    case (1 fd f h')
    have "open_log_file root l ?h = (l\<lparr>log_fd := int fd\<rparr>, h')"
      using 1(1) by (simp add: open_log_file_def get_log_file_nonempty name)
    then have "ready_log_file root l ?h = (l\<lparr>log_fd := int fd\<rparr>, h')"
      using fd(1) h(4) name by (simp add: ready_log_file_def srs_is_file_exist_def)
    then have "log_message root v e c l ?h = (l\<lparr>log_fd := int fd\<rparr>, host_write (int fd) (log_tail str) h')"
      using str ok(2) 1(2) by (simp add: log_message_def write_log_def log_ok_def)
    moreover have "open_fds (host_write (int fd) (log_tail str) h') = (fd, f) # open_fds h"
      using 1(5) h(3) by (simp add: host_write_def)
    moreover have "int fd \<noteq> log_fd l" using 1(4) ok(2) fd(1) h(3) by (auto simp: log_ok_def image_iff dest!: map_of_SomeD)
    moreover have "(fd, f) \<notin> set (open_fds h)" using 1(4) h(3) by force
    ultimately show ?case using name by auto
  qed
qed

text \<open>The descriptor 0 is taken for a log that is not open: its file is there, and no line is written to it.\<close>

lemma log_on_standard_input:
  assumes "log_to_file_tank l" "log_fd l = 0" "named_file h (get_log_file root) \<noteq> None"
  shows "log_message root v e c l h = (l, h)"
proof -
  have "ready_log_file root l h = (l, h)" using assms by (auto simp: ready_log_file_def srs_is_file_exist_def)
  then show ?thesis using assms by (simp add: log_message_def write_log_def split: option.split)
qed

section \<open>Properties\<close>


definition sample_host :: host where
  "sample_host = \<lparr>file_bytes = (\<lambda>_. []), next_file = 1, named_file = (\<lambda>_. None), moved_files = [],
     open_fds = [(0, 0), (1, 0), (2, 0)], fd_limit = 8, may_open = (\<lambda>_. True), console = []\<rparr>"

definition sample_env :: log_env where
  "sample_env = \<lparr>gettimeofday = Some (0, 7000),
     gmtime_r = (\<lambda>_. Some \<lparr>tm_year = 70, tm_mon = 0, tm_mday = 1, tm_hour = 0, tm_min = 0, tm_sec = 0\<rparr>),
     localtime_r = (\<lambda>_. None), env_pid = 1, env_errno = 0, env_strerror = [], env_client_fd = 5, env_server_fd = 0\<rparr>"

definition sample_call :: "string \<Rightarrow> log_call" where
  "sample_call msg = \<lparr>call_tag = None, call_cid = ''id'', call_func = ''f'', call_file = ''a/b.cpp'', call_line = 3, call_msg = Some msg\<rparr>"

lemmas sample_defs =
  sample_env_def sample_call_def call_header_def srs_log_header_def header_text_def log_time_def bracket_def pad_int_def
  SrsFileLog_new_def LOG_MAX_SIZE_def LOG_TAIL_SIZE_def log_levels printed_def file_str_def int_to_str_def

lemma sample_digits:
  "nat_to_str 1970 = ''1970''" "nat_to_str 0 = ''0''" "nat_to_str (Suc 0) = ''1''" "nat_to_str 3 = ''3''"
  "nat_to_str 5 = ''5''" "nat_to_str 7 = ''7''"
  by code_simp+

lemma sample_trace:
  "severity_text Trace sample_env (SrsFileLog_new\<lparr>log_to_file_tank := True, utc := True\<rparr>) (sample_call [c]) =
     Some (''[1970-01-01 00:00:00.007][Trace][1][id][f][b.cpp:3][5:0] '' @ [c])"
  by (simp add: trace_text_def sample_defs sample_digits numeral_2_eq_2 Let_def)

lemma sample_info:
  "severity_text Info sample_env (SrsFileLog_new\<lparr>log_to_file_tank := True, utc := True\<rparr>) (sample_call m) = None"
  by (simp add: info_text_def SrsFileLog_new_def log_levels)

lemma sample_warn:
  "severity_text Warn sample_env (SrsFileLog_new\<lparr>log_to_file_tank := True, utc := True\<rparr>) (sample_call [c]) =
     Some (''[1970-01-01 00:00:00.007][Warn][1][id][0][f][b.cpp:3][5:0] '' @ [c])"
  by (simp add: warn_text_def sample_defs sample_digits numeral_2_eq_2 Let_def)


end
