(* ===== verification/Spec2Isabelle.thy ===== *)
theory Spec2Isabelle
  imports Url_Escape Url_Parser_Safety Http_Parser_Safety Http_Uri Http_Writer
    Http_Message Srs_Http_Parser Parser_Runs Http_Mux Proxy_Relay Config Json_Text Resource_Manager Proxy_Https
    App_Threads Http_Conn Server App_Log
begin

text \<open>
  Verification of simple-http-proxy, an HTTP proxy written in C++ on the protocol stack of SRS and the
  State Threads library.  A client connects; the proxy parses its request, checks a policy, connects to
  the server that the request names (or to the next proxy), forwards the request and relays the
  response; CONNECT opens a tunnel.  All paths below are under \<open>src/src\<close>.

  \<^bold>\<open>Parts of the program and their theories\<close>, from the bottom up:

  \<^item> \<open>Prelude\<close>: bytes and strings, \<open>srs_error_t\<close> results as a sum type, the part of the C and C++ libraries
    that the sources use (\<open>std::string::find\<close>, \<open>atoi\<close>, \<open>strtol\<close>, \<open>std::map\<close> as an ordered association list,
    whose laws are the locale \<open>std_map\<close>).
  \<^item> \<open>Kernel_Error\<close> (\<open>kernel/srs_kernel_error.cpp\<close>), \<open>Kernel_Utility\<close> (\<open>kernel/srs_kernel_utility.cpp\<close> and
    \<open>protocol/srs_protocol_utility.cpp\<close>: splitting, replacing, paths, endpoints, query strings, the clock),
    \<open>Kernel_File\<close> (\<open>kernel/srs_kernel_file.cpp\<close> over system calls given as a record).
  \<^item> \<open>St_Socket\<close>, \<open>Tcp_Client\<close> (\<open>protocol/srs_protocol_st.cpp\<close>): sockets and outgoing connections over the
    State Threads calls, which are arguments with the contracts \<open>st_reading\<close>, \<open>st_reliable\<close> and \<open>st_writing\<close>;
    the interfaces \<open>ISrsReader\<close> and \<open>ISrsWriter\<close> are the locales \<open>byte_reader\<close> and \<open>byte_writer\<close>.  A scripted
    network is an instance of all of them.
  \<^item> \<open>Fast_Stream\<close> (\<open>protocol/srs_protocol_stream.cpp\<close>): the receive buffer, refined from a queue of bytes.
  \<^item> \<open>Url_Escape\<close>, \<open>Url_Parser\<close>, \<open>Http_Uri\<close>, \<open>Http_Header\<close>, \<open>Http_Mux\<close>
    (\<open>protocol/srs_protocol_http_stack.cpp\<close>): percent encoding, \<open>http_parser_parse_url\<close>, \<open>SrsHttpUri\<close>,
    \<open>SrsHttpHeader\<close>, the handler dispatcher and CORS.
  \<^item> \<open>Http_Parser_Types\<close>, \<open>Http_Parser\<close> (\<open>protocol/srs_protocol_http_stack.cpp\<close>): the state machine
    \<open>http_parser_execute\<close> with all its states, macros and callbacks; \<open>Http_Parser_Safety\<close> and
    \<open>Url_Parser_Safety\<close> hold its invariants.  What the parser needs of its callbacks is the locale
    \<open>parser_callbacks\<close>.
  \<^item> \<open>Http_Body\<close>, \<open>Http_Writer\<close>, \<open>Http_Message\<close>, \<open>Srs_Http_Parser\<close> (\<open>protocol/srs_protocol_http_conn.cpp\<close>):
    the body reader, the response writer, \<open>SrsHttpMessage\<close>, and \<open>SrsHttpParser\<close> with its callbacks and
    read loop; \<open>Parser_Runs\<close> evaluates it on given inputs.
  \<^item> \<open>Json\<close>, \<open>Json_Parser\<close>, \<open>Json_Text\<close> (\<open>protocol/srs_protocol_json.cpp\<close>): the value classes and their printing,
    the embedded parser as a machine over the bytes, its invariant and the round trip.
  \<^item> \<open>Policy\<close> (\<open>app/srs_app_policy.cpp\<close>): the policy file, the black list, the tunnel list and the page for a
    blocked host.
  \<^item> \<open>Conf_Directive\<close>, \<open>Conf_Parse\<close>, \<open>Conf_Transform\<close>, \<open>Config\<close> (\<open>app/srs_app_config.cpp\<close>): the tree of directives, the
    tokenizer and the parser with \<open>include\<close>, the rewriting of old syntax, and \<open>SrsConfig\<close> with its loading,
    reloading, command line and getters.  \<open>Conf_Parse\<close> holds the texts of trees and the facts on termination.
  \<^item> \<open>Resource_Manager\<close>, \<open>App_Conn\<close> (\<open>app/srs_app_conn.cpp\<close>): \<open>SrsResourceManager\<close>, whose coroutine
    and callers are interleaved by the step relation \<open>mstep\<close>; \<open>SrsTcpConnection\<close>; and \<open>SrsSslConnection\<close> and
    \<open>SrsSslClient\<close> over the calls of OpenSSL, which are a record with the contracts \<open>ssl_reading\<close> and
    \<open>ssl_writing\<close>.  \<open>Steps\<close> is the control flow of handlers as a value.
  \<^item> \<open>Proxy_Conn\<close>, \<open>Proxy_Relay\<close> (\<open>app/srs_app_http_conn.cpp\<close>): \<open>SrsHttpxProxyConn\<close>, from the
    classification of the connection to the relayed response and the tunnel; the locale \<open>proxy_net\<close> is
    the network between the two peers.  \<open>Proxy_Https\<close> is its decryption branch, over the TLS connections
    of \<open>App_Conn\<close> and the certificates of \<open>Resign\<close>.
  \<^item> \<open>Http_Api\<close>, \<open>Http_Conn\<close> (\<open>app/srs_app_http_api.cpp\<close>, \<open>app/srs_app_http_conn.cpp\<close>): the answers, handlers and routes of
    the HTTP API, and \<open>SrsHttpConn\<close> and \<open>SrsHttpxConn\<close>, which parse requests and dispatch them.
  \<^item> \<open>Coroutine\<close> (\<open>app/srs_app_st.cpp\<close>, \<open>app/srs_app_hourglass.cpp\<close>, \<open>app/srs_app_async_call.cpp\<close>): \<open>SrsFastCoroutine\<close>,
    whose \<open>start\<close>, \<open>interrupt\<close>, \<open>stop\<close> and end the relation \<open>co_step\<close> interleaves, the wait group, the timer and
    the worker for asynchronous calls.  \<open>Proc_Stat\<close> (\<open>app/srs_app_utility.cpp\<close>) is the CPU usage, and \<open>App_Threads\<close>
    (\<open>app/srs_app_threads.cpp\<close>) the circuit breaker that depends on it, the thread pool and the pid file.
  \<^item> \<open>Server\<close> (\<open>app/srs_app_server.cpp\<close>, \<open>app/srs_app_listener.cpp\<close>, \<open>app/srs_app_hybrid.cpp\<close>): listening sockets, listeners,
    the server from its initialisation over the clients it accepts to its disposal, and the hybrid server; the system calls
    are a record with the contract \<open>descriptors\<close>, and \<open>server_step\<close> interleaves what changes the descriptors.
  \<^item> \<open>Thread_Context\<close>, \<open>App_Log\<close> (\<open>protocol/srs_protocol_log.cpp\<close>, \<open>app/srs_app_log.cpp\<close>): the id and the descriptors of a
    coroutine in the thread-specific data of State Threads, with the objects on the heap, and \<open>SrsFileLog\<close>, which formats
    lines and appends them to a file, over a model of the files and descriptors of the host.

  \<^bold>\<open>What the theorems show.\<close>  The proxy relays a response and a request whole and in order, its tunnel ends
  and loses no byte, and a request for a blocked host does not leave it; the reader decodes chunked bodies
  and bodies of given length for every division of the stream into segments, and the writer frames them;
  the parser core never fails an assertion or reads outside its buffer, whatever the input, and reading
  a head returns for every finite stream; percent encoding round-trips; URLs are parsed into the parts
  they are composed of; the dispatcher chooses the longest pattern.  The text of a tree of directives and the
  text of a JSON value are parsed back to the tree and the value, the JSON parser never leaves its input, and
  both parsers return; a policy file blocks the hosts it names; no resource is freed twice, however the
  coroutine of the manager is interleaved with its callers; a TLS connection delivers the plaintext in order and
  sends what it is given to write, and its handshakes return.  The server listens where the configuration says, and
  the descriptors that are open are those of its listeners and connections, each with one owner; the API answers
  with one complete JSON response; a coroutine is interrupted at most once and has ended when it was stopped; the
  worker calls every task once; the levels of the circuit breaker are windows over the samples; every coroutine reads the
  context it has set itself, and nothing of it leaks; and the lines of the log reach its file whole and in order while that file
  is moved away.  Other theorems state how the code
  deviates from what it is meant to do: CONNECT is not subject to the black list, later requests of a
  connection go to the server of the first one, pipelined requests are merged, a crafted response and a POST to the API stop the
  process, an unknown method is dropped, a configuration file that includes itself is never finished.

  \<^bold>\<open>Loops and fuel.\<close>  Loops of the code are structural recursion or \<open>function\<close> with a measure where
  they always end, and \<open>partial_function (option)\<close> where that depends on the peer, so that a loop
  without end has the value \<open>None\<close> and every theorem about such a loop states that it returns.  Three
  loops have fuel, which is proved to suffice where it matters: a byte is reprocessed at most 5
  times (\<open>reexec_fuel\<close>), a buffer of \<open>n\<close> bytes takes at most \<open>n + 1\<close> rounds (\<open>exec_loop\<close>), and a chunk
  header takes at most as many reads as the buffer has bytes, plus one (\<open>read_chunk_header\<close>).
  The configuration parser is partial because files may include each other, and returns when they do so
  in a well-founded way; the JSON parser is total, because a byte is looked at again only when a number
  starts or ends.

  \<^bold>\<open>Errors.\<close>  An \<open>srs_error_t\<close> is its code; a failed \<open>srs_assert\<close> and a call on a null pointer are
  results of their own (\<open>None\<close>, \<open>FsCrash\<close>, \<open>BdCrash\<close>, \<open>PmCrash\<close>, \<open>Crash\<close>).  Values that the code leaves
  uninitialised are arguments of the model.

  \<^bold>\<open>Not modelled.\<close>  DNS (c-ares, the argument \<open>do_resolve\<close>), the forks of the daemon and the installation of signal
  handlers, the mutexes of pthreads and the scanning of \<open>/proc/self/stat\<close>, which are calls of the operating system or of
  third-party libraries; the formatting of the arguments of a log line; the HTTP client, whose only callers are commented
  out; the vendored UUID code.
\<close>

end
